(* ===== verification/Prelude.thy ===== *)
theory Prelude
  imports Main "HOL-Library.Word" "HOL-Library.AList" "HOL-Library.Multiset"
begin

section \<open>Prelude: Go values, maps and slices\<close>

text \<open>
  What every component of the model shares. Go's fixed-width identifiers and wire fields are
  words; Go's \<open>int\<close> on the only supported target (amd64) is a mathematical \<^typ>\<open>int\<close>
  unless a width is written out (\<open>i32\<close>, \<open>i64\<close>); slices of bytes are lists. A Go map is an
  association list with distinct keys, in the order a \<open>range\<close> loop would visit it: Go
  leaves that order open, and every theorem of the development quantifies over the list.
  The collection \<open>go_defs\<close> holds the definitions that proofs about closed inputs unfold.
\<close>

named_theorems go_defs
named_theorems go_inv

type_synonym u8 = "8 word"
type_synonym u32 = "32 word"
type_synonym u64 = "64 word"
type_synonym bytes = "u8 list"

subsection \<open>Fixed-width signed integers\<close>

text \<open>The value of a signed 32-bit or 64-bit Go integer after an operation that may wrap.\<close>

definition i32 :: "int \<Rightarrow> int" where
  "i32 x = (x + 2 ^ 31) mod 2 ^ 32 - 2 ^ 31"

definition i64 :: "int \<Rightarrow> int" where
  "i64 x = (x + 2 ^ 63) mod 2 ^ 64 - 2 ^ 63"

abbreviation max_i32 :: int where "max_i32 \<equiv> 2147483647"
abbreviation min_i32 :: int where "min_i32 \<equiv> -2147483648"
abbreviation max_i64 :: int where "max_i64 \<equiv> 9223372036854775807"
abbreviation min_i64 :: int where "min_i64 \<equiv> -9223372036854775808"

lemma i32_id [simp]: "min_i32 \<le> x \<Longrightarrow> x \<le> max_i32 \<Longrightarrow> i32 x = x"
  by (simp add: i32_def mod_pos_pos_trivial)

lemma i64_id [simp]: "min_i64 \<le> x \<Longrightarrow> x \<le> max_i64 \<Longrightarrow> i64 x = x"
  by (simp add: i64_def mod_pos_pos_trivial)

lemma i32_range: "min_i32 \<le> i32 x \<and> i32 x \<le> max_i32"
proof -
  have "0 \<le> (x + 2 ^ 31) mod 2 ^ 32" and "(x + 2 ^ 31) mod 2 ^ 32 < (2 :: int) ^ 32"
    by (rule pos_mod_sign pos_mod_bound, simp)+
  then show ?thesis by (simp add: i32_def)
qed

lemma i64_range: "min_i64 \<le> i64 x \<and> i64 x \<le> max_i64"
proof -
  have "0 \<le> (x + 2 ^ 63) mod 2 ^ 64" and "(x + 2 ^ 63) mod 2 ^ 64 < (2 :: int) ^ 64"
    by (rule pos_mod_sign pos_mod_bound, simp)+
  then show ?thesis by (simp add: i64_def)
qed

text \<open>\<open>time.Time.Sub\<close>: the difference as a \<open>time.Duration\<close>, saturating at the int64 ends.\<close>

definition time_sub :: "int \<Rightarrow> int \<Rightarrow> int" where
  "time_sub a b = max min_i64 (min max_i64 (a - b))"

lemma time_sub_gt [simp]:
  "min_i64 \<le> d \<Longrightarrow> d < max_i64 \<Longrightarrow> time_sub a b > d \<longleftrightarrow> a - b > d"
  by (auto simp: time_sub_def)

lemma time_sub_le:
  "0 \<le> d \<Longrightarrow> a - b \<le> d \<Longrightarrow> time_sub a b \<le> d"
  by (auto simp: time_sub_def)

subsection \<open>Slices\<close>

text \<open>The Go expression \<open>s[a:b]\<close> for \<open>0 \<le> a \<le> b \<le> len(s)\<close>.\<close>

definition slice :: "'a list \<Rightarrow> int \<Rightarrow> int \<Rightarrow> 'a list" where
  "slice xs a b = take (nat (b - a)) (drop (nat a) xs)"

lemma length_slice:
  "0 \<le> a \<Longrightarrow> a \<le> b \<Longrightarrow> b \<le> int (length xs) \<Longrightarrow> length (slice xs a b) = nat (b - a)"
  by (simp add: slice_def)

lemma slice_append:
  "0 \<le> a \<Longrightarrow> a \<le> b \<Longrightarrow> b \<le> c \<Longrightarrow> slice xs a b @ slice xs b c = slice xs a c"
proof -
  assume "0 \<le> a" "a \<le> b" "b \<le> c"
  then have e: "nat (c - a) = nat (b - a) + nat (c - b)" and d: "nat b = nat (b - a) + nat a"
    by arith+
  show ?thesis unfolding slice_def e by (simp add: take_add d)
qed

lemma slice_full [simp]: "slice xs 0 (int (length xs)) = xs"
  by (simp add: slice_def)

lemma slice_empty [simp]: "b \<le> a \<Longrightarrow> slice xs a b = []"
  by (simp add: slice_def)

lemma nth_slice:
  "k < length (slice xs a b) \<Longrightarrow> slice xs a b ! k = xs ! (nat a + k)"
proof -
  assume "k < length (slice xs a b)"
  then have k: "k < length xs - nat a" "k < nat (b - a)" by (simp_all add: slice_def)
  from k(1) have "nat a \<le> length xs" by linarith
  with k show ?thesis by (simp add: slice_def)
qed

lemma nth_update: "xs[i := x] ! j = (if i = j \<and> i < length xs then x else xs ! j)"
  by (cases "i < length xs") (simp_all add: nth_list_update list_update_beyond)

text \<open>The built-in \<open>copy(dst[off:], src)\<close>: the bytes that fit are overwritten in place.\<close>

definition copy_at :: "nat \<Rightarrow> 'a list \<Rightarrow> 'a list \<Rightarrow> 'a list" where
  "copy_at off src dst =
     take off dst @ take (length dst - off) src @ drop (off + length src) dst"

lemma length_copy_at [simp]:
  "off + length src \<le> length dst \<Longrightarrow> length (copy_at off src dst) = length dst"
  by (simp add: copy_at_def)

lemma nth_copy_at:
  assumes "off + length src \<le> length dst" and "k < length dst"
  shows "copy_at off src dst ! k =
           (if off \<le> k \<and> k < off + length src then src ! (k - off) else dst ! k)"
proof -
  have "take (length dst - off) src = src" using assms(1) by simp
  then show ?thesis using assms by (auto simp: copy_at_def nth_append min_def)
qed

subsection \<open>Go maps\<close>

type_synonym ('k, 'v) gomap = "('k \<times> 'v) list"

definition gm_get :: "('k, 'v) gomap \<Rightarrow> 'k \<Rightarrow> 'v option" where
  "gm_get m k = map_of m k"

definition gm_put :: "'k \<Rightarrow> 'v \<Rightarrow> ('k, 'v) gomap \<Rightarrow> ('k, 'v) gomap" where
  "gm_put k v m = AList.update k v m"

definition gm_del :: "'k \<Rightarrow> ('k, 'v) gomap \<Rightarrow> ('k, 'v) gomap" where
  "gm_del k m = filter (\<lambda>e. fst e \<noteq> k) m"

text \<open>The loop \<open>for k, v := range m { if !keep { delete(m, k) } }\<close>.\<close>

definition gm_keep :: "('k \<Rightarrow> 'v \<Rightarrow> bool) \<Rightarrow> ('k, 'v) gomap \<Rightarrow> ('k, 'v) gomap" where
  "gm_keep P m = filter (\<lambda>e. P (fst e) (snd e)) m"

definition gm_len :: "('k, 'v) gomap \<Rightarrow> int" where
  "gm_len m = int (length m)"

definition gm_ok :: "('k, 'v) gomap \<Rightarrow> bool" where
  "gm_ok m \<longleftrightarrow> distinct (map fst m)"

abbreviation gm_dom :: "('k, 'v) gomap \<Rightarrow> 'k set" where
  "gm_dom m \<equiv> fst ` set m"

lemmas gm_defs [go_defs] = gm_get_def gm_put_def gm_del_def gm_keep_def gm_len_def gm_ok_def

lemma gm_get_Nil [simp]: "gm_get [] k = None"
  by (simp add: gm_get_def)

lemma gm_get_put [simp]: "gm_get (gm_put k v m) k' = (if k' = k then Some v else gm_get m k')"
  by (simp add: gm_get_def gm_put_def update_conv')

lemma gm_get_del [simp]: "gm_get (gm_del k m) k' = (if k' = k then None else gm_get m k')"
  by (induction m) (auto simp: gm_get_def gm_del_def)

lemma gm_ok_Nil [simp, go_inv]: "gm_ok []"
  by (simp add: gm_ok_def)

lemma gm_ok_put [simp, go_inv]: "gm_ok m \<Longrightarrow> gm_ok (gm_put k v m)"
  by (simp add: gm_ok_def gm_put_def distinct_update)

lemma gm_ok_del [simp, go_inv]: "gm_ok m \<Longrightarrow> gm_ok (gm_del k m)"
  by (induction m) (auto simp: gm_ok_def gm_del_def)

lemma gm_ok_keep [simp, go_inv]: "gm_ok m \<Longrightarrow> gm_ok (gm_keep P m)"
  by (induction m) (auto simp: gm_ok_def gm_keep_def)

lemma gm_get_keep:
  "gm_ok m \<Longrightarrow> gm_get (gm_keep P m) k =
     (case gm_get m k of None \<Rightarrow> None | Some v \<Rightarrow> if P k v then Some v else None)"
proof (induction m)
  case (Cons e m)
  have fresh: "gm_get m (fst e) = None"
    using Cons.prems by (auto simp: gm_ok_def gm_get_def map_of_eq_None_iff)
  have ok: "gm_ok m" using Cons.prems by (simp add: gm_ok_def)
  have get: "gm_get (e # m) k = (if k = fst e then Some (snd e) else gm_get m k)"
    and keep: "gm_get (gm_keep P (e # m)) k =
      (if P (fst e) (snd e) \<and> k = fst e then Some (snd e) else gm_get (gm_keep P m) k)"
    by (cases e; auto simp: gm_get_def gm_keep_def)+
  show ?case
    unfolding get keep Cons.IH [OF ok] using fresh by (auto split: option.splits)
qed (simp add: gm_get_def gm_keep_def)

lemma gm_get_keep_Some:
  "gm_get (gm_keep P m) k = Some v \<Longrightarrow> gm_ok m \<Longrightarrow> gm_get m k = Some v \<and> P k v"
  by (auto simp: gm_get_keep split: option.splits if_splits)

lemma gm_get_Some_in: "gm_get m k = Some v \<Longrightarrow> (k, v) \<in> set m"
  by (simp add: gm_get_def map_of_SomeD)

lemma gm_get_in: "gm_ok m \<Longrightarrow> (k, v) \<in> set m \<Longrightarrow> gm_get m k = Some v"
  by (simp add: gm_get_def gm_ok_def)

lemma gm_get_same_set: "gm_ok m \<Longrightarrow> gm_ok m' \<Longrightarrow> set m = set m' \<Longrightarrow> gm_get m k = gm_get m' k"
  by (metis gm_get_Some_in gm_get_in not_Some_eq)

text \<open>The same map, visited in another order.\<close>

lemma gm_permuted:
  assumes "mset m' = mset m" "gm_ok m"
  shows "gm_ok m'" "gm_get m' k = gm_get m k"
proof -
  have "mset (map fst m') = mset (map fst m)" using assms(1) by simp
  then show "gm_ok m'" using assms(2) mset_eq_imp_distinct_iff unfolding gm_ok_def by blast
  then show "gm_get m' k = gm_get m k" using assms mset_eq_setD by (intro gm_get_same_set) auto
qed

lemma gm_dom_iff: "k \<in> gm_dom m \<longleftrightarrow> gm_get m k \<noteq> None"
  by (simp add: gm_get_def map_of_eq_None_iff)

lemma gm_dom_put [simp]: "gm_dom (gm_put k v m) = insert k (gm_dom m)"
  by (auto simp: gm_put_def dom_update)

lemma gm_len_nonneg [simp]: "0 \<le> gm_len m"
  by (simp add: gm_len_def)

lemma gm_len_Nil [simp]: "gm_len [] = 0"
  by (simp add: gm_len_def)

lemma gm_len_put:
  "gm_len (gm_put k v m) = (if gm_get m k = None then gm_len m + 1 else gm_len m)"
  by (induction m) (auto simp: gm_len_def gm_put_def gm_get_def split: if_splits)

lemma gm_len_keep [simp]: "gm_len (gm_keep P m) \<le> gm_len m"
  by (simp add: gm_len_def gm_keep_def)

lemma gm_len_del [simp]: "gm_len (gm_del k m) \<le> gm_len m"
  by (simp add: gm_len_def gm_del_def)

lemma gm_len_del_present: "gm_get m k \<noteq> None \<Longrightarrow> gm_len (gm_del k m) \<le> gm_len m - 1"
proof (induction m)
  case (Cons e m)
  then show ?case
    using gm_len_del [of k m] by (cases e) (auto simp: gm_len_def gm_del_def gm_get_def split: if_splits)
qed simp

lemma set_gm_put:
  "gm_ok m \<Longrightarrow> set (gm_put k v m) = insert (k, v) {e \<in> set m. fst e \<noteq> k}"
proof -
  assume ok: "gm_ok m"
  have "(a, b) \<in> set (gm_put k v m) \<longleftrightarrow> gm_get (gm_put k v m) a = Some b" for a b
    using gm_get_in [OF gm_ok_put [OF ok]] gm_get_Some_in by metis
  moreover have "(a, b) \<in> set m \<longleftrightarrow> gm_get m a = Some b" for a b
    using gm_get_in [OF ok] gm_get_Some_in by metis
  ultimately show ?thesis by (auto split: if_splits)
qed

lemma set_gm_del [simp]: "set (gm_del k m) = {e \<in> set m. fst e \<noteq> k}"
  by (auto simp: gm_del_def)

lemma set_gm_keep [simp]: "set (gm_keep P m) = {e \<in> set m. P (fst e) (snd e)}"
  by (auto simp: gm_keep_def)

end
