(* ===== verification/Chunk_Buffer.thy ===== *)
theory Chunk_Buffer
  imports Prelude
begin

section \<open>The reassembly buffer (pkg/server/types.go)\<close>

text \<open>
  \<open>ChunkSegment\<close>, \<open>ChunkClaim\<close>, \<open>ChunkBuffer\<close> and \<open>ClaimSegment\<close>. The mutex of a buffer is
  not a field here: the operations that run under it are single definitions, and
  \<open>Chunk_Concurrency\<close> interleaves them. \<open>sort.Search\<close> is Go's binary search, modelled
  as it is written. A time is its number of nanoseconds.
\<close>

record ChunkSegment =
  Offset :: u32
  Length :: u32

datatype ChunkClaim = ClaimNew | ClaimDuplicate | ClaimOverlap

record ChunkBuffer =
  Data :: bytes
  TotalSize :: int
  Received :: int
  Segments :: "ChunkSegment list"
  Dispatched :: bool
  LastAccess :: int

subsection \<open>sort.Search\<close>

function search_loop :: "(int \<Rightarrow> bool) \<Rightarrow> int \<Rightarrow> int \<Rightarrow> int" where
  "search_loop f i j =
     (if i < j then
        (let h = (i + j) div 2 in
         if \<not> f h then search_loop f (h + 1) j else search_loop f i h)
      else i)"
  by pat_completeness auto
termination
  by (relation "measure (\<lambda>(f, i, j). nat (j - i))") auto

declare search_loop.simps [simp del]

lemma search_loop_done: "j \<le> i \<Longrightarrow> search_loop f i j = i"
  by (simp add: search_loop.simps [of f i j])

definition Search :: "int \<Rightarrow> (int \<Rightarrow> bool) \<Rightarrow> int" where
  "Search n f = search_loop f 0 n"

subsection \<open>Claiming a range\<close>

definition ClaimSegment :: "ChunkBuffer \<Rightarrow> u32 \<Rightarrow> u32 \<Rightarrow> ChunkClaim \<times> ChunkBuffer" where
  "ClaimSegment b offset len =
     (let segs = Segments b; n = int (length segs);
          i = Search n (\<lambda>k. Offset (segs ! nat k) \<ge> offset)
      in if i < n \<and> Offset (segs ! nat i) = offset then
           (if Length (segs ! nat i) = len then (ClaimDuplicate, b) else (ClaimOverlap, b))
         else if i > 0 \<and>
             (let p = segs ! nat (i - 1)
              in ucast (Offset p) + ucast (Length p) > (ucast offset :: u64)) then
           (ClaimOverlap, b)
         else if i < n \<and> (ucast offset :: u64) + ucast len > ucast (Offset (segs ! nat i)) then
           (ClaimOverlap, b)
         else
           (ClaimNew,
            b\<lparr>Segments := take (nat i) segs @ [\<lparr>Offset = offset, Length = len\<rparr>] @ drop (nat i) segs\<rparr>))"

subsection \<open>The coverage contract\<close>

abbreviation seg_start :: "ChunkSegment \<Rightarrow> nat" where "seg_start s \<equiv> unat (Offset s)"
abbreviation seg_end :: "ChunkSegment \<Rightarrow> nat" where "seg_end s \<equiv> unat (Offset s) + unat (Length s)"

definition segs_ok :: "nat \<Rightarrow> ChunkSegment list \<Rightarrow> bool" where
  "segs_ok n segs \<longleftrightarrow>
     sorted_wrt (\<lambda>a b. seg_end a \<le> seg_start b) segs \<and>
     (\<forall>s \<in> set segs. 0 < unat (Length s) \<and> seg_end s \<le> n)"

definition seg_total :: "ChunkSegment list \<Rightarrow> nat" where
  "seg_total segs = sum_list (map (\<lambda>s. unat (Length s)) segs)"

text \<open>The invariant of a buffer between two critical sections.\<close>

definition buf_ok :: "ChunkBuffer \<Rightarrow> bool" where
  "buf_ok b \<longleftrightarrow>
     0 < TotalSize b \<and> TotalSize b < 2 ^ 32 \<and> int (length (Data b)) = TotalSize b \<and>
     segs_ok (length (Data b)) (Segments b) \<and>
     Received b = int (seg_total (Segments b)) \<and>
     (Dispatched b \<longleftrightarrow> Received b = TotalSize b)"

lemma search_loop_spec:
  assumes "\<forall>a b. i \<le> a \<and> a \<le> b \<and> b < j \<and> f a \<longrightarrow> f b" and "i \<le> j"
  shows "i \<le> search_loop f i j \<and> search_loop f i j \<le> j \<and>
    (\<forall>k. i \<le> k \<and> k < search_loop f i j \<longrightarrow> \<not> f k) \<and>
    (\<forall>k. search_loop f i j \<le> k \<and> k < j \<longrightarrow> f k)"
  using assms
proof (induction f i j rule: search_loop.induct)
  case (1 f i j)
  show ?case
  proof (cases "i < j")
    case False
    then show ?thesis using 1(4) by (auto simp: search_loop.simps)
  next
    case True
    define h where "h = (i + j) div 2"
    have h: "i \<le> h" "h < j" using True by (auto simp: h_def)
    have step: "search_loop f i j = (if f h then search_loop f i h else search_loop f (h + 1) j)"
      using True by (simp add: search_loop.simps [of f i j] Let_def h_def)
    have up: "\<forall>a b. h + 1 \<le> a \<and> a \<le> b \<and> b < j \<and> f a \<longrightarrow> f b"
      and down: "\<forall>a b. i \<le> a \<and> a \<le> b \<and> b < h \<and> f a \<longrightarrow> f b"
      using 1(3) h by (meson order.trans order_less_imp_le order.strict_trans zle_add1_eq_le add1_zle_eq)+
    show ?thesis
    proof (cases "f h")
      case False
      define r where "r = search_loop f (h + 1) j"
      have IH: "h + 1 \<le> r" "r \<le> j" "\<And>k. h + 1 \<le> k \<Longrightarrow> k < r \<Longrightarrow> \<not> f k"
          "\<And>k. r \<le> k \<Longrightarrow> k < j \<Longrightarrow> f k"
        using 1(1) [OF True h_def False up] h by (simp_all add: r_def)
      have "\<not> f k" if "i \<le> k" "k < r" for k
      proof (cases "h + 1 \<le> k")
        case False
        then show ?thesis using 1(3) [rule_format, of k h] that h \<open>\<not> f h\<close> by auto
      qed (use IH(3) that in simp)
      then show ?thesis using h IH(1,2,4) step False by (simp add: r_def [symmetric])
    next
      case ht: True
      define r where "r = search_loop f i h"
      have IH: "i \<le> r" "r \<le> h" "\<And>k. i \<le> k \<Longrightarrow> k < r \<Longrightarrow> \<not> f k"
          "\<And>k. r \<le> k \<Longrightarrow> k < h \<Longrightarrow> f k"
        using 1(2) [OF True h_def _ down] h ht by (simp_all add: r_def)
      have "f k" if "r \<le> k" "k < j" for k
      proof (cases "h \<le> k")
        case True
        then show ?thesis using 1(3) [rule_format, of h k] that h ht by auto
      qed (use IH(4) that in simp)
      then show ?thesis using h IH(1,2,3) step ht by (simp add: r_def [symmetric])
    qed
  qed
qed

lemma unat_u32: "unat (x :: u32) < 4294967296"
  by (rule order_less_le_trans [OF unsigned_less]) simp

lemma unat_wide: "unat (ucast (x :: u32) :: u64) = unat x"
  by (simp add: unsigned_ucast_eq take_bit_nat_eq_self order_less_le_trans [OF unat_u32])

lemma unat_wide_add: "unat (ucast (x :: u32) + ucast (y :: u32) :: u64) = unat x + unat y"
proof -
  have "unat x + unat y < 2 ^ 64" using unat_u32 [of x] unat_u32 [of y] by simp
  then show ?thesis by (simp add: unat_word_ariths unat_wide)
qed

lemma segs_ok_Nil [simp]: "segs_ok n []"
  by (simp add: segs_ok_def)

lemma segs_ok_less:
  assumes "segs_ok n segs" and "a < b" and "b < length segs"
  shows "seg_end (segs ! a) \<le> seg_start (segs ! b)" and "seg_start (segs ! a) < seg_start (segs ! b)"
proof -
  show e: "seg_end (segs ! a) \<le> seg_start (segs ! b)"
    using assms sorted_wrt_nth_less [of "\<lambda>a b. seg_end a \<le> seg_start b" segs a b]
    by (simp add: segs_ok_def)
  have "segs ! a \<in> set segs" using assms by simp
  then show "seg_start (segs ! a) < seg_start (segs ! b)" using e assms(1) by (force simp: segs_ok_def)
qed

lemma Search_segments:
  fixes offset :: u32
  assumes "segs_ok n segs"
  defines "i \<equiv> Search (int (length segs)) (\<lambda>k. Offset (segs ! nat k) \<ge> offset)"
  shows "0 \<le> i" and "nat i \<le> length segs"
    and "\<And>k. k < nat i \<Longrightarrow> seg_start (segs ! k) < unat offset"
    and "\<And>k. nat i \<le> k \<Longrightarrow> k < length segs \<Longrightarrow> unat offset \<le> seg_start (segs ! k)"
proof -
  have mono: "Offset (segs ! nat b) \<ge> offset"
    if "0 \<le> a" "a \<le> b" "b < int (length segs)" "Offset (segs ! nat a) \<ge> offset" for a b
    using segs_ok_less(2) [OF assms(1), of "nat a" "nat b"] that
    by (cases "a = b") (simp_all add: word_le_nat_alt nat_less_iff)
  have "0 \<le> i \<and> i \<le> int (length segs) \<and>
    (\<forall>k. 0 \<le> k \<and> k < i \<longrightarrow> \<not> Offset (segs ! nat k) \<ge> offset) \<and>
    (\<forall>k. i \<le> k \<and> k < int (length segs) \<longrightarrow> Offset (segs ! nat k) \<ge> offset)"
    unfolding i_def Search_def by (rule search_loop_spec) (use mono in auto)
  then have s: "0 \<le> i" "i \<le> int (length segs)"
    "\<And>k. 0 \<le> k \<Longrightarrow> k < i \<Longrightarrow> \<not> Offset (segs ! nat k) \<ge> offset"
    "\<And>k. i \<le> k \<Longrightarrow> k < int (length segs) \<Longrightarrow> Offset (segs ! nat k) \<ge> offset"
    by auto
  show "0 \<le> i" "nat i \<le> length segs" using s by auto
  show "seg_start (segs ! k) < unat offset" if "k < nat i" for k
    using s(3) [of "int k"] that s(1) by (simp add: word_le_nat_alt zless_nat_eq_int_zless)
  show "unat offset \<le> seg_start (segs ! k)" if "nat i \<le> k" "k < length segs" for k
    using s(4) [of "int k"] that by (simp add: word_le_nat_alt)
qed

definition overlaps :: "ChunkSegment \<Rightarrow> ChunkSegment \<Rightarrow> bool" where
  "overlaps s t \<longleftrightarrow> \<not> (seg_end s \<le> seg_start t \<or> seg_end t \<le> seg_start s)"

text \<open>The three verdicts, by what has been received.\<close>

lemma ClaimSegment_spec:
  fixes offset len :: u32
  assumes ok: "segs_ok n (Segments b)" and len: "0 < unat len" "unat offset + unat len \<le> n"
  defines "seg \<equiv> \<lparr>Offset = offset, Length = len\<rparr>"
  shows "case ClaimSegment b offset len of
     (ClaimDuplicate, b') \<Rightarrow> b' = b \<and> seg \<in> set (Segments b)
   | (ClaimOverlap, b') \<Rightarrow> b' = b \<and> seg \<notin> set (Segments b) \<and> (\<exists>s \<in> set (Segments b). overlaps s seg)
   | (ClaimNew, b') \<Rightarrow> (\<forall>s \<in> set (Segments b). \<not> overlaps s seg) \<and>
       (\<exists>i \<le> length (Segments b). b' = b\<lparr>Segments := take i (Segments b) @ [seg] @ drop i (Segments b)\<rparr>) \<and>
       segs_ok n (Segments b')"
proof -
  let ?segs = "Segments b"
  define I where "I = Search (int (length ?segs)) (\<lambda>k. Offset (?segs ! nat k) \<ge> offset)"
  define i where "i = nat I"
  note S = Search_segments [OF ok, where offset = offset, folded I_def, folded i_def]
  have low: "seg_end (?segs ! k) \<le> seg_end (?segs ! (i - 1))" if "k < i" for k
  proof (cases "k = i - 1")
    case False
    then have "k < i - 1" "i - 1 < length ?segs" using that S(2) by linarith+
    from segs_ok_less(1) [OF ok this] show ?thesis by linarith
  qed simp
  have pos: "0 < unat (Length (?segs ! k))" if "k < length ?segs" for k
    using ok that by (simp add: segs_ok_def)
  have nth_in: "s \<in> set ?segs \<longleftrightarrow> (\<exists>k < length ?segs. s = ?segs ! k)" for s
    by (metis in_set_conv_nth)
  have I: "I < int (length ?segs) \<longleftrightarrow> i < length ?segs" "0 < I \<longleftrightarrow> 0 < i" "nat (I - 1) = i - 1"
    using S(1) by (auto simp: i_def)
  define same where "same \<longleftrightarrow> i < length ?segs \<and> Offset (?segs ! i) = offset"
  define before where "before \<longleftrightarrow> 0 < i \<and> seg_end (?segs ! (i - 1)) > unat offset"
  define behind where "behind \<longleftrightarrow> i < length ?segs \<and> unat offset + unat len > seg_start (?segs ! i)"
  have res: "ClaimSegment b offset len =
     (if same then (if Length (?segs ! i) = len then (ClaimDuplicate, b) else (ClaimOverlap, b))
      else if before \<or> behind then (ClaimOverlap, b)
      else (ClaimNew, b\<lparr>Segments := take i ?segs @ [seg] @ drop i ?segs\<rparr>))"
    by (simp add: ClaimSegment_def Let_def same_def before_def behind_def I seg_def word_less_nat_alt
        unat_wide unat_wide_add I_def [symmetric] i_def [symmetric])
  have start_inj: "k = i" if "k < length ?segs" "seg_start (?segs ! k) = unat offset" for k
  proof (rule linorder_cases [of k i])
    assume "k < i" then show ?thesis using S(3) [of k] that by simp
  next
    assume "i < k" then show ?thesis
      using S(4) [of i] segs_ok_less(2) [OF ok, of i k] that by simp
  qed
  have absent: "seg \<notin> set ?segs" if "\<not> same"
  proof
    assume "seg \<in> set ?segs"
    then obtain k where k: "k < length ?segs" "?segs ! k = seg" by (auto simp: nth_in)
    then have "seg_start (?segs ! k) = unat offset" by (simp add: seg_def)
    with start_inj k that show False by (auto simp: same_def seg_def)
  qed
  show ?thesis
  proof (cases same)
    case True
    then have i: "i < length ?segs" "Offset (?segs ! i) = offset" by (simp_all add: same_def)
    show ?thesis
    proof (cases "Length (?segs ! i) = len")
      case True
      then have "seg = ?segs ! i" using i by (simp add: seg_def)
      then show ?thesis using i \<open>same\<close> True by (simp add: res)
    next
      case False
      have "seg \<notin> set ?segs"
      proof
        assume "seg \<in> set ?segs"
        then obtain k where k: "k < length ?segs" "?segs ! k = seg" by (auto simp: nth_in)
        then have "k = i" using start_inj by (simp add: seg_def)
        with k False show False by (auto simp: seg_def)
      qed
      moreover have "overlaps (?segs ! i) seg"
        using i pos [OF i(1)] len by (auto simp: overlaps_def seg_def)
      ultimately show ?thesis using i \<open>same\<close> False by (auto simp: res)
    qed
  next
    case ns: False
    show ?thesis
    proof (cases "before \<or> behind")
      case True
      then have "\<exists>s \<in> set ?segs. overlaps s seg"
      proof
        assume b: before
        then have k: "i - 1 < i" "i - 1 < length ?segs" using S(2) by (auto simp: before_def)
        then show ?thesis using b S(3) [OF k(1)] len
          by (intro bexI [of _ "?segs ! (i - 1)"]) (auto simp: overlaps_def before_def seg_def)
      next
        assume b: behind
        then have k: "i < length ?segs" by (simp add: behind_def)
        then show ?thesis using b S(4) [of i] pos [OF k]
          by (intro bexI [of _ "?segs ! i"]) (auto simp: overlaps_def behind_def seg_def)
      qed
      then show ?thesis using absent [OF ns] True ns by (simp add: res)
    next
      case False
      have left: "seg_end (?segs ! k) \<le> unat offset" if "k < i" for k
        using low [OF that] that False by (auto simp: before_def)
      have right: "unat offset + unat len \<le> seg_start (?segs ! k)" if "i \<le> k" "k < length ?segs" for k
        using segs_ok_less(2) [OF ok, of i k] that False by (cases "k = i") (auto simp: behind_def)
      have "\<not> overlaps s seg" if "s \<in> set ?segs" for s
        using that left right by (auto simp: nth_in overlaps_def seg_def) (metis not_less)
      moreover have "segs_ok n (take i ?segs @ [seg] @ drop i ?segs)"
      proof -
        have L: "seg_end x \<le> unat offset" if "x \<in> set (take i ?segs)" for x
          using that left by (auto simp: in_set_conv_nth)
        have R: "unat offset + unat len \<le> seg_start y" if "y \<in> set (drop i ?segs)" for y
          using that right S(2) by (auto simp: in_set_conv_nth)
        have LR: "seg_end x \<le> seg_start y" if "x \<in> set (take i ?segs)" "y \<in> set (drop i ?segs)" for x y
          using L [OF that(1)] R [OF that(2)] by linarith
        show ?thesis
          using ok len L R LR
          by (auto simp: segs_ok_def sorted_wrt_append sorted_wrt_take sorted_wrt_drop seg_def
              dest: in_set_takeD in_set_dropD)
      qed
      ultimately show ?thesis using False ns S(2) by (auto simp: res)
    qed
  qed
qed

subsection \<open>Coverage\<close>

lemma seg_total_insert:
  "seg_total (take i segs @ [s] @ drop i segs) = seg_total segs + unat (Length s)"
proof -
  have "seg_total segs = seg_total (take i segs @ drop i segs)" by simp
  then show ?thesis unfolding seg_total_def by (simp only: map_append sum_list_append) simp
qed

text \<open>Disjoint ranges inside \<open>[0, n)\<close> cannot add up to more than \<open>n\<close>, and if they add up to
  \<open>n\<close> they leave no gap: the completion contract of the source's documentation.\<close>

lemma segs_cover_from:
  assumes "sorted_wrt (\<lambda>a b. seg_end a \<le> seg_start b) segs"
    and "\<forall>s \<in> set segs. m \<le> seg_start s \<and> seg_end s \<le> n" and "m \<le> n"
  shows "m + seg_total segs \<le> n \<and>
    (m + seg_total segs = n \<longrightarrow> (\<forall>k. m \<le> k \<and> k < n \<longrightarrow> (\<exists>s \<in> set segs. seg_start s \<le> k \<and> k < seg_end s)))"
  using assms
proof (induction segs arbitrary: m)
  case Nil
  then show ?case by (auto simp: seg_total_def)
next
  case (Cons s segs)
  have "seg_end s + seg_total segs \<le> n \<and> (seg_end s + seg_total segs = n \<longrightarrow>
      (\<forall>k. seg_end s \<le> k \<and> k < n \<longrightarrow> (\<exists>t \<in> set segs. seg_start t \<le> k \<and> k < seg_end t)))"
    by (rule Cons.IH) (use Cons.prems in auto)
  moreover have "m \<le> seg_start s" using Cons.prems by simp
  moreover have "seg_total (s # segs) = unat (Length s) + seg_total segs" by (simp add: seg_total_def)
  ultimately show ?case by (auto 4 3 simp: not_less)
qed

lemma segs_cover:
  assumes "segs_ok n segs"
  shows "seg_total segs \<le> n"
    and "seg_total segs = n \<Longrightarrow> k < n \<Longrightarrow> \<exists>s \<in> set segs. seg_start s \<le> k \<and> k < seg_end s"
  using segs_cover_from [of segs 0 n] assms by (auto simp: segs_ok_def)

lemma segs_cover_onto:
  assumes "sorted_wrt (\<lambda>a b. seg_end a \<le> seg_start b) segs" and "\<forall>s \<in> set segs. m \<le> seg_start s"
    and "\<forall>k. m \<le> k \<and> k < n \<longrightarrow> (\<exists>s \<in> set segs. seg_start s \<le> k \<and> k < seg_end s)"
  shows "n \<le> m + seg_total segs"
  using assms
proof (induction segs arbitrary: m)
  case Nil
  then show ?case by (auto simp: seg_total_def)
next
  case (Cons s segs)
  show ?case
  proof (cases "m < n")
    case True
    have "n \<le> seg_end s + seg_total segs"
    proof (rule Cons.IH)
      show "\<forall>k. seg_end s \<le> k \<and> k < n \<longrightarrow> (\<exists>t \<in> set segs. seg_start t \<le> k \<and> k < seg_end t)"
      proof (intro allI impI)
        fix k assume k: "seg_end s \<le> k \<and> k < n"
        then have "m \<le> k" using Cons.prems(2) by simp
        with Cons.prems(3) k obtain t where "t \<in> set (s # segs)" "seg_start t \<le> k" "k < seg_end t"
          by blast
        with k show "\<exists>t \<in> set segs. seg_start t \<le> k \<and> k < seg_end t" by auto
      qed
    qed (use Cons.prems(1) in simp_all)
    moreover have "seg_start s = m"
    proof -
      obtain t where t: "t \<in> set (s # segs)" "seg_start t \<le> m" using Cons.prems(3) True by blast
      have "seg_start s \<le> seg_start t" using t(1) Cons.prems(1) by auto
      then show ?thesis using t Cons.prems(2) by fastforce
    qed
    moreover have "seg_total (s # segs) = unat (Length s) + seg_total segs" by (simp add: seg_total_def)
    ultimately show ?thesis by simp
  qed simp
qed

lemma segs_cover_iff:
  assumes "segs_ok n segs"
  shows "seg_total segs = n \<longleftrightarrow> (\<forall>k < n. \<exists>s \<in> set segs. seg_start s \<le> k \<and> k < seg_end s)"
proof
  assume "\<forall>k < n. \<exists>s \<in> set segs. seg_start s \<le> k \<and> k < seg_end s"
  then have "n \<le> 0 + seg_total segs"
    by (intro segs_cover_onto) (use assms in \<open>auto simp: segs_ok_def\<close>)
  with segs_cover(1) [OF assms] show "seg_total segs = n" by simp
qed (use segs_cover(2) [OF assms] in blast)

subsection \<open>Properties\<close>

text \<open>C21. The verdict of \<open>ClaimSegment\<close>, found by binary search and two neighbour comparisons, is the
  one the documentation gives by meaning: duplicate exactly when the very range was received
  before, overlap exactly when it is another range that meets a received one, new otherwise. A new range
  is recorded, nothing else changes, and the ranges stay ascending, disjoint and in bounds.\<close>

theorem ClaimSegment_verdict:
  fixes offset len :: u32
  assumes "segs_ok n (Segments b)" and "0 < unat len" and "unat offset + unat len \<le> n"
  shows "let seg = \<lparr>Offset = offset, Length = len\<rparr>; (v, b') = ClaimSegment b offset len in
    v = (if seg \<in> set (Segments b) then ClaimDuplicate
         else if \<exists>s \<in> set (Segments b). overlaps s seg then ClaimOverlap else ClaimNew) \<and>
    set (Segments b') = (if v = ClaimNew then insert seg (set (Segments b)) else set (Segments b)) \<and>
    segs_ok n (Segments b') \<and> b'\<lparr>Segments := Segments b\<rparr> = b"
proof -
  let ?seg = "\<lparr>Offset = offset, Length = len\<rparr>"
  obtain v b' where r: "ClaimSegment b offset len = (v, b')" by fastforce
  have self: "overlaps ?seg ?seg" using assms(2) by (simp add: overlaps_def)
  have ins: "set (take i xs @ [x] @ drop i xs) = insert x (set xs)" for i and x :: ChunkSegment and xs
    using append_take_drop_id [of i xs] by (metis Un_insert_right append_Cons append_Nil list.simps(15) set_append)
  show ?thesis using ClaimSegment_spec [OF assms] self assms(1) ins
    by (auto simp: r Let_def split: ChunkClaim.splits)
qed

theorem ClaimSegment_verdict_witness:
  "let b = \<lparr>Data = [0, 0, 0, 0], TotalSize = 4, Received = 2, Segments = [\<lparr>Offset = 0, Length = 2\<rparr>],
      Dispatched = False, LastAccess = 0\<rparr>; seg = \<lparr>Offset = 1, Length = 2\<rparr>; (v, b') = ClaimSegment b 1 2 in
    v = (if seg \<in> set (Segments b) then ClaimDuplicate
         else if \<exists>s \<in> set (Segments b). overlaps s seg then ClaimOverlap else ClaimNew) \<and>
    set (Segments b') = (if v = ClaimNew then insert seg (set (Segments b)) else set (Segments b)) \<and>
    segs_ok 4 (Segments b') \<and> b'\<lparr>Segments := Segments b\<rparr> = b"
  unfolding Let_def [of "\<lparr>Data = _, TotalSize = _, Received = _, Segments = _, Dispatched = _, LastAccess = _\<rparr>"]
  by (rule ClaimSegment_verdict) (simp_all add: segs_ok_def)

end
