(* ===== verification/Chunk_Manager.thy ===== *)
theory Chunk_Manager
  imports Chunk_Buffer
begin

section \<open>The chunk manager (pkg/server/manager.go)\<close>

text \<open>
  \<open>ChunkManager\<close> with all its operations, in the order of the source. Reassembly buffers are
  shared by pointer: \<open>bufs\<close> is the store of the buffers allocated so far, a pointer is an index
  into it, and \<open>chunkCache\<close> maps a transfer id to a pointer. A buffer that left the map can
  still be written through a pointer a handler holds. Each operation that runs under one mutex is
  one definition. What the clock answers is an argument: \<open>cm.now()\<close> where the code calls it,
  \<open>time.Now()\<close> where it does not go through the manager's clock. A clock is therefore not a field; the
  \<open>stop\<close> channel is the flag \<open>stopped\<close>. Log messages are left out.
\<close>

record OutgoingChunk =
  OutData :: bytes
  OutOffset :: int
  OutId :: u64
  OutMsgType :: u32
  OutLastAccess :: int

record ChunkManager =
  bufs :: "ChunkBuffer list"
  chunkCache :: "(u64, nat) gomap"
  outgoingChunks :: "(u64, OutgoingChunk) gomap"
  poisoned :: "(u64, int) gomap"
  MaxChunkBufferBytes :: int
  CleanupInterval :: int
  ChunkBufferTTL :: int
  MaxConcurrentTransfers :: int
  MaxPoisonedTransfers :: int
  stopped :: bool

datatype chunk_error =
    ErrChunkTotalNonPositive int u64
  | ErrChunkTotalTooLarge int int u64
  | ErrTooManyChunkTransfers int int u64

definition DefaultMaxChunkBufferBytes :: int where "DefaultMaxChunkBufferBytes = 256 * 2 ^ 20"
definition DefaultCleanupInterval :: int where "DefaultCleanupInterval = 30 * 1000000000"
definition DefaultChunkBufferTTL :: int where "DefaultChunkBufferTTL = 60 * 1000000000"
definition DefaultMaxConcurrentTransfers :: int where "DefaultMaxConcurrentTransfers = 1024"
definition DefaultMaxPoisonedTransfers :: int where "DefaultMaxPoisonedTransfers = 1024"

lemmas chunk_defaults [go_defs] = DefaultMaxChunkBufferBytes_def DefaultCleanupInterval_def
  DefaultChunkBufferTTL_def DefaultMaxConcurrentTransfers_def DefaultMaxPoisonedTransfers_def

subsection \<open>Construction\<close>

record ChunkManagerConfig =
  CfgMaxBufferBytes :: int
  CfgCleanupInterval :: int
  CfgBufferTTL :: int
  CfgMaxConcurrentTransfers :: int
  CfgMaxPoisonedTransfers :: int

definition NewChunkManagerFromConfig :: "ChunkManagerConfig \<Rightarrow> ChunkManager" where
  "NewChunkManagerFromConfig c =
     (let maxBytes = CfgMaxBufferBytes c;
          maxBytes = (if maxBytes \<le> 0 then DefaultMaxChunkBufferBytes else maxBytes)
      in \<lparr>bufs = [], chunkCache = [], outgoingChunks = [], poisoned = [],
          MaxChunkBufferBytes = maxBytes, CleanupInterval = CfgCleanupInterval c,
          ChunkBufferTTL = CfgBufferTTL c, MaxConcurrentTransfers = CfgMaxConcurrentTransfers c,
          MaxPoisonedTransfers = CfgMaxPoisonedTransfers c, stopped = False\<rparr>)"

definition NewChunkManagerWithMax :: "int \<Rightarrow> ChunkManager" where
  "NewChunkManagerWithMax maxBytes =
     NewChunkManagerFromConfig
       \<lparr>CfgMaxBufferBytes = maxBytes, CfgCleanupInterval = 0, CfgBufferTTL = 0,
        CfgMaxConcurrentTransfers = 0, CfgMaxPoisonedTransfers = 0\<rparr>"

definition NewChunkManager :: ChunkManager where
  "NewChunkManager = NewChunkManagerWithMax DefaultMaxChunkBufferBytes"

subsection \<open>Effective limits\<close>

definition effectiveTTL :: "ChunkManager \<Rightarrow> int" where
  "effectiveTTL cm = (if ChunkBufferTTL cm > 0 then ChunkBufferTTL cm else DefaultChunkBufferTTL)"

definition effectiveMaxConcurrentTransfers :: "ChunkManager \<Rightarrow> int" where
  "effectiveMaxConcurrentTransfers cm =
     (if MaxConcurrentTransfers cm > 0 then MaxConcurrentTransfers cm
      else DefaultMaxConcurrentTransfers)"

definition effectiveMaxPoisonedTransfers :: "ChunkManager \<Rightarrow> int" where
  "effectiveMaxPoisonedTransfers cm =
     (if MaxPoisonedTransfers cm > 0 then MaxPoisonedTransfers cm else DefaultMaxPoisonedTransfers)"

definition effective_max_bytes :: "ChunkManager \<Rightarrow> int" where
  "effective_max_bytes cm =
     (if MaxChunkBufferBytes cm \<le> 0 then DefaultMaxChunkBufferBytes else MaxChunkBufferBytes cm)"

subsection \<open>Sweeping\<close>

definition pruneStaleChunkBuffersLocked :: "int \<Rightarrow> int \<Rightarrow> ChunkManager \<Rightarrow> ChunkManager" where
  "pruneStaleChunkBuffersLocked now ttl cm =
     cm\<lparr>chunkCache := gm_keep (\<lambda>tid a. \<not> time_sub now (LastAccess (bufs cm ! a)) > ttl) (chunkCache cm),
        poisoned := gm_keep (\<lambda>tid at. \<not> time_sub now at > ttl) (poisoned cm)\<rparr>"

definition runCleanupOnce :: "int \<Rightarrow> int \<Rightarrow> ChunkManager \<Rightarrow> ChunkManager" where
  "runCleanupOnce now ttl cm =
     (let cm = pruneStaleChunkBuffersLocked now ttl cm
      in cm\<lparr>outgoingChunks :=
             gm_keep (\<lambda>tid out. \<not> time_sub now (OutLastAccess out) > ttl) (outgoingChunks cm)\<rparr>)"

definition Sweep :: "int \<Rightarrow> ChunkManager \<Rightarrow> ChunkManager" where
  "Sweep now cm = runCleanupOnce now (effectiveTTL cm) cm"

definition Close :: "ChunkManager \<Rightarrow> ChunkManager" where
  "Close cm = cm\<lparr>stopped := True\<rparr>"

text \<open>
  \<open>cleanupLoop\<close>: the interval and the time-to-live are read once, when the loop starts; then a
  select over the ticker and the stop channel. One iteration: \<open>None\<close> is the loop's return. A tick
  that is ready together with the closed channel may still be served (the select picks either).
\<close>

datatype cleanup_event = Tick int | Stop

definition cleanup_setup :: "ChunkManager \<Rightarrow> int \<times> int" where
  "cleanup_setup cm =
     (let interval = CleanupInterval cm;
          interval = (if interval \<le> 0 then DefaultCleanupInterval else interval)
      in (interval, effectiveTTL cm))"

definition cleanupLoop_iteration :: "int \<Rightarrow> cleanup_event \<Rightarrow> ChunkManager \<Rightarrow> ChunkManager option" where
  "cleanupLoop_iteration ttl ev cm =
     (case ev of Tick now \<Rightarrow> Some (runCleanupOnce now ttl cm) | Stop \<Rightarrow> None)"

definition TransferCount :: "ChunkManager \<Rightarrow> int" where
  "TransferCount cm = gm_len (chunkCache cm)"

definition PoisonedCount :: "ChunkManager \<Rightarrow> int" where
  "PoisonedCount cm = gm_len (poisoned cm)"

subsection \<open>Reassembly buffers\<close>

definition new_buffer :: "int \<Rightarrow> int \<Rightarrow> ChunkBuffer" where
  "new_buffer tot t =
     \<lparr>Data = replicate (nat tot) 0, TotalSize = tot, Received = 0, Segments = [],
      Dispatched = False, LastAccess = t\<rparr>"

definition touch :: "nat \<Rightarrow> int \<Rightarrow> ChunkManager \<Rightarrow> ChunkManager" where
  "touch a t cm = cm\<lparr>bufs := (bufs cm)[a := (bufs cm ! a)\<lparr>LastAccess := t\<rparr>]\<rparr>"

text \<open>Allocation of a fresh buffer under \<open>tid\<close>; \<open>t2\<close> is the clock in the literal, \<open>t3\<close> the one
  read for the final \<open>LastAccess\<close> assignment.\<close>

definition install_buffer :: "u64 \<Rightarrow> int \<Rightarrow> int \<Rightarrow> int \<Rightarrow> ChunkManager \<Rightarrow> nat \<times> ChunkManager" where
  "install_buffer tid tot t2 t3 cm =
     (let a = length (bufs cm);
          cm = cm\<lparr>bufs := bufs cm @ [new_buffer tot t2], chunkCache := gm_put tid a (chunkCache cm)\<rparr>
      in (a, touch a t3 cm))"

definition GetChunkBuffer ::
  "u64 \<Rightarrow> int \<Rightarrow> int \<Rightarrow> int \<Rightarrow> int \<Rightarrow> ChunkManager \<Rightarrow> (chunk_error + nat) \<times> ChunkManager" where
  "GetChunkBuffer tid tot t1 t2 t3 cm =
     (if tot \<le> 0 then (Inl (ErrChunkTotalNonPositive tot tid), cm)
      else if tot > effective_max_bytes cm then
        (Inl (ErrChunkTotalTooLarge tot (effective_max_bytes cm) tid), cm)
      else
        (case gm_get (chunkCache cm) tid of
           Some a \<Rightarrow>
             if TotalSize (bufs cm ! a) \<noteq> tot then
               (let (a, cm) = install_buffer tid tot t2 t3 cm in (Inr a, cm))
             else (Inr a, touch a t3 cm)
         | None \<Rightarrow>
             (let maxTransfers = effectiveMaxConcurrentTransfers cm in
              if gm_len (chunkCache cm) \<ge> maxTransfers then
                (let cm = pruneStaleChunkBuffersLocked t1 (effectiveTTL cm) cm in
                 if gm_len (chunkCache cm) \<ge> maxTransfers then
                   (Inl (ErrTooManyChunkTransfers (gm_len (chunkCache cm)) maxTransfers tid), cm)
                 else (let (a, cm) = install_buffer tid tot t2 t3 cm in (Inr a, cm)))
              else (let (a, cm) = install_buffer tid tot t2 t3 cm in (Inr a, cm)))))"

definition RemoveChunkBuffer :: "u64 \<Rightarrow> ChunkManager \<Rightarrow> ChunkManager" where
  "RemoveChunkBuffer tid cm = cm\<lparr>chunkCache := gm_del tid (chunkCache cm)\<rparr>"

subsection \<open>The poison set\<close>

text \<open>The loop that finds the oldest entry: \<open>oldestID\<close>, \<open>oldestAt\<close>, \<open>first\<close>.\<close>

definition oldest_entry :: "(u64, int) gomap \<Rightarrow> u64 \<times> int \<times> bool" where
  "oldest_entry m =
     fold (\<lambda>(tid, at) (oldestID, oldestAt, first).
             if first \<or> at < oldestAt then (tid, at, False) else (oldestID, oldestAt, first))
       m (0, 0, True)"

definition PoisonTransfer :: "u64 \<Rightarrow> int \<Rightarrow> ChunkManager \<Rightarrow> ChunkManager" where
  "PoisonTransfer tid now cm =
     (let cm = cm\<lparr>chunkCache := gm_del tid (chunkCache cm)\<rparr>;
          maxPoisoned = effectiveMaxPoisonedTransfers cm;
          cm = (if gm_len (poisoned cm) \<ge> maxPoisoned then
                  (let cm = pruneStaleChunkBuffersLocked now (effectiveTTL cm) cm in
                   if gm_len (poisoned cm) \<ge> maxPoisoned then
                     cm\<lparr>poisoned := gm_del (fst (oldest_entry (poisoned cm))) (poisoned cm)\<rparr>
                   else cm)
                else cm)
      in cm\<lparr>poisoned := gm_put tid now (poisoned cm)\<rparr>)"

definition IsPoisoned :: "u64 \<Rightarrow> int \<Rightarrow> ChunkManager \<Rightarrow> bool \<times> ChunkManager" where
  "IsPoisoned tid now cm =
     (case gm_get (poisoned cm) tid of
        None \<Rightarrow> (False, cm)
      | Some at \<Rightarrow>
          if time_sub now at > effectiveTTL cm then
            (False, cm\<lparr>poisoned := gm_del tid (poisoned cm)\<rparr>)
          else (True, cm))"

subsection \<open>Outgoing transfers\<close>

definition AddOutgoingChunk :: "u64 \<Rightarrow> OutgoingChunk \<Rightarrow> ChunkManager \<Rightarrow> ChunkManager" where
  "AddOutgoingChunk tid out cm = cm\<lparr>outgoingChunks := gm_put tid out (outgoingChunks cm)\<rparr>"

text \<open>The result is \<open>None\<close> for \<open>found = false\<close>, else chunk, message type, total size, offset.\<close>

definition GetNextChunk ::
  "u64 \<Rightarrow> int \<Rightarrow> int \<Rightarrow> ChunkManager \<Rightarrow> (bytes \<times> u32 \<times> int \<times> int) option \<times> ChunkManager" where
  "GetNextChunk tid maxSize wall cm =
     (case gm_get (outgoingChunks cm) tid of
        None \<Rightarrow> (None, cm)
      | Some out \<Rightarrow>
          (let out = out\<lparr>OutLastAccess := wall\<rparr>;
               currentOffset = OutOffset out;
               remaining = int (length (OutData out)) - OutOffset out;
               currentSize = (if remaining < maxSize then remaining else maxSize)
           in if currentSize \<le> 0 then
                (None, cm\<lparr>outgoingChunks := gm_del tid (outgoingChunks cm)\<rparr>)
              else
                (let chunk = slice (OutData out) currentOffset (currentOffset + currentSize);
                     out = out\<lparr>OutOffset := OutOffset out + currentSize\<rparr>;
                     left = (if OutOffset out \<ge> int (length (OutData out))
                             then gm_del tid (outgoingChunks cm)
                             else gm_put tid out (outgoingChunks cm))
                 in (Some (chunk, OutMsgType out, int (length (OutData out)), currentOffset),
                     cm\<lparr>outgoingChunks := left\<rparr>))))"

definition RemoveOutgoingChunk :: "u64 \<Rightarrow> ChunkManager \<Rightarrow> ChunkManager" where
  "RemoveOutgoingChunk tid cm = cm\<lparr>outgoingChunks := gm_del tid (outgoingChunks cm)\<rparr>"

subsection \<open>The invariant of the manager\<close>

definition out_ok :: "OutgoingChunk \<Rightarrow> bool" where
  "out_ok out \<longleftrightarrow> 0 \<le> OutOffset out \<and> OutOffset out \<le> int (length (OutData out))"

text \<open>
  Maps with distinct keys; pointers that point to allocated buffers and are not shared by two
  transfer ids; every buffer, reachable or not, keeps its own invariant and its size below the cap;
  and the two tables stay below their configured sizes.
\<close>

definition cm_ok :: "ChunkManager \<Rightarrow> bool" where
  "cm_ok cm \<longleftrightarrow>
     gm_ok (chunkCache cm) \<and> gm_ok (poisoned cm) \<and> gm_ok (outgoingChunks cm) \<and>
     (\<forall>tid a. gm_get (chunkCache cm) tid = Some a \<longrightarrow> a < length (bufs cm)) \<and>
     (\<forall>tid tid' a. gm_get (chunkCache cm) tid = Some a \<and> gm_get (chunkCache cm) tid' = Some a
        \<longrightarrow> tid = tid') \<and>
     (\<forall>b \<in> set (bufs cm). buf_ok b \<and> TotalSize b \<le> effective_max_bytes cm) \<and>
     gm_len (chunkCache cm) \<le> effectiveMaxConcurrentTransfers cm \<and>
     gm_len (poisoned cm) \<le> effectiveMaxPoisonedTransfers cm \<and>
     (\<forall>tid out. gm_get (outgoingChunks cm) tid = Some out \<longrightarrow> out_ok out)"

lemmas effective_defs = effectiveTTL_def effectiveMaxConcurrentTransfers_def
  effectiveMaxPoisonedTransfers_def effective_max_bytes_def

lemma effective_pos [simp]:
  "0 < effectiveTTL cm" "0 < effectiveMaxConcurrentTransfers cm"
  "0 < effectiveMaxPoisonedTransfers cm" "0 < effective_max_bytes cm"
  by (simp_all add: effective_defs chunk_defaults)

text \<open>The limits are not touched by any operation, so an update of another field keeps them.\<close>

lemma effective_update [simp]:
  "effectiveTTL (cm\<lparr>chunkCache := x\<rparr>) = effectiveTTL cm"
  "effectiveTTL (cm\<lparr>poisoned := p\<rparr>) = effectiveTTL cm"
  "effectiveTTL (cm\<lparr>outgoingChunks := q\<rparr>) = effectiveTTL cm"
  "effectiveTTL (cm\<lparr>bufs := y\<rparr>) = effectiveTTL cm"
  "effectiveMaxConcurrentTransfers (cm\<lparr>chunkCache := x\<rparr>) = effectiveMaxConcurrentTransfers cm"
  "effectiveMaxConcurrentTransfers (cm\<lparr>poisoned := p\<rparr>) = effectiveMaxConcurrentTransfers cm"
  "effectiveMaxConcurrentTransfers (cm\<lparr>outgoingChunks := q\<rparr>) = effectiveMaxConcurrentTransfers cm"
  "effectiveMaxConcurrentTransfers (cm\<lparr>bufs := y\<rparr>) = effectiveMaxConcurrentTransfers cm"
  "effectiveMaxPoisonedTransfers (cm\<lparr>chunkCache := x\<rparr>) = effectiveMaxPoisonedTransfers cm"
  "effectiveMaxPoisonedTransfers (cm\<lparr>poisoned := p\<rparr>) = effectiveMaxPoisonedTransfers cm"
  "effectiveMaxPoisonedTransfers (cm\<lparr>outgoingChunks := q\<rparr>) = effectiveMaxPoisonedTransfers cm"
  "effectiveMaxPoisonedTransfers (cm\<lparr>bufs := y\<rparr>) = effectiveMaxPoisonedTransfers cm"
  "effective_max_bytes (cm\<lparr>chunkCache := x\<rparr>) = effective_max_bytes cm"
  "effective_max_bytes (cm\<lparr>poisoned := p\<rparr>) = effective_max_bytes cm"
  "effective_max_bytes (cm\<lparr>outgoingChunks := q\<rparr>) = effective_max_bytes cm"
  "effective_max_bytes (cm\<lparr>bufs := y\<rparr>) = effective_max_bytes cm"
  by (simp_all add: effective_defs)

lemma cm_okD:
  assumes "cm_ok cm"
  shows "gm_ok (chunkCache cm)" "gm_ok (poisoned cm)" "gm_ok (outgoingChunks cm)"
    and "gm_get (chunkCache cm) tid = Some a \<Longrightarrow> a < length (bufs cm)"
    and "gm_get (chunkCache cm) tid = Some a \<Longrightarrow> gm_get (chunkCache cm) tid' = Some a \<Longrightarrow> tid = tid'"
    and "b \<in> set (bufs cm) \<Longrightarrow> buf_ok b"
    and "b \<in> set (bufs cm) \<Longrightarrow> TotalSize b \<le> effective_max_bytes cm"
    and "gm_len (chunkCache cm) \<le> effectiveMaxConcurrentTransfers cm"
    and "gm_len (poisoned cm) \<le> effectiveMaxPoisonedTransfers cm"
    and "gm_get (outgoingChunks cm) tid = Some out \<Longrightarrow> out_ok out"
  using assms unfolding cm_ok_def by blast+

lemma cm_ok_new: "cm_ok (NewChunkManagerFromConfig c)"
  using effective_pos [of "NewChunkManagerFromConfig c"]
  by (simp add: cm_ok_def NewChunkManagerFromConfig_def Let_def order_less_imp_le)

text \<open>Removing entries, in any of the maps, keeps the invariant.\<close>

lemma cm_ok_cache_subset:
  assumes "cm_ok cm" and "gm_ok m" and "gm_len m \<le> gm_len (chunkCache cm)"
    and "\<And>tid a. gm_get m tid = Some a \<Longrightarrow> gm_get (chunkCache cm) tid = Some a"
  shows "cm_ok (cm\<lparr>chunkCache := m\<rparr>)"
  using assms unfolding cm_ok_def by (auto intro: order_trans)

lemma cm_ok_poison_subset:
  assumes "cm_ok cm" and "gm_ok m" and "gm_len m \<le> gm_len (poisoned cm)"
  shows "cm_ok (cm\<lparr>poisoned := m\<rparr>)"
  using assms unfolding cm_ok_def by (auto intro: order_trans)

lemma cm_ok_out_subset:
  assumes "cm_ok cm" and "gm_ok m"
    and "\<And>tid out. gm_get m tid = Some out \<Longrightarrow> out_ok out"
  shows "cm_ok (cm\<lparr>outgoingChunks := m\<rparr>)"
  using assms unfolding cm_ok_def by auto

lemma cm_ok_prune [go_inv]: "cm_ok cm \<Longrightarrow> cm_ok (pruneStaleChunkBuffersLocked now ttl cm)"
proof -
  assume ok: "cm_ok cm"
  note k = cm_okD(1-3) [OF ok]
  have "cm_ok (cm\<lparr>chunkCache := gm_keep (\<lambda>tid a. \<not> time_sub now (LastAccess (bufs cm ! a)) > ttl) (chunkCache cm)\<rparr>)"
    by (rule cm_ok_cache_subset [OF ok]) (use k in \<open>auto dest: gm_get_keep_Some\<close>)
  from cm_ok_poison_subset [OF this, of "gm_keep (\<lambda>tid at. \<not> time_sub now at > ttl) (poisoned cm)"]
  show ?thesis using k by (simp add: pruneStaleChunkBuffersLocked_def)
qed

lemma cm_ok_cleanup [go_inv]: "cm_ok cm \<Longrightarrow> cm_ok (runCleanupOnce now ttl cm)"
proof -
  assume "cm_ok cm"
  then have p: "cm_ok (pruneStaleChunkBuffersLocked now ttl cm)" by (rule cm_ok_prune)
  show ?thesis unfolding runCleanupOnce_def Let_def
    by (rule cm_ok_out_subset [OF p])
       (use cm_okD(3) [OF p] in \<open>auto dest!: gm_get_keep_Some intro: cm_okD(10) [OF p]\<close>)
qed

lemma cm_ok_remove [go_inv]: "cm_ok cm \<Longrightarrow> cm_ok (RemoveChunkBuffer tid cm)"
  unfolding RemoveChunkBuffer_def
  by (rule cm_ok_cache_subset) (auto simp: cm_okD split: if_splits)

lemma cm_ok_is_poisoned [go_inv]: "cm_ok cm \<Longrightarrow> cm_ok (snd (IsPoisoned tid now cm))"
  by (auto simp: IsPoisoned_def cm_okD gm_len_del intro!: cm_ok_poison_subset split: option.split)

subsection \<open>The oldest poison entry\<close>

lemma oldest_fold:
  fixes m :: "(u64, int) gomap"
  shows "fold (\<lambda>(tid, at) (oldestID, oldestAt, first).
      if first \<or> at < oldestAt then (tid, at, False) else (oldestID, oldestAt, first)) m (i, t, False)
     = (i', t', f') \<Longrightarrow>
   \<not> f' \<and> (i', t') \<in> insert (i, t) (set m) \<and> t' \<le> t \<and> (\<forall>(k, at) \<in> set m. t' \<le> at)"
proof (induction m arbitrary: i t)
  case (Cons e m)
  obtain k at where e: "e = (k, at)" by (cases e)
  show ?case
  proof (cases "at < t")
    case True
    then show ?thesis using Cons.IH [of k at] Cons.prems e by auto
  next
    case False
    then show ?thesis using Cons.IH [of i t] Cons.prems e by auto
  qed
qed auto

lemma oldest_entry_spec:
  assumes "m \<noteq> []"
  shows "\<exists>t. (fst (oldest_entry m), t) \<in> set m \<and> (\<forall>(k, at) \<in> set m. t \<le> at)"
proof -
  obtain k at m' where m: "m = (k, at) # m'" using assms by (cases m) auto
  obtain i t f where r: "oldest_entry m = (i, t, f)" by (metis prod_cases3)
  show ?thesis using oldest_fold [of m' k at i t f] r by (auto simp: m oldest_entry_def)
qed

lemma cm_ok_poison [go_inv]: "cm_ok cm \<Longrightarrow> cm_ok (PoisonTransfer tid now cm)"
proof -
  assume ok: "cm_ok cm"
  define c1 where "c1 = RemoveChunkBuffer tid cm"
  have ok1: "cm_ok c1" unfolding c1_def by (rule cm_ok_remove [OF ok])
  have put: "cm_ok (c\<lparr>poisoned := gm_put tid now (poisoned c)\<rparr>)"
    if "cm_ok c" "gm_len (poisoned c) < effectiveMaxPoisonedTransfers c" for c
    using that unfolding cm_ok_def by (auto simp: gm_len_put)
  have limit: "effectiveMaxPoisonedTransfers (pruneStaleChunkBuffersLocked n t c)
      = effectiveMaxPoisonedTransfers c" for n t c
    by (simp add: pruneStaleChunkBuffersLocked_def)
  define c2 where "c2 = pruneStaleChunkBuffersLocked now (effectiveTTL c1) c1"
  have ok2: "cm_ok c2" unfolding c2_def by (rule cm_ok_prune [OF ok1])
  define old where "old = fst (oldest_entry (poisoned c2))"
  have del: "cm_ok (c2\<lparr>poisoned := gm_del old (poisoned c2)\<rparr>)"
    by (rule cm_ok_poison_subset [OF ok2]) (use cm_okD(2) [OF ok2] in auto)
  have gone: "gm_len (gm_del old (poisoned c2)) < effectiveMaxPoisonedTransfers c1"
    if "gm_len (poisoned c2) \<ge> effectiveMaxPoisonedTransfers c1"
  proof -
    have "poisoned c2 \<noteq> []" using that effective_pos(3) [of c1] by (metis gm_len_Nil not_le)
    then have "old \<in> gm_dom (poisoned c2)"
      unfolding old_def using oldest_entry_spec by force
    then have "gm_len (gm_del old (poisoned c2)) \<le> gm_len (poisoned c2) - 1"
      by (intro gm_len_del_present) (simp add: gm_dom_iff)
    moreover have "gm_len (poisoned c2) \<le> effectiveMaxPoisonedTransfers c2" by (rule cm_okD [OF ok2])
    ultimately show ?thesis by (simp add: c2_def limit)
  qed
  have lim2: "effectiveMaxPoisonedTransfers c2 = effectiveMaxPoisonedTransfers c1" by (simp add: c2_def limit)
  have "PoisonTransfer tid now cm =
    (let c = (if gm_len (poisoned c1) \<ge> effectiveMaxPoisonedTransfers c1 then
                if gm_len (poisoned c2) \<ge> effectiveMaxPoisonedTransfers c1
                then c2\<lparr>poisoned := gm_del old (poisoned c2)\<rparr> else c2
              else c1)
     in c\<lparr>poisoned := gm_put tid now (poisoned c)\<rparr>)"
    by (simp add: PoisonTransfer_def Let_def c1_def RemoveChunkBuffer_def c2_def old_def)
  then show ?thesis
    using put [OF ok1] put [OF ok2] put [OF del] gone lim2 by (auto simp: Let_def not_le)
qed

subsection \<open>Obtaining a buffer\<close>

lemma buf_ok_new: "0 < tot \<Longrightarrow> tot < 2 ^ 32 \<Longrightarrow> buf_ok (new_buffer tot t)"
  by (simp add: buf_ok_def new_buffer_def seg_total_def)

lemma buf_ok_touch [simp]: "buf_ok (b\<lparr>LastAccess := t\<rparr>) = buf_ok b"
  by (simp add: buf_ok_def)

lemma set_list_update: "a < length xs \<Longrightarrow> x \<in> set (xs[a := y]) \<Longrightarrow> x = y \<or> x \<in> set xs"
  using set_update_subset_insert by fastforce

lemma touch_simps [simp]:
  "chunkCache (touch a t cm) = chunkCache cm" "poisoned (touch a t cm) = poisoned cm"
  "outgoingChunks (touch a t cm) = outgoingChunks cm" "length (bufs (touch a t cm)) = length (bufs cm)"
  "effectiveTTL (touch a t cm) = effectiveTTL cm"
  "effectiveMaxConcurrentTransfers (touch a t cm) = effectiveMaxConcurrentTransfers cm"
  "effectiveMaxPoisonedTransfers (touch a t cm) = effectiveMaxPoisonedTransfers cm"
  "effective_max_bytes (touch a t cm) = effective_max_bytes cm"
  by (simp_all add: touch_def)

text \<open>What a store of a buffer must keep, and that it is enough.\<close>

definition set_buf :: "nat \<Rightarrow> ChunkBuffer \<Rightarrow> ChunkManager \<Rightarrow> ChunkManager" where
  "set_buf a b cm = cm\<lparr>bufs := (bufs cm)[a := b]\<rparr>"

lemma cm_ok_set_buf:
  assumes "cm_ok cm" and "a < length (bufs cm) \<Longrightarrow> buf_ok b"
    and "a < length (bufs cm) \<Longrightarrow> TotalSize b = TotalSize (bufs cm ! a)"
  shows "cm_ok (set_buf a b cm)"
proof (cases "a < length (bufs cm)")
  case True
  then have "bufs cm ! a \<in> set (bufs cm)" by simp
  with True assms show ?thesis
    unfolding cm_ok_def set_buf_def by (auto dest!: set_list_update [OF True])
next
  case False
  then show ?thesis using assms(1) by (simp add: set_buf_def list_update_beyond)
qed

lemma touch_set_buf: "touch a t cm = set_buf a ((bufs cm ! a)\<lparr>LastAccess := t\<rparr>) cm"
  by (simp add: touch_def set_buf_def)

lemma cm_ok_touch [go_inv]: "cm_ok cm \<Longrightarrow> cm_ok (touch a t cm)"
  unfolding touch_set_buf by (rule cm_ok_set_buf) (auto intro: cm_okD(6))

lemma cm_ok_install:
  assumes ok: "cm_ok cm" and tot: "0 < tot" "tot < 2 ^ 32" "tot \<le> effective_max_bytes cm"
    and room: "gm_get (chunkCache cm) tid = None \<Longrightarrow> gm_len (chunkCache cm) < effectiveMaxConcurrentTransfers cm"
  shows "cm_ok (snd (install_buffer tid tot t2 t3 cm))"
proof -
  let ?c = "cm\<lparr>bufs := bufs cm @ [new_buffer tot t2], chunkCache := gm_put tid (length (bufs cm)) (chunkCache cm)\<rparr>"
  have "TotalSize (new_buffer tot t2) = tot" by (simp add: new_buffer_def)
  moreover have "effective_max_bytes ?c = effective_max_bytes cm"
    "effectiveMaxConcurrentTransfers ?c = effectiveMaxConcurrentTransfers cm"
    "effectiveMaxPoisonedTransfers ?c = effectiveMaxPoisonedTransfers cm"
    by (simp_all add: effective_defs)
  moreover have "gm_len (gm_put tid (length (bufs cm)) (chunkCache cm)) \<le> effectiveMaxConcurrentTransfers cm"
    using room cm_okD(8) [OF ok] by (auto simp: gm_len_put)
  moreover note cm_okD(4) [OF ok] cm_okD(5) [OF ok]
  ultimately have "cm_ok ?c"
    using ok tot buf_ok_new [of tot t2] unfolding cm_ok_def
    by (simp; auto 0 3 dest: less_SucI split: if_splits)
  then show ?thesis by (simp add: install_buffer_def Let_def cm_ok_touch)
qed

lemma install_buffer_simps [simp]:
  "fst (install_buffer tid tot t2 t3 cm) = length (bufs cm)"
  "chunkCache (snd (install_buffer tid tot t2 t3 cm)) = gm_put tid (length (bufs cm)) (chunkCache cm)"
  "bufs (snd (install_buffer tid tot t2 t3 cm)) = bufs cm @ [new_buffer tot t3]"
  "poisoned (snd (install_buffer tid tot t2 t3 cm)) = poisoned cm"
  "outgoingChunks (snd (install_buffer tid tot t2 t3 cm)) = outgoingChunks cm"
  by (simp_all add: install_buffer_def Let_def touch_def new_buffer_def nth_append)

lemma prune_simps [simp]:
  "bufs (pruneStaleChunkBuffersLocked now ttl cm) = bufs cm"
  "outgoingChunks (pruneStaleChunkBuffersLocked now ttl cm) = outgoingChunks cm"
  "effectiveTTL (pruneStaleChunkBuffersLocked now ttl cm) = effectiveTTL cm"
  "effectiveMaxConcurrentTransfers (pruneStaleChunkBuffersLocked now ttl cm) = effectiveMaxConcurrentTransfers cm"
  "effectiveMaxPoisonedTransfers (pruneStaleChunkBuffersLocked now ttl cm) = effectiveMaxPoisonedTransfers cm"
  "effective_max_bytes (pruneStaleChunkBuffersLocked now ttl cm) = effective_max_bytes cm"
  by (simp_all add: pruneStaleChunkBuffersLocked_def)

text \<open>\<open>GetChunkBuffer\<close> by its four ways out; the ways in which an admission can fail leave no
  new entry.\<close>

lemma GetChunkBuffer_cases [consumes 1, case_names refused reused installed]:
  assumes "GetChunkBuffer tid tot t1 t2 t3 cm = (res, cm')"
  obtains (refused) e where "res = Inl e"
      "cm' = cm \<or> cm' = pruneStaleChunkBuffersLocked t1 (effectiveTTL cm) cm"
    | (reused) a where "res = Inr a" "gm_get (chunkCache cm) tid = Some a" "TotalSize (bufs cm ! a) = tot"
        "0 < tot" "tot \<le> effective_max_bytes cm" "cm' = touch a t3 cm"
    | (installed) c where "res = Inr (length (bufs cm))" "0 < tot" "tot \<le> effective_max_bytes cm"
        "c = cm \<or> c = pruneStaleChunkBuffersLocked t1 (effectiveTTL cm) cm"
        "gm_get (chunkCache cm) tid = None \<Longrightarrow> gm_len (chunkCache c) < effectiveMaxConcurrentTransfers cm"
        "gm_get (chunkCache cm) tid \<noteq> None \<Longrightarrow> c = cm"
        "cm' = snd (install_buffer tid tot t2 t3 c)"
proof -
  have inst: "(case install_buffer tid tot t2 t3 c of (a, cm) \<Rightarrow> (Inr a, cm)) =
      (Inr (length (bufs c)), snd (install_buffer tid tot t2 t3 c))" for c
    by (cases "install_buffer tid tot t2 t3 c")
       (use install_buffer_simps(1) [of tid tot t2 t3 c] in simp)
  show thesis
  proof (cases "tot \<le> 0 \<or> tot > effective_max_bytes cm")
    case True
    then show thesis using assms refused by (auto simp: GetChunkBuffer_def split: if_splits)
  next
    case False
    then have tot: "0 < tot" "tot \<le> effective_max_bytes cm" by auto
    show thesis
    proof (cases "gm_get (chunkCache cm) tid")
      case (Some a)
      show thesis
        using assms tot Some reused [of a] installed [of cm]
        by (auto simp: GetChunkBuffer_def inst split: if_splits)
    next
      case None
      show thesis
        using assms tot None refused installed [of cm]
          installed [of "pruneStaleChunkBuffersLocked t1 (effectiveTTL cm) cm"]
        by (auto simp: GetChunkBuffer_def inst Let_def split: if_splits)
    qed
  qed
qed

lemma cm_ok_get [go_inv]:
  assumes "cm_ok cm" and "tot < 2 ^ 32"
  shows "cm_ok (snd (GetChunkBuffer tid tot t1 t2 t3 cm))"
proof (cases "GetChunkBuffer tid tot t1 t2 t3 cm")
  case (Pair res cm')
  then show ?thesis
  proof (cases rule: GetChunkBuffer_cases)
    case (refused e)
    then show ?thesis using assms Pair cm_ok_prune by auto
  next
    case (reused a)
    then show ?thesis using assms Pair cm_ok_touch by simp
  next
    case (installed c)
    have ok: "cm_ok c" using installed(4) assms cm_ok_prune by auto
    have "cm_ok (snd (install_buffer tid tot t2 t3 c))"
    proof (rule cm_ok_install [OF ok])
      show "tot \<le> effective_max_bytes c" using installed(3,4) by auto
      show "gm_len (chunkCache c) < effectiveMaxConcurrentTransfers c"
        if n: "gm_get (chunkCache c) tid = None"
      proof (cases "gm_get (chunkCache cm) tid = None")
        case True
        then show ?thesis using installed(4,5) by auto
      next
        case False
        then show ?thesis using installed(6) n by simp
      qed
    qed (use installed assms in auto)
    then show ?thesis using installed Pair by simp
  qed
qed

lemma GetChunkBuffer_valid:
  assumes "GetChunkBuffer tid tot t1 t2 t3 cm = (Inr a, cm')" and "cm_ok cm"
  shows "a < length (bufs cm')" and "TotalSize (bufs cm' ! a) = tot" and "gm_get (chunkCache cm') tid = Some a"
    and "length (bufs cm) \<le> length (bufs cm')"
  using assms(1)
  by (cases rule: GetChunkBuffer_cases;
      use cm_okD(4) [OF assms(2)] in \<open>force simp: touch_def new_buffer_def nth_append\<close>)+

subsection \<open>The outgoing side keeps the invariant\<close>

lemma cm_ok_add_outgoing [go_inv]: "cm_ok cm \<Longrightarrow> out_ok out \<Longrightarrow> cm_ok (AddOutgoingChunk tid out cm)"
  unfolding AddOutgoingChunk_def
  by (rule cm_ok_out_subset) (auto simp: cm_okD(3) intro: cm_okD(10) split: if_splits)

lemma cm_ok_remove_outgoing [go_inv]: "cm_ok cm \<Longrightarrow> cm_ok (RemoveOutgoingChunk tid cm)"
  unfolding RemoveOutgoingChunk_def
  by (rule cm_ok_out_subset) (auto simp: cm_okD(3) intro: cm_okD(10) split: if_splits)

lemma cm_ok_next [go_inv]:
  assumes "cm_ok cm"
  shows "cm_ok (snd (GetNextChunk tid n wall cm))"
proof (cases "gm_get (outgoingChunks cm) tid")
  case None
  then show ?thesis using assms by (simp add: GetNextChunk_def)
next
  case (Some out)
  have ok: "out_ok out" by (rule cm_okD(10) [OF assms Some])
  have del: "cm_ok (cm\<lparr>outgoingChunks := gm_del tid (outgoingChunks cm)\<rparr>)"
    using cm_ok_remove_outgoing [OF assms] by (simp add: RemoveOutgoingChunk_def)
  have put: "cm_ok (cm\<lparr>outgoingChunks := gm_put tid o' (outgoingChunks cm)\<rparr>)" if "out_ok o'" for o'
    using cm_ok_add_outgoing [OF assms that] by (simp add: AddOutgoingChunk_def)
  show ?thesis using Some ok del by (auto simp: GetNextChunk_def Let_def intro!: put) (auto simp: out_ok_def)
qed

end
