(* ===== verification/Chunk_Frames.thy ===== *)
theory Chunk_Frames
  imports Prelude
begin

section \<open>Chunk frames and the split loop (pkg/chunk, pkg/msgid)\<close>

text \<open>
  \<open>pkg/chunk/chunk.go\<close>: the slot geometry and the budget arithmetic, the wire frame, the
  retry wrapper and \<open>Sender.Send\<close>. The FlatBuffers runtime is not part of the repository: its
  builder is the parameter \<open>enc\<close>, which receives the file identifier and the fields the code
  adds to the table. A \<open>SendFunc\<close> is a state transformer: it may fail with an error, and its
  state is the transport's. The sleeps of the retry loop are returned as a list of durations.
  Allocation (the lazily created builder) has no counterpart here.
\<close>

subsection \<open>Message identifiers\<close>

definition MsgBatchAsyncResponse :: u32 where "MsgBatchAsyncResponse = 128"
definition MsgChunk :: u32 where "MsgChunk = 129"
definition MsgSetRefCache :: u32 where "MsgSetRefCache = 130"
definition MsgCalculationEnded :: u32 where "MsgCalculationEnded = 131"
definition MsgCalculationCanceled :: u32 where "MsgCalculationCanceled = 132"
definition MsgRtdConnect :: u32 where "MsgRtdConnect = 133"
definition MsgRtdDisconnect :: u32 where "MsgRtdDisconnect = 134"
definition MsgRtdUpdate :: u32 where "MsgRtdUpdate = 135"
definition MsgRtdHeartbeat :: u32 where "MsgRtdHeartbeat = 136"
definition MsgCommandInvoke :: u32 where "MsgCommandInvoke = 137"
definition MsgRtdOnceGrid :: u32 where "MsgRtdOnceGrid = 138"
definition MsgAck :: u32 where "MsgAck = 139"
definition MsgUserStart :: u32 where "MsgUserStart = 140"

lemmas msg_defs [go_defs] = MsgBatchAsyncResponse_def MsgChunk_def MsgSetRefCache_def
  MsgCalculationEnded_def MsgCalculationCanceled_def MsgRtdConnect_def MsgRtdDisconnect_def
  MsgRtdUpdate_def MsgRtdHeartbeat_def MsgCommandInvoke_def MsgRtdOnceGrid_def MsgAck_def
  MsgUserStart_def

subsection \<open>Geometry and budgets\<close>

definition SlotPayloadSize :: int where "SlotPayloadSize = 1024 * 1024"
definition HalfSlotSize :: int where "HalfSlotSize = SlotPayloadSize div 2"
definition FramingOverhead :: int where "FramingOverhead = 256"
definition DefaultChunkSize :: int where "DefaultChunkSize = HalfSlotSize - FramingOverhead"
definition MaxTransferBytes :: int where "MaxTransferBytes = 256 * 2 ^ 20"

lemmas geometry_defs [go_defs] = SlotPayloadSize_def HalfSlotSize_def FramingOverhead_def
  DefaultChunkSize_def MaxTransferBytes_def

definition Budget :: "int \<Rightarrow> int" where
  "Budget bufCap =
     (let budget = bufCap - FramingOverhead;
          budget = (if budget > DefaultChunkSize then DefaultChunkSize else budget)
      in if budget < 1 then 1 else budget)"

text \<open>
  \<open>client any\<close> asserted to \<open>MaxRequestSizer\<close>: \<open>None\<close> when the assertion fails, otherwise
  what \<open>MaxRequestSize()\<close> answers.
\<close>

definition GuestBudget :: "int option \<Rightarrow> int" where
  "GuestBudget sizer =
     (case sizer of
        None \<Rightarrow> DefaultChunkSize
      | Some capacity \<Rightarrow> if capacity \<le> 0 then DefaultChunkSize else Budget capacity)"

subsection \<open>Frames\<close>

text \<open>The fields of \<open>protocol.Chunk\<close> as \<open>BuildFrame\<close> adds them.\<close>

record chunk_frame =
  fr_id :: u64
  fr_total_size :: u32
  fr_offset :: u32
  fr_data :: bytes
  fr_msg_type :: u32

definition fileIdentifier :: string where
  "fileIdentifier = ''XCHN''"

definition BuildFrame ::
  "(string \<Rightarrow> chunk_frame \<Rightarrow> 'w) \<Rightarrow> bytes \<Rightarrow> u64 \<Rightarrow> int \<Rightarrow> int \<Rightarrow> u32 \<Rightarrow> 'w" where
  "BuildFrame enc chunkData cid totalSize offset msgType =
     enc fileIdentifier
       \<lparr>fr_id = cid, fr_total_size = word_of_int totalSize, fr_offset = word_of_int offset,
        fr_data = chunkData, fr_msg_type = msgType\<rparr>"

subsection \<open>Sending one frame with retries\<close>

text \<open>\<open>None\<close> is Go's nil error.\<close>

type_synonym ('w, 's, 'e) SendFunc = "'w \<Rightarrow> 's \<Rightarrow> 'e option \<times> 's"

record RetryPolicy =
  Attempts :: int
  BaseBackoff :: int

definition NoRetry :: RetryPolicy where
  "NoRetry = \<lparr>Attempts = 1, BaseBackoff = 0\<rparr>"

definition AsyncRetry :: RetryPolicy where
  "AsyncRetry = \<lparr>Attempts = 10, BaseBackoff = 5000000\<rparr>"

text \<open>
  The loop \<open>for i := 0; i < attempts; i++\<close> from index \<open>i\<close> on, with the error of the previous
  round: the error it ends with, the durations it slept and the transport's state.
\<close>

function retry_loop ::
  "('w, 's, 'e) SendFunc \<Rightarrow> 'w \<Rightarrow> int \<Rightarrow> int \<Rightarrow> int \<Rightarrow> 'e option \<Rightarrow> 's \<Rightarrow> 'e option \<times> int list \<times> 's"
where
  "retry_loop send frame backoff attempts i err s =
     (if i < attempts then
        (case send frame s of
           (None, s') \<Rightarrow> (None, [], s')
         | (Some e, s') \<Rightarrow>
             if i = attempts - 1 then (Some e, [], s')
             else
               (let slept = (if backoff > 0 then [i64 (backoff * i64 (2 ^ nat i))] else []);
                    (r, more, s'') = retry_loop send frame backoff attempts (i + 1) (Some e) s'
                in (r, slept @ more, s'')))
      else (err, [], s))"
  by pat_completeness auto
termination
  by (relation "measure (\<lambda>(send, frame, backoff, attempts, i, err, s). nat (attempts - i))") auto

declare retry_loop.simps [simp del]

definition sendWithRetry ::
  "('w, 's, 'e) SendFunc \<Rightarrow> 'w \<Rightarrow> RetryPolicy \<Rightarrow> 's \<Rightarrow> 'e option \<times> int list \<times> 's" where
  "sendWithRetry send frame policy s =
     (let attempts = (if Attempts policy < 1 then 1 else Attempts policy)
      in retry_loop send frame (BaseBackoff policy) attempts 0 None s)"

subsection \<open>Splitting a payload\<close>

record Sender =
  ChunkSize :: int
  MaxTotalBytes :: int

definition chunkSize :: "Sender \<Rightarrow> int" where
  "chunkSize sd = (if ChunkSize sd > 0 then ChunkSize sd else DefaultChunkSize)"

definition maxTotalBytes :: "Sender \<Rightarrow> int" where
  "maxTotalBytes sd = (if MaxTotalBytes sd > 0 then MaxTotalBytes sd else MaxTransferBytes)"

datatype 'e send_error =
    ErrTransferTooLarge int int u64
  | ErrChunkAt int u64 'e

lemma chunkSize_pos [simp]: "0 < chunkSize sd"
  by (simp add: chunkSize_def go_defs)

text \<open>The loop \<open>for offset := 0; offset < total;\<close> of \<open>Sender.Send\<close>.\<close>

function send_loop ::
  "(string \<Rightarrow> chunk_frame \<Rightarrow> 'w) \<Rightarrow> Sender \<Rightarrow> bytes \<Rightarrow> u64 \<Rightarrow> u32 \<Rightarrow> ('w, 's, 'e) SendFunc \<Rightarrow>
   RetryPolicy \<Rightarrow> int \<Rightarrow> 's \<Rightarrow> 'e send_error option \<times> int list \<times> 's" where
  "send_loop enc sd payload transferID msgType send policy offset s =
     (let total = int (length payload) in
      if offset < total then
        (let end' = offset + chunkSize sd;
             end' = (if end' > total then total else end');
             frame = BuildFrame enc (slice payload offset end') transferID total offset msgType
         in case sendWithRetry send frame policy s of
              (Some e, slept, s') \<Rightarrow> (Some (ErrChunkAt offset transferID e), slept, s')
            | (None, slept, s') \<Rightarrow>
                (let (r, more, s'') = send_loop enc sd payload transferID msgType send policy end' s'
                 in (r, slept @ more, s'')))
      else (None, [], s))"
  by pat_completeness auto
termination
  by (relation "measure (\<lambda>(enc, sd, payload, cid, mt, send, policy, offset, s).
        nat (int (length payload) - offset))")
     (use chunkSize_pos in \<open>auto simp: not_less intro!: nat_mono_iff [THEN iffD2]\<close>)

declare send_loop.simps [simp del]

definition Send ::
  "(string \<Rightarrow> chunk_frame \<Rightarrow> 'w) \<Rightarrow> Sender \<Rightarrow> bytes \<Rightarrow> u64 \<Rightarrow> u32 \<Rightarrow> ('w, 's, 'e) SendFunc \<Rightarrow>
   RetryPolicy \<Rightarrow> 's \<Rightarrow> 'e send_error option \<times> int list \<times> 's" where
  "Send enc sd payload transferID msgType send policy s =
     (if length payload = 0 then (None, [], s)
      else if int (length payload) > maxTotalBytes sd then
        (Some (ErrTransferTooLarge (int (length payload)) (maxTotalBytes sd) transferID), [], s)
      else send_loop enc sd payload transferID msgType send policy 0 s)"


subsection \<open>Budget arithmetic\<close>

lemma Budget_range: "1 \<le> Budget c \<and> Budget c \<le> DefaultChunkSize"
  by (simp add: Budget_def Let_def go_defs)

lemma Budget_fits: "FramingOverhead < c \<Longrightarrow> Budget c + FramingOverhead \<le> c"
  by (simp add: Budget_def Let_def go_defs)

lemma GuestBudget_range: "1 \<le> GuestBudget z \<and> GuestBudget z \<le> DefaultChunkSize"
  using Budget_range by (simp add: GuestBudget_def go_defs split: option.split)

lemma GuestBudget_fits:
  "FramingOverhead < c \<Longrightarrow> GuestBudget (Some c) + FramingOverhead \<le> c"
  using Budget_fits by (simp add: GuestBudget_def go_defs)

subsection \<open>What the retry loop does\<close>

text \<open>A reference: at most \<open>n\<close> attempts, with the number of attempts made.\<close>

fun tries :: "('w, 's, 'e) SendFunc \<Rightarrow> 'w \<Rightarrow> nat \<Rightarrow> 's \<Rightarrow> 'e option \<times> nat \<times> 's" where
  "tries send w 0 s = (None, 0, s)"
| "tries send w (Suc n) s =
     (case send w s of
        (None, s') \<Rightarrow> (None, 1, s')
      | (Some e, s') \<Rightarrow>
          if n = 0 then (Some e, 1, s')
          else (let (r, k, s'') = tries send w n s' in (r, Suc k, s'')))"

definition sleeps :: "int \<Rightarrow> nat \<Rightarrow> nat \<Rightarrow> int list" where
  "sleeps backoff from til =
     (if backoff > 0 then map (\<lambda>i. i64 (backoff * i64 (2 ^ i))) [from..<til] else [])"

lemma tries_count: "0 < n \<Longrightarrow> tries send w n s = (r, k, s') \<Longrightarrow> 1 \<le> k \<and> k \<le> n \<and> (r \<noteq> None \<longrightarrow> k = n)"
proof (induction n arbitrary: s r k s')
  case (Suc n)
  show ?case
  proof (cases "send w s")
    case (Pair e s1)
    show ?thesis
    proof (cases "e = None \<or> n = 0")
      case True
      then show ?thesis using Suc.prems Pair by (cases e) auto
    next
      case False
      obtain r1 k1 s2 where t: "tries send w n s1 = (r1, k1, s2)" by (cases "tries send w n s1")
      have "1 \<le> k1 \<and> k1 \<le> n \<and> (r1 \<noteq> None \<longrightarrow> k1 = n)" using Suc.IH [OF _ t] False by simp
      then show ?thesis using Suc.prems Pair False t by (auto split: option.splits)
    qed
  qed
qed simp

lemma retry_loop_tries:
  assumes "i < attempts" and "0 \<le> i"
  shows "retry_loop send w backoff attempts i err s =
    (let (r, k, s') = tries send w (nat (attempts - i)) s
     in (r, sleeps backoff (nat i) (nat i + (k - 1)), s'))"
  using assms
proof (induction "nat (attempts - i)" arbitrary: i err s)
  case 0
  then show ?case by simp
next
  case (Suc n)
  have n: "nat (attempts - i) = Suc n" and n': "n = nat (attempts - (i + 1))" using Suc.hyps by arith+
  obtain e s1 where sd: "send w s = (e, s1)" by (cases "send w s")
  show ?case
  proof (cases "e = None \<or> n = 0")
    case True
    then show ?thesis using sd Suc.prems n
      by (cases e) (auto simp: retry_loop.simps [of send w backoff attempts i err s] sleeps_def Let_def)
  next
    case False
    then obtain x where x: "e = Some x" and pos: "0 < n" by auto
    obtain r k s2 where t: "tries send w n s1 = (r, k, s2)" by (cases "tries send w n s1")
    have k: "1 \<le> k" using tries_count [OF pos t] by simp
    have IH: "retry_loop send w backoff attempts (i + 1) (Some x) s1 =
        (r, sleeps backoff (nat (i + 1)) (nat (i + 1) + (k - 1)), s2)"
      using Suc.hyps(1) [OF n', of "Some x" s1] Suc.prems pos t n' by simp
    have up: "[nat i..<nat i + k] = nat i # [Suc (nat i)..<nat i + k]" using k by (simp add: upt_rec)
    have "nat (i + 1) = Suc (nat i)" using Suc.prems by arith
    then show ?thesis using sd x pos t IH Suc.prems n n' k
      by (simp add: retry_loop.simps [of send w backoff attempts i err s] sleeps_def Let_def up)
  qed
qed

lemma sendWithRetry_tries:
  "sendWithRetry send w policy s =
     (let (r, k, s') = tries send w (nat (max 1 (Attempts policy))) s
      in (r, sleeps (BaseBackoff policy) 0 (k - 1), s'))"
  by (simp add: sendWithRetry_def Let_def retry_loop_tries max_def)

lemma sendWithRetry_ok:
  "send w s = (None, s') \<Longrightarrow> sendWithRetry send w policy s = (None, [], s')"
  by (simp add: sendWithRetry_def Let_def retry_loop.simps)

subsection \<open>What the split loop sends\<close>

text \<open>A reference: the frames of a payload from an offset on, and their delivery in order.\<close>

definition frame_at :: "bytes \<Rightarrow> u64 \<Rightarrow> u32 \<Rightarrow> int \<Rightarrow> int \<Rightarrow> chunk_frame" where
  "frame_at payload cid mt a b =
     \<lparr>fr_id = cid, fr_total_size = word_of_int (int (length payload)), fr_offset = word_of_int a,
      fr_data = slice payload a b, fr_msg_type = mt\<rparr>"

definition chunk_end :: "Sender \<Rightarrow> bytes \<Rightarrow> int \<Rightarrow> int" where
  "chunk_end sd payload offset = min (offset + chunkSize sd) (int (length payload))"

function frames_from :: "Sender \<Rightarrow> bytes \<Rightarrow> u64 \<Rightarrow> u32 \<Rightarrow> int \<Rightarrow> chunk_frame list" where
  "frames_from sd payload cid mt offset =
     (if offset < int (length payload) then
        frame_at payload cid mt offset (chunk_end sd payload offset)
          # frames_from sd payload cid mt (chunk_end sd payload offset)
      else [])"
  by pat_completeness auto
termination
  by (relation "measure (\<lambda>(sd, payload, cid, mt, offset). nat (int (length payload) - offset))")
     (auto simp: chunk_end_def min_def nat_mono_iff add.commute [of _ "chunkSize _"])

declare frames_from.simps [simp del]

fun deliver ::
  "(string \<Rightarrow> chunk_frame \<Rightarrow> 'w) \<Rightarrow> ('w, 's, 'e) SendFunc \<Rightarrow> RetryPolicy \<Rightarrow> int \<Rightarrow> u64 \<Rightarrow>
   chunk_frame list \<Rightarrow> 's \<Rightarrow> 'e send_error option \<times> int list \<times> 's" where
  "deliver enc send policy off cid [] s = (None, [], s)"
| "deliver enc send policy off cid (f # fs) s =
     (case sendWithRetry send (enc fileIdentifier f) policy s of
        (Some e, slept, s') \<Rightarrow> (Some (ErrChunkAt off cid e), slept, s')
      | (None, slept, s') \<Rightarrow>
          (let (r, more, s'') =
             deliver enc send policy (off + int (length (fr_data f))) cid fs s'
           in (r, slept @ more, s'')))"

lemma chunk_end_bounds:
  assumes "0 \<le> offset" and "offset < int (length payload)"
  shows "offset < chunk_end sd payload offset" and "chunk_end sd payload offset \<le> int (length payload)"
    and "chunk_end sd payload offset - offset \<le> chunkSize sd"
    and "int (length (slice payload offset (chunk_end sd payload offset)))
         = chunk_end sd payload offset - offset"
  using assms chunkSize_pos [of sd]
  by (auto simp: chunk_end_def length_slice min_def simp del: chunkSize_pos)

lemma send_loop_step:
  "send_loop enc sd payload cid mt send policy offset s =
     (if offset < int (length payload) then
        (case sendWithRetry send
                (enc fileIdentifier (frame_at payload cid mt offset (chunk_end sd payload offset)))
                policy s of
           (Some e, slept, s') \<Rightarrow> (Some (ErrChunkAt offset cid e), slept, s')
         | (None, slept, s') \<Rightarrow>
             (let (r, more, s'') =
                send_loop enc sd payload cid mt send policy (chunk_end sd payload offset) s'
              in (r, slept @ more, s'')))
      else (None, [], s))"
proof -
  have e: "(if int (length payload) < offset + chunkSize sd then int (length payload)
            else offset + chunkSize sd) = chunk_end sd payload offset"
    by (simp add: chunk_end_def min_def)
  show ?thesis
    unfolding send_loop.simps [of enc sd payload cid mt send policy offset s] Let_def e
      BuildFrame_def frame_at_def by simp
qed

lemma send_loop_deliver:
  assumes "0 \<le> offset"
  shows "send_loop enc sd payload cid mt send policy offset s =
    deliver enc send policy offset cid (frames_from sd payload cid mt offset) s"
  using assms
proof (induction "nat (int (length payload) - offset)" arbitrary: offset s rule: less_induct)
  case less
  let ?e = "chunk_end sd payload offset"
  show ?case
  proof (cases "offset < int (length payload)")
    case True
    note b = chunk_end_bounds [OF less.prems True, of sd]
    have len: "offset + int (length (fr_data (frame_at payload cid mt offset ?e))) = ?e"
      using b by (simp add: frame_at_def)
    have IH: "send_loop enc sd payload cid mt send policy ?e s' =
      deliver enc send policy ?e cid (frames_from sd payload cid mt ?e) s'" for s'
      by (rule less.hyps) (use b True less.prems in auto)
    obtain r slept s' where sw: "sendWithRetry send (enc fileIdentifier
        (frame_at payload cid mt offset ?e)) policy s = (r, slept, s')"
      by (metis prod_cases3)
    show ?thesis
      using True sw by (cases r) (simp_all add: len IH
          send_loop_step [of enc sd payload cid mt send policy offset s]
          frames_from.simps [of sd payload cid mt offset])
  next
    case False
    then show ?thesis by (simp add: send_loop_step frames_from.simps)
  qed
qed

text \<open>The four facts about the split: content, sizes, offsets, headers.\<close>

lemma frames_from_concat:
  "0 \<le> offset \<Longrightarrow> concat (map fr_data (frames_from sd payload cid mt offset)) =
     slice payload offset (int (length payload))"
proof (induction "nat (int (length payload) - offset)" arbitrary: offset rule: less_induct)
  case less
  show ?case
  proof (cases "offset < int (length payload)")
    case True
    note b = chunk_end_bounds [OF less.prems True, of sd]
    have "concat (map fr_data (frames_from sd payload cid mt (chunk_end sd payload offset))) =
        slice payload (chunk_end sd payload offset) (int (length payload))"
      by (rule less.hyps) (use b True less.prems in auto)
    then show ?thesis
      using b less.prems True slice_append [of offset "chunk_end sd payload offset"]
      by (simp add: frames_from.simps [of sd payload cid mt offset] frame_at_def)
  next
    case False
    then show ?thesis by (simp add: frames_from.simps)
  qed
qed

lemma frames_from_each:
  "0 \<le> offset \<Longrightarrow> f \<in> set (frames_from sd payload cid mt offset) \<Longrightarrow>
   \<exists>a b. offset \<le> a \<and> a < b \<and> b \<le> int (length payload) \<and> b - a \<le> chunkSize sd \<and>
     f = frame_at payload cid mt a b"
proof (induction "nat (int (length payload) - offset)" arbitrary: offset rule: less_induct)
  case less
  show ?case
  proof (cases "offset < int (length payload)")
    case True
    note b = chunk_end_bounds [OF less.prems(1) True, of sd]
    from less.prems(2) True consider
        "f = frame_at payload cid mt offset (chunk_end sd payload offset)"
      | "f \<in> set (frames_from sd payload cid mt (chunk_end sd payload offset))"
      by (auto simp: frames_from.simps [of sd payload cid mt offset])
    then show ?thesis
    proof cases
      case 1
      with b show ?thesis by (intro exI [of _ offset] exI [of _ "chunk_end sd payload offset"]) simp
    next
      case 2
      have "\<exists>a b. chunk_end sd payload offset \<le> a \<and> a < b \<and> b \<le> int (length payload) \<and>
          b - a \<le> chunkSize sd \<and> f = frame_at payload cid mt a b"
        by (rule less.hyps) (use b True less.prems 2 in auto)
      with b show ?thesis by (smt (verit, best))
    qed
  next
    case False
    with less.prems show ?thesis by (simp add: frames_from.simps)
  qed
qed

lemma frames_from_offset:
  "0 \<le> offset \<Longrightarrow> k < length (frames_from sd payload cid mt offset) \<Longrightarrow>
   fr_offset (frames_from sd payload cid mt offset ! k) =
     word_of_int (offset + int (length (concat (map fr_data (take k (frames_from sd payload cid mt offset))))))"
proof (induction "nat (int (length payload) - offset)" arbitrary: offset k rule: less_induct)
  case less
  show ?case
  proof (cases "offset < int (length payload)")
    case True
    note b = chunk_end_bounds [OF less.prems(1) True, of sd]
    let ?e = "chunk_end sd payload offset"
    show ?thesis
    proof (cases k)
      case 0
      with True show ?thesis by (simp add: frames_from.simps [of sd payload cid mt offset] frame_at_def)
    next
      case (Suc j)
      have "fr_offset (frames_from sd payload cid mt ?e ! j) = word_of_int
         (?e + int (length (concat (map fr_data (take j (frames_from sd payload cid mt ?e))))))"
        by (rule less.hyps) (use b True less.prems Suc in
            \<open>auto simp: frames_from.simps [of sd payload cid mt offset]\<close>)
      then show ?thesis
        using b True Suc
        by (simp add: frames_from.simps [of sd payload cid mt offset] frame_at_def)
    qed
  next
    case False
    with less.prems show ?thesis by (simp add: frames_from.simps)
  qed
qed

lemma frames_from_nonempty: "payload \<noteq> [] \<Longrightarrow> frames_from sd payload cid mt 0 \<noteq> []"
  by (simp add: frames_from.simps)

lemma Send_deliver:
  "payload \<noteq> [] \<Longrightarrow> int (length payload) \<le> maxTotalBytes sd \<Longrightarrow>
   Send enc sd payload cid mt send policy s =
     deliver enc send policy 0 cid (frames_from sd payload cid mt 0) s"
  by (simp add: Send_def send_loop_deliver)

lemma deliver_ok:
  "(\<And>w s. send w s = (None, upd w s)) \<Longrightarrow>
   deliver enc send policy off cid fs s =
     (None, [], fold upd (map (enc fileIdentifier) fs) s)"
  by (induction fs arbitrary: off s) (simp_all add: sendWithRetry_ok)

subsection \<open>The transport's trace\<close>

text \<open>
  A transport that also records the frames it accepted. Whatever transport \<open>send\<close> is, this
  one answers as it does, so a statement about the record is a statement about \<open>send\<close>.
\<close>

definition recording :: "('w, 's, 'e) SendFunc \<Rightarrow> ('w, 's \<times> 'w list, 'e) SendFunc" where
  "recording send w st =
     (case send w (fst st) of
        (None, s') \<Rightarrow> (None, (s', snd st @ [w]))
      | (Some e, s') \<Rightarrow> (Some e, (s', snd st)))"

lemma recording_step:
  "recording send w (s, tr) =
     (case send w s of (None, s') \<Rightarrow> (None, (s', tr @ [w])) | (Some e, s') \<Rightarrow> (Some e, (s', tr)))"
  by (simp add: recording_def cong: option.case_cong split: prod.split)

text \<open>What a list of frames must be to carry a payload.\<close>

definition split_of :: "Sender \<Rightarrow> bytes \<Rightarrow> u64 \<Rightarrow> u32 \<Rightarrow> chunk_frame list \<Rightarrow> bool" where
  "split_of sd payload cid mt fs \<longleftrightarrow>
     concat (map fr_data fs) = payload \<and>
     (\<forall>f \<in> set fs. fr_id f = cid \<and> fr_msg_type f = mt \<and>
        fr_total_size f = of_nat (length payload) \<and>
        fr_data f \<noteq> [] \<and> int (length (fr_data f)) \<le> chunkSize sd) \<and>
     (\<forall>k < length fs. fr_offset (fs ! k) = of_nat (length (concat (map fr_data (take k fs)))))"

lemma frames_from_split: "split_of sd payload cid mt (frames_from sd payload cid mt 0)"
  unfolding split_of_def
proof (intro conjI ballI allI impI)
  show "concat (map fr_data (frames_from sd payload cid mt 0)) = payload"
    using frames_from_concat [of 0 sd payload cid mt] by simp
next
  fix k assume "k < length (frames_from sd payload cid mt 0)"
  then show "fr_offset (frames_from sd payload cid mt 0 ! k) =
      of_nat (length (concat (map fr_data (take k (frames_from sd payload cid mt 0)))))"
    using frames_from_offset [of 0 k sd payload cid mt] by simp
next
  fix f assume "f \<in> set (frames_from sd payload cid mt 0)"
  then obtain a b where ab: "0 \<le> a" "a < b" "b \<le> int (length payload)" "b - a \<le> chunkSize sd"
      "f = frame_at payload cid mt a b"
    using frames_from_each [of 0 f sd payload cid mt] by auto
  then have "int (length (slice payload a b)) = b - a" by (simp add: length_slice)
  with ab show "fr_id f = cid" "fr_msg_type f = mt" "fr_total_size f = of_nat (length payload)"
    "fr_data f \<noteq> []" "int (length (fr_data f)) \<le> chunkSize sd"
    by (auto simp: frame_at_def)
qed

lemma tries_recording:
  "tries (recording send) w n (s, tr) = (r, k, st) \<Longrightarrow> 0 < n \<Longrightarrow>
   snd st = (if r = None then tr @ [w] else tr)"
proof (induction n arbitrary: s tr r k st)
  case (Suc n)
  obtain e s1 where sd: "send w s = (e, s1)" by (cases "send w s")
  show ?case
  proof (cases "e = None \<or> n = 0")
    case True
    then show ?thesis using Suc.prems sd by (cases e) (auto simp: recording_step)
  next
    case False
    then obtain x where x: "e = Some x" and n: "0 < n" by auto
    obtain r1 k1 st1 where t: "tries (recording send) w n (s1, tr) = (r1, k1, st1)"
      by (metis prod_cases3)
    show ?thesis using Suc.IH [OF t n] Suc.prems sd x n t by (auto simp: recording_step)
  qed
qed simp

lemma sendWithRetry_recording:
  assumes "sendWithRetry (recording send) w policy (s, tr) = (r, slept, st)"
  shows "snd st = (if r = None then tr @ [w] else tr)"
proof -
  obtain r1 k1 st1 where t: "tries (recording send) w (nat (max 1 (Attempts policy))) (s, tr) = (r1, k1, st1)"
    by (metis prod_cases3)
  have "0 < nat (max 1 (Attempts policy))" by simp
  from tries_recording [OF t this] t assms show ?thesis by (simp add: sendWithRetry_tries)
qed

lemma deliver_recording:
  "deliver enc (recording send) policy off cid fs (s, tr) = (r, slept, st) \<Longrightarrow>
   \<exists>k \<le> length fs. snd st = tr @ map (enc fileIdentifier) (take k fs) \<and>
     (r = None \<longleftrightarrow> k = length fs) \<and>
     (\<forall>err. r = Some err \<longrightarrow>
        (\<exists>e. err = ErrChunkAt (off + int (length (concat (map fr_data (take k fs))))) cid e))"
proof (induction fs arbitrary: off s tr r slept st)
  case (Cons f fs)
  obtain r1 sl1 st1 where sw: "sendWithRetry (recording send) (enc fileIdentifier f) policy (s, tr) = (r1, sl1, st1)"
    by (metis prod_cases3)
  note rec = sendWithRetry_recording [OF sw]
  show ?case
  proof (cases r1)
    case (Some e)
    then show ?thesis using Cons.prems sw rec by (intro exI [of _ 0]) auto
  next
    case None
    obtain s1 where st1: "st1 = (s1, tr @ [enc fileIdentifier f])" using rec None by (cases st1) simp
    obtain r2 sl2 st2 where d: "deliver enc (recording send) policy (off + int (length (fr_data f))) cid fs st1 = (r2, sl2, st2)"
      by (metis prod_cases3)
    from Cons.IH [OF d [unfolded st1]] obtain k where
      "k \<le> length fs" "snd st2 = (tr @ [enc fileIdentifier f]) @ map (enc fileIdentifier) (take k fs)"
      "r2 = None \<longleftrightarrow> k = length fs"
      "\<forall>err. r2 = Some err \<longrightarrow> (\<exists>e. err = ErrChunkAt (off + int (length (fr_data f)) +
          int (length (concat (map fr_data (take k fs))))) cid e)"
      by blast
    with Cons.prems sw None d show ?thesis by (intro exI [of _ "Suc k"]) (auto simp: add.assoc)
  qed
qed simp

lemma Send_accepted:
  assumes "payload \<noteq> []" and "int (length payload) \<le> maxTotalBytes sd"
    and "Send enc sd payload cid mt (recording send) policy (s, []) = (r, slept, s', tr)"
    and "frame \<in> set tr"
  shows "\<exists>f. frame = enc fileIdentifier f \<and> int (length (fr_data f)) \<le> chunkSize sd"
proof -
  obtain k where "tr = map (enc fileIdentifier) (take k (frames_from sd payload cid mt 0))"
    using deliver_recording [OF assms(3) [unfolded Send_deliver [OF assms(1,2)]]] by auto
  then obtain f where "f \<in> set (frames_from sd payload cid mt 0)" "frame = enc fileIdentifier f"
    using assms(4) by (auto dest: in_set_takeD)
  with frames_from_split [of sd payload cid mt] show ?thesis by (auto simp: split_of_def)
qed

lemma sum_backoff: "sum_list (map (\<lambda>i. 5000000 * 2 ^ i :: int) [0..<n]) = 5000000 * (2 ^ n - 1)"
  by (induction n) simp_all

lemma AsyncRetry_step: "i < 9 \<Longrightarrow> i64 (5000000 * i64 (2 ^ i)) = 5000000 * 2 ^ i"
proof -
  assume "i < 9"
  then have "(2 :: int) ^ i \<le> 2 ^ 9" by (intro power_increasing) auto
  then have hi: "(2 :: int) ^ i \<le> 512" by simp
  have lo: "(0 :: int) \<le> 2 ^ i" by simp
  from lo hi have a: "i64 (2 ^ i) = 2 ^ i" by (intro i64_id) linarith+
  from lo hi show ?thesis unfolding a by (intro i64_id) linarith+
qed

subsection \<open>Properties\<close>

text \<open>C25. \<open>Sender.Send\<close> over any transport. There is one way the payload is split: frames of at
  most \<open>ChunkSize\<close> bytes, none empty, whose data concatenate to the payload, each carrying the
  transfer id, the message type, the total size and the number of bytes before it. The transport
  accepts a prefix of these frames, in this order and each once; \<open>Send\<close> returns nil exactly when
  it accepted all of them, and otherwise names the offset of the first frame that was not accepted.\<close>

theorem Send_delivers_prefix:
  assumes "payload \<noteq> []" and "int (length payload) \<le> maxTotalBytes sd"
    and "Send enc sd payload cid mt (recording send) policy (s, []) = (r, slept, s', tr)"
  shows "\<exists>fs k. split_of sd payload cid mt fs \<and> k \<le> length fs \<and>
    tr = map (enc fileIdentifier) (take k fs) \<and> (r = None \<longleftrightarrow> k = length fs) \<and>
    (\<forall>err. r = Some err \<longrightarrow>
       (\<exists>e. err = ErrChunkAt (int (length (concat (map fr_data (take k fs))))) cid e))"
  using deliver_recording [OF assms(3) [unfolded Send_deliver [OF assms(1,2)]]]
    frames_from_split [of sd payload cid mt] by auto

theorem Send_delivers_prefix_witness:
  "\<exists>fs k. split_of \<lparr>ChunkSize = 2, MaxTotalBytes = 0\<rparr> [1, 2, 3] 7 138 fs \<and> k \<le> length fs \<and>
     [\<lparr>fr_id = 7, fr_total_size = 3, fr_offset = 0, fr_data = [1, 2], fr_msg_type = 138\<rparr>,
      \<lparr>fr_id = 7, fr_total_size = 3, fr_offset = 2, fr_data = [3], fr_msg_type = 138\<rparr>] =
       map (\<lambda>f. f) (take k fs) \<and> k = length fs"
proof -
  have "Send (\<lambda>i f. f) \<lparr>ChunkSize = 2, MaxTotalBytes = 0\<rparr> [1, 2, 3] 7 138
      (recording (\<lambda>w u. (None :: unit option, u))) NoRetry ((), []) =
    (None, [], (), [\<lparr>fr_id = 7, fr_total_size = 3, fr_offset = 0, fr_data = [1, 2], fr_msg_type = 138\<rparr>,
      \<lparr>fr_id = 7, fr_total_size = 3, fr_offset = 2, fr_data = [3], fr_msg_type = 138\<rparr>])"
    by (simp add: Send_def maxTotalBytes_def go_defs send_loop.simps sendWithRetry_ok recording_step
        BuildFrame_def chunkSize_def slice_def Let_def)
  from Send_delivers_prefix [OF _ _ this] show ?thesis
    by (simp add: maxTotalBytes_def go_defs)
qed

text \<open>C26. Every frame that leaves a \<open>Sender\<close> whose chunk size is \<open>GuestBudget\<close> of a client fits the
  client's request buffer, for any payload and transport: given the documented bound that framing
  adds at most \<open>FramingOverhead\<close> bytes, no accepted frame is longer than the capacity the client
  reported (a capacity above the overhead itself).\<close>

theorem Send_frames_fit_buffer:
  assumes "\<And>f. int (length (enc fileIdentifier f)) \<le> int (length (fr_data f)) + FramingOverhead"
    and "FramingOverhead < bufCap" and "ChunkSize sd = GuestBudget (Some bufCap)"
    and "Send enc sd payload cid mt (recording send) policy (s, []) = (r, slept, s', tr)"
    and "frame \<in> set tr"
  shows "int (length frame) \<le> bufCap"
proof -
  have ne: "payload \<noteq> []" and le: "int (length payload) \<le> maxTotalBytes sd"
    using assms(4,5) by (auto simp: Send_def split: if_splits)
  from Send_accepted [OF ne le assms(4,5)] obtain f
    where f: "frame = enc fileIdentifier f" "int (length (fr_data f)) \<le> chunkSize sd" by blast
  moreover have "chunkSize sd = GuestBudget (Some bufCap)"
    using GuestBudget_range [of "Some bufCap"] assms(3) by (simp add: chunkSize_def)
  ultimately show ?thesis
    using assms(1) [of f] GuestBudget_fits [OF assms(2)] by simp
qed

theorem Send_frames_fit_buffer_witness:
  "int (length (concat (replicate 256 [0 :: u8]) @ [9 :: u8])) \<le> 257"
proof -
  let ?enc = "\<lambda>(i :: string) f. concat (replicate 256 [0]) @ fr_data f"
  let ?sd = "\<lparr>ChunkSize = 1, MaxTotalBytes = 0\<rparr>"
  have "Send ?enc ?sd [9] 7 138 (recording (\<lambda>w u. (None :: unit option, u))) NoRetry ((), []) =
    (None, [], (), [concat (replicate 256 [0]) @ [9]])"
    by (simp add: Send_def maxTotalBytes_def go_defs send_loop.simps sendWithRetry_ok recording_step
        BuildFrame_def chunkSize_def slice_def Let_def)
  then show ?thesis
    by (rule Send_frames_fit_buffer [of ?enc 257 ?sd, rotated 3])
       (simp_all add: go_defs GuestBudget_def Budget_def Let_def length_concat sum_list_replicate)
qed

text \<open>C27. The \<open>AsyncRetry\<close> ladder is bounded: over any transport it sleeps at most nine times, 5 ms
  doubling, so at most 2.555 s in all, it gives up only after the ninth sleep, and a successful
  send stops it.\<close>

theorem AsyncRetry_bounded:
  assumes "sendWithRetry send frame AsyncRetry s = (r, slept, s')"
  shows "\<exists>n \<le> 9. slept = map (\<lambda>i. 5000000 * 2 ^ i) [0..<n] \<and> (r \<noteq> None \<longrightarrow> n = 9) \<and>
    sum_list slept \<le> 2555000000"
proof -
  obtain r1 k s1 where t: "tries send frame 10 s = (r1, k, s1)" by (metis prod_cases3)
  have k: "1 \<le> k" "k \<le> 10" "r1 \<noteq> None \<longrightarrow> k = 10"
    using tries_count [OF _ t] by auto
  have slept: "slept = sleeps 5000000 0 (k - 1)" "r = r1"
    using assms t by (simp_all add: sendWithRetry_tries AsyncRetry_def)
  have len: "k - 1 \<le> 9" using k by simp
  have "sleeps 5000000 0 n = map (\<lambda>i. 5000000 * 2 ^ i) [0..<n]" if "n \<le> 9" for n
    unfolding sleeps_def by (rule if_P [THEN trans], simp, rule map_cong [OF refl])
       (use that AsyncRetry_step in auto)
  moreover have "sum_list (map (\<lambda>i. 5000000 * 2 ^ i :: int) [0..<n]) \<le> 2555000000" if "n \<le> 9" for n
    using that sum_backoff [of n] power_increasing [of n 9 "2 :: int"] by simp
  ultimately show ?thesis using k len slept by (intro exI [of _ "k - 1"]) auto
qed

theorem AsyncRetry_bounded_witness:
  "\<exists>n \<le> 9. [5000000, 10000000] = map (\<lambda>i. 5000000 * 2 ^ i :: int) [0..<n] \<and>
    ((None :: unit option) \<noteq> None \<longrightarrow> n = 9) \<and> sum_list [5000000, 10000000] \<le> (2555000000 :: int)"
  by (rule AsyncRetry_bounded [of "\<lambda>w n. if n < (2 :: nat) then (Some (), Suc n) else (None, n)" "()" 0
        None "[5000000, 10000000]" 2])
     (simp add: sendWithRetry_def AsyncRetry_def retry_loop.simps Let_def i64_def)

end
