(* ===== verification/Chunk_Handlers.thy ===== *)
theory Chunk_Handlers
  imports Chunk_Manager Chunk_Frames
begin

section \<open>Chunk handlers (pkg/server/handlers.go, protocol_helpers.go)\<close>

text \<open>
  \<open>HandleChunk\<close> is the sequence of its critical sections, each a definition of its own:
  \<open>IsPoisoned\<close>, \<open>GetChunkBuffer\<close>, the section under the buffer's mutex (\<open>chunk_section\<close>) and the
  way out (\<open>chunk_finish\<close>); \<open>Chunk_Concurrency\<close> interleaves the same definitions. Decoding a frame
  and building a table are the FlatBuffers runtime's and are the parameters \<open>dec\<close>, \<open>enc\<close> and
  \<open>enc_ack\<close>. A handler's answer is the pair it returns to shm and the response buffer it leaves.
\<close>

type_synonym reply = "int \<times> u32 \<times> bytes"

text \<open>\<open>shm.MsgTypeSystemError\<close>, whose value the source documents (types.go).\<close>

definition MsgTypeSystemError :: u32 where "MsgTypeSystemError = 127"

subsection \<open>Responses\<close>

definition ChunkBudget :: "bytes \<Rightarrow> int" where
  "ChunkBudget respBuf = Budget (int (length respBuf))"

text \<open>The \<open>id\<close> field is only added when it is positive.\<close>

definition BuildAckResponse :: "(u64 option \<Rightarrow> bool \<Rightarrow> bytes) \<Rightarrow> u64 \<Rightarrow> bool \<Rightarrow> bytes" where
  "BuildAckResponse enc_ack tid ok = enc_ack (if tid > 0 then Some tid else None) ok"

definition BuildChunkResponse ::
  "(string \<Rightarrow> chunk_frame \<Rightarrow> bytes) \<Rightarrow> bytes \<Rightarrow> u64 \<Rightarrow> int \<Rightarrow> int \<Rightarrow> u32 \<Rightarrow> bytes" where
  "BuildChunkResponse enc chunkData tid totalSize offset msgType =
     BuildFrame enc chunkData tid totalSize offset msgType"

definition SendAckOrChunk :: "bytes \<Rightarrow> bytes \<Rightarrow> u32 \<Rightarrow> reply" where
  "SendAckOrChunk payload respBuf msgType =
     (if length payload \<le> length respBuf then
        (i32 (int (length payload)), msgType, copy_at 0 payload respBuf)
      else (0, MsgTypeSystemError, respBuf))"

subsection \<open>The ACK-pull transport\<close>

text \<open>\<open>transferId\<close> is what \<open>transferid.New()\<close> drew.\<close>

definition registerAckPullChunk ::
  "(string \<Rightarrow> chunk_frame \<Rightarrow> bytes) \<Rightarrow> bytes \<Rightarrow> bytes \<Rightarrow> u32 \<Rightarrow> u64 \<Rightarrow> int \<Rightarrow> ChunkManager \<Rightarrow>
   reply \<times> ChunkManager" where
  "registerAckPullChunk enc payload respBuf msgType transferId wall cm =
     (let chunkSize = ChunkBudget respBuf;
          out = \<lparr>OutData = payload, OutOffset = 0, OutId = transferId, OutMsgType = msgType,
                 OutLastAccess = wall\<rparr>;
          currentSize = (if int (length (OutData out)) < chunkSize then int (length (OutData out))
                         else chunkSize);
          out = out\<lparr>OutOffset := currentSize\<rparr>;
          cm = AddOutgoingChunk transferId out cm;
          chunkPayload = BuildChunkResponse enc (slice (OutData out) 0 currentSize) transferId
                           (int (length (OutData out))) 0 msgType
      in if length chunkPayload > length respBuf then
           ((0, 0, respBuf), RemoveOutgoingChunk transferId cm)
         else
           ((i32 (int (length chunkPayload)), MsgChunk, copy_at 0 chunkPayload respBuf), cm))"

text \<open>\<open>ack_id\<close> decodes the request's \<open>Id()\<close>.\<close>

definition HandleAck ::
  "(bytes \<Rightarrow> u64) \<Rightarrow> (string \<Rightarrow> chunk_frame \<Rightarrow> bytes) \<Rightarrow> bytes \<Rightarrow> bytes \<Rightarrow> int \<Rightarrow> ChunkManager \<Rightarrow>
   reply \<times> ChunkManager" where
  "HandleAck ack_id enc data respBuf wall cm =
     (let tid = ack_id data; chunkSize = ChunkBudget respBuf
      in case GetNextChunk tid chunkSize wall cm of
           (None, cm) \<Rightarrow> ((0, 0, respBuf), cm)
         | (Some (chunkData, msgType, totalSize, offset), cm) \<Rightarrow>
             if length chunkData = 0 then ((0, 0, respBuf), cm)
             else
               (SendAckOrChunk (BuildChunkResponse enc chunkData tid totalSize offset msgType)
                  respBuf MsgChunk, cm))"

subsection \<open>Reassembly\<close>

datatype section_verdict = OutOfBounds | ZeroLength | Overlapping | Completed | Stored

text \<open>What \<open>HandleChunk\<close> does between \<open>buf.Mutex.Lock()\<close> and \<open>buf.Mutex.Unlock()\<close>.\<close>

definition chunk_section :: "chunk_frame \<Rightarrow> ChunkBuffer \<Rightarrow> section_verdict \<times> ChunkBuffer" where
  "chunk_section req b =
     (let offsetU32 = fr_offset req; dataLen = length (fr_data req)
      in if (ucast offsetU32 :: u64) + of_nat dataLen > of_nat (length (Data b)) then (OutOfBounds, b)
         else if dataLen = 0 then (ZeroLength, b)
         else
           (let (claim, b) = ClaimSegment b offsetU32 (of_nat dataLen)
            in if claim = ClaimOverlap then (Overlapping, b)
               else
                 (let b = (if claim = ClaimNew then
                             b\<lparr>Data := copy_at (unat offsetU32) (fr_data req) (Data b),
                               Received := Received b + int dataLen\<rparr>
                           else b)
                  in if Received b = TotalSize b \<and> \<not> Dispatched b
                     then (Completed, b\<lparr>Dispatched := True\<rparr>) else (Stored, b))))"

type_synonym dispatcher = "bytes \<Rightarrow> bytes \<Rightarrow> u32 \<Rightarrow> ChunkManager \<Rightarrow> reply \<times> ChunkManager"

text \<open>What follows the unlock; \<open>now\<close> is the clock \<open>PoisonTransfer\<close> reads.\<close>

definition chunk_finish ::
  "(u64 option \<Rightarrow> bool \<Rightarrow> bytes) \<Rightarrow> dispatcher \<Rightarrow> chunk_frame \<Rightarrow> nat \<Rightarrow> section_verdict \<Rightarrow> bytes \<Rightarrow> int \<Rightarrow>
   ChunkManager \<Rightarrow> reply \<times> ChunkManager" where
  "chunk_finish enc_ack dispatch req a v respBuf now cm =
     (if v = OutOfBounds \<or> v = ZeroLength \<or> v = Overlapping then
        ((0, MsgTypeSystemError, respBuf), PoisonTransfer (fr_id req) now cm)
      else if v = Completed then
        dispatch (Data (bufs cm ! a)) respBuf (fr_msg_type req) (RemoveChunkBuffer (fr_id req) cm)
      else (SendAckOrChunk (BuildAckResponse enc_ack (fr_id req) True) respBuf MsgAck, cm))"

text \<open>The clock readings of one call, in the order of the calls.\<close>

record readings =
  at_poisoned :: int
  at_prune :: int
  at_new :: int
  at_touch :: int
  at_reject :: int

definition HandleChunk ::
  "(bytes \<Rightarrow> chunk_frame) \<Rightarrow> (u64 option \<Rightarrow> bool \<Rightarrow> bytes) \<Rightarrow> dispatcher \<Rightarrow> bytes \<Rightarrow> bytes \<Rightarrow> readings \<Rightarrow>
   ChunkManager \<Rightarrow> reply \<times> ChunkManager" where
  "HandleChunk dec enc_ack dispatch data respBuf clk cm =
     (let req = dec data; tid = fr_id req;
          (refused, cm) = IsPoisoned tid (at_poisoned clk) cm
      in if refused then ((0, MsgTypeSystemError, respBuf), cm)
         else
           (case GetChunkBuffer tid (uint (fr_total_size req)) (at_prune clk) (at_new clk) (at_touch clk) cm of
              (Inl e, cm) \<Rightarrow> ((0, MsgTypeSystemError, respBuf), cm)
            | (Inr a, cm) \<Rightarrow>
                (let (v, b) = chunk_section req (bufs cm ! a); cm = set_buf a b cm
                 in chunk_finish enc_ack dispatch req a v respBuf (at_reject clk) cm)))"

subsection \<open>The critical section\<close>

definition seg_of :: "chunk_frame \<Rightarrow> ChunkSegment" where
  "seg_of f = \<lparr>Offset = fr_offset f, Length = of_nat (length (fr_data f))\<rparr>"

text \<open>A decoded frame: \<open>DataLength\<close> is an int32.\<close>

definition wf_frame :: "chunk_frame \<Rightarrow> bool" where
  "wf_frame f \<longleftrightarrow> length (fr_data f) < 2 ^ 31"

lemma wf_frame_len [simp]: "wf_frame f \<Longrightarrow> unat (of_nat (length (fr_data f)) :: u32) = length (fr_data f)"
  by (simp add: wf_frame_def unsigned_of_nat take_bit_nat_eq_self)

lemma seg_of_simps [simp]:
  "Offset (seg_of f) = fr_offset f" "wf_frame f \<Longrightarrow> unat (Length (seg_of f)) = length (fr_data f)"
  by (simp_all add: seg_of_def)

lemma bounds_check:
  assumes "wf_frame f" and "n < 2 ^ 32"
  shows "(ucast (fr_offset f) :: u64) + of_nat (length (fr_data f)) > of_nat n \<longleftrightarrow>
    unat (fr_offset f) + length (fr_data f) > n"
proof -
  have "unat (fr_offset f) + length (fr_data f) < 2 ^ 64"
    using assms(1) unat_u32 [of "fr_offset f"] by (simp add: wf_frame_def)
  then show ?thesis using assms
    by (simp add: word_less_nat_alt unat_word_ariths unat_wide unsigned_of_nat take_bit_nat_eq_self
        wf_frame_def)
qed

text \<open>The bytes in place: each recorded segment holds the data of a frame of \<open>F\<close>.\<close>

definition holds :: "chunk_frame set \<Rightarrow> ChunkBuffer \<Rightarrow> bool" where
  "holds F b \<longleftrightarrow> (\<forall>s \<in> set (Segments b). \<exists>f \<in> F. s = seg_of f \<and> wf_frame f \<and>
     (\<forall>k < length (fr_data f). Data b ! (seg_start s + k) = fr_data f ! k))"

text \<open>What the section does in each of its cases, for a buffer that keeps its invariant.\<close>

lemma chunk_section_reject:
  assumes "buf_ok b" and "wf_frame f"
    and "unat (fr_offset f) + length (fr_data f) > length (Data b) \<or> fr_data f = []"
  shows "fst (chunk_section f b) \<in> {OutOfBounds, ZeroLength} \<and> snd (chunk_section f b) = b"
proof -
  have "length (Data b) < 2 ^ 32" using assms(1) by (simp add: buf_ok_def)
  from bounds_check [OF assms(2) this] show ?thesis using assms(3)
    by (auto simp: chunk_section_def Let_def)
qed

lemma chunk_section_in_bounds:
  assumes "buf_ok b" and "wf_frame f" and "fr_data f \<noteq> []"
    and "unat (fr_offset f) + length (fr_data f) \<le> length (Data b)"
  shows "chunk_section f b =
    (case ClaimSegment b (fr_offset f) (of_nat (length (fr_data f))) of
       (ClaimOverlap, b') \<Rightarrow> (Overlapping, b')
     | (ClaimDuplicate, b') \<Rightarrow>
         if Received b' = TotalSize b' \<and> \<not> Dispatched b' then (Completed, b'\<lparr>Dispatched := True\<rparr>)
         else (Stored, b')
     | (ClaimNew, b') \<Rightarrow>
         let b'' = b'\<lparr>Data := copy_at (unat (fr_offset f)) (fr_data f) (Data b'),
                      Received := Received b' + int (length (fr_data f))\<rparr>
         in if Received b'' = TotalSize b'' \<and> \<not> Dispatched b'' then (Completed, b''\<lparr>Dispatched := True\<rparr>)
            else (Stored, b''))"
proof -
  have "length (Data b) < 2 ^ 32" using assms(1) by (simp add: buf_ok_def)
  from bounds_check [OF assms(2) this] show ?thesis using assms(3,4)
    by (auto simp: chunk_section_def Let_def split: prod.split ChunkClaim.split)
qed

text \<open>The three in-bounds cases, as facts about segments.\<close>

lemma chunk_section_overlap:
  assumes "buf_ok b" and "wf_frame f" and "fr_data f \<noteq> []"
    and "unat (fr_offset f) + length (fr_data f) \<le> length (Data b)"
    and "seg_of f \<notin> set (Segments b)" and "\<exists>s \<in> set (Segments b). overlaps s (seg_of f)"
  shows "chunk_section f b = (Overlapping, b)"
proof -
  have "segs_ok (length (Data b)) (Segments b)" using assms(1) by (simp add: buf_ok_def)
  from ClaimSegment_spec [OF this, of "of_nat (length (fr_data f))" "fr_offset f", folded seg_of_def]
  show ?thesis using assms unfolding chunk_section_in_bounds [OF assms(1-4)]
    by (auto split: prod.splits ChunkClaim.splits)
qed

lemma chunk_section_duplicate:
  assumes "buf_ok b" and "wf_frame f" and "fr_data f \<noteq> []"
    and "unat (fr_offset f) + length (fr_data f) \<le> length (Data b)"
    and "seg_of f \<in> set (Segments b)"
  shows "chunk_section f b = (Stored, b)"
proof -
  have ok: "segs_ok (length (Data b)) (Segments b)" "Dispatched b \<longleftrightarrow> Received b = TotalSize b"
    using assms(1) by (auto simp: buf_ok_def)
  have "overlaps (seg_of f) (seg_of f)" using assms(2,3) by (simp add: overlaps_def)
  with ClaimSegment_spec [OF ok(1), of "of_nat (length (fr_data f))" "fr_offset f", folded seg_of_def]
  show ?thesis using assms ok(2) unfolding chunk_section_in_bounds [OF assms(1-4)]
    by (auto split: prod.splits ChunkClaim.splits)
qed

lemma chunk_section_new:
  assumes "buf_ok b" and "wf_frame f" and "fr_data f \<noteq> []"
    and "unat (fr_offset f) + length (fr_data f) \<le> length (Data b)"
    and "\<not> (\<exists>s \<in> set (Segments b). overlaps s (seg_of f))"
  shows "\<exists>segs. segs_ok (length (Data b)) segs \<and> set segs = insert (seg_of f) (set (Segments b)) \<and>
    seg_total segs = seg_total (Segments b) + length (fr_data f) \<and>
    chunk_section f b =
      (if Received b + int (length (fr_data f)) = TotalSize b then Completed else Stored,
       b\<lparr>Segments := segs, Data := copy_at (unat (fr_offset f)) (fr_data f) (Data b),
         Received := Received b + int (length (fr_data f)),
         Dispatched := (Received b + int (length (fr_data f)) = TotalSize b)\<rparr>)"
proof -
  have ok: "segs_ok (length (Data b)) (Segments b)" and d: "Dispatched b \<longleftrightarrow> Received b = TotalSize b"
    and r: "Received b = int (seg_total (Segments b))" "int (length (Data b)) = TotalSize b"
    using assms(1) by (auto simp: buf_ok_def)
  have "overlaps (seg_of f) (seg_of f)" using assms(2,3) by (simp add: overlaps_def)
  with ClaimSegment_spec [OF ok, of "of_nat (length (fr_data f))" "fr_offset f", folded seg_of_def] assms
  obtain i where i: "i \<le> length (Segments b)"
    "ClaimSegment b (fr_offset f) (of_nat (length (fr_data f))) =
       (ClaimNew, b\<lparr>Segments := take i (Segments b) @ [seg_of f] @ drop i (Segments b)\<rparr>)"
    "segs_ok (length (Data b)) (take i (Segments b) @ [seg_of f] @ drop i (Segments b))"
    by (auto split: prod.splits ChunkClaim.splits)
  let ?segs = "take i (Segments b) @ [seg_of f] @ drop i (Segments b)"
  have tot: "seg_total ?segs = seg_total (Segments b) + length (fr_data f)"
    using assms(2) by (simp only: seg_total_insert seg_of_simps)
  have "\<not> Dispatched b"
  proof
    assume "Dispatched b"
    then have "int (seg_total (Segments b)) = int (length (Data b))" using d r by simp
    moreover have "0 < length (fr_data f)" using assms(3) by simp
    ultimately show False using segs_cover(1) [OF i(3)] tot by linarith
  qed
  moreover have "set ?segs = insert (seg_of f) (set (Segments b))"
    using append_take_drop_id [of i "Segments b"] by (metis Un_insert_right append_Cons append_Nil list.simps(15) set_append)
  ultimately show ?thesis using i tot unfolding chunk_section_in_bounds [OF assms(1-4)]
    by (intro exI [of _ ?segs]) (auto simp: Let_def)
qed

text \<open>Every outcome of the section, with what it keeps.\<close>

lemma chunk_section_outcome:
  assumes ok: "buf_ok b" and wf: "wf_frame f" and res: "chunk_section f b = (v, b')"
  shows "(v \<in> {OutOfBounds, ZeroLength, Overlapping} \<and> b' = b) \<or>
    (v = Stored \<and> b' = b \<and> seg_of f \<in> set (Segments b)) \<or>
    (v = (if Dispatched b' then Completed else Stored) \<and> \<not> Dispatched b \<and>
     (\<forall>s \<in> set (Segments b). \<not> overlaps s (seg_of f)) \<and>
     set (Segments b') = insert (seg_of f) (set (Segments b)) \<and>
     Data b' = copy_at (unat (fr_offset f)) (fr_data f) (Data b) \<and>
     unat (fr_offset f) + length (fr_data f) \<le> length (Data b) \<and>
     TotalSize b' = TotalSize b \<and> LastAccess b' = LastAccess b \<and> buf_ok b')"
proof (cases "unat (fr_offset f) + length (fr_data f) > length (Data b) \<or> fr_data f = []")
  case True
  then show ?thesis using chunk_section_reject [OF ok wf] res by auto
next
  case False
  then have in_b: "fr_data f \<noteq> []" "unat (fr_offset f) + length (fr_data f) \<le> length (Data b)" by auto
  consider "seg_of f \<in> set (Segments b)"
    | "seg_of f \<notin> set (Segments b)" "\<exists>s \<in> set (Segments b). overlaps s (seg_of f)"
    | "\<not> (\<exists>s \<in> set (Segments b). overlaps s (seg_of f))" by blast
  then show ?thesis
  proof cases
    case 1
    then show ?thesis using chunk_section_duplicate [OF ok wf in_b] res by auto
  next
    case 2
    then show ?thesis using chunk_section_overlap [OF ok wf in_b] res by auto
  next
    case 3
    obtain segs where s: "segs_ok (length (Data b)) segs" "set segs = insert (seg_of f) (set (Segments b))"
      "seg_total segs = seg_total (Segments b) + length (fr_data f)"
      "chunk_section f b =
        (if Received b + int (length (fr_data f)) = TotalSize b then Completed else Stored,
         b\<lparr>Segments := segs, Data := copy_at (unat (fr_offset f)) (fr_data f) (Data b),
           Received := Received b + int (length (fr_data f)),
           Dispatched := (Received b + int (length (fr_data f)) = TotalSize b)\<rparr>)"
      using chunk_section_new [OF ok wf in_b 3] by blast
    have "\<not> Dispatched b"
    proof
      assume "Dispatched b"
      then have "int (seg_total (Segments b)) = int (length (Data b))" using ok by (simp add: buf_ok_def)
      moreover have "0 < length (fr_data f)" using in_b by simp
      ultimately show False using segs_cover(1) [OF s(1)] s(3) by linarith
    qed
    moreover have "buf_ok b'" using s res ok in_b by (auto simp: buf_ok_def)
    ultimately show ?thesis using s res in_b 3 by auto
  qed
qed

lemma chunk_section_ok: "buf_ok b \<Longrightarrow> wf_frame f \<Longrightarrow> buf_ok (snd (chunk_section f b))"
  using chunk_section_outcome [of b f "fst (chunk_section f b)" "snd (chunk_section f b)"] by auto

lemma chunk_section_size [simp]:
  "buf_ok b \<Longrightarrow> wf_frame f \<Longrightarrow> TotalSize (snd (chunk_section f b)) = TotalSize b"
  using chunk_section_outcome [of b f "fst (chunk_section f b)" "snd (chunk_section f b)"] by auto

lemma holds_mono: "holds F b \<Longrightarrow> F \<subseteq> G \<Longrightarrow> holds G b"
  unfolding holds_def by blast

lemma holds_new [simp]: "holds F (new_buffer tot t)"
  by (simp add: holds_def new_buffer_def)

lemma holds_touch [simp]: "holds F (b\<lparr>LastAccess := t\<rparr>) = holds F b"
  by (simp add: holds_def)

lemma chunk_section_holds:
  assumes "buf_ok b" and "wf_frame f" and "holds F b"
  shows "holds (insert f F) (snd (chunk_section f b))"
proof -
  obtain v b' where r: "chunk_section f b = (v, b')" by (cases "chunk_section f b")
  from chunk_section_outcome [OF assms(1,2) r] consider "b' = b"
    | "\<forall>s \<in> set (Segments b). \<not> overlaps s (seg_of f)"
      "set (Segments b') = insert (seg_of f) (set (Segments b))"
      "Data b' = copy_at (unat (fr_offset f)) (fr_data f) (Data b)"
      "unat (fr_offset f) + length (fr_data f) \<le> length (Data b)" by auto
  then show ?thesis
  proof cases
    case 1
    then show ?thesis using r assms(3) holds_mono [of F b "insert f F"] by auto
  next
    case 2
    have old: "\<exists>g \<in> F. s = seg_of g \<and> wf_frame g \<and>
        (\<forall>k < length (fr_data g). Data b' ! (seg_start s + k) = fr_data g ! k)"
      if s: "s \<in> set (Segments b)" for s
    proof -
      obtain g where g: "g \<in> F" "s = seg_of g" "wf_frame g"
        "\<forall>k < length (fr_data g). Data b ! (seg_start s + k) = fr_data g ! k"
        using assms(3) s unfolding holds_def by blast
      have "segs_ok (length (Data b)) (Segments b)" using assms(1) by (simp add: buf_ok_def)
      then have e: "seg_end s \<le> length (Data b)" using s by (simp add: segs_ok_def)
      have "\<not> overlaps s (seg_of f)" using 2(1) s by blast
      then have "Data b' ! (seg_start s + k) = fr_data g ! k" if "k < length (fr_data g)" for k
        using g that e 2(4) assms(2) by (auto simp: 2(3) nth_copy_at overlaps_def)
      with g show ?thesis by blast
    qed
    have "Data b' ! (unat (fr_offset f) + k) = fr_data f ! k" if "k < length (fr_data f)" for k
      using that 2(4) by (simp add: 2(3) nth_copy_at)
    with old 2(2) assms(2) r show ?thesis by (auto simp: holds_def; metis)
  qed
qed

text \<open>A complete buffer: every byte of it is a byte of one received frame.\<close>

lemma complete_bytes:
  assumes "buf_ok b" and "Dispatched b" and "holds F b" and "k < length (Data b)"
  shows "\<exists>f \<in> F. unat (fr_offset f) \<le> k \<and> k < unat (fr_offset f) + length (fr_data f) \<and>
    Data b ! k = fr_data f ! (k - unat (fr_offset f))"
proof -
  have s: "segs_ok (length (Data b)) (Segments b)" "seg_total (Segments b) = length (Data b)"
    using assms(1,2) by (auto simp: buf_ok_def)
  then obtain s where s: "s \<in> set (Segments b)" "seg_start s \<le> k" "k < seg_end s"
    using segs_cover(2) [OF s assms(4)] by auto
  with assms(3) obtain f where f: "f \<in> F" "s = seg_of f" "wf_frame f"
    "\<forall>j < length (fr_data f). Data b ! (seg_start s + j) = fr_data f ! j" unfolding holds_def by blast
  have "k - seg_start s < length (fr_data f)" using s f by auto
  with f(4) have "Data b ! (seg_start s + (k - seg_start s)) = fr_data f ! (k - seg_start s)" by blast
  then have "Data b ! k = fr_data f ! (k - unat (fr_offset f))" using s(2) f(2) by simp
  with f s show ?thesis by auto
qed

subsection \<open>The handler as a whole\<close>

lemma set_buf_simps [simp]:
  "chunkCache (set_buf a b cm) = chunkCache cm" "poisoned (set_buf a b cm) = poisoned cm"
  "outgoingChunks (set_buf a b cm) = outgoingChunks cm" "length (bufs (set_buf a b cm)) = length (bufs cm)"
  "effectiveTTL (set_buf a b cm) = effectiveTTL cm"
  "effectiveMaxConcurrentTransfers (set_buf a b cm) = effectiveMaxConcurrentTransfers cm"
  "effectiveMaxPoisonedTransfers (set_buf a b cm) = effectiveMaxPoisonedTransfers cm"
  "effective_max_bytes (set_buf a b cm) = effective_max_bytes cm"
  "a < length (bufs cm) \<Longrightarrow> bufs (set_buf a b cm) ! a = b"
  "a' \<noteq> a \<Longrightarrow> bufs (set_buf a b cm) ! a' = bufs cm ! a'"
  by (simp_all add: set_buf_def)

lemma cm_ok_section:
  assumes "cm_ok cm" and "wf_frame f" and "a < length (bufs cm)"
  shows "cm_ok (set_buf a (snd (chunk_section f (bufs cm ! a))) cm)"
proof (rule cm_ok_set_buf [OF assms(1)])
  have "buf_ok (bufs cm ! a)" using cm_okD(6) [OF assms(1)] assms(3) by simp
  then show "buf_ok (snd (chunk_section f (bufs cm ! a)))"
    "TotalSize (snd (chunk_section f (bufs cm ! a))) = TotalSize (bufs cm ! a)"
    using assms(2) by (simp_all add: chunk_section_ok)
qed

lemma uint_u32 [simp]: "uint (x :: u32) < 4294967296"
  using uint_lt2p [of x] by simp

text \<open>A dispatcher is whatever the generated server does with the payload; it may use the manager.\<close>

lemma cm_ok_finish:
  assumes "cm_ok cm" and "\<And>p r mt c. cm_ok c \<Longrightarrow> cm_ok (snd (dispatch p r mt c))"
  shows "cm_ok (snd (chunk_finish enc_ack dispatch f a v respBuf now cm))"
  using assms by (simp add: chunk_finish_def cm_ok_poison cm_ok_remove)

lemma cm_ok_HandleChunk:
  assumes "cm_ok cm" and "wf_frame (dec data)"
    and "\<And>p r mt c. cm_ok c \<Longrightarrow> cm_ok (snd (dispatch p r mt c))"
  shows "cm_ok (snd (HandleChunk dec enc_ack dispatch data respBuf clk cm))"
proof -
  obtain refused c1 where p: "IsPoisoned (fr_id (dec data)) (at_poisoned clk) cm = (refused, c1)"
    by (metis prod.exhaust)
  have ok1: "cm_ok c1" using cm_ok_is_poisoned [OF assms(1), of "fr_id (dec data)" "at_poisoned clk"] p by simp
  obtain res c2 where g: "GetChunkBuffer (fr_id (dec data)) (uint (fr_total_size (dec data)))
      (at_prune clk) (at_new clk) (at_touch clk) c1 = (res, c2)"
    by (metis prod.exhaust)
  have "cm_ok (snd (GetChunkBuffer (fr_id (dec data)) (uint (fr_total_size (dec data)))
      (at_prune clk) (at_new clk) (at_touch clk) c1))"
    by (rule cm_ok_get [OF ok1]) simp
  then have ok2: "cm_ok c2" by (simp add: g)
  show ?thesis
  proof (cases res)
    case (Inr a)
    have "a < length (bufs c2)" using GetChunkBuffer_valid(1) [OF g [unfolded Inr] ok1] .
    from cm_ok_section [OF ok2 assms(2) this]
    have "cm_ok (set_buf a (snd (chunk_section (dec data) (bufs c2 ! a))) c2)" .
    then have "cm_ok (snd (chunk_finish enc_ack dispatch (dec data) a v respBuf (at_reject clk)
        (set_buf a (snd (chunk_section (dec data) (bufs c2 ! a))) c2)))" for v
      by (rule cm_ok_finish) (rule assms(3))
    then show ?thesis using ok1 p g Inr by (auto simp: HandleChunk_def Let_def split: prod.split)
  qed (use ok1 ok2 p g in \<open>simp add: HandleChunk_def Let_def\<close>)
qed

text \<open>The same with its sections named, for an id that is not poisoned.\<close>

lemma HandleChunk_sections:
  assumes "gm_get (poisoned cm) (fr_id (dec data)) = None"
    and "GetChunkBuffer (fr_id (dec data)) (uint (fr_total_size (dec data)))
      (at_prune clk) (at_new clk) (at_touch clk) cm = (Inr a, c)"
    and "chunk_section (dec data) (bufs c ! a) = (v, b)"
  shows "HandleChunk dec enc_ack dispatch data respBuf clk cm =
    chunk_finish enc_ack dispatch (dec data) a v respBuf (at_reject clk) (set_buf a b c)"
  using assms by (simp add: HandleChunk_def IsPoisoned_def)

lemma HandleChunk_poisoned:
  assumes "gm_get (poisoned cm) (fr_id (dec data)) = Some t" and "time_sub (at_poisoned clk) t \<le> effectiveTTL cm"
  shows "HandleChunk dec enc_ack dispatch data respBuf clk cm = ((0, MsgTypeSystemError, respBuf), cm)"
  using assms by (simp add: HandleChunk_def IsPoisoned_def)

end
