(* ===== verification/Chunk_Transfer.thy ===== *)
theory Chunk_Transfer
  imports Chunk_Handlers
begin

section \<open>A whole transfer: from Sender.Send to the dispatched payload\<close>

text \<open>
  What the two halves of the chunk protocol give together. \<open>covering\<close> is the contract between
  them: a set of frames that tile a payload. Any such set, whoever produced it, is reassembled into
  the payload, in any order and with any repetition of frames, and \<open>Sender.Send\<close> produces one.
\<close>

definition covering :: "bytes \<Rightarrow> u64 \<Rightarrow> u32 \<Rightarrow> chunk_frame set \<Rightarrow> bool" where
  "covering payload cid mt fs \<longleftrightarrow>
     (\<forall>f \<in> fs. fr_id f = cid \<and> fr_msg_type f = mt \<and> wf_frame f \<and> fr_data f \<noteq> [] \<and>
        fr_total_size f = of_nat (length payload) \<and>
        unat (fr_offset f) + length (fr_data f) \<le> length payload \<and>
        (\<forall>k < length (fr_data f). payload ! (unat (fr_offset f) + k) = fr_data f ! k)) \<and>
     (\<forall>f \<in> fs. \<forall>g \<in> fs. f = g \<or> \<not> overlaps (seg_of f) (seg_of g)) \<and>
     (\<forall>k < length payload. \<exists>f \<in> fs. unat (fr_offset f) \<le> k \<and> k < unat (fr_offset f) + length (fr_data f))"

lemma coveringD:
  assumes "covering payload cid mt fs" and "f \<in> fs"
  shows "fr_id f = cid" "fr_msg_type f = mt" "wf_frame f" "fr_data f \<noteq> []"
    "fr_total_size f = of_nat (length payload)"
    "unat (fr_offset f) + length (fr_data f) \<le> length payload"
    "k < length (fr_data f) \<Longrightarrow> payload ! (unat (fr_offset f) + k) = fr_data f ! k"
    "g \<in> fs \<Longrightarrow> f = g \<or> \<not> overlaps (seg_of f) (seg_of g)"
  using assms unfolding covering_def by blast+

lemma covering_seg_inj:
  assumes "covering payload cid mt fs" and "f \<in> fs" and "g \<in> fs" and "seg_of f = seg_of g"
  shows "f = g"
proof -
  have "0 < length (fr_data g)" using coveringD(4) [OF assms(1,3)] by simp
  moreover have "wf_frame g" by (rule coveringD(3) [OF assms(1,3)])
  ultimately have "overlaps (seg_of g) (seg_of g)" by (simp add: overlaps_def)
  with coveringD(8) [OF assms(1,2,3)] assms(4) show ?thesis by auto
qed

subsection \<open>The receiver in the middle of a transfer\<close>

definition midway :: "bytes \<Rightarrow> u64 \<Rightarrow> chunk_frame set \<Rightarrow> nat \<Rightarrow> ChunkManager \<Rightarrow> bool" where
  "midway payload cid F a cm \<longleftrightarrow>
     cm_ok cm \<and> gm_get (poisoned cm) cid = None \<and> gm_get (chunkCache cm) cid = Some a \<and>
     \<not> Dispatched (bufs cm ! a) \<and> TotalSize (bufs cm ! a) = int (length payload) \<and>
     set (Segments (bufs cm ! a)) = seg_of ` F \<and> holds F (bufs cm ! a)"

text \<open>Before the first frame of a transfer: nothing under its id, and room for one more.\<close>

definition admits :: "bytes \<Rightarrow> u64 \<Rightarrow> ChunkManager \<Rightarrow> bool" where
  "admits payload cid cm \<longleftrightarrow>
     cm_ok cm \<and> payload \<noteq> [] \<and> int (length payload) \<le> effective_max_bytes cm \<and> length payload < 2 ^ 32 \<and>
     gm_get (poisoned cm) cid = None \<and> gm_get (chunkCache cm) cid = None \<and>
     gm_len (chunkCache cm) < effectiveMaxConcurrentTransfers cm"

lemma midway_bound:
  assumes "midway payload cid F a cm"
  shows "a < length (bufs cm)" "buf_ok (bufs cm ! a)" "length (Data (bufs cm ! a)) = length payload"
    "int (length payload) \<le> effective_max_bytes cm" "payload \<noteq> []" "length payload < 2 ^ 32"
proof -
  have ok: "cm_ok cm" and get: "gm_get (chunkCache cm) cid = Some a"
    and t: "TotalSize (bufs cm ! a) = int (length payload)" using assms by (auto simp: midway_def)
  show a: "a < length (bufs cm)" by (rule cm_okD(4) [OF ok get])
  show b: "buf_ok (bufs cm ! a)" using cm_okD(6) [OF ok] a by simp
  show "length (Data (bufs cm ! a)) = length payload" "payload \<noteq> []" "length payload < 2 ^ 32"
    using b t by (auto simp: buf_ok_def)
  show "int (length payload) \<le> effective_max_bytes cm" using cm_okD(7) [OF ok, of "bufs cm ! a"] a t by simp
qed

lemma uint_total: "length payload < 2 ^ 32 \<Longrightarrow> uint (of_nat (length payload) :: u32) = int (length payload)"
  by (simp add: uint_nat unsigned_of_nat take_bit_nat_eq_self)

text \<open>Obtaining the buffer, in both situations.\<close>

lemma obtain_first:
  assumes "admits payload cid cm"
  shows "\<exists>c. GetChunkBuffer cid (int (length payload)) t1 t2 t3 cm = (Inr (length (bufs cm)), c) \<and>
    midway payload cid {} (length (bufs cm)) c"
proof -
  let ?n = "int (length payload)"
  have pos: "0 < ?n" using assms by (simp add: admits_def)
  have inst: "GetChunkBuffer cid ?n t1 t2 t3 cm = (Inr (length (bufs cm)), snd (install_buffer cid ?n t2 t3 cm))"
    using assms pos install_buffer_simps(1) [of cid ?n t2 t3 cm]
    by (cases "install_buffer cid ?n t2 t3 cm") (simp add: GetChunkBuffer_def admits_def Let_def)
  have "cm_ok (snd (install_buffer cid ?n t2 t3 cm))"
    by (rule cm_ok_install) (use assms pos in \<open>auto simp: admits_def\<close>)
  then have "midway payload cid {} (length (bufs cm)) (snd (install_buffer cid ?n t2 t3 cm))"
    using assms by (simp add: midway_def admits_def nth_append) (simp add: new_buffer_def)
  with inst show ?thesis by blast
qed

lemma obtain_again:
  assumes "midway payload cid F a cm"
  shows "GetChunkBuffer cid (int (length payload)) t1 t2 t3 cm = (Inr a, touch a t3 cm) \<and>
    midway payload cid F a (touch a t3 cm)"
proof
  note b = midway_bound [OF assms]
  have m: "gm_get (chunkCache cm) cid = Some a" "TotalSize (bufs cm ! a) = int (length payload)"
    using assms by (auto simp: midway_def)
  show "GetChunkBuffer cid (int (length payload)) t1 t2 t3 cm = (Inr a, touch a t3 cm)"
    using b(4,5) m by (simp add: GetChunkBuffer_def)
  have "cm_ok (touch a t3 cm)" using assms cm_ok_touch by (simp add: midway_def)
  moreover have "bufs (touch a t3 cm) ! a = (bufs cm ! a)\<lparr>LastAccess := t3\<rparr>"
    using b(1) by (simp add: touch_def)
  ultimately show "midway payload cid F a (touch a t3 cm)"
    using assms by (simp add: midway_def)
qed

lemma full_iff:
  assumes cov: "covering payload cid mt fs" and ok: "segs_ok (length payload) segs"
    and G: "set segs = seg_of ` G" "G \<subseteq> fs"
  shows "seg_total segs = length payload \<longleftrightarrow> G = fs"
  unfolding segs_cover_iff [OF ok]
proof
  assume full: "\<forall>k < length payload. \<exists>s \<in> set segs. seg_start s \<le> k \<and> k < seg_end s"
  show "G = fs"
  proof (rule subset_antisym [OF G(2)], rule subsetI)
    fix g assume g: "g \<in> fs"
    note c = coveringD [OF cov g]
    have lt: "unat (fr_offset g) < length payload" using c(4,6) by (cases "fr_data g") auto
    with full obtain h where h: "h \<in> G" "unat (fr_offset h) \<le> unat (fr_offset g)"
      "unat (fr_offset g) < seg_end (seg_of h)" unfolding G(1) by fastforce
    have "wf_frame h" "h \<in> fs" using h(1) G(2) coveringD(3) [OF cov] by auto
    moreover have "0 < length (fr_data g)" using c(4) by simp
    ultimately have "overlaps (seg_of h) (seg_of g)"
      using h unfolding overlaps_def seg_of_simps(1) seg_of_simps(2) [OF c(3)] by linarith
    with coveringD(8) [OF cov \<open>h \<in> fs\<close> g] h(1) show "g \<in> G" by auto
  qed
next
  assume "G = fs"
  show "\<forall>k < length payload. \<exists>s \<in> set segs. seg_start s \<le> k \<and> k < seg_end s"
  proof (intro allI impI)
    fix k assume "k < length payload"
    with cov obtain f where f: "f \<in> fs" "unat (fr_offset f) \<le> k" "k < unat (fr_offset f) + length (fr_data f)"
      unfolding covering_def by blast
    have "wf_frame f" by (rule coveringD(3) [OF cov f(1)])
    with f \<open>G = fs\<close> G(1) show "\<exists>s \<in> set segs. seg_start s \<le> k \<and> k < seg_end s"
      by (intro bexI [of _ "seg_of f"]) auto
  qed
qed

text \<open>One frame of a covering set, with some of the set already there.\<close>

lemma section_midway:
  assumes m: "midway payload cid F a cm" and cov: "covering payload cid mt fs"
    and F: "F \<subseteq> fs" and f: "f \<in> fs" and sec: "chunk_section f (bufs cm ! a) = (v, b)"
  shows "(v = Stored \<and> insert f F \<noteq> fs \<and> midway payload cid (insert f F) a (set_buf a b cm)) \<or>
    (v = Completed \<and> insert f F = fs \<and> Data b = payload)"
proof -
  let ?b = "bufs cm ! a"
  note B = midway_bound [OF m] and c = coveringD [OF cov f]
  have segs: "segs_ok (length payload) (Segments ?b)" "set (Segments ?b) = seg_of ` F"
    "Received ?b = int (seg_total (Segments ?b))" "\<not> Dispatched ?b" "holds F ?b"
    "Dispatched ?b \<longleftrightarrow> Received ?b = TotalSize ?b" "TotalSize ?b = int (length payload)"
    using B m by (auto simp: midway_def buf_ok_def)
  have inb: "unat (fr_offset f) + length (fr_data f) \<le> length (Data ?b)" using c(6) B(3) by simp
  have okm: "cm_ok (set_buf a b cm)"
    using cm_ok_section [OF _ c(3) B(1)] m sec by (simp add: midway_def)
  show ?thesis
  proof (cases "f \<in> F")
    case True
    then have "chunk_section f ?b = (Stored, ?b)"
      by (intro chunk_section_duplicate [OF B(2) c(3,4) inb]) (simp add: segs(2))
    then have "v = Stored" "set_buf a b cm = cm" using sec by (auto simp: set_buf_def)
    moreover have "F \<noteq> fs" using full_iff [OF cov segs(1,2) F] segs by auto
    ultimately show ?thesis using m True by (simp add: insert_absorb)
  next
    case False
    have "\<not> (\<exists>s \<in> set (Segments ?b). overlaps s (seg_of f))"
      using coveringD(8) [OF cov _ f] F False unfolding segs(2) by blast
    from chunk_section_new [OF B(2) c(3,4) inb this] obtain sg where sg:
      "segs_ok (length payload) sg" "set sg = insert (seg_of f) (set (Segments ?b))"
      "seg_total sg = seg_total (Segments ?b) + length (fr_data f)"
      "chunk_section f ?b =
        (if Received ?b + int (length (fr_data f)) = TotalSize ?b then Completed else Stored,
         ?b\<lparr>Segments := sg, Data := copy_at (unat (fr_offset f)) (fr_data f) (Data ?b),
           Received := Received ?b + int (length (fr_data f)),
           Dispatched := (Received ?b + int (length (fr_data f)) = TotalSize ?b)\<rparr>)"
      unfolding B(3) by blast
    have b: "b = ?b\<lparr>Segments := sg, Data := copy_at (unat (fr_offset f)) (fr_data f) (Data ?b),
           Received := Received ?b + int (length (fr_data f)),
           Dispatched := (Received ?b + int (length (fr_data f)) = TotalSize ?b)\<rparr>"
      and v: "v = (if Received ?b + int (length (fr_data f)) = TotalSize ?b then Completed else Stored)"
      using sec sg(4) by auto
    have "set sg = seg_of ` insert f F" "insert f F \<subseteq> fs" using sg(2) segs(2) F f by auto
    from full_iff [OF cov sg(1) this]
    have fin: "Received ?b + int (length (fr_data f)) = TotalSize ?b \<longleftrightarrow> insert f F = fs"
      using sg(3) segs(3,7) by auto
    have h: "holds (insert f F) b" using chunk_section_holds [OF B(2) c(3) segs(5)] sec by simp
    show ?thesis
    proof (cases "insert f F = fs")
      case False
      then have "midway payload cid (insert f F) a (set_buf a b cm)"
        using m okm h B(1) fin sg(2) segs(2) by (simp add: midway_def b)
      then show ?thesis using False v fin by simp
    next
      case True
      have okb: "buf_ok b" using chunk_section_ok [OF B(2) c(3)] sec by simp
      have len: "length (Data b) = length payload" using okb segs(7) by (simp add: b buf_ok_def)
      have "Data b ! k = payload ! k" if k: "k < length payload" for k
      proof -
        have "Dispatched b" using fin True by (simp add: b)
        from complete_bytes [OF okb this h] k len obtain g where g: "g \<in> fs"
          "unat (fr_offset g) \<le> k" "k < unat (fr_offset g) + length (fr_data g)"
          "Data b ! k = fr_data g ! (k - unat (fr_offset g))" using True by auto
        then show ?thesis using coveringD(7) [OF cov g(1), of "k - unat (fr_offset g)"] by simp
      qed
      then have "Data b = payload" using len by (simp add: nth_equalityI)
      then show ?thesis using True v fin by simp
    qed
  qed
qed

subsection \<open>Requests in sequence\<close>

text \<open>One transfer's state between requests: nothing yet, or midway.\<close>

definition stage :: "bytes \<Rightarrow> u64 \<Rightarrow> chunk_frame set \<Rightarrow> ChunkManager \<Rightarrow> bool" where
  "stage payload cid F cm \<longleftrightarrow> (F = {} \<and> admits payload cid cm) \<or> (\<exists>a. midway payload cid F a cm)"

lemma HandleChunk_stage:
  fixes dec :: "bytes \<Rightarrow> chunk_frame" and data respBuf clk
  defines "f \<equiv> dec data"
  assumes st: "stage payload cid F cm" and cov: "covering payload cid mt fs" and F: "F \<subseteq> fs" "f \<in> fs"
  shows "if insert f F = fs
    then \<exists>c. cm_ok c \<and> gm_get (chunkCache c) cid = None \<and>
      HandleChunk dec enc_ack dispatch data respBuf clk cm = dispatch payload respBuf mt c
    else \<exists>c. stage payload cid (insert f F) c \<and>
      HandleChunk dec enc_ack dispatch data respBuf clk cm =
        (SendAckOrChunk (BuildAckResponse enc_ack cid True) respBuf MsgAck, c)"
proof -
  have len: "length payload < 2 ^ 32"
    using st midway_bound(6) unfolding stage_def admits_def by blast
  note cf = coveringD [OF cov F(2)]
  have un: "gm_get (poisoned cm) (fr_id (dec data)) = None"
    using st cf(1) by (auto simp: stage_def admits_def midway_def f_def)
  obtain a c where g: "GetChunkBuffer cid (int (length payload)) (at_prune clk) (at_new clk) (at_touch clk) cm = (Inr a, c)"
    and m: "midway payload cid F a c"
    using st obtain_first [of payload cid cm "at_prune clk" "at_new clk" "at_touch clk"]
      obtain_again [of payload cid F _ cm "at_prune clk" "at_new clk" "at_touch clk"]
    unfolding stage_def by blast
  obtain v b where sec: "chunk_section f (bufs c ! a) = (v, b)" by (metis prod.exhaust)
  have H: "HandleChunk dec enc_ack dispatch data respBuf clk cm =
      chunk_finish enc_ack dispatch f a v respBuf (at_reject clk) (set_buf a b c)"
    unfolding f_def by (rule HandleChunk_sections [where dec = dec and data = data, OF un])
      (use g cf uint_total [OF len] sec in \<open>simp_all add: f_def\<close>)
  have okc: "cm_ok (set_buf a b c)"
    using cm_ok_section [OF _ cf(3) midway_bound(1) [OF m]] m sec by (simp add: midway_def)
  from section_midway [OF m cov F sec] show ?thesis
  proof (elim disjE conjE)
    assume v: "v = Stored" "insert f F \<noteq> fs" and n: "midway payload cid (insert f F) a (set_buf a b c)"
    then have "stage payload cid (insert f F) (set_buf a b c)" by (auto simp: stage_def)
    then show ?thesis using v H cf(1) by (auto simp: chunk_finish_def)
  next
    assume v: "v = Completed" "insert f F = fs" "Data b = payload"
    then show ?thesis
      using H cf(1,2) midway_bound(1) [OF m] cm_ok_remove [OF okc, of cid]
      by (intro if_P [THEN iffD2] exI [of _ "RemoveChunkBuffer cid (set_buf a b c)"])
         (auto simp: chunk_finish_def RemoveChunkBuffer_def)
  qed
qed

text \<open>A run of requests \<open>(data, respBuf, clock readings)\<close> through the handler.\<close>

fun handle_all ::
  "(bytes \<Rightarrow> chunk_frame) \<Rightarrow> (u64 option \<Rightarrow> bool \<Rightarrow> bytes) \<Rightarrow> dispatcher \<Rightarrow>
   (bytes \<times> bytes \<times> readings) list \<Rightarrow> ChunkManager \<Rightarrow> reply list \<times> ChunkManager" where
  "handle_all dec enc_ack dispatch [] cm = ([], cm)"
| "handle_all dec enc_ack dispatch ((data, respBuf, clk) # rs) cm =
     (let (r, cm) = HandleChunk dec enc_ack dispatch data respBuf clk cm;
          (more, cm) = handle_all dec enc_ack dispatch rs cm
      in (r # more, cm))"

definition ack_reply :: "(u64 option \<Rightarrow> bool \<Rightarrow> bytes) \<Rightarrow> u64 \<Rightarrow> bytes \<Rightarrow> reply" where
  "ack_reply enc_ack cid respBuf = SendAckOrChunk (BuildAckResponse enc_ack cid True) respBuf MsgAck"

definition arrived :: "(bytes \<Rightarrow> chunk_frame) \<Rightarrow> (bytes \<times> bytes \<times> readings) list \<Rightarrow> chunk_frame set" where
  "arrived dec rs = (dec \<circ> fst) ` set rs"

lemma arrived_simps [simp]:
  "arrived dec [] = {}" "arrived dec (r # rs) = insert (dec (fst r)) (arrived dec rs)"
  by (simp_all add: arrived_def)

lemma handle_all_stage:
  assumes "covering payload cid mt fs"
  shows "stage payload cid F cm \<Longrightarrow> F \<subseteq> fs \<Longrightarrow> arrived dec rs \<subseteq> fs \<Longrightarrow> F \<union> arrived dec rs \<noteq> fs \<Longrightarrow>
    \<exists>c. handle_all dec enc_ack dispatch rs cm = (map (\<lambda>r. ack_reply enc_ack cid (fst (snd r))) rs, c) \<and>
      stage payload cid (F \<union> arrived dec rs) c"
proof (induction rs arbitrary: F cm)
  case Nil
  then show ?case by simp
next
  case (Cons r rs)
  obtain data respBuf clk where r: "r = (data, respBuf, clk)" by (metis prod_cases3)
  let ?F = "insert (dec data) F"
  have ne: "?F \<noteq> fs" using Cons.prems r by auto
  have sub: "dec data \<in> fs" "?F \<subseteq> fs" using Cons.prems r by auto
  from HandleChunk_stage [where dec = dec and data = data and clk = clk and respBuf = respBuf and enc_ack = enc_ack and dispatch = dispatch,
      OF Cons.prems(1) assms Cons.prems(2) sub(1)] ne
  obtain c where c: "stage payload cid ?F c"
    "HandleChunk dec enc_ack dispatch data respBuf clk cm = (ack_reply enc_ack cid respBuf, c)"
    by (auto simp: ack_reply_def)
  have "?F \<union> arrived dec rs \<noteq> fs" using Cons.prems(4) r by simp
  from Cons.IH [OF c(1) sub(2) _ this] obtain d where
    "handle_all dec enc_ack dispatch rs c = (map (\<lambda>r. ack_reply enc_ack cid (fst (snd r))) rs, d)"
    "stage payload cid (?F \<union> arrived dec rs) d"
    using Cons.prems(3) by auto
  then show ?case using c r by simp
qed

subsection \<open>Sender frames tile the payload\<close>

definition frame_pos :: "chunk_frame list \<Rightarrow> nat \<Rightarrow> nat" where
  "frame_pos fs k = length (concat (map fr_data (take k fs)))"

lemma frame_pos_Suc: "k < length fs \<Longrightarrow> frame_pos fs (Suc k) = frame_pos fs k + length (fr_data (fs ! k))"
  by (simp add: frame_pos_def take_Suc_conv_app_nth)

lemma frame_pos_mono: "j \<le> k \<Longrightarrow> frame_pos fs j \<le> frame_pos fs k"
proof -
  assume "j \<le> k"
  then obtain d where "k = j + d" using le_Suc_ex by blast
  then show ?thesis by (simp add: frame_pos_def take_add)
qed

lemma frame_pos_end: "frame_pos fs (length fs) = length (concat (map fr_data fs))"
  by (simp add: frame_pos_def)

lemma frame_pos_find: "x < frame_pos fs k \<Longrightarrow> \<exists>j < k. frame_pos fs j \<le> x \<and> x < frame_pos fs (Suc j)"
proof (induction k)
  case (Suc k)
  then show ?case by (cases "x < frame_pos fs k") (auto simp: not_less intro: less_SucI)
qed (simp add: frame_pos_def)

lemma nth_concat_frames:
  assumes "k < length fs" and "j < length (fr_data (fs ! k))"
  shows "concat (map fr_data fs) ! (frame_pos fs k + j) = fr_data (fs ! k) ! j"
proof -
  have "concat (map fr_data fs) =
      concat (map fr_data (take k fs)) @ fr_data (fs ! k) @ concat (map fr_data (drop (Suc k) fs))"
    using arg_cong [OF id_take_nth_drop [OF assms(1)], of "\<lambda>l. concat (map fr_data l)"] by simp
  then have "concat (map fr_data fs) ! (frame_pos fs k + j) =
      (fr_data (fs ! k) @ concat (map fr_data (drop (Suc k) fs))) ! j"
    unfolding frame_pos_def by (metis nth_append_length_plus)
  then show ?thesis using assms(2) by (simp add: nth_append)
qed

lemma split_covering:
  assumes split: "split_of sd payload cid mt fs" and len: "length payload < 2 ^ 32"
    and cs: "chunkSize sd < 2 ^ 31"
  shows "covering payload cid mt (set fs)"
proof -
  have cat: "concat (map fr_data fs) = payload" using split by (simp add: split_of_def)
  have each: "fr_id f = cid" "fr_msg_type f = mt" "fr_total_size f = of_nat (length payload)"
      "fr_data f \<noteq> []" "wf_frame f" if "f \<in> set fs" for f
    using split cs that by (auto simp: split_of_def wf_frame_def dest!: bspec)
  have top: "frame_pos fs k \<le> length payload" if "k \<le> length fs" for k
    using frame_pos_mono [OF that, of fs] cat frame_pos_end [of fs] by simp
  have off: "unat (fr_offset (fs ! k)) = frame_pos fs k" if "k < length fs" for k
  proof -
    have "frame_pos fs k < 2 ^ 32" using top [of k] that len by simp
    then show ?thesis using split that
      by (simp add: split_of_def frame_pos_def [symmetric] unsigned_of_nat take_bit_nat_eq_self)
  qed
  have fend: "unat (fr_offset (fs ! k)) + length (fr_data (fs ! k)) = frame_pos fs (Suc k)" if "k < length fs" for k
    using off that frame_pos_Suc by simp
  have apart: "\<not> overlaps (seg_of (fs ! j)) (seg_of (fs ! k))" if "j < k" "k < length fs" for j k
    using that off [of k] fend [of j] frame_pos_mono [of "Suc j" k fs] each(5) [of "fs ! j"]
    by (simp add: overlaps_def)
  have sym: "overlaps s t = overlaps t s" for s t unfolding overlaps_def by (subst disj_commute) (rule refl)
  have three: "f = g \<or> \<not> overlaps (seg_of f) (seg_of g)" if fg: "f \<in> set fs" "g \<in> set fs" for f g
  proof -
    obtain j where j: "j < length fs" "f = fs ! j" using fg(1) unfolding in_set_conv_nth by blast
    obtain k where k: "k < length fs" "g = fs ! k" using fg(2) unfolding in_set_conv_nth by blast
    note jk = j k
    consider "j = k" | "j < k" | "k < j" by linarith
    then show ?thesis
    proof cases
      case 1
      then show ?thesis using jk by simp
    next
      case 2
      then show ?thesis using apart [of j k] jk by blast
    next
      case 3
      then show ?thesis using apart [of k j] jk sym by blast
    qed
  qed
  have inside: "unat (fr_offset f) + length (fr_data f) \<le> length payload \<and>
      (\<forall>j < length (fr_data f). payload ! (unat (fr_offset f) + j) = fr_data f ! j)" if f: "f \<in> set fs" for f
  proof -
    obtain k where k: "k < length fs" "f = fs ! k" using f unfolding in_set_conv_nth by blast
    then show ?thesis using fend [of k] top [of "Suc k"] nth_concat_frames [of k fs] off [of k] cat by simp
  qed
  have cover: "\<exists>f \<in> set fs. unat (fr_offset f) \<le> x \<and> x < unat (fr_offset f) + length (fr_data f)"
    if "x < length payload" for x
  proof -
    have "x < frame_pos fs (length fs)" using that cat by (simp add: frame_pos_end)
    then obtain k where "k < length fs" "frame_pos fs k \<le> x" "x < frame_pos fs (Suc k)"
      using frame_pos_find by blast
    then show ?thesis using off fend by (intro bexI [of _ "fs ! k"]) auto
  qed
  show ?thesis unfolding covering_def using each three inside cover by blast
qed

lemma reassemble:
  assumes "covering payload cid mt fs" and "admits payload cid cm"
    and "arrived dec rs \<subset> fs" and "insert (dec data) (arrived dec rs) = fs"
  shows "\<exists>c c'. handle_all dec enc_ack dispatch rs cm =
      (map (\<lambda>r. ack_reply enc_ack cid (fst (snd r))) rs, c) \<and>
    HandleChunk dec enc_ack dispatch data respBuf clk c = dispatch payload respBuf mt c' \<and>
    cm_ok c' \<and> gm_get (chunkCache c') cid = None"
proof -
  have st: "stage payload cid {} cm" using assms(2) by (simp add: stage_def)
  have rs: "arrived dec rs \<subseteq> fs" "{} \<union> arrived dec rs \<noteq> fs" using assms(3) by auto
  obtain c where c: "handle_all dec enc_ack dispatch rs cm =
      (map (\<lambda>r. ack_reply enc_ack cid (fst (snd r))) rs, c)" "stage payload cid (arrived dec rs) c"
    using handle_all_stage [OF assms(1) st empty_subsetI rs] by auto
  have "dec data \<in> fs" using assms(4) by auto
  from HandleChunk_stage [where dec = dec and data = data and clk = clk and respBuf = respBuf
      and enc_ack = enc_ack and dispatch = dispatch, OF c(2) assms(1) rs(1) this] c(1) assms(4)
  show ?thesis by auto
qed

subsection \<open>Pulling a response by acknowledgements\<close>

fun ack_all ::
  "(bytes \<Rightarrow> u64) \<Rightarrow> (string \<Rightarrow> chunk_frame \<Rightarrow> bytes) \<Rightarrow> (bytes \<times> bytes \<times> int) list \<Rightarrow> ChunkManager \<Rightarrow>
   reply list \<times> ChunkManager" where
  "ack_all ack_id enc [] cm = ([], cm)"
| "ack_all ack_id enc ((data, respBuf, wall) # rs) cm =
     (let (r, cm) = HandleAck ack_id enc data respBuf wall cm; (more, cm) = ack_all ack_id enc rs cm
      in (r # more, cm))"

definition ack_buf :: "bytes \<times> bytes \<times> int \<Rightarrow> bytes" where
  "ack_buf r = fst (snd r)"

lemma ack_buf_simp [simp]: "ack_buf (data, rb, wall) = rb"
  by (simp add: ack_buf_def)

text \<open>What each acknowledgement should pull, and the answer that carries it.\<close>

fun pulled :: "bytes \<Rightarrow> u64 \<Rightarrow> u32 \<Rightarrow> int \<Rightarrow> bytes list \<Rightarrow> chunk_frame option list" where
  "pulled payload tid mt off [] = []"
| "pulled payload tid mt off (rb # rbs) =
     (if off < int (length payload) then
        (let e = min (off + ChunkBudget rb) (int (length payload))
         in Some (frame_at payload tid mt off e) # pulled payload tid mt e rbs)
      else None # pulled payload tid mt off rbs)"

fun pull_reply :: "(string \<Rightarrow> chunk_frame \<Rightarrow> bytes) \<Rightarrow> chunk_frame option \<Rightarrow> bytes \<Rightarrow> reply" where
  "pull_reply enc None rb = (0, 0, rb)"
| "pull_reply enc (Some f) rb =
     (i32 (int (length (enc fileIdentifier f))), MsgChunk, copy_at 0 (enc fileIdentifier f) rb)"

definition pulled_data :: "chunk_frame option list \<Rightarrow> bytes" where
  "pulled_data fs = concat (map (\<lambda>f. case f of None \<Rightarrow> [] | Some f \<Rightarrow> fr_data f) fs)"

text \<open>The entry of an outgoing transfer that has been sent up to \<open>off\<close>.\<close>

definition sent_to :: "bytes \<Rightarrow> u64 \<Rightarrow> u32 \<Rightarrow> int \<Rightarrow> ChunkManager \<Rightarrow> bool" where
  "sent_to payload tid mt off cm \<longleftrightarrow> 0 \<le> off \<and> off \<le> int (length payload) \<and>
     (case gm_get (outgoingChunks cm) tid of
        None \<Rightarrow> off = int (length payload)
      | Some out \<Rightarrow> OutData out = payload \<and> OutOffset out = off \<and> OutMsgType out = mt)"

definition framing_bound :: "(string \<Rightarrow> chunk_frame \<Rightarrow> bytes) \<Rightarrow> bool" where
  "framing_bound enc \<longleftrightarrow>
     (\<forall>f. int (length (enc fileIdentifier f)) \<le> int (length (fr_data f)) + FramingOverhead)"

lemma frame_fits:
  assumes "framing_bound enc" and "FramingOverhead < int (length rb)"
    and "int (length (fr_data f)) \<le> ChunkBudget rb"
  shows "length (enc fileIdentifier f) \<le> length rb"
proof -
  have "int (length (enc fileIdentifier f)) \<le> int (length (fr_data f)) + FramingOverhead"
    using assms(1) unfolding framing_bound_def by blast
  with Budget_fits [OF assms(2)] assms(3) show ?thesis unfolding ChunkBudget_def by linarith
qed

lemma HandleAck_pull:
  assumes "sent_to payload tid mt off cm" and "framing_bound enc" and "FramingOverhead < int (length rb)"
    and "ack_id data = tid"
  shows "\<exists>cm'. HandleAck ack_id enc data rb wall cm =
      (pull_reply enc (hd (pulled payload tid mt off [rb])) rb, cm') \<and>
    sent_to payload tid mt (if off < int (length payload) then min (off + ChunkBudget rb) (int (length payload)) else off) cm'"
proof -
  have b: "0 < ChunkBudget rb" using Budget_range [of "int (length rb)"] by (simp add: ChunkBudget_def)
  have s: "0 \<le> off" "off \<le> int (length payload)" using assms(1) by (auto simp: sent_to_def)
  show ?thesis
  proof (cases "off < int (length payload)")
    case True
    then obtain out where out: "gm_get (outgoingChunks cm) tid = Some out" "OutData out = payload"
      "OutOffset out = off" "OutMsgType out = mt"
      using assms(1) by (auto simp: sent_to_def split: option.splits)
    define n where "n = (if int (length payload) - off < ChunkBudget rb then int (length payload) - off else ChunkBudget rb)"
    have n: "0 < n" "off + n = min (off + ChunkBudget rb) (int (length payload))" "n \<le> ChunkBudget rb"
      using True b by (auto simp: n_def)
    let ?f = "frame_at payload tid mt off (off + n)"
    have len: "int (length (slice payload off (off + n))) = n" using n s by (simp add: length_slice)
    then have ne: "length (slice payload off (off + n)) \<noteq> 0" using n(1) by linarith
    have "length (enc fileIdentifier ?f) \<le> length rb"
      by (rule frame_fits [OF assms(2,3)]) (use len n(3) in \<open>simp add: frame_at_def\<close>)
    then have fits: "SendAckOrChunk (BuildChunkResponse enc (slice payload off (off + n)) tid
        (int (length payload)) off mt) rb MsgChunk = pull_reply enc (Some ?f) rb"
      by (simp add: SendAckOrChunk_def BuildChunkResponse_def BuildFrame_def frame_at_def)
    let ?out = "out\<lparr>OutLastAccess := wall, OutOffset := off + n\<rparr>"
    let ?cm = "cm\<lparr>outgoingChunks := (if off + n \<ge> int (length payload) then gm_del tid (outgoingChunks cm)
        else gm_put tid ?out (outgoingChunks cm))\<rparr>"
    have next': "GetNextChunk tid (ChunkBudget rb) wall cm =
        (Some (slice payload off (off + n), mt, int (length payload), off), ?cm)"
      using True b by (simp add: GetNextChunk_def out Let_def n_def)
    have "HandleAck ack_id enc data rb wall cm = (pull_reply enc (Some ?f) rb, ?cm)"
      using ne by (simp add: HandleAck_def Let_def assms(4) next' fits)
    moreover have "sent_to payload tid mt (off + n) ?cm"
      using s n(1,2) out by (auto simp: sent_to_def)
    ultimately show ?thesis using True n(2) by (auto simp: Let_def)
  next
    case False
    then show ?thesis using assms(1,4) b
      by (auto simp: HandleAck_def GetNextChunk_def Let_def sent_to_def split: option.splits)
  qed
qed

lemma pulled_data_simps [simp]:
  "pulled_data [] = []" "pulled_data (None # fs) = pulled_data fs"
  "pulled_data (Some f # fs) = fr_data f @ pulled_data fs"
  by (simp_all add: pulled_data_def)

lemma budgets_nonneg: "0 \<le> sum_list (map ChunkBudget rbs)"
proof (induction rbs)
  case (Cons rb rbs)
  then show ?case using Budget_range [of "int (length rb)"] by (simp add: ChunkBudget_def)
qed simp

lemma pulled_frames:
  "length (pulled payload tid mt off rbs) = length rbs"
  "Some g \<in> set (pulled payload tid mt off rbs) \<Longrightarrow> fr_id g = tid \<and> fr_msg_type g = mt"
  by (induction rbs arbitrary: off) (auto simp: Let_def frame_at_def split: if_splits)

lemma pulled_content:
  "0 \<le> off \<Longrightarrow> off \<le> int (length payload) \<Longrightarrow> pulled_data (pulled payload tid mt off rbs) =
     slice payload off (min (off + sum_list (map ChunkBudget rbs)) (int (length payload)))"
proof (induction rbs arbitrary: off)
  case (Cons rb rbs)
  have b: "0 < ChunkBudget rb" for rb using Budget_range [of "int (length rb)"] by (simp add: ChunkBudget_def)
  have p: "0 \<le> sum_list (map ChunkBudget rbs)" by (rule budgets_nonneg)
  show ?case
  proof (cases "off < int (length payload)")
    case True
    let ?e = "min (off + ChunkBudget rb) (int (length payload))"
    let ?z = "min (off + sum_list (map ChunkBudget (rb # rbs))) (int (length payload))"
    have "pulled_data (pulled payload tid mt ?e rbs) =
        slice payload ?e (min (?e + sum_list (map ChunkBudget rbs)) (int (length payload)))"
      by (rule Cons.IH) (use Cons.prems b [of rb] in auto)
    also have "min (?e + sum_list (map ChunkBudget rbs)) (int (length payload)) = ?z" using p by auto
    finally have "pulled_data (pulled payload tid mt off (rb # rbs)) = slice payload off ?e @ slice payload ?e ?z"
      using True by (simp add: Let_def frame_at_def)
    then show ?thesis using slice_append [of off ?e ?z payload] Cons.prems b [of rb] p by auto
  next
    case False
    then have "off = int (length payload)" using Cons.prems by simp
    then show ?thesis using Cons.IH [of off] Cons.prems p b [of rb] by simp
  qed
qed simp

lemma ack_all_pull:
  assumes "framing_bound enc"
  shows "sent_to payload tid mt off cm \<Longrightarrow>
    (\<forall>(data, rb, wall) \<in> set rs. ack_id data = tid \<and> FramingOverhead < int (length rb)) \<Longrightarrow>
    fst (ack_all ack_id enc rs cm) =
      map2 (pull_reply enc) (pulled payload tid mt off (map ack_buf rs)) (map ack_buf rs)"
proof (induction rs arbitrary: off cm)
  case (Cons r rs)
  obtain data rb wall where r: "r = (data, rb, wall)" by (metis prod_cases3)
  let ?off = "if off < int (length payload) then min (off + ChunkBudget rb) (int (length payload)) else off"
  obtain c where c: "HandleAck ack_id enc data rb wall cm =
      (pull_reply enc (hd (pulled payload tid mt off [rb])) rb, c)" "sent_to payload tid mt ?off c"
    using HandleAck_pull [where wall = wall, OF Cons.prems(1) assms, of rb ack_id data] Cons.prems(2) r by auto
  have "fst (ack_all ack_id enc rs c) =
      map2 (pull_reply enc) (pulled payload tid mt ?off (map ack_buf rs)) (map ack_buf rs)"
    by (rule Cons.IH [OF c(2)]) (use Cons.prems(2) in auto)
  then show ?case using c(1) r by (auto simp: Let_def split: prod.split)
qed simp

lemma register_sent:
  assumes "framing_bound enc" and "FramingOverhead < int (length rb)"
  shows "\<exists>cm'. registerAckPullChunk enc payload rb mt tid wall cm =
      (pull_reply enc (Some (frame_at payload tid mt 0 (min (ChunkBudget rb) (int (length payload))))) rb, cm') \<and>
    sent_to payload tid mt (min (ChunkBudget rb) (int (length payload))) cm'"
proof -
  have b: "0 < ChunkBudget rb" using Budget_range [of "int (length rb)"] by (simp add: ChunkBudget_def)
  define n where "n = min (ChunkBudget rb) (int (length payload))"
  let ?f = "frame_at payload tid mt 0 n"
  have n: "(if int (length payload) < ChunkBudget rb then int (length payload) else ChunkBudget rb) = n"
    and n0: "0 \<le> n" "n \<le> int (length payload)" "n \<le> ChunkBudget rb"
    using b by (auto simp: n_def)
  have "length (enc fileIdentifier ?f) \<le> length rb"
    by (rule frame_fits [OF assms]) (use n0 in \<open>simp add: frame_at_def length_slice\<close>)
  moreover have "BuildChunkResponse enc (slice payload 0 n) tid (int (length payload)) 0 mt = enc fileIdentifier ?f"
    by (simp add: BuildChunkResponse_def BuildFrame_def frame_at_def)
  ultimately show ?thesis using n0(1,2)
    unfolding registerAckPullChunk_def n_def [symmetric] Let_def OutgoingChunk.simps n
    by (simp add: sent_to_def AddOutgoingChunk_def)
qed

subsection \<open>A concrete codec\<close>

text \<open>
  The FlatBuffers codec is a parameter with one law, that decoding a built frame gives its fields
  back. A fixed-layout codec over real bytes shows that the law can hold; the witnesses use it.
\<close>

primrec bytes_of :: "nat \<Rightarrow> nat \<Rightarrow> bytes" where
  "bytes_of 0 x = []"
| "bytes_of (Suc n) x = of_nat (x mod 256) # bytes_of n (x div 256)"

primrec nat_of :: "bytes \<Rightarrow> nat" where
  "nat_of [] = 0"
| "nat_of (b # bs) = unat b + 256 * nat_of bs"

lemma length_bytes_of [simp]: "length (bytes_of n x) = n"
  by (induction n arbitrary: x) simp_all

lemma nat_of_bytes_of: "x < 256 ^ n \<Longrightarrow> nat_of (bytes_of n x) = x"
proof (induction n arbitrary: x)
  case (Suc n)
  have "x div 256 < 256 ^ n" using Suc.prems by (simp add: less_mult_imp_div_less mult.commute)
  from Suc.IH [OF this] show ?case by (simp add: unsigned_of_nat take_bit_eq_mod)
qed simp

definition flat_enc :: "string \<Rightarrow> chunk_frame \<Rightarrow> bytes" where
  "flat_enc i f = bytes_of 8 (unat (fr_id f)) @ bytes_of 4 (unat (fr_total_size f)) @
     bytes_of 4 (unat (fr_offset f)) @ bytes_of 4 (unat (fr_msg_type f)) @ fr_data f"

definition flat_dec :: "bytes \<Rightarrow> chunk_frame" where
  "flat_dec d =
     \<lparr>fr_id = of_nat (nat_of (take 8 d)), fr_total_size = of_nat (nat_of (take 4 (drop 8 d))),
      fr_offset = of_nat (nat_of (take 4 (drop 12 d))), fr_data = drop 20 d,
      fr_msg_type = of_nat (nat_of (take 4 (drop 16 d)))\<rparr>"

lemma flat_dec_enc: "flat_dec (flat_enc i f) = f"
proof -
  have w: "nat_of (bytes_of 8 (unat x)) = unat x" for x :: u64
    by (rule nat_of_bytes_of) (rule order_less_le_trans [OF unsigned_less], simp)
  have h: "nat_of (bytes_of 4 (unat x)) = unat x" for x :: u32
    by (rule nat_of_bytes_of) (rule order_less_le_trans [OF unsigned_less], simp)
  show ?thesis by (simp add: flat_dec_def flat_enc_def w h)
qed

text \<open>The two frames of a three-byte payload in chunks of two bytes, and a run that starts from a new
  manager and ends with a dispatcher that only reports what it was given.\<close>

abbreviation demo_sender :: Sender where
  "demo_sender \<equiv> \<lparr>ChunkSize = 2, MaxTotalBytes = 0\<rparr>"

abbreviation demo_first :: chunk_frame where
  "demo_first \<equiv> \<lparr>fr_id = 7, fr_total_size = 3, fr_offset = 0, fr_data = [1, 2], fr_msg_type = 138\<rparr>"

abbreviation demo_second :: chunk_frame where
  "demo_second \<equiv> \<lparr>fr_id = 7, fr_total_size = 3, fr_offset = 2, fr_data = [3], fr_msg_type = 138\<rparr>"

abbreviation demo_readings :: readings where
  "demo_readings \<equiv> \<lparr>at_poisoned = 0, at_prune = 0, at_new = 0, at_touch = 0, at_reject = 0\<rparr>"

definition demo_dispatch :: dispatcher where
  "demo_dispatch payload respBuf mt cm = ((int (length payload), mt, payload), cm)"

definition demo_ack :: "u64 option \<Rightarrow> bool \<Rightarrow> bytes" where
  "demo_ack tid ok = [if ok then 1 else 0]"

definition demo_requests :: "(bytes \<times> bytes \<times> readings) list" where
  "demo_requests = [(flat_enc fileIdentifier demo_second, [0], demo_readings),
     (flat_enc fileIdentifier demo_second, [0], demo_readings)]"

lemma demo_frames: "frames_from demo_sender [1, 2, 3] 7 138 0 = [demo_first, demo_second]"
  by (simp add: frames_from.simps frame_at_def chunk_end_def chunkSize_def slice_def)

lemma demo_covering: "covering [1, 2, 3] 7 138 {demo_first, demo_second}"
  using split_covering [OF frames_from_split [of demo_sender "[1, 2, 3]" 7 138]]
  by (simp add: demo_frames chunkSize_def)

lemma demo_admits: "admits [1, 2, 3] 7 NewChunkManager"
  by (simp add: admits_def cm_ok_new NewChunkManager_def NewChunkManagerWithMax_def)
     (simp add: NewChunkManagerFromConfig_def Let_def effective_defs chunk_defaults)

lemma demo_arrived: "arrived flat_dec demo_requests = {demo_second}"
  by (simp add: arrived_def demo_requests_def flat_dec_enc)

subsection \<open>Properties\<close>

text \<open>C6. Reassembly is complete. Take any frames that tile a payload, an id that is neither poisoned
  nor in use, and room for one more transfer. Feed the frames in any order, with any repetitions, with any
  clock readings: every request before the one that completes the set is answered with an
  acknowledgement, and that one hands exactly the payload, under the frames' message type, to the
  dispatcher, with the transfer already removed from the table.\<close>

theorem reassembly_any_order:
  assumes "covering payload cid mt fs" and "admits payload cid cm"
    and "arrived dec rs \<subset> fs" and "insert (dec data) (arrived dec rs) = fs"
  shows "\<exists>c c'. handle_all dec enc_ack dispatch rs cm =
      (map (\<lambda>r. ack_reply enc_ack cid (fst (snd r))) rs, c) \<and>
    HandleChunk dec enc_ack dispatch data respBuf clk c = dispatch payload respBuf mt c' \<and>
    cm_ok c' \<and> gm_get (chunkCache c') cid = None"
  using assms by (rule reassemble)

theorem reassembly_any_order_witness:
  "\<exists>c c'. handle_all flat_dec demo_ack demo_dispatch demo_requests NewChunkManager =
      (map (\<lambda>r. ack_reply demo_ack 7 (fst (snd r))) demo_requests, c) \<and>
    HandleChunk flat_dec demo_ack demo_dispatch (flat_enc fileIdentifier demo_first) [0] demo_readings c =
      demo_dispatch [1, 2, 3] [0] 138 c' \<and>
    cm_ok c' \<and> gm_get (chunkCache c') 7 = None"
  by (rule reassembly_any_order [OF demo_covering demo_admits])
     (auto simp: demo_arrived flat_dec_enc)

text \<open>C2. The round trip. The frames \<open>Sender.Send\<close> got accepted (a successful send, any transport,
  any retries) arrive at \<open>HandleChunk\<close> in any order and with any repetition; given that the
  codec decodes what it built, the request that completes the set dispatches exactly the bytes
  that were sent, and all before it are acknowledged.\<close>

theorem send_receive_roundtrip:
  assumes "\<And>f. wf_frame f \<Longrightarrow> dec (enc fileIdentifier f) = f"
    and "admits payload cid cm" and "int (length payload) \<le> maxTotalBytes sd" and "chunkSize sd < 2 ^ 31"
    and "Send enc sd payload cid mt (recording send) policy (s, []) = (None, slept, s', tr)"
    and "fst ` set rs \<subset> set tr" and "insert data (fst ` set rs) = set tr"
  shows "\<exists>c c'. handle_all dec enc_ack dispatch rs cm =
      (map (\<lambda>r. ack_reply enc_ack cid (fst (snd r))) rs, c) \<and>
    HandleChunk dec enc_ack dispatch data respBuf clk c = dispatch payload respBuf mt c' \<and>
    cm_ok c' \<and> gm_get (chunkCache c') cid = None"
proof -
  let ?fs = "frames_from sd payload cid mt 0"
  have ne: "payload \<noteq> []" and len: "length payload < 2 ^ 32" using assms(2) by (auto simp: admits_def)
  have tr: "tr = map (enc fileIdentifier) ?fs"
    using deliver_recording [OF assms(5) [unfolded Send_deliver [OF ne assms(3)]]] by auto
  have cov: "covering payload cid mt (set ?fs)"
    by (rule split_covering [OF frames_from_split len assms(4)])
  have dec: "dec (enc fileIdentifier f) = f" if "f \<in> set ?fs" for f
    by (rule assms(1)) (rule coveringD(3) [OF cov that])
  have img: "dec ` set tr = set ?fs" using dec by (force simp: tr)
  have inj: "inj_on dec (set tr)" using dec by (auto simp: tr inj_on_def)
  have arr: "arrived dec rs = dec ` (fst ` set rs)" by (simp add: arrived_def image_comp)
  have "dec ` (fst ` set rs) \<noteq> dec ` set tr"
    using inj_on_image_eq_iff [OF inj, of "fst ` set rs" "set tr"] assms(6) by auto
  then have "arrived dec rs \<subset> set ?fs" using assms(6) unfolding arr img [symmetric] by auto
  moreover have "insert (dec data) (arrived dec rs) = set ?fs"
    unfolding arr img [symmetric] assms(7) [symmetric] by simp
  ultimately show ?thesis by (rule reassemble [OF cov assms(2)])
qed

theorem send_receive_roundtrip_witness:
  "\<exists>c c'. handle_all flat_dec demo_ack demo_dispatch demo_requests NewChunkManager =
      (map (\<lambda>r. ack_reply demo_ack 7 (fst (snd r))) demo_requests, c) \<and>
    HandleChunk flat_dec demo_ack demo_dispatch (flat_enc fileIdentifier demo_first) [0] demo_readings c =
      demo_dispatch [1, 2, 3] [0] 138 c' \<and>
    cm_ok c' \<and> gm_get (chunkCache c') 7 = None"
proof -
  have send: "Send flat_enc demo_sender [1, 2, 3] 7 138 (recording (\<lambda>w u. (None :: unit option, u))) NoRetry
      ((), []) = (None, [], (), [flat_enc fileIdentifier demo_first, flat_enc fileIdentifier demo_second])"
    by (simp add: Send_def maxTotalBytes_def go_defs send_loop.simps sendWithRetry_ok recording_step
        BuildFrame_def chunkSize_def slice_def Let_def)
  have "flat_enc fileIdentifier demo_first \<noteq> flat_enc fileIdentifier demo_second"
    by (simp add: flat_enc_def)
  then show ?thesis
    by (intro send_receive_roundtrip [OF _ demo_admits _ _ send])
       (auto simp: flat_dec_enc maxTotalBytes_def chunkSize_def go_defs demo_requests_def)
qed

text \<open>C7. The ACK-pull transport loses nothing. A response registered as an outgoing transfer and then
  pulled by acknowledgements, over response buffers of any sizes above the framing overhead: each answer
  carries the next frame of the payload (or nothing, once all of it has been sent), and the data
  of the first answer and the pulled ones concatenate to the payload as soon as the budgets of the buffers
  add up to its length.\<close>

theorem ack_pull_delivers:
  assumes "framing_bound enc" and "FramingOverhead < int (length rb)"
    and "\<forall>(data, rb', wall') \<in> set rs. ack_id data = tid \<and> FramingOverhead < int (length rb')"
    and "registerAckPullChunk enc payload rb mt tid wall cm = (first, cm')"
    and "int (length payload) \<le> ChunkBudget rb + sum_list (map (ChunkBudget \<circ> ack_buf) rs)"
  shows "\<exists>f fs. first = pull_reply enc (Some f) rb \<and> length fs = length rs \<and>
    fst (ack_all ack_id enc rs cm') = map2 (pull_reply enc) fs (map ack_buf rs) \<and>
    fr_data f @ pulled_data fs = payload \<and>
    (\<forall>g. g = f \<or> Some g \<in> set fs \<longrightarrow> fr_id g = tid \<and> fr_msg_type g = mt)"
proof -
  let ?n = "min (ChunkBudget rb) (int (length payload))"
  let ?fs = "pulled payload tid mt ?n (map ack_buf rs)"
  have b: "0 < ChunkBudget rb" using Budget_range [of "int (length rb)"] by (simp add: ChunkBudget_def)
  obtain reg: "first = pull_reply enc (Some (frame_at payload tid mt 0 ?n)) rb" and st: "sent_to payload tid mt ?n cm'"
    using register_sent [OF assms(1,2), of payload mt tid wall cm] assms(4) by auto
  have "min (?n + sum_list (map ChunkBudget (map ack_buf rs))) (int (length payload)) = int (length payload)"
    using assms(5) budgets_nonneg [of "map ack_buf rs"] by (simp add: min_def)
  then have "pulled_data ?fs = slice payload ?n (int (length payload))"
    using pulled_content [of ?n payload tid mt "map ack_buf rs"] b by simp
  then have "fr_data (frame_at payload tid mt 0 ?n) @ pulled_data ?fs = payload"
    using slice_append [of 0 ?n "int (length payload)" payload] b by (simp add: frame_at_def)
  with reg ack_all_pull [OF assms(1) st assms(3)] pulled_frames(1) [of payload tid mt ?n "map ack_buf rs"]
    pulled_frames(2) [of _ payload tid mt ?n "map ack_buf rs"]
  show ?thesis by (intro exI [of _ "frame_at payload tid mt 0 ?n"] exI [of _ ?fs]) (auto simp: frame_at_def)
qed

lemma flat_framing: "framing_bound flat_enc"
  by (simp add: framing_bound_def flat_enc_def go_defs)

theorem ack_pull_delivers_witness:
  "\<exists>f fs. fst (registerAckPullChunk flat_enc [1, 2, 3] (replicate 258 0) 138 7 0 NewChunkManager) =
      pull_reply flat_enc (Some f) (replicate 258 0) \<and> length fs = length [([] :: bytes, replicate 258 0 :: bytes, 0 :: int)] \<and>
    fst (ack_all (\<lambda>d. 7) flat_enc [([], replicate 258 0, 0)]
      (snd (registerAckPullChunk flat_enc [1, 2, 3] (replicate 258 0) 138 7 0 NewChunkManager))) =
      map2 (pull_reply flat_enc) fs (map ack_buf [([], replicate 258 0, 0)]) \<and>
    fr_data f @ pulled_data fs = [1, 2, 3] \<and>
    (\<forall>g. g = f \<or> Some g \<in> set fs \<longrightarrow> fr_id g = 7 \<and> fr_msg_type g = 138)"
  by (rule ack_pull_delivers [OF flat_framing _ _ prod.collapse [symmetric]])
     (simp_all add: go_defs ChunkBudget_def Budget_def)

subsection \<open>Refused transfers stay refused\<close>

lemma PoisonTransfer_marks:
  "gm_get (poisoned (PoisonTransfer tid t cm)) tid = Some t"
  "effectiveTTL (PoisonTransfer tid t cm) = effectiveTTL cm"
  "effectiveMaxPoisonedTransfers (PoisonTransfer tid t cm) = effectiveMaxPoisonedTransfers cm"
  by (simp_all add: PoisonTransfer_def Let_def)

lemma PoisonTransfer_drops:
  assumes "cm_ok cm"
  shows "gm_get (chunkCache (PoisonTransfer tid t cm)) tid = None"
proof -
  have ok: "gm_ok (gm_del tid (chunkCache cm))" by (rule gm_ok_del [OF cm_okD(1) [OF assms]])
  have "gm_get (gm_keep P (gm_del tid (chunkCache cm))) tid = None" for P
    by (simp add: gm_get_keep [OF ok])
  then show ?thesis by (simp add: PoisonTransfer_def Let_def pruneStaleChunkBuffersLocked_def)
qed

lemma GetChunkBuffer_limits:
  assumes "GetChunkBuffer tid tot t1 t2 t3 cm = (res, cm')"
  shows "effectiveTTL cm' = effectiveTTL cm" "effectiveMaxPoisonedTransfers cm' = effectiveMaxPoisonedTransfers cm"
proof -
  have "effectiveTTL cm' = effectiveTTL cm \<and> effectiveMaxPoisonedTransfers cm' = effectiveMaxPoisonedTransfers cm"
    using assms
  proof (cases rule: GetChunkBuffer_cases)
    case (installed c)
    then show ?thesis by (auto simp: install_buffer_def Let_def effective_update)
  qed auto
  then show "effectiveTTL cm' = effectiveTTL cm" "effectiveMaxPoisonedTransfers cm' = effectiveMaxPoisonedTransfers cm"
    by simp_all
qed

text \<open>What may happen to a manager after a refusal: a chunk request of any transfer, with its answer buffer and clock
  readings, a sweep of \<open>cleanupLoop\<close>, anything the outgoing operations leave in their own table, or a new order in which
  the next loops over the two other maps visit them.\<close>

datatype activity =
    Chunk bytes bytes readings
  | Sweeping int
  | Outgoing "(u64, OutgoingChunk) gomap"
  | Reordered "(u64, nat) gomap" "(u64, int) gomap"

fun activity_step ::
  "(bytes \<Rightarrow> chunk_frame) \<Rightarrow> (u64 option \<Rightarrow> bool \<Rightarrow> bytes) \<Rightarrow> dispatcher \<Rightarrow> activity \<Rightarrow> ChunkManager \<Rightarrow> ChunkManager" where
  "activity_step dec enc_ack dispatch (Chunk d rb k) cm = snd (HandleChunk dec enc_ack dispatch d rb k cm)"
| "activity_step dec enc_ack dispatch (Sweeping now) cm = Sweep now cm"
| "activity_step dec enc_ack dispatch (Outgoing m) cm = cm\<lparr>outgoingChunks := m\<rparr>"
| "activity_step dec enc_ack dispatch (Reordered cs ps) cm =
     (if mset cs = mset (chunkCache cm) \<and> mset ps = mset (poisoned cm) then cm\<lparr>chunkCache := cs, poisoned := ps\<rparr> else cm)"

text \<open>The clock readings of an activity come at most \<open>ttl\<close> after \<open>t\<close>; and the activities that may poison another transfer.\<close>

fun within :: "int \<Rightarrow> int \<Rightarrow> activity \<Rightarrow> bool" where
  "within t ttl (Chunk d rb k) \<longleftrightarrow> at_poisoned k - t \<le> ttl \<and> at_prune k - t \<le> ttl \<and> at_reject k - t \<le> ttl"
| "within t ttl (Sweeping now) \<longleftrightarrow> now - t \<le> ttl"
| "within t ttl _ \<longleftrightarrow> True"

fun may_poison_other :: "(bytes \<Rightarrow> chunk_frame) \<Rightarrow> u64 \<Rightarrow> activity \<Rightarrow> bool" where
  "may_poison_other dec cid (Chunk d rb k) \<longleftrightarrow> fr_id (dec d) \<noteq> cid"
| "may_poison_other dec cid _ \<longleftrightarrow> False"

text \<open>The entries that an entry made at \<open>t\<close> could be evicted before: those not older.\<close>

definition not_older :: "int \<Rightarrow> (u64, int) gomap \<Rightarrow> nat" where
  "not_older t m = length (filter (\<lambda>e. t \<le> snd e) m)"

text \<open>An entry made at \<open>t\<close> that \<open>n\<close> more poisonings cannot evict, and no buffer beside it.\<close>

definition refused_for :: "u64 \<Rightarrow> int \<Rightarrow> int \<Rightarrow> int \<Rightarrow> nat \<Rightarrow> ChunkManager \<Rightarrow> bool" where
  "refused_for cid t ttl cap n cm \<longleftrightarrow> gm_ok (poisoned cm) \<and> gm_ok (chunkCache cm) \<and>
     gm_get (poisoned cm) cid = Some t \<and> gm_get (chunkCache cm) cid = None \<and>
     effectiveTTL cm = ttl \<and> effectiveMaxPoisonedTransfers cm = cap \<and> int (not_older t (poisoned cm) + n) \<le> cap"

lemma not_older_le:
  "not_older t (gm_keep P m) \<le> not_older t m" "not_older t (gm_del k m) \<le> not_older t m"
  "not_older t (gm_put k v m) \<le> Suc (not_older t m)"
proof -
  show "not_older t (gm_keep P m) \<le> not_older t m"
    by (induction m) (auto simp: not_older_def gm_keep_def)
  show "not_older t (gm_del k m) \<le> not_older t m"
    by (induction m) (auto simp: not_older_def gm_del_def)
  show "not_older t (gm_put k v m) \<le> Suc (not_older t m)"
    by (induction m) (auto simp: not_older_def gm_put_def)
qed

lemma refused_for_cong:
  "poisoned cm' = poisoned cm \<Longrightarrow> chunkCache cm' = chunkCache cm \<Longrightarrow> effectiveTTL cm' = effectiveTTL cm \<Longrightarrow>
   effectiveMaxPoisonedTransfers cm' = effectiveMaxPoisonedTransfers cm \<Longrightarrow>
   refused_for cid t ttl cap n cm' = refused_for cid t ttl cap n cm"
  by (simp add: refused_for_def)

lemma refused_for_prune:
  assumes "refused_for cid t ttl cap n cm" and "now - t \<le> ttl"
  shows "refused_for cid t ttl cap n (pruneStaleChunkBuffersLocked now ttl cm)"
proof -
  have "0 < ttl" using assms(1) effective_pos(1) [of cm] by (simp add: refused_for_def)
  then have "time_sub now t \<le> ttl" using assms(2) by (intro time_sub_le) simp_all
  moreover have "int (not_older t (gm_keep P (poisoned cm)) + n) \<le> cap" for P
    using assms(1) not_older_le(1) [of t P "poisoned cm"] by (simp add: refused_for_def)
  ultimately show ?thesis using assms(1)
    by (simp add: refused_for_def pruneStaleChunkBuffersLocked_def gm_get_keep)
qed

lemma refused_for_is_poisoned:
  assumes "refused_for cid t ttl cap n cm" and "tid \<noteq> cid"
  shows "refused_for cid t ttl cap n (snd (IsPoisoned tid now cm))"
  using assms not_older_le(2) [of t tid "poisoned cm"]
  by (auto simp: refused_for_def IsPoisoned_def split: option.split)

lemma refused_for_get:
  assumes "refused_for cid t ttl cap n cm" and "tid \<noteq> cid" and "t1 - t \<le> ttl"
    and "GetChunkBuffer tid tot t1 t2 t3 cm = (res, cm')"
  shows "refused_for cid t ttl cap n cm'"
proof -
  have ttl: "effectiveTTL cm = ttl" using assms(1) by (simp add: refused_for_def)
  have c: "refused_for cid t ttl cap n c" if "c = cm \<or> c = pruneStaleChunkBuffersLocked t1 (effectiveTTL cm) cm" for c
    using that assms(1) refused_for_prune [OF assms(1,3)] ttl by auto
  from assms(4) show ?thesis
  proof (cases rule: GetChunkBuffer_cases)
    case (refused e)
    then show ?thesis using c by blast
  next
    case (reused a)
    then show ?thesis using assms(1) by (simp add: refused_for_def)
  next
    case (installed d)
    have "effectiveTTL cm' = effectiveTTL d" "effectiveMaxPoisonedTransfers cm' = effectiveMaxPoisonedTransfers d"
      by (simp_all add: installed(7) install_buffer_def Let_def effective_update)
    with c [OF installed(4)] assms(2) show ?thesis by (simp add: refused_for_def installed(7))
  qed
qed

lemma refused_for_reordered:
  assumes "refused_for cid t ttl cap n cm" "mset cs = mset (chunkCache cm)" "mset ps = mset (poisoned cm)"
  shows "refused_for cid t ttl cap n (cm\<lparr>chunkCache := cs, poisoned := ps\<rparr>)"
proof -
  have "not_older t ps = not_older t (poisoned cm)"
    using assms(3) unfolding not_older_def by (metis mset_filter size_mset)
  then show ?thesis using assms gm_permuted [of cs "chunkCache cm"] gm_permuted [of ps "poisoned cm"]
    by (simp add: refused_for_def)
qed

text \<open>A poisoning evicts the oldest entry of a full table, so it leaves this one alone while others are older.\<close>

lemma refused_for_poison:
  assumes "refused_for cid t ttl cap (Suc n) cm" and "tid \<noteq> cid" and "now - t \<le> ttl"
  shows "refused_for cid t ttl cap n (PoisonTransfer tid now cm)"
proof -
  have put: "refused_for cid t ttl cap n (c\<lparr>poisoned := gm_put tid now (poisoned c)\<rparr>)"
    if "refused_for cid t ttl cap (Suc n) c" for c
    using that assms(2) not_older_le(3) [of t tid now "poisoned c"] by (auto simp: refused_for_def)
  have evict: "refused_for cid t ttl cap (Suc n) (c\<lparr>poisoned := gm_del (fst (oldest_entry (poisoned c))) (poisoned c)\<rparr>)"
    if c: "refused_for cid t ttl cap (Suc n) c" and full: "gm_len (poisoned c) \<ge> cap" for c
  proof -
    let ?m = "poisoned c"
    have m: "gm_ok ?m" "gm_get ?m cid = Some t" "int (not_older t ?m) < cap" using c by (auto simp: refused_for_def)
    then have "?m \<noteq> []" by auto
    from oldest_entry_spec [OF this] obtain s where s: "(fst (oldest_entry ?m), s) \<in> set ?m" "\<forall>(k, at) \<in> set ?m. s \<le> at"
      by blast
    have "fst (oldest_entry ?m) \<noteq> cid"
    proof
      assume "fst (oldest_entry ?m) = cid"
      then have "s = t" using gm_get_in [OF m(1) s(1)] m(2) by simp
      then have "filter (\<lambda>e. t \<le> snd e) ?m = ?m" using s(2) by (auto simp: filter_id_conv)
      then show False using m(3) full by (simp add: not_older_def gm_len_def)
    qed
    then show ?thesis using c not_older_le(2) [of t "fst (oldest_entry ?m)" ?m] by (auto simp: refused_for_def)
  qed
  let ?c = "cm\<lparr>chunkCache := gm_del tid (chunkCache cm)\<rparr>"
  have c: "refused_for cid t ttl cap (Suc n) ?c" using assms(1,2) by (simp add: refused_for_def)
  from refused_for_prune [OF this assms(3)] have p: "refused_for cid t ttl cap (Suc n) (pruneStaleChunkBuffersLocked now ttl ?c)" .
  have lim: "effectiveMaxPoisonedTransfers ?c = cap" "effectiveTTL ?c = ttl" using c by (auto simp: refused_for_def)
  show ?thesis unfolding PoisonTransfer_def Let_def lim
    using put [OF c] put [OF p] put [OF evict [OF p]] by simp
qed

lemma refused_for_less: "refused_for cid t ttl cap (Suc n) cm \<Longrightarrow> refused_for cid t ttl cap n cm"
  by (auto simp: refused_for_def)

text \<open>A dispatcher that touches the manager only to queue an answer.\<close>

definition only_queues :: "dispatcher \<Rightarrow> bool" where
  "only_queues dispatch \<longleftrightarrow> (\<forall>p rb mt cm. \<exists>m. snd (dispatch p rb mt cm) = cm\<lparr>outgoingChunks := m\<rparr>)"

lemma refused_for_other_chunk:
  assumes r: "refused_for cid t ttl cap (Suc n) cm" and id: "fr_id (dec d) \<noteq> cid" and k: "within t ttl (Chunk d rb k)"
    and q: "only_queues dispatch"
  shows "refused_for cid t ttl cap n (snd (HandleChunk dec enc_ack dispatch d rb k cm))"
proof -
  obtain hit c1 where p: "IsPoisoned (fr_id (dec d)) (at_poisoned k) cm = (hit, c1)" by fastforce
  have r1: "refused_for cid t ttl cap (Suc n) c1" using refused_for_is_poisoned [OF r id, of "at_poisoned k"] p by simp
  obtain res c2 where g: "GetChunkBuffer (fr_id (dec d)) (uint (fr_total_size (dec d))) (at_prune k) (at_new k) (at_touch k) c1
      = (res, c2)" by fastforce
  have r2: "refused_for cid t ttl cap (Suc n) c2" using refused_for_get [OF r1 id _ g] k by simp
  have fin: "refused_for cid t ttl cap n (snd (chunk_finish enc_ack dispatch (dec d) a v rb (at_reject k) c))"
    if c: "refused_for cid t ttl cap (Suc n) c" for a v c
  proof -
    have "refused_for cid t ttl cap n (snd (dispatch p rb mt (RemoveChunkBuffer (fr_id (dec d)) c)))" for p mt
    proof -
      from q obtain m where "snd (dispatch p rb mt (RemoveChunkBuffer (fr_id (dec d)) c)) =
          RemoveChunkBuffer (fr_id (dec d)) c\<lparr>outgoingChunks := m\<rparr>" unfolding only_queues_def by blast
      with refused_for_less [OF c] id show ?thesis by (simp add: refused_for_def RemoveChunkBuffer_def)
    qed
    with refused_for_poison [OF c id] refused_for_less [OF c] k show ?thesis by (simp add: chunk_finish_def)
  qed
  have "refused_for cid t ttl cap (Suc n) (set_buf a b c2)" for a b
    using r2 by (simp add: refused_for_def set_buf_def)
  from fin [OF this] show ?thesis using p g refused_for_less [OF r1] refused_for_less [OF r2]
    by (auto simp: HandleChunk_def Let_def split: prod.split sum.split)
qed

lemma refused_for_chunk:
  assumes "refused_for cid t ttl cap n cm" and "fr_id (dec d) = cid" and "at_poisoned k - t \<le> ttl"
  shows "HandleChunk dec enc_ack dispatch d rb k cm = ((0, MsgTypeSystemError, rb), cm)"
proof -
  have t: "gm_get (poisoned cm) (fr_id (dec d)) = Some t" "effectiveTTL cm = ttl"
    using assms(1,2) by (auto simp: refused_for_def)
  then have "time_sub (at_poisoned k) t \<le> effectiveTTL cm"
    using assms(3) effective_pos(1) [of cm] by (intro time_sub_le) simp_all
  with t(1) show ?thesis by (rule HandleChunk_poisoned)
qed

lemma refused_for_activities:
  assumes "refused_for cid t ttl cap (length (filter (may_poison_other dec cid) as)) cm"
    and "\<forall>act \<in> set as. within t ttl act" and "only_queues dispatch"
  shows "refused_for cid t ttl cap 0 (fold (activity_step dec enc_ack dispatch) as cm)"
  using assms(1,2)
proof (induction as arbitrary: cm)
  case (Cons act as)
  let ?n = "length (filter (may_poison_other dec cid) as)"
  have "refused_for cid t ttl cap ?n (activity_step dec enc_ack dispatch act cm)"
  proof (cases act)
    case (Chunk d rb k)
    show ?thesis
    proof (cases "fr_id (dec d) = cid")
      case True
      then show ?thesis using refused_for_chunk [of cid t ttl cap ?n cm dec d k, OF _ True] Cons.prems Chunk by simp
    next
      case False
      then show ?thesis using refused_for_other_chunk [where dec = dec and d = d, OF _ False _ assms(3)] Cons.prems Chunk by simp
    qed
  next
    case (Sweeping now)
    have "refused_for cid t ttl cap ?n (pruneStaleChunkBuffersLocked now ttl cm)"
      using refused_for_prune Cons.prems Sweeping by simp
    moreover have "effectiveTTL cm = ttl" using Cons.prems by (simp add: refused_for_def)
    ultimately show ?thesis by (simp add: Sweeping Sweep_def runCleanupOnce_def Let_def refused_for_def)
  next
    case (Outgoing m)
    then show ?thesis using Cons.prems by (simp add: refused_for_def)
  next
    case (Reordered cs ps)
    have "refused_for cid t ttl cap ?n cm" using Cons.prems(1) by (simp add: Reordered)
    then show ?thesis using refused_for_reordered by (simp add: Reordered)
  qed
  with Cons show ?case by simp
qed simp

text \<open>What makes a chunk a violation: out of bounds, empty, or overlapping a received segment it does not repeat.\<close>

definition violates :: "chunk_frame \<Rightarrow> ChunkSegment list \<Rightarrow> bool" where
  "violates f segs \<longleftrightarrow> unat (fr_offset f) + length (fr_data f) > unat (fr_total_size f) \<or> fr_data f = [] \<or>
     seg_of f \<notin> set segs \<and> (\<exists>s \<in> set segs. overlaps s (seg_of f))"

lemma chunk_section_violates:
  assumes "buf_ok b" and "wf_frame f" and "TotalSize b = uint (fr_total_size f)" and "violates f (Segments b)"
  shows "fst (chunk_section f b) \<in> {OutOfBounds, ZeroLength, Overlapping}"
proof -
  have "length (Data b) = unat (fr_total_size f)"
    using assms(1,3) by (simp add: buf_ok_def) (metis nat_int unat_eq_nat_uint)
  then show ?thesis using chunk_section_reject [OF assms(1,2)] chunk_section_overlap [OF assms(1,2)] assms(4)
    by (fastforce simp: violates_def)
qed

text \<open>C3. A protocol violation is final for a time-to-live. When a chunk of a transfer that is not poisoned, and that gets its
  buffer, is out of bounds, empty, or overlaps what was received without repeating it, the caller gets the system error
  and the transfer's buffer leaves the table. From then on, whatever happens to the manager within the time-to-live of
  the refusal (chunks of this and of other transfers in any order, valid or not, sweeps, changes of the outgoing table, other orders of the maps),
  a chunk with its id is answered with the system error and changes nothing, and no buffer is there for it. The limit is
  that of the table: no more chunks of other transfers come than it has room for beside this entry and those that are not
  older, since a full table evicts its oldest entry; and the dispatcher touches no table but the outgoing one. (The calls come
  one after another; a request of the same id that has passed the poison check before the refusal is not one of these.)\<close>

theorem violation_poisons:
  assumes "cm_ok cm" and "wf_frame (dec data)" and "gm_get (poisoned cm) (fr_id (dec data)) = None"
    and "GetChunkBuffer (fr_id (dec data)) (uint (fr_total_size (dec data))) (at_prune clk) (at_new clk)
      (at_touch clk) cm = (Inr a, c)"
    and "violates (dec data) (Segments (bufs c ! a))"
    and "HandleChunk dec enc_ack dispatch data respBuf clk cm = (r, cm')"
    and "only_queues dispatch" and "\<forall>act \<in> set as. within (at_reject clk) (effectiveTTL cm) act"
    and "int (not_older (at_reject clk) (poisoned cm') + length (filter (may_poison_other dec (fr_id (dec data))) as))
      \<le> effectiveMaxPoisonedTransfers cm"
    and "fr_id (dec d) = fr_id (dec data)" and "at_poisoned k - at_reject clk \<le> effectiveTTL cm"
  shows "r = (0, MsgTypeSystemError, respBuf) \<and> gm_get (chunkCache cm') (fr_id (dec data)) = None \<and>
    (let later = fold (activity_step dec enc_ack dispatch) as cm'
     in HandleChunk dec enc_ack dispatch d rb k later = ((0, MsgTypeSystemError, rb), later) \<and>
        gm_get (chunkCache later) (fr_id (dec data)) = None)"
proof -
  obtain v b where sec: "chunk_section (dec data) (bufs c ! a) = (v, b)" by fastforce
  have "cm_ok (snd (GetChunkBuffer (fr_id (dec data)) (uint (fr_total_size (dec data))) (at_prune clk)
      (at_new clk) (at_touch clk) cm))" by (rule cm_ok_get [OF assms(1)]) simp
  then have c: "cm_ok c" using assms(4) by simp
  note a = GetChunkBuffer_valid(1,2) [OF assms(4,1)]
  have ok: "cm_ok (set_buf a b c)" using cm_ok_section [OF c assms(2) a(1)] sec by simp
  have "buf_ok (bufs c ! a)" using cm_okD(6) [OF c] a(1) by simp
  from chunk_section_violates [OF this assms(2) a(2) assms(5)] sec
  have H: "r = (0, MsgTypeSystemError, respBuf)" "cm' = PoisonTransfer (fr_id (dec data)) (at_reject clk) (set_buf a b c)"
    using HandleChunk_sections [where dec = dec and data = data, OF assms(3,4) sec, of enc_ack dispatch respBuf]
      assms(6) by (auto simp: chunk_finish_def)
  have gone: "gm_get (chunkCache cm') (fr_id (dec data)) = None" using PoisonTransfer_drops [OF ok] H(2) by simp
  have "refused_for (fr_id (dec data)) (at_reject clk) (effectiveTTL cm) (effectiveMaxPoisonedTransfers cm)
      (length (filter (may_poison_other dec (fr_id (dec data))) as)) cm'"
    using assms(9) gone cm_okD(1,2) [OF cm_ok_poison [OF ok, of "fr_id (dec data)" "at_reject clk"]]
      GetChunkBuffer_limits [OF assms(4)] by (simp add: refused_for_def H(2) PoisonTransfer_marks)
  from refused_for_activities [OF this assms(8,7), of enc_ack] refused_for_chunk [where dec = dec and d = d, OF _ assms(10,11)] H(1) gone
  show ?thesis by (simp add: Let_def) (auto simp: refused_for_def)
qed

theorem violation_poisons_witness:
  "\<exists>cm'. gm_get (chunkCache cm') 7 = None \<and>
    (let later = fold (activity_step flat_dec demo_ack demo_dispatch) [Sweeping 5, Chunk (flat_enc fileIdentifier
        \<lparr>fr_id = 8, fr_total_size = 3, fr_offset = 2, fr_data = [3, 4], fr_msg_type = 138\<rparr>) [0] demo_readings] cm'
     in HandleChunk flat_dec demo_ack demo_dispatch (flat_enc fileIdentifier demo_second) [0] demo_readings later =
        ((0, MsgTypeSystemError, [0]), later))"
proof -
  let ?bad = "\<lparr>fr_id = 7, fr_total_size = 3, fr_offset = 2, fr_data = [3, 4], fr_msg_type = 138\<rparr>"
  let ?other = "Chunk (flat_enc fileIdentifier (?bad\<lparr>fr_id := 8\<rparr>)) [0] demo_readings"
  have wf: "wf_frame ?bad" by (simp add: wf_frame_def)
  have empty: "poisoned NewChunkManager = []" "chunkCache NewChunkManager = []" "bufs NewChunkManager = []"
    "effective_max_bytes NewChunkManager = 268435456"
    "effectiveMaxConcurrentTransfers NewChunkManager = 1024" "effectiveMaxPoisonedTransfers NewChunkManager = 1024"
    "effectiveTTL NewChunkManager = 60000000000"
    by (simp_all add: NewChunkManager_def NewChunkManagerWithMax_def NewChunkManagerFromConfig_def Let_def effective_defs
      chunk_defaults)
  let ?c = "snd (install_buffer 7 3 0 0 NewChunkManager)"
  have g: "GetChunkBuffer 7 3 0 0 0 NewChunkManager = (Inr 0, ?c)"
    using install_buffer_simps(1) [of 7 3 0 0 NewChunkManager]
    by (cases "install_buffer 7 3 0 0 NewChunkManager") (simp add: GetChunkBuffer_def empty Let_def)
  have bad: "violates ?bad (Segments (bufs ?c ! 0))" by (simp add: violates_def)
  obtain r cm' where h: "HandleChunk flat_dec demo_ack demo_dispatch (flat_enc fileIdentifier ?bad) [0]
      demo_readings NewChunkManager = (r, cm')" by fastforce
  have "fst (chunk_section ?bad (bufs ?c ! 0)) = OutOfBounds"
    by (simp add: empty new_buffer_def chunk_section_def Let_def)
  then have "poisoned cm' = [(7, 0)]"
    using h g GetChunkBuffer_limits(2) [OF g] by (auto simp: HandleChunk_def IsPoisoned_def flat_dec_enc wf empty chunk_finish_def PoisonTransfer_def Let_def
        set_buf_def gm_put_def split: prod.splits)
  then have room: "int (not_older (at_reject demo_readings) (poisoned cm') +
      length (filter (may_poison_other flat_dec 7) [Sweeping 5, ?other])) \<le> effectiveMaxPoisonedTransfers NewChunkManager"
    by (simp add: not_older_def empty)
  have queues: "only_queues demo_dispatch"
    unfolding only_queues_def
  proof (intro allI exI)
    fix p rb mt and cm :: ChunkManager
    show "snd (demo_dispatch p rb mt cm) = cm\<lparr>outgoingChunks := outgoingChunks cm\<rparr>" by (simp add: demo_dispatch_def)
  qed
  have "cm_ok NewChunkManager" using demo_admits by (simp add: admits_def)
  with violation_poisons [where dec = flat_dec and data = "flat_enc fileIdentifier ?bad" and a = 0 and c = ?c
      and as = "[Sweeping 5, ?other]" and d = "flat_enc fileIdentifier demo_second" and k = demo_readings and rb = "[0]",
      OF _ _ _ _ _ h queues] wf g bad room
  show ?thesis by (intro exI [of _ cm']) (auto simp: flat_dec_enc empty Let_def)
qed

end
