(* ===== verification/Chunk_Concurrency.thy ===== *)
theory Chunk_Concurrency
  imports Chunk_Handlers
begin

section \<open>Concurrent requests\<close>

text \<open>
  \<open>HandleChunk\<close> runs on several goroutines at once, beside the cleanup loop. Between its critical
  sections anything may happen: \<open>GetChunkBuffer\<close> releases the manager's mutex before the buffer's
  is taken, \<open>PoisonTransfer\<close> and \<open>RemoveChunkBuffer\<close> take the manager's mutex again, and the
  payload is read without a lock. A request is a program counter, a step runs one critical section
  of one request (the definitions of \<open>Chunk_Handlers\<close>, unchanged), and the environment steps
  are the sweep, the outgoing side, new requests, and Go's freedom to reorder its maps. Clock
  readings are arbitrary in every step. \<open>owners\<close>, \<open>seen\<close> and \<open>dispatched\<close> are history: the id a
  buffer was allocated for, the frames that arrived, the payloads handed out.
\<close>

datatype pc =
    Arrived chunk_frame
  | Admitted chunk_frame
  | Holding chunk_frame nat
  | Judged chunk_frame nat section_verdict
  | Dispatching chunk_frame nat
  | Refused
  | Acked
  | Delivered

record world =
  manager :: ChunkManager
  threads :: "pc list"
  owners :: "u64 list"
  seen :: "chunk_frame set"
  dispatched :: "(nat \<times> bytes \<times> u32) list"

definition rejects :: "section_verdict \<Rightarrow> bool" where
  "rejects v \<longleftrightarrow> v = OutOfBounds \<or> v = ZeroLength \<or> v = Overlapping"

text \<open>One section of one request: the program counter, the manager and the owners before and
  after, and what it dispatched.\<close>

inductive section_step ::
  "pc \<Rightarrow> ChunkManager \<Rightarrow> u64 list \<Rightarrow> pc \<Rightarrow> ChunkManager \<Rightarrow> u64 list \<Rightarrow> (nat \<times> bytes \<times> u32) list \<Rightarrow> bool"
where
  poison_hit: "IsPoisoned (fr_id f) t cm = (True, cm') \<Longrightarrow>
    section_step (Arrived f) cm ow Refused cm' ow []"
| poison_miss: "IsPoisoned (fr_id f) t cm = (False, cm') \<Longrightarrow>
    section_step (Arrived f) cm ow (Admitted f) cm' ow []"
| get_refused: "GetChunkBuffer (fr_id f) (uint (fr_total_size f)) t1 t2 t3 cm = (Inl e, cm') \<Longrightarrow>
    section_step (Admitted f) cm ow Refused cm' ow []"
| get_buffer: "GetChunkBuffer (fr_id f) (uint (fr_total_size f)) t1 t2 t3 cm = (Inr a, cm') \<Longrightarrow>
    section_step (Admitted f) cm ow (Holding f a) cm'
      (if length (bufs cm) < length (bufs cm') then ow @ [fr_id f] else ow) []"
| under_mutex: "chunk_section f (bufs cm ! a) = (v, b) \<Longrightarrow>
    section_step (Holding f a) cm ow (Judged f a v) (set_buf a b cm) ow []"
| poison: "rejects v \<Longrightarrow>
    section_step (Judged f a v) cm ow Refused (PoisonTransfer (fr_id f) t cm) ow []"
| acknowledge: "section_step (Judged f a Stored) cm ow Acked cm ow []"
| remove_buffer: "section_step (Judged f a Completed) cm ow (Dispatching f a)
    (RemoveChunkBuffer (fr_id f) cm) ow []"
| dispatch: "section_step (Dispatching f a) cm ow Delivered cm ow
    [(a, Data (bufs cm ! a), fr_msg_type f)]"

text \<open>What else changes the manager. A map may be reordered, never changed, by its iteration.\<close>

inductive env_step :: "ChunkManager \<Rightarrow> ChunkManager \<Rightarrow> bool" where
  prune: "env_step cm (pruneStaleChunkBuffersLocked now ttl cm)"
| sweep_outgoing: "env_step cm (cm\<lparr>outgoingChunks :=
     gm_keep (\<lambda>tid out. \<not> time_sub now (OutLastAccess out) > ttl) (outgoingChunks cm)\<rparr>)"
| add_outgoing: "out_ok out \<Longrightarrow> env_step cm (AddOutgoingChunk tid out cm)"
| next_outgoing: "env_step cm (snd (GetNextChunk tid n wall cm))"
| remove_outgoing: "env_step cm (RemoveOutgoingChunk tid cm)"
| close_manager: "env_step cm (Close cm)"
| reorder: "gm_ok m \<Longrightarrow> gm_ok p \<Longrightarrow> set m = set (chunkCache cm) \<Longrightarrow> set p = set (poisoned cm) \<Longrightarrow>
    env_step cm (cm\<lparr>chunkCache := m, poisoned := p\<rparr>)"

inductive world_step :: "world \<Rightarrow> world \<Rightarrow> bool" where
  arrive: "wf_frame f \<Longrightarrow>
    world_step w (w\<lparr>threads := threads w @ [Arrived f], seen := insert f (seen w)\<rparr>)"
| environment: "env_step (manager w) cm \<Longrightarrow> world_step w (w\<lparr>manager := cm\<rparr>)"
| request: "i < length (threads w) \<Longrightarrow>
    section_step (threads w ! i) (manager w) (owners w) pc cm ow out \<Longrightarrow>
    world_step w (w\<lparr>manager := cm, threads := (threads w)[i := pc], owners := ow,
                    dispatched := dispatched w @ out\<rparr>)"

definition initial :: "ChunkManagerConfig \<Rightarrow> world" where
  "initial cfg = \<lparr>manager = NewChunkManagerFromConfig cfg, threads = [], owners = [], seen = {},
     dispatched = []\<rparr>"

inductive reachable :: "ChunkManagerConfig \<Rightarrow> world \<Rightarrow> bool" for cfg where
  start: "reachable cfg (initial cfg)"
| step: "reachable cfg w \<Longrightarrow> world_step w w' \<Longrightarrow> reachable cfg w'"

inductive_cases section_step_dispatchE: "section_step pc cm ow pc' cm' ow' (d # ds)"

subsection \<open>What a step leaves alone\<close>

text \<open>Operations that only take entries out of the table of buffers.\<close>

definition quiet :: "ChunkManager \<Rightarrow> ChunkManager \<Rightarrow> bool" where
  "quiet cm cm' \<longleftrightarrow> bufs cm' = bufs cm \<and> (cm_ok cm \<longrightarrow> cm_ok cm' \<and>
     (\<forall>tid a. gm_get (chunkCache cm') tid = Some a \<longrightarrow> gm_get (chunkCache cm) tid = Some a))"

lemma quiet_prune: "quiet cm (pruneStaleChunkBuffersLocked now ttl cm)"
proof -
  have "gm_get (chunkCache cm) tid = Some a"
    if "cm_ok cm" "gm_get (chunkCache (pruneStaleChunkBuffersLocked now ttl cm)) tid = Some a" for tid a
    using that cm_okD(1) [OF that(1)]
    by (auto simp: pruneStaleChunkBuffersLocked_def dest: gm_get_keep_Some)
  then show ?thesis by (auto simp: quiet_def cm_ok_prune)
qed

lemma quiet_is_poisoned: "quiet cm (snd (IsPoisoned tid t cm))"
  using cm_ok_is_poisoned by (auto simp: quiet_def IsPoisoned_def split: option.split)

lemma quiet_remove: "quiet cm (RemoveChunkBuffer tid cm)"
  using cm_ok_remove by (auto simp: quiet_def RemoveChunkBuffer_def split: if_splits)

lemma quiet_refl: "quiet cm cm"
  by (simp add: quiet_def)

lemma quiet_trans: "quiet a b \<Longrightarrow> quiet b c \<Longrightarrow> quiet a c"
  unfolding quiet_def by auto

lemma PoisonTransfer_tables:
  "bufs (PoisonTransfer tid t cm) = bufs cm"
  "chunkCache (PoisonTransfer tid t cm) = gm_del tid (chunkCache cm) \<or>
   chunkCache (PoisonTransfer tid t cm) =
     chunkCache (pruneStaleChunkBuffersLocked t (effectiveTTL cm) (RemoveChunkBuffer tid cm))"
  by (auto simp: PoisonTransfer_def Let_def RemoveChunkBuffer_def)

lemma quiet_poison: "quiet cm (PoisonTransfer tid t cm)"
proof -
  have "gm_get (chunkCache cm) k = Some a"
    if "cm_ok cm" "gm_get (chunkCache (PoisonTransfer tid t cm)) k = Some a" for k a
    using PoisonTransfer_tables(2) [of tid t cm] that quiet_remove [of cm tid]
      quiet_trans [OF quiet_remove [of cm tid] quiet_prune [of "RemoveChunkBuffer tid cm" t "effectiveTTL cm"]]
    by (auto simp: quiet_def split: if_splits)
  then show ?thesis by (auto simp: quiet_def cm_ok_poison PoisonTransfer_tables)
qed

lemma quiet_env: "env_step cm cm' \<Longrightarrow> quiet cm cm'"
proof (induction rule: env_step.induct)
  case (prune cm now ttl)
  show ?case by (rule quiet_prune)
next
  case (sweep_outgoing cm now ttl)
  have "cm_ok (cm\<lparr>outgoingChunks := gm_keep P (outgoingChunks cm)\<rparr>)" if "cm_ok cm" for P
    by (rule cm_ok_out_subset [OF that])
       (use cm_okD(3) [OF that] in \<open>auto dest!: gm_get_keep_Some intro: cm_okD(10) [OF that]\<close>)
  then show ?case by (simp add: quiet_def)
next
  case (add_outgoing out cm tid)
  then show ?case using cm_ok_add_outgoing by (auto simp: quiet_def AddOutgoingChunk_def)
next
  case (next_outgoing cm tid n wall)
  have "bufs (snd (GetNextChunk tid n wall cm)) = bufs cm"
    "chunkCache (snd (GetNextChunk tid n wall cm)) = chunkCache cm"
    by (simp_all add: GetNextChunk_def Let_def split: option.split)
  then show ?case using cm_ok_next by (auto simp: quiet_def)
next
  case (remove_outgoing cm tid)
  then show ?case using cm_ok_remove_outgoing by (auto simp: quiet_def RemoveOutgoingChunk_def)
next
  case (close_manager cm)
  have "cm_ok (Close cm) = cm_ok cm" by (simp add: cm_ok_def Close_def effective_defs)
  then show ?case by (simp add: quiet_def) (simp add: Close_def)
next
  case (reorder m p cm)
  have "gm_len m = gm_len (chunkCache cm)" "gm_len p = gm_len (poisoned cm)" if "cm_ok cm"
    using that reorder unfolding gm_len_def gm_ok_def
    by (metis cm_okD(1,2) gm_ok_def distinct_card distinct_map)+
  moreover have "gm_get m k = gm_get (chunkCache cm) k" if "cm_ok cm" for k
    by (rule gm_get_same_set [OF reorder(1) cm_okD(1) [OF that] reorder(3)])
  ultimately show ?case using reorder(1,2) by (auto simp: quiet_def cm_ok_def)
qed

text \<open>What every step keeps of the buffers that exist: their owner, their size, and, once claimed
  for dispatch, their bytes.\<close>

definition evolves :: "ChunkManager \<Rightarrow> u64 list \<Rightarrow> ChunkManager \<Rightarrow> u64 list \<Rightarrow> bool" where
  "evolves cm ow cm' ow' \<longleftrightarrow> length (bufs cm) \<le> length (bufs cm') \<and>
     (\<forall>a < length (bufs cm). ow' ! a = ow ! a \<and> TotalSize (bufs cm' ! a) = TotalSize (bufs cm ! a) \<and>
        (Dispatched (bufs cm ! a) \<longrightarrow>
           Dispatched (bufs cm' ! a) \<and> Data (bufs cm' ! a) = Data (bufs cm ! a)))"

lemma evolves_quiet: "quiet cm cm' \<Longrightarrow> evolves cm ow cm' ow"
  by (simp add: quiet_def evolves_def)

lemma evolves_get:
  assumes "GetChunkBuffer tid tot t1 t2 t3 cm = (res, cm')" and "length ow = length (bufs cm)"
  shows "evolves cm ow cm' (if length (bufs cm) < length (bufs cm') then ow @ [tid] else ow)"
  using assms(1)
proof (cases rule: GetChunkBuffer_cases)
  case (refused e)
  then show ?thesis by (auto simp: evolves_def)
next
  case (reused a)
  then show ?thesis by (auto simp: evolves_def touch_def nth_update)
next
  case (installed c)
  then show ?thesis using assms(2) by (auto simp: evolves_def nth_append)
qed

lemma evolves_section:
  assumes "cm_ok cm" and "wf_frame f" and "a < length (bufs cm)" and "chunk_section f (bufs cm ! a) = (v, b)"
  shows "evolves cm ow (set_buf a b cm) ow"
proof -
  have "buf_ok (bufs cm ! a)" using cm_okD(6) [OF assms(1)] assms(3) by simp
  from chunk_section_outcome [OF this assms(2,4)] have "TotalSize b = TotalSize (bufs cm ! a)"
    "Dispatched (bufs cm ! a) \<Longrightarrow> b = bufs cm ! a" by auto
  then show ?thesis using assms(3) by (auto simp: evolves_def set_buf_def nth_list_update)
qed

subsection \<open>The invariant of the interleaving\<close>

text \<open>The frames of one transfer: those with its id that declare its size.\<close>

definition of_transfer :: "chunk_frame set \<Rightarrow> u64 \<Rightarrow> int \<Rightarrow> chunk_frame set" where
  "of_transfer S tid n = {f \<in> S. fr_id f = tid \<and> uint (fr_total_size f) = n}"

fun frame_of :: "pc \<Rightarrow> chunk_frame option" where
  "frame_of (Arrived f) = Some f"
| "frame_of (Admitted f) = Some f"
| "frame_of (Holding f a) = Some f"
| "frame_of (Judged f a v) = Some f"
| "frame_of (Dispatching f a) = Some f"
| "frame_of pc = None"

fun buffer_of :: "pc \<Rightarrow> nat option" where
  "buffer_of (Holding f a) = Some a"
| "buffer_of (Judged f a v) = Some a"
| "buffer_of (Dispatching f a) = Some a"
| "buffer_of pc = None"

text \<open>A request that won the right to dispatch a buffer and has not used it.\<close>

fun claims :: "pc \<Rightarrow> nat option" where
  "claims (Judged f a v) = (if v = Completed then Some a else None)"
| "claims (Dispatching f a) = Some a"
| "claims pc = None"

definition pc_ok :: "chunk_frame set \<Rightarrow> ChunkManager \<Rightarrow> u64 list \<Rightarrow> pc \<Rightarrow> bool" where
  "pc_ok S cm ow pc \<longleftrightarrow> (\<forall>f. frame_of pc = Some f \<longrightarrow> f \<in> S \<and>
     (\<forall>a. buffer_of pc = Some a \<longrightarrow> a < length (bufs cm) \<and> ow ! a = fr_id f \<and>
        TotalSize (bufs cm ! a) = uint (fr_total_size f))) \<and>
     (\<forall>a. claims pc = Some a \<longrightarrow> Dispatched (bufs cm ! a))"

definition store_ok :: "chunk_frame set \<Rightarrow> ChunkManager \<Rightarrow> u64 list \<Rightarrow> bool" where
  "store_ok S cm ow \<longleftrightarrow> cm_ok cm \<and> length ow = length (bufs cm) \<and>
     (\<forall>tid a. gm_get (chunkCache cm) tid = Some a \<longrightarrow> ow ! a = tid) \<and>
     (\<forall>a < length (bufs cm). holds (of_transfer S (ow ! a) (TotalSize (bufs cm ! a))) (bufs cm ! a))"

definition entry_ok :: "chunk_frame set \<Rightarrow> ChunkManager \<Rightarrow> u64 list \<Rightarrow> nat \<times> bytes \<times> u32 \<Rightarrow> bool" where
  "entry_ok S cm ow e \<longleftrightarrow> (case e of (a, p, mt) \<Rightarrow>
     a < length (bufs cm) \<and> Dispatched (bufs cm ! a) \<and> p = Data (bufs cm ! a) \<and>
     (\<exists>f \<in> of_transfer S (ow ! a) (TotalSize (bufs cm ! a)). fr_msg_type f = mt))"

definition world_ok :: "world \<Rightarrow> bool" where
  "world_ok w \<longleftrightarrow>
     (\<forall>f \<in> seen w. wf_frame f) \<and> store_ok (seen w) (manager w) (owners w) \<and>
     (\<forall>pc \<in> set (threads w). pc_ok (seen w) (manager w) (owners w) pc) \<and>
     (\<forall>e \<in> set (dispatched w). entry_ok (seen w) (manager w) (owners w) e) \<and>
     (\<forall>i j a. i < length (threads w) \<and> j < length (threads w) \<and> claims (threads w ! i) = Some a \<and>
        claims (threads w ! j) = Some a \<longrightarrow> i = j) \<and>
     (\<forall>pc \<in> set (threads w). \<forall>a. claims pc = Some a \<longrightarrow> a \<notin> fst ` set (dispatched w)) \<and>
     distinct (map fst (dispatched w))"

lemma pc_ok_evolves:
  assumes "pc_ok S cm ow pc" and "evolves cm ow cm' ow'"
  shows "pc_ok S cm' ow' pc"
  using assms by (cases pc) (auto simp: pc_ok_def evolves_def split: if_splits)

lemma entry_ok_evolves: "entry_ok S cm ow e \<Longrightarrow> evolves cm ow cm' ow' \<Longrightarrow> entry_ok S cm' ow' e"
  by (auto simp: entry_ok_def evolves_def split: prod.splits)

lemma store_ok_quiet: "store_ok S cm ow \<Longrightarrow> quiet cm cm' \<Longrightarrow> store_ok S cm' ow"
  by (auto simp: store_ok_def quiet_def)

lemma of_transfer_mono: "S \<subseteq> T \<Longrightarrow> of_transfer S tid n \<subseteq> of_transfer T tid n"
  by (auto simp: of_transfer_def)

lemma store_ok_mono: "store_ok S cm ow \<Longrightarrow> S \<subseteq> T \<Longrightarrow> store_ok T cm ow"
  unfolding store_ok_def by (meson holds_mono of_transfer_mono)

lemma pc_ok_mono: "pc_ok S cm ow pc \<Longrightarrow> S \<subseteq> T \<Longrightarrow> pc_ok T cm ow pc"
  by (auto simp: pc_ok_def)

lemma entry_ok_mono: "entry_ok S cm ow e \<Longrightarrow> S \<subseteq> T \<Longrightarrow> entry_ok T cm ow e"
  unfolding entry_ok_def by (auto split: prod.splits dest: subsetD [OF of_transfer_mono])

lemma store_ok_get:
  assumes "store_ok S cm ow" and g: "GetChunkBuffer tid (uint (n :: u32)) t1 t2 t3 cm = (res, cm')"
  shows "store_ok S cm' (if length (bufs cm) < length (bufs cm') then ow @ [tid] else ow)"
proof -
  have ok: "cm_ok cm" and ow: "length ow = length (bufs cm)"
    and own: "\<And>k a. gm_get (chunkCache cm) k = Some a \<Longrightarrow> ow ! a = k"
    and hold: "\<And>a. a < length (bufs cm) \<Longrightarrow> holds (of_transfer S (ow ! a) (TotalSize (bufs cm ! a))) (bufs cm ! a)"
    using assms(1) by (auto simp: store_ok_def)
  have "cm_ok (snd (GetChunkBuffer tid (uint n) t1 t2 t3 cm))" by (rule cm_ok_get [OF ok]) simp
  then have ok': "cm_ok cm'" using g by simp
  from g show ?thesis
  proof (cases rule: GetChunkBuffer_cases)
    case (refused e)
    then have "quiet cm cm'" using quiet_prune quiet_refl by metis
    from store_ok_quiet [OF assms(1) this] show ?thesis using refused(2) by auto
  next
    case (reused a)
    then show ?thesis using ok' ow own hold
      by (auto simp: store_ok_def) (auto simp: touch_def nth_update)
  next
    case (installed c)
    have q: "quiet cm c" using installed(4) quiet_prune quiet_refl by metis
    have c: "bufs c = bufs cm" "\<And>k a. gm_get (chunkCache c) k = Some a \<Longrightarrow> ow ! a = k \<and> a < length (bufs cm)"
      using q ok own cm_okD(4) [OF ok] unfolding quiet_def by (blast, metis)
    have "(ow @ [tid]) ! a = k" if "gm_get (chunkCache cm') k = Some a" for k a
      using that c installed(7) ow by (auto simp: nth_append split: if_splits)
    moreover have "holds (of_transfer S ((ow @ [tid]) ! a) (TotalSize (bufs cm' ! a))) (bufs cm' ! a)"
      if "a < length (bufs cm')" for a
      using that c installed(7) ow hold by (auto simp: nth_append less_Suc_eq)
    ultimately show ?thesis using ok' installed(7) c ow by (auto simp: store_ok_def)
  qed
qed

lemma store_ok_section:
  assumes st: "store_ok S cm ow" and wf: "wf_frame f" and pc: "pc_ok S cm ow (Holding f a)"
    and sec: "chunk_section f (bufs cm ! a) = (v, b)"
  shows "store_ok S (set_buf a b cm) ow"
proof -
  have ok: "cm_ok cm" and a: "a < length (bufs cm)" "ow ! a = fr_id f"
      "TotalSize (bufs cm ! a) = uint (fr_total_size f)" "f \<in> S"
    and hold: "\<And>a. a < length (bufs cm) \<Longrightarrow> holds (of_transfer S (ow ! a) (TotalSize (bufs cm ! a))) (bufs cm ! a)"
    using st pc by (auto simp: store_ok_def pc_ok_def)
  have bo: "buf_ok (bufs cm ! a)" using cm_okD(6) [OF ok] a by simp
  let ?F = "of_transfer S (ow ! a) (TotalSize (bufs cm ! a))"
  have "insert f ?F = ?F" using a by (auto simp: of_transfer_def)
  moreover have "holds (insert f ?F) b" "TotalSize b = TotalSize (bufs cm ! a)"
    using chunk_section_holds [OF bo wf hold [OF a(1)]] chunk_section_size [OF bo wf] sec by simp_all
  ultimately have "holds (of_transfer S (ow ! a) (TotalSize b)) b" by simp
  moreover have "cm_ok (set_buf a b cm)" using cm_ok_section [OF ok wf a(1)] sec by simp
  ultimately show ?thesis using st
    by (auto simp: store_ok_def) (auto simp: set_buf_def nth_update)
qed

lemma quiet_keeps:
  "quiet cm cm' \<Longrightarrow> store_ok S cm ow \<Longrightarrow> pc_ok S cm ow pc \<Longrightarrow>
   store_ok S cm' ow \<and> evolves cm ow cm' ow \<and> pc_ok S cm' ow pc"
  using store_ok_quiet evolves_quiet pc_ok_evolves by metis

text \<open>One section keeps the store, lets it evolve, and leaves its request well placed.\<close>

lemma section_step_keeps:
  assumes "section_step pc cm ow pc' cm' ow' out" and "store_ok S cm ow" and "pc_ok S cm ow pc"
    and "\<forall>f \<in> S. wf_frame f"
  shows "store_ok S cm' ow' \<and> evolves cm ow cm' ow' \<and> pc_ok S cm' ow' pc'"
  using assms
proof (induction rule: section_step.induct)
  case (poison_hit f t cm cm' ow)
  have "quiet cm cm'" using quiet_is_poisoned [of cm "fr_id f" t] poison_hit(1) by simp
  then show ?case by (rule quiet_keeps [OF _ poison_hit(2)]) (use poison_hit(3) in \<open>simp add: pc_ok_def\<close>)
next
  case (poison_miss f t cm cm' ow)
  have "quiet cm cm'" using quiet_is_poisoned [of cm "fr_id f" t] poison_miss(1) by simp
  then show ?case by (rule quiet_keeps [OF _ poison_miss(2)]) (use poison_miss(3) in \<open>simp add: pc_ok_def\<close>)
next
  case (get_refused f t1 t2 t3 cm e cm' ow)
  from get_refused(1) have "cm' = cm \<or> cm' = pruneStaleChunkBuffersLocked t1 (effectiveTTL cm) cm"
    by (cases rule: GetChunkBuffer_cases) auto
  then have "quiet cm cm'" using quiet_prune quiet_refl by metis
  then show ?case by (rule quiet_keeps [OF _ get_refused(2)]) (simp add: pc_ok_def)
next
  case (get_buffer f t1 t2 t3 cm a cm' ow)
  let ?ow = "if length (bufs cm) < length (bufs cm') then ow @ [fr_id f] else ow"
  have ow: "length ow = length (bufs cm)" and ok: "cm_ok cm" using get_buffer(2) by (auto simp: store_ok_def)
  have st: "store_ok S cm' ?ow" by (rule store_ok_get [OF get_buffer(2,1)])
  moreover have "evolves cm ow cm' ?ow" by (rule evolves_get [OF get_buffer(1) ow])
  moreover have "pc_ok S cm' ?ow (Holding f a)"
    using GetChunkBuffer_valid [OF get_buffer(1) ok] st get_buffer(3)
    by (auto simp: pc_ok_def store_ok_def)
  ultimately show ?case by blast
next
  case (under_mutex f cm a v b ow)
  have a: "a < length (bufs cm)" "f \<in> S" and ok: "cm_ok cm" and wf: "wf_frame f"
    using under_mutex(2,3,4) by (auto simp: pc_ok_def store_ok_def)
  have bo: "buf_ok (bufs cm ! a)" using cm_okD(6) [OF ok] a by simp
  have ev: "evolves cm ow (set_buf a b cm) ow" by (rule evolves_section [OF ok wf a(1) under_mutex(1)])
  have "v = Completed \<longrightarrow> Dispatched b"
    using chunk_section_outcome [OF bo wf under_mutex(1)] by (auto split: if_splits)
  moreover have "TotalSize b = TotalSize (bufs cm ! a)"
    using chunk_section_size [OF bo wf] under_mutex(1) by simp
  ultimately have "pc_ok S (set_buf a b cm) ow (Judged f a v)"
    using under_mutex(3) a by (auto simp: pc_ok_def)
  then show ?case using ev store_ok_section [OF under_mutex(2) wf under_mutex(3,1)] by blast
next
  case (poison v f a cm ow t)
  show ?case by (rule quiet_keeps [OF quiet_poison poison(2)]) (simp add: pc_ok_def)
next
  case (acknowledge f a cm ow)
  show ?case by (rule quiet_keeps [OF quiet_refl acknowledge(1)]) (simp add: pc_ok_def)
next
  case (remove_buffer f a cm ow)
  show ?case by (rule quiet_keeps [OF quiet_remove remove_buffer(1)])
    (use remove_buffer(2) in \<open>simp add: pc_ok_def\<close>)
next
  case (dispatch f a cm ow)
  show ?case by (rule quiet_keeps [OF quiet_refl dispatch(1)]) (simp add: pc_ok_def)
qed

text \<open>Where a claim comes from, and what becomes of it.\<close>

lemma section_step_claims:
  assumes "section_step pc cm ow pc' cm' ow' out" and "store_ok S cm ow" and "pc_ok S cm ow pc"
    and "\<forall>f \<in> S. wf_frame f"
  shows "(out = [] \<and> (claims pc' = None \<or> claims pc' = claims pc \<or>
       (\<exists>a. claims pc' = Some a \<and> \<not> Dispatched (bufs cm ! a)))) \<or>
    (\<exists>a p mt. out = [(a, p, mt)] \<and> claims pc = Some a \<and> claims pc' = None \<and> entry_ok S cm ow (a, p, mt) \<and> cm' = cm \<and> ow' = ow)"
  using assms
proof (induction rule: section_step.induct)
  case (under_mutex f cm a v b ow)
  have a: "a < length (bufs cm)" "f \<in> S" and ok: "cm_ok cm" and wf: "wf_frame f"
    using under_mutex(2,3,4) by (auto simp: pc_ok_def store_ok_def)
  have bo: "buf_ok (bufs cm ! a)" using cm_okD(6) [OF ok] a by simp
  have "v = Completed \<longrightarrow> \<not> Dispatched (bufs cm ! a)"
    using chunk_section_outcome [OF bo wf under_mutex(1)] by auto
  then show ?case by auto
next
  case (dispatch f a cm ow)
  then show ?case by (auto simp: pc_ok_def entry_ok_def of_transfer_def)
qed (auto simp: rejects_def)

lemma world_ok_initial: "world_ok (initial cfg)"
  using cm_ok_new [of cfg]
  by (simp add: world_ok_def initial_def store_ok_def) (simp add: NewChunkManagerFromConfig_def Let_def)

lemma world_ok_arrive:
  assumes "world_ok w" and "wf_frame f"
  shows "world_ok (w\<lparr>threads := threads w @ [Arrived f], seen := insert f (seen w)\<rparr>)"
proof -
  have sub: "seen w \<subseteq> insert f (seen w)" by blast
  show ?thesis using assms store_ok_mono [OF _ sub] pc_ok_mono [OF _ sub] entry_ok_mono [OF _ sub]
    by (auto simp: world_ok_def nth_append less_Suc_eq) (auto simp: pc_ok_def)
qed

lemma world_ok_environment:
  assumes "world_ok w" and "env_step (manager w) cm"
  shows "world_ok (w\<lparr>manager := cm\<rparr>)"
proof -
  have q: "quiet (manager w) cm" by (rule quiet_env [OF assms(2)])
  note ev = evolves_quiet [OF q, of "owners w"]
  show ?thesis using assms(1) store_ok_quiet [OF _ q] pc_ok_evolves [OF _ ev] entry_ok_evolves [OF _ ev]
    by (auto simp: world_ok_def)
qed

lemma world_ok_request:
  assumes ok: "world_ok w" and i: "i < length (threads w)"
    and st: "section_step (threads w ! i) (manager w) (owners w) pc cm ow out"
  shows "world_ok (w\<lparr>manager := cm, threads := (threads w)[i := pc], owners := ow,
                     dispatched := dispatched w @ out\<rparr>)"
proof -
  let ?t = "threads w" and ?S = "seen w"
  have wf: "\<forall>f \<in> ?S. wf_frame f" and sto: "store_ok ?S (manager w) (owners w)"
    and pcs: "\<And>p. p \<in> set ?t \<Longrightarrow> pc_ok ?S (manager w) (owners w) p"
    and ent: "\<And>e. e \<in> set (dispatched w) \<Longrightarrow> entry_ok ?S (manager w) (owners w) e"
    and uniq: "\<And>i j a. i < length ?t \<Longrightarrow> j < length ?t \<Longrightarrow> claims (?t ! i) = Some a \<Longrightarrow>
      claims (?t ! j) = Some a \<Longrightarrow> i = j"
    and fresh: "\<And>p a. p \<in> set ?t \<Longrightarrow> claims p = Some a \<Longrightarrow> a \<notin> fst ` set (dispatched w)"
    and dis: "distinct (map fst (dispatched w))"
    using ok unfolding world_ok_def by blast+
  have pi: "pc_ok ?S (manager w) (owners w) (?t ! i)" using pcs i by simp
  from section_step_keeps [OF st sto pi wf] have keep: "store_ok ?S cm ow"
    "evolves (manager w) (owners w) cm ow" "pc_ok ?S cm ow pc" by blast+
  have new: "claims pc = claims (?t ! i) \<or> (\<forall>j a. claims pc = Some a \<longrightarrow> j < length ?t \<longrightarrow>
      claims (?t ! j) \<noteq> Some a \<and> a \<notin> fst ` set (dispatched w))"
  proof -
    have free: "claims (?t ! j) \<noteq> Some a \<and> a \<notin> fst ` set (dispatched w)"
      if "\<not> Dispatched (bufs (manager w) ! a)" "j < length ?t" for a j
      using that pcs [of "?t ! j"] ent by (auto simp: pc_ok_def entry_ok_def)
    have "claims pc = None \<or> claims pc = claims (?t ! i) \<or>
        (\<exists>a. claims pc = Some a \<and> \<not> Dispatched (bufs (manager w) ! a))"
      using section_step_claims [OF st sto pi wf] by (elim disjE conjE exE) simp_all
    then consider "claims pc = None" | "claims pc = claims (?t ! i)"
      | a where "claims pc = Some a" "\<not> Dispatched (bufs (manager w) ! a)" by (elim disjE exE conjE)
    then show ?thesis
    proof cases
      case (3 a)
      then show ?thesis using free [of a] by simp
    qed simp_all
  qed
  have uniq': "j = k" if "j < length ?t" "k < length ?t" "claims (?t[i := pc] ! j) = Some a"
      "claims (?t[i := pc] ! k) = Some a" for j k a
    using that new uniq [of j k a] i by (auto simp: nth_update split: if_splits)
  have unlogged: "a \<notin> fst ` set (dispatched w)" if "claims pc = Some a" for a
    using new
  proof
    assume "claims pc = claims (?t ! i)"
    with that show ?thesis using fresh [OF nth_mem [OF i]] by simp
  next
    assume "\<forall>j a. claims pc = Some a \<longrightarrow> j < length ?t \<longrightarrow>
      claims (?t ! j) \<noteq> Some a \<and> a \<notin> fst ` set (dispatched w)"
    with that i show ?thesis by blast
  qed
  have log: "out = [] \<or> (\<exists>a p mt. out = [(a, p, mt)] \<and> claims (?t ! i) = Some a \<and> claims pc = None \<and>
        entry_ok ?S cm ow (a, p, mt))"
    using section_step_claims [OF st sto pi wf] by (elim disjE conjE) blast+
  have fresh': "a \<notin> fst ` set (dispatched w @ out)" if p: "p \<in> set (?t[i := pc])" "claims p = Some a" for p a
  proof -
    obtain k where k: "k < length ?t" "p = ?t[i := pc] ! k" using p(1) by (auto simp: in_set_conv_nth)
    show ?thesis
    proof (cases "k = i")
      case True
      then have c: "claims pc = Some a" using k p(2) i by simp
      with log have "out = []" by auto
      with unlogged [OF c] show ?thesis by simp
    next
      case False
      then have c: "claims (?t ! k) = Some a" using k p(2) by simp
      with log uniq [of i k a] i k False have "a \<notin> fst ` set out" by auto
      with fresh [OF nth_mem [OF k(1)] c] show ?thesis by (simp add: image_Un)
    qed
  qed
  have dis': "distinct (map fst (dispatched w @ out))" 
    using log dis fresh [OF nth_mem [OF i]] by (elim disjE exE conjE) simp_all
  have pcs': "pc_ok ?S cm ow p" if "p \<in> set (?t[i := pc])" for p
    using set_list_update [OF i that] keep(3) pc_ok_evolves [OF pcs keep(2)] by auto
  have ent': "entry_ok ?S cm ow e" if "e \<in> set (dispatched w @ out)" for e
  proof (cases "e \<in> set (dispatched w)")
    case True
    then show ?thesis by (rule entry_ok_evolves [OF ent keep(2)])
  next
    case False
    then show ?thesis using that log by auto
  qed
  show ?thesis
    using wf keep(1) pcs' ent' uniq' fresh' dis' by (simp add: world_ok_def del: set_append)
qed

lemma world_ok_reachable: "reachable cfg w \<Longrightarrow> world_ok w"
proof (induction rule: reachable.induct)
  case start
  show ?case by (rule world_ok_initial)
next
  case (step w w')
  from step(2) step(3) show ?case
    by (cases rule: world_step.cases) (auto intro: world_ok_arrive world_ok_environment world_ok_request)
qed

subsection \<open>The sequential handler is one of the interleavings\<close>

lemma advance:
  assumes "reachable cfg w" and "threads w = ts @ [pc]"
    and "section_step pc (manager w) (owners w) pc' cm ow out"
  shows "\<exists>w'. reachable cfg w' \<and> manager w' = cm \<and> owners w' = ow \<and> threads w' = ts @ [pc'] \<and>
    dispatched w' = dispatched w @ out"
proof -
  let ?w = "w\<lparr>manager := cm, threads := (threads w)[length ts := pc'], owners := ow,
      dispatched := dispatched w @ out\<rparr>"
  have "world_step w ?w" by (rule request) (use assms in simp_all)
  then have "reachable cfg ?w" by (rule reachable.step [OF assms(1)])
  then show ?thesis using assms(2) by (intro exI [of _ ?w]) simp
qed




subsection \<open>Limits\<close>

definition limits :: "ChunkManager \<Rightarrow> int \<times> int \<times> int" where
  "limits cm = (effective_max_bytes cm, effectiveMaxConcurrentTransfers cm, effectiveMaxPoisonedTransfers cm)"

lemma limits_env: "env_step cm cm' \<Longrightarrow> limits cm' = limits cm"
  by (induction rule: env_step.induct)
     (auto simp: limits_def AddOutgoingChunk_def GetNextChunk_def RemoveOutgoingChunk_def Close_def Let_def
       effective_defs pruneStaleChunkBuffersLocked_def split: option.split)

lemma limits_section: "section_step pc cm ow pc' cm' ow' out \<Longrightarrow> limits cm' = limits cm"
proof (induction rule: section_step.induct)
  case (get_refused f t1 t2 t3 cm e cm' ow)
  then show ?case by (cases rule: GetChunkBuffer_cases; auto simp: limits_def)
next
  case (get_buffer f t1 t2 t3 cm a cm' ow)
  have "limits (snd (install_buffer tid n x y c)) = limits c" for tid n x y c
    by (simp add: install_buffer_def Let_def limits_def effective_update(4,8,12,16))
  with get_buffer show ?case by (cases rule: GetChunkBuffer_cases; auto simp: limits_def)
qed (auto simp: limits_def IsPoisoned_def PoisonTransfer_def RemoveChunkBuffer_def Let_def
      split: option.splits if_splits)

lemma limits_reachable: "reachable cfg w \<Longrightarrow> limits (manager w) = limits (NewChunkManagerFromConfig cfg)"
proof (induction rule: reachable.induct)
  case start
  show ?case by (simp add: initial_def)
next
  case (step w w')
  from step(2) step(3) show ?case
    by (cases rule: world_step.cases) (simp_all add: limits_env limits_section)
qed

lemma sum_buffer_bytes:
  assumes "cm_ok cm"
  shows "(\<Sum>(tid, a) \<leftarrow> chunkCache cm. int (length (Data (bufs cm ! a)))) \<le>
    TransferCount cm * effective_max_bytes cm"
proof -
  have "int (length (Data (bufs cm ! a))) \<le> effective_max_bytes cm" if "(tid, a) \<in> set (chunkCache cm)" for tid a
  proof -
    have "gm_get (chunkCache cm) tid = Some a" by (rule gm_get_in [OF cm_okD(1) [OF assms] that])
    then have "bufs cm ! a \<in> set (bufs cm)" using cm_okD(4) [OF assms] by simp
    then show ?thesis using cm_okD(6,7) [OF assms] by (fastforce simp: buf_ok_def)
  qed
  then have "(\<Sum>(tid, a) \<leftarrow> m. int (length (Data (bufs cm ! a)))) \<le> int (length m) * effective_max_bytes cm"
    if "set m \<subseteq> set (chunkCache cm)" for m
    using that
  proof (induction m)
    case (Cons e m)
    then show ?case by (cases e) (auto simp: algebra_simps intro: add_mono)
  qed simp
  then show ?thesis by (simp add: TransferCount_def gm_len_def)
qed

text \<open>A one-byte transfer, run to its dispatch, from a new manager.\<close>

abbreviation tiny_config :: ChunkManagerConfig where
  "tiny_config \<equiv> \<lparr>CfgMaxBufferBytes = 0, CfgCleanupInterval = 0, CfgBufferTTL = 0,
     CfgMaxConcurrentTransfers = 2, CfgMaxPoisonedTransfers = 0\<rparr>"

abbreviation tiny_frame :: chunk_frame where
  "tiny_frame \<equiv> \<lparr>fr_id = 5, fr_total_size = 1, fr_offset = 0, fr_data = [9], fr_msg_type = 138\<rparr>"

lemma tiny_run: "\<exists>w. reachable tiny_config w \<and> dispatched w = [(0, [9], 138)]"
proof -
  let ?m = "NewChunkManagerFromConfig tiny_config"
  have g: "GetChunkBuffer 5 1 0 0 0 ?m = (Inr 0, snd (install_buffer 5 1 0 0 ?m))"
    by (simp add: GetChunkBuffer_def NewChunkManagerFromConfig_def Let_def effective_defs chunk_defaults
        install_buffer_def touch_def)
  have sec: "chunk_section tiny_frame (new_buffer 1 0) = (Completed,
      (new_buffer 1 0)\<lparr>Segments := [\<lparr>Offset = 0, Length = 1\<rparr>], Data := [9], Received := 1, Dispatched := True\<rparr>)"
    by (simp add: chunk_section_def new_buffer_def ClaimSegment_def Search_def search_loop_done copy_at_def Let_def)
  have "world_step (initial tiny_config)
      ((initial tiny_config)\<lparr>threads := [Arrived tiny_frame], seen := {tiny_frame}\<rparr>)"
    using arrive [of tiny_frame "initial tiny_config"] by (simp add: wf_frame_def initial_def)
  from reachable.step [OF start this] obtain w1 where w1: "reachable tiny_config w1"
    "threads w1 = [] @ [Arrived tiny_frame]" "manager w1 = ?m" "dispatched w1 = []" by (fastforce simp: initial_def)
  have "IsPoisoned (fr_id tiny_frame) 0 (manager w1) = (False, ?m)"
    using w1 by (simp add: IsPoisoned_def NewChunkManagerFromConfig_def Let_def)
  from advance [OF w1(1,2) poison_miss [OF this]] w1 obtain w2 where w2: "reachable tiny_config w2"
    "threads w2 = [] @ [Admitted tiny_frame]" "manager w2 = ?m" "dispatched w2 = []" by auto
  have "GetChunkBuffer (fr_id tiny_frame) (uint (fr_total_size tiny_frame)) 0 0 0 (manager w2)
      = (Inr 0, snd (install_buffer 5 1 0 0 ?m))" using g w2 by simp
  from advance [OF w2(1,2) get_buffer [OF this]] w2 obtain w3 where w3: "reachable tiny_config w3"
    "threads w3 = [] @ [Holding tiny_frame 0]" "manager w3 = snd (install_buffer 5 1 0 0 ?m)"
    "dispatched w3 = []" by auto
  have b0: "bufs (manager w3) = [new_buffer 1 0]"
    using w3(3) by (simp add: NewChunkManagerFromConfig_def Let_def)
  with sec have "chunk_section tiny_frame (bufs (manager w3) ! 0) = (Completed,
      (new_buffer 1 0)\<lparr>Segments := [\<lparr>Offset = 0, Length = 1\<rparr>], Data := [9], Received := 1, Dispatched := True\<rparr>)"
    by simp
  from advance [OF w3(1,2) under_mutex [OF this]] w3 obtain w4 where w4: "reachable tiny_config w4"
    "threads w4 = [] @ [Judged tiny_frame 0 Completed]" "dispatched w4 = []"
    "Data (bufs (manager w4) ! 0) = [9]" by (auto simp: b0)
  from advance [OF w4(1,2) remove_buffer] w4 obtain w5 where w5: "reachable tiny_config w5"
    "threads w5 = [] @ [Dispatching tiny_frame 0]" "dispatched w5 = []"
    "Data (bufs (manager w5) ! 0) = [9]" by (auto simp: RemoveChunkBuffer_def)
  from advance [OF w5(1,2) dispatch] w5 show ?thesis by auto
qed

subsection \<open>Properties\<close>

text \<open>C1. Safety of reassembly under any interleaving of requests, sweeps, poisonings, table
  removals and clock readings. No reassembly buffer is dispatched twice. Whatever was dispatched
  is a complete transfer: all its frames carry one transfer id and its declared size, every byte
  of the payload is the byte at that place of such a frame (nothing is left at its zero fill), and
  its message type is one of theirs. And the bytes handed out are still what the buffer holds at
  any later time, although the dispatcher reads them without a lock.\<close>

theorem dispatched_payloads:
  assumes "reachable cfg w"
  shows "distinct (map fst (dispatched w)) \<and> (\<forall>(a, p, mt) \<in> set (dispatched w).
    Data (bufs (manager w) ! a) = p \<and>
    (\<exists>tid. let fs = of_transfer (seen w) tid (int (length p)) in
      (\<exists>f \<in> fs. fr_msg_type f = mt) \<and>
      (\<forall>k < length p. \<exists>f \<in> fs. unat (fr_offset f) \<le> k \<and> k < unat (fr_offset f) + length (fr_data f) \<and>
         p ! k = fr_data f ! (k - unat (fr_offset f)))))"
proof -
  have ok: "world_ok w" by (rule world_ok_reachable [OF assms])
  have each: "Data (bufs (manager w) ! a) = p \<and>
    (\<exists>tid. let fs = of_transfer (seen w) tid (int (length p)) in
      (\<exists>f \<in> fs. fr_msg_type f = mt) \<and>
      (\<forall>k < length p. \<exists>f \<in> fs. unat (fr_offset f) \<le> k \<and> k < unat (fr_offset f) + length (fr_data f) \<and>
         p ! k = fr_data f ! (k - unat (fr_offset f))))" if "(a, p, mt) \<in> set (dispatched w)" for a p mt
  proof -
    let ?b = "bufs (manager w) ! a"
    have e: "a < length (bufs (manager w))" "Dispatched ?b" "p = Data ?b"
      "\<exists>f \<in> of_transfer (seen w) (owners w ! a) (TotalSize ?b). fr_msg_type f = mt"
      using ok that by (auto simp: world_ok_def entry_ok_def)
    have st: "cm_ok (manager w)" "holds (of_transfer (seen w) (owners w ! a) (TotalSize ?b)) ?b"
      using ok e(1) by (auto simp: world_ok_def store_ok_def)
    have b: "buf_ok ?b" using cm_okD(6) [OF st(1)] e(1) by simp
    then have "TotalSize ?b = int (length p)" using e(3) by (simp add: buf_ok_def)
    then show ?thesis using complete_bytes [OF b e(2) st(2)] e(3,4)
      by (intro conjI exI [of _ "owners w ! a"]) (simp_all add: Let_def)
  qed
  moreover have "distinct (map fst (dispatched w))" using ok by (simp add: world_ok_def)
  ultimately show ?thesis by blast
qed

theorem dispatched_payloads_witness:
  "\<exists>w. (reachable tiny_config w \<and> dispatched w = [(0, [9], 138)]) \<and> distinct (map fst (dispatched w)) \<and>
    (\<forall>(a, p, mt) \<in> set (dispatched w). Data (bufs (manager w) ! a) = p \<and>
      (\<exists>tid. let fs = of_transfer (seen w) tid (int (length p)) in
        (\<exists>f \<in> fs. fr_msg_type f = mt) \<and>
        (\<forall>k < length p. \<exists>f \<in> fs. unat (fr_offset f) \<le> k \<and> k < unat (fr_offset f) + length (fr_data f) \<and>
           p ! k = fr_data f ! (k - unat (fr_offset f)))))"
proof -
  obtain w where w: "reachable tiny_config w" "dispatched w = [(0, [9], 138)]" using tiny_run by blast
  then show ?thesis by (intro exI [of _ w] conjI dispatched_payloads [OF w(1), THEN conjunct1]
      dispatched_payloads [OF w(1), THEN conjunct2])
qed

text \<open>C8. Memory is bounded in every reachable state: the resident transfers and the poisoned ids
  stay below their configured limits, and the reassembly buffers in the table take together at most
  the product of the two caps the configuration gives.\<close>

theorem resources_bounded:
  assumes "reachable cfg w"
  shows "TransferCount (manager w) \<le> effectiveMaxConcurrentTransfers (NewChunkManagerFromConfig cfg) \<and>
    PoisonedCount (manager w) \<le> effectiveMaxPoisonedTransfers (NewChunkManagerFromConfig cfg) \<and>
    (\<Sum>(tid, a) \<leftarrow> chunkCache (manager w). int (length (Data (bufs (manager w) ! a)))) \<le>
      effectiveMaxConcurrentTransfers (NewChunkManagerFromConfig cfg) *
      effective_max_bytes (NewChunkManagerFromConfig cfg)"
proof -
  have ok: "cm_ok (manager w)" using world_ok_reachable [OF assms] by (simp add: world_ok_def store_ok_def)
  note l = limits_reachable [OF assms, unfolded limits_def, simplified]
  have t: "TransferCount (manager w) \<le> effectiveMaxConcurrentTransfers (manager w)"
    and p: "PoisonedCount (manager w) \<le> effectiveMaxPoisonedTransfers (manager w)"
    using cm_okD(8,9) [OF ok] by (simp_all add: TransferCount_def PoisonedCount_def)
  have "TransferCount (manager w) * effective_max_bytes (manager w) \<le>
      effectiveMaxConcurrentTransfers (manager w) * effective_max_bytes (manager w)"
    by (rule mult_right_mono [OF t]) (simp add: order_less_imp_le)
  then have "(\<Sum>(tid, a) \<leftarrow> chunkCache (manager w). int (length (Data (bufs (manager w) ! a)))) \<le>
      effectiveMaxConcurrentTransfers (manager w) * effective_max_bytes (manager w)"
    using sum_buffer_bytes [OF ok] by linarith
  with t p l show ?thesis by simp
qed

theorem resources_bounded_witness:
  "TransferCount (manager (initial tiny_config)) \<le> 2 \<and>
    PoisonedCount (manager (initial tiny_config)) \<le> 1024 \<and>
    (\<Sum>(tid, a) \<leftarrow> chunkCache (manager (initial tiny_config)).
       int (length (Data (bufs (manager (initial tiny_config)) ! a)))) \<le> 2 * 268435456"
  using resources_bounded [OF start [of tiny_config]]
  by (simp add: NewChunkManagerFromConfig_def Let_def effective_defs chunk_defaults)



end
