(* ===== verification/Greedy_Mesh.thy ===== *)
theory Greedy_Mesh
  imports Prelude "HOL-Library.Multiset"
begin

section \<open>Greedy meshing (pkg/algo/greedy_mesh.go)\<close>

text \<open>
  \<open>GreedyMesh\<close> as it is written: sort, then for each unvisited cell widen, heighten, mark. Row and
  column are int32 and \<open>++\<close> and \<open>+ 1\<close> wrap, so each inner loop is a \<open>partial_function\<close> whose value is
  \<open>None\<close> when it does not return. The maps \<open>grid\<close> and \<open>visited\<close> only ever hold \<open>true\<close> and are the
  lists of their keys. \<open>sort.Slice\<close> with the lexicographic order is \<open>sort\<close> for the order that
  \<open>Cell\<close> is given here; equal cells are indistinguishable, so its instability does not show.
\<close>

datatype Cell = Cell (Row: int) (Col: int)

instantiation Cell :: linorder
begin

definition less_Cell :: "Cell \<Rightarrow> Cell \<Rightarrow> bool" where
  "less_Cell a b \<longleftrightarrow> (if Row a \<noteq> Row b then Row a < Row b else Col a < Col b)"

definition less_eq_Cell :: "Cell \<Rightarrow> Cell \<Rightarrow> bool" where
  "less_eq_Cell a b \<longleftrightarrow> a < b \<or> a = b"

instance
proof
  fix x y :: Cell
  show "x \<le> y \<or> y \<le> x" by (cases x; cases y) (auto simp: less_Cell_def less_eq_Cell_def)
qed (auto simp: less_Cell_def less_eq_Cell_def split: if_splits)

end

record Rect =
  RowFirst :: int
  RowLast :: int
  ColFirst :: int
  ColLast :: int

definition open_cell :: "Cell list \<Rightarrow> Cell list \<Rightarrow> Cell \<Rightarrow> bool" where
  "open_cell grid visited c \<longleftrightarrow> c \<in> set grid \<and> \<not> c \<in> set visited"

partial_function (option) expand_width :: "Cell list \<Rightarrow> Cell list \<Rightarrow> int \<Rightarrow> int \<Rightarrow> int option" where
  "expand_width grid visited rFirst cLast =
     (let nextCol = i32 (cLast + 1)
      in if open_cell grid visited (Cell rFirst nextCol)
         then expand_width grid visited rFirst nextCol else Some cLast)"

text \<open>The inner loop of the height expansion: \<open>canExpand\<close> for the row \<open>nextRow\<close>.\<close>

partial_function (option) can_expand ::
  "Cell list \<Rightarrow> Cell list \<Rightarrow> int \<Rightarrow> int \<Rightarrow> int \<Rightarrow> bool option" where
  "can_expand grid visited nextRow col cLast =
     (if col \<le> cLast then
        (if \<not> open_cell grid visited (Cell nextRow col) then Some False
         else can_expand grid visited nextRow (i32 (col + 1)) cLast)
      else Some True)"

partial_function (option) expand_height ::
  "Cell list \<Rightarrow> Cell list \<Rightarrow> int \<Rightarrow> int \<Rightarrow> int \<Rightarrow> int option" where
  "expand_height grid visited rLast cFirst cLast =
     (let nextRow = i32 (rLast + 1)
      in Option.bind (can_expand grid visited nextRow cFirst cLast)
           (\<lambda>canExpand. if canExpand then expand_height grid visited nextRow cFirst cLast
                         else Some rLast))"

partial_function (option) mark_cols :: "int \<Rightarrow> int \<Rightarrow> int \<Rightarrow> Cell list \<Rightarrow> Cell list option" where
  "mark_cols r c cLast visited =
     (if c \<le> cLast then mark_cols r (i32 (c + 1)) cLast (Cell r c # visited) else Some visited)"

partial_function (option) mark_rows :: "int \<Rightarrow> int \<Rightarrow> int \<Rightarrow> int \<Rightarrow> Cell list \<Rightarrow> Cell list option" where
  "mark_rows r rLast cFirst cLast visited =
     (if r \<le> rLast then
        Option.bind (mark_cols r cFirst cLast visited)
          (\<lambda>visited. mark_rows (i32 (r + 1)) rLast cFirst cLast visited)
      else Some visited)"

primrec mesh_loop :: "Cell list \<Rightarrow> Cell list \<Rightarrow> Cell list \<Rightarrow> Rect list \<Rightarrow> Rect list option" where
  "mesh_loop grid [] visited rects = Some rects"
| "mesh_loop grid (c # cells) visited rects =
     (if c \<in> set visited then mesh_loop grid cells visited rects
      else
        Option.bind (expand_width grid visited (Row c) (Col c)) (\<lambda>cLast.
        Option.bind (expand_height grid visited (Row c) (Col c) cLast) (\<lambda>rLast.
        Option.bind (mark_rows (Row c) rLast (Col c) cLast visited) (\<lambda>visited.
          mesh_loop grid cells visited
            (rects @ [\<lparr>RowFirst = Row c, RowLast = rLast, ColFirst = Col c, ColLast = cLast\<rparr>])))))"

definition GreedyMesh :: "Cell list \<Rightarrow> Rect list option" where
  "GreedyMesh cells =
     (if length cells = 0 then Some [] else (let cells = sort cells in mesh_loop cells cells [] []))"

subsection \<open>The loops return, and what they return\<close>

text \<open>Cells whose coordinates leave room for one more \<open>+ 1\<close>.\<close>

definition below_max :: "Cell \<Rightarrow> bool" where
  "below_max c \<longleftrightarrow> min_i32 \<le> Row c \<and> Row c < max_i32 \<and> min_i32 \<le> Col c \<and> Col c < max_i32"

lemma i32_step: "min_i32 \<le> x \<Longrightarrow> x < max_i32 \<Longrightarrow> i32 (x + 1) = x + 1"
  by simp

lemma expand_width_spec:
  assumes "\<forall>c \<in> set grid. below_max c"
  shows "min_i32 \<le> cLast \<Longrightarrow> cLast < max_i32 \<Longrightarrow>
    \<exists>w. expand_width grid visited r cLast = Some w \<and> cLast \<le> w \<and> w < max_i32 \<and>
      (\<forall>k. cLast < k \<and> k \<le> w \<longrightarrow> open_cell grid visited (Cell r k)) \<and>
      \<not> open_cell grid visited (Cell r (w + 1))"
proof (induction "nat (max_i32 - cLast)" arbitrary: cLast rule: less_induct)
  case less
  have next': "i32 (cLast + 1) = cLast + 1" by (rule i32_step [OF less.prems])
  show ?case
  proof (cases "open_cell grid visited (Cell r (cLast + 1))")
    case True
    then have "below_max (Cell r (cLast + 1))" using assms by (auto simp: open_cell_def)
    then have lt: "cLast + 1 < max_i32" by (simp add: below_max_def)
    obtain w where w: "expand_width grid visited r (cLast + 1) = Some w" "cLast + 1 \<le> w" "w < max_i32"
      "\<forall>k. cLast + 1 < k \<and> k \<le> w \<longrightarrow> open_cell grid visited (Cell r k)"
      "\<not> open_cell grid visited (Cell r (w + 1))"
      using less.hyps [of "cLast + 1"] less.prems lt by auto
    have "open_cell grid visited (Cell r k)" if "cLast < k" "k \<le> w" for k
      using that w(4) True by (cases "k = cLast + 1") auto
    with w True show ?thesis
      by (intro exI [of _ w]) (auto simp: expand_width.simps [of grid visited r cLast] next')
  next
    case False
    then show ?thesis using less.prems
      by (intro exI [of _ cLast]) (auto simp: expand_width.simps [of grid visited r cLast] next')
  qed
qed

lemma can_expand_spec:
  "min_i32 \<le> col \<Longrightarrow> cLast < max_i32 \<Longrightarrow>
   can_expand grid visited r col cLast = Some (\<forall>k. col \<le> k \<and> k \<le> cLast \<longrightarrow> open_cell grid visited (Cell r k))"
proof (induction "nat (cLast + 1 - col)" arbitrary: col rule: less_induct)
  case less
  show ?case
  proof (cases "col \<le> cLast \<and> open_cell grid visited (Cell r col)")
    case True
    have "can_expand grid visited r (col + 1) cLast =
        Some (\<forall>k. col + 1 \<le> k \<and> k \<le> cLast \<longrightarrow> open_cell grid visited (Cell r k))"
      by (rule less.hyps) (use less.prems True in auto)
    moreover have "(\<forall>k. col \<le> k \<and> k \<le> cLast \<longrightarrow> open_cell grid visited (Cell r k)) \<longleftrightarrow>
        (\<forall>k. col + 1 \<le> k \<and> k \<le> cLast \<longrightarrow> open_cell grid visited (Cell r k))"
      using True by (metis add1_zle_eq order_le_less zle_add1_eq_le)
    ultimately show ?thesis using True less.prems
      by (simp add: can_expand.simps [of grid visited r col])
  next
    case False
    then show ?thesis by (auto simp: can_expand.simps [of grid visited r col])
  qed
qed

lemma expand_height_spec:
  assumes "\<forall>c \<in> set grid. below_max c" and "min_i32 \<le> cFirst" "cFirst \<le> cLast" "cLast < max_i32"
  shows "min_i32 \<le> rLast \<Longrightarrow> rLast < max_i32 \<Longrightarrow>
    \<exists>h. expand_height grid visited rLast cFirst cLast = Some h \<and> rLast \<le> h \<and> h < max_i32 \<and>
      (\<forall>j k. rLast < j \<and> j \<le> h \<and> cFirst \<le> k \<and> k \<le> cLast \<longrightarrow> open_cell grid visited (Cell j k)) \<and>
      \<not> (\<forall>k. cFirst \<le> k \<and> k \<le> cLast \<longrightarrow> open_cell grid visited (Cell (h + 1) k))"
proof (induction "nat (max_i32 - rLast)" arbitrary: rLast rule: less_induct)
  case less
  have next': "i32 (rLast + 1) = rLast + 1" by (rule i32_step [OF less.prems])
  note ce = can_expand_spec [OF assms(2,4), of grid visited "rLast + 1"]
  show ?case
  proof (cases "\<forall>k. cFirst \<le> k \<and> k \<le> cLast \<longrightarrow> open_cell grid visited (Cell (rLast + 1) k)")
    case True
    then have "open_cell grid visited (Cell (rLast + 1) cFirst)" using assms(3) by blast
    then have "below_max (Cell (rLast + 1) cFirst)" using assms(1) by (auto simp: open_cell_def)
    then have lt: "rLast + 1 < max_i32" by (simp add: below_max_def)
    obtain h where h: "expand_height grid visited (rLast + 1) cFirst cLast = Some h" "rLast + 1 \<le> h" "h < max_i32"
      "\<forall>j k. rLast + 1 < j \<and> j \<le> h \<and> cFirst \<le> k \<and> k \<le> cLast \<longrightarrow> open_cell grid visited (Cell j k)"
      "\<not> (\<forall>k. cFirst \<le> k \<and> k \<le> cLast \<longrightarrow> open_cell grid visited (Cell (h + 1) k))"
      using less.hyps [of "rLast + 1"] less.prems lt by auto
    have "open_cell grid visited (Cell j k)" if "rLast < j" "j \<le> h" "cFirst \<le> k" "k \<le> cLast" for j k
      using that h(4) True by (cases "j = rLast + 1") auto
    with h True ce show ?thesis
      by (intro exI [of _ h]) (auto simp: expand_height.simps [of grid visited rLast] next')
  next
    case False
    then show ?thesis using less.prems ce
      unfolding expand_height.simps [of grid visited rLast] next' Let_def
      by (intro exI [of _ rLast]) auto
  qed
qed

lemma mark_cols_spec:
  "min_i32 \<le> c \<Longrightarrow> cLast < max_i32 \<Longrightarrow>
   \<exists>v. mark_cols r c cLast visited = Some v \<and> set v = set visited \<union> {Cell r k | k. c \<le> k \<and> k \<le> cLast}"
proof (induction "nat (cLast + 1 - c)" arbitrary: c visited rule: less_induct)
  case less
  show ?case
  proof (cases "c \<le> cLast")
    case True
    obtain v where v: "mark_cols r (c + 1) cLast (Cell r c # visited) = Some v"
      "set v = set (Cell r c # visited) \<union> {Cell r k | k. c + 1 \<le> k \<and> k \<le> cLast}"
      using less.hyps [of "c + 1" "Cell r c # visited"] less.prems True by auto
    have "{Cell r k | k. c \<le> k \<and> k \<le> cLast} = insert (Cell r c) {Cell r k | k. c + 1 \<le> k \<and> k \<le> cLast}"
      using True by (force simp: add1_zle_eq order_le_less)
    with v True less.prems show ?thesis by (auto simp: mark_cols.simps [of r c])
  next
    case False
    then show ?thesis by (auto simp: mark_cols.simps [of r c])
  qed
qed

lemma mark_rows_spec:
  assumes "min_i32 \<le> cFirst" and "cLast < max_i32"
  shows "min_i32 \<le> r \<Longrightarrow> rLast < max_i32 \<Longrightarrow>
    \<exists>v. mark_rows r rLast cFirst cLast visited = Some v \<and>
      set v = set visited \<union> {Cell j k | j k. r \<le> j \<and> j \<le> rLast \<and> cFirst \<le> k \<and> k \<le> cLast}"
proof (induction "nat (rLast + 1 - r)" arbitrary: r visited rule: less_induct)
  case less
  show ?case
  proof (cases "r \<le> rLast")
    case True
    obtain u where u: "mark_cols r cFirst cLast visited = Some u"
      "set u = set visited \<union> {Cell r k | k. cFirst \<le> k \<and> k \<le> cLast}"
      using mark_cols_spec [OF assms, of r visited] by blast
    obtain v where v: "mark_rows (r + 1) rLast cFirst cLast u = Some v"
      "set v = set u \<union> {Cell j k | j k. r + 1 \<le> j \<and> j \<le> rLast \<and> cFirst \<le> k \<and> k \<le> cLast}"
      using less.hyps [of "r + 1" u] less.prems True by auto
    have "{Cell j k | j k. r \<le> j \<and> j \<le> rLast \<and> cFirst \<le> k \<and> k \<le> cLast} =
        {Cell r k | k. cFirst \<le> k \<and> k \<le> cLast} \<union> {Cell j k | j k. r + 1 \<le> j \<and> j \<le> rLast \<and> cFirst \<le> k \<and> k \<le> cLast}"
      using True by (force simp: add1_zle_eq order_le_less)
    with u v True less.prems show ?thesis by (auto simp: mark_rows.simps [of r rLast])
  next
    case False
    then show ?thesis by (auto simp: mark_rows.simps [of r rLast])
  qed
qed

subsection \<open>The cover\<close>

definition in_rect :: "Cell \<Rightarrow> Rect \<Rightarrow> bool" where
  "in_rect c r \<longleftrightarrow> RowFirst r \<le> Row c \<and> Row c \<le> RowLast r \<and> ColFirst r \<le> Col c \<and> Col c \<le> ColLast r"

definition apart :: "Rect \<Rightarrow> Rect \<Rightarrow> bool" where
  "apart r s \<longleftrightarrow> (\<forall>c. \<not> (in_rect c r \<and> in_rect c s))"

definition covers :: "Cell set \<Rightarrow> Rect list \<Rightarrow> bool" where
  "covers S rects \<longleftrightarrow> (\<forall>c. c \<in> S \<longleftrightarrow> (\<exists>r \<in> set rects. in_rect c r)) \<and> sorted_wrt apart rects"

text \<open>One iteration on an unvisited cell.\<close>

lemma mesh_step:
  assumes grid: "\<forall>c \<in> set grid. below_max c" and cov: "covers (set visited) rects"
    and sub: "set visited \<subseteq> set grid" and c: "open_cell grid visited c"
  shows "\<exists>cLast rLast v. let r = \<lparr>RowFirst = Row c, RowLast = rLast, ColFirst = Col c, ColLast = cLast\<rparr> in
    expand_width grid visited (Row c) (Col c) = Some cLast \<and>
    expand_height grid visited (Row c) (Col c) cLast = Some rLast \<and>
    mark_rows (Row c) rLast (Col c) cLast visited = Some v \<and>
    covers (set v) (rects @ [r]) \<and> set v \<subseteq> set grid \<and> insert c (set visited) \<subseteq> set v"
proof -
  have b: "below_max c" using grid c by (auto simp: open_cell_def)
  then have bc: "min_i32 \<le> Row c" "Row c < max_i32" "min_i32 \<le> Col c" "Col c < max_i32"
    by (auto simp: below_max_def)
  obtain w where w: "expand_width grid visited (Row c) (Col c) = Some w" "Col c \<le> w" "w < max_i32"
    "\<And>k. Col c < k \<Longrightarrow> k \<le> w \<Longrightarrow> open_cell grid visited (Cell (Row c) k)"
    using expand_width_spec [OF grid bc(3,4)] by blast
  obtain h where h: "expand_height grid visited (Row c) (Col c) w = Some h" "Row c \<le> h" "h < max_i32"
    "\<And>j k. Row c < j \<Longrightarrow> j \<le> h \<Longrightarrow> Col c \<le> k \<Longrightarrow> k \<le> w \<Longrightarrow> open_cell grid visited (Cell j k)"
    using expand_height_spec [OF grid bc(3) w(2,3) bc(1,2)] by blast
  obtain v where v: "mark_rows (Row c) h (Col c) w visited = Some v"
    "set v = set visited \<union> {Cell j k | j k. Row c \<le> j \<and> j \<le> h \<and> Col c \<le> k \<and> k \<le> w}"
    using mark_rows_spec [OF bc(3) w(3) bc(1) h(3)] by blast
  let ?r = "\<lparr>RowFirst = Row c, RowLast = h, ColFirst = Col c, ColLast = w\<rparr>"
  have free: "open_cell grid visited d" if "in_rect d ?r" for d
    using that c w(4) [of "Col d"] h(4) [of "Row d" "Col d"]
    by (cases c; cases d; cases "Row d = Row c"; cases "Col d = Col c") (auto simp: in_rect_def)
  have img: "{Cell j k | j k. Row c \<le> j \<and> j \<le> h \<and> Col c \<le> k \<and> k \<le> w} = {d. in_rect d ?r}"
    by (auto simp: in_rect_def) (metis Cell.collapse)
  have "covers (set v) (rects @ [?r])"
    using cov free unfolding covers_def v(2) img
    by (auto simp: sorted_wrt_append apart_def open_cell_def)
  moreover have "set v \<subseteq> set grid" using sub free by (auto simp: v(2) img open_cell_def)
  moreover have "in_rect c ?r" using w(2) h(2) by (simp add: in_rect_def)
  ultimately show ?thesis using w(1) h(1) v by (auto simp: Let_def img)
qed

lemma mesh_loop_spec:
  assumes grid: "\<forall>c \<in> set grid. below_max c"
  shows "set cells \<subseteq> set grid \<Longrightarrow> covers (set visited) rects \<Longrightarrow> set visited \<subseteq> set grid \<Longrightarrow>
    \<exists>out S. mesh_loop grid cells visited rects = Some out \<and> covers S out \<and>
      set cells \<union> set visited \<subseteq> S \<and> S \<subseteq> set grid"
proof (induction cells arbitrary: visited rects)
  case Nil
  then show ?case by auto
next
  case (Cons c cells)
  show ?case
  proof (cases "c \<in> set visited")
    case True
    then show ?thesis using Cons.IH [OF _ Cons.prems(2,3)] Cons.prems(1) by fastforce
  next
    case False
    then have "open_cell grid visited c" using Cons.prems(1) by (simp add: open_cell_def)
    from mesh_step [OF grid Cons.prems(2,3) this] obtain cLast rLast v where s:
      "expand_width grid visited (Row c) (Col c) = Some cLast"
      "expand_height grid visited (Row c) (Col c) cLast = Some rLast"
      "mark_rows (Row c) rLast (Col c) cLast visited = Some v"
      "covers (set v) (rects @ [\<lparr>RowFirst = Row c, RowLast = rLast, ColFirst = Col c, ColLast = cLast\<rparr>])"
      "set v \<subseteq> set grid" "insert c (set visited) \<subseteq> set v"
      unfolding Let_def by blast
    from Cons.IH [OF _ s(4,5)] Cons.prems(1) obtain out S where
      "mesh_loop grid cells v (rects @ [\<lparr>RowFirst = Row c, RowLast = rLast, ColFirst = Col c, ColLast = cLast\<rparr>]) = Some out"
      "covers S out" "set cells \<union> set v \<subseteq> S" "S \<subseteq> set grid" by auto
    with s False show ?thesis by (intro exI [of _ out] exI [of _ S]) auto
  qed
qed

lemma GreedyMesh_covers:
  assumes "\<forall>c \<in> set cells. below_max c"
  shows "\<exists>rects. GreedyMesh cells = Some rects \<and> covers (set cells) rects"
proof (cases "cells = []")
  case True
  then show ?thesis by (simp add: GreedyMesh_def covers_def)
next
  case False
  have "\<forall>c \<in> set (sort cells). below_max c" using assms by simp
  from mesh_loop_spec [OF this, of "sort cells" "[]" "[]"] obtain out S where
    "mesh_loop (sort cells) (sort cells) [] [] = Some out" "covers S out" "S = set cells"
    by (auto simp: covers_def)
  with False show ?thesis by (simp add: GreedyMesh_def Let_def)
qed

lemma GreedyMesh_mset: "mset cells = mset cells' \<Longrightarrow> GreedyMesh cells = GreedyMesh cells'"
proof -
  assume e: "mset cells = mset cells'"
  then have "sort cells = sort cells'" by (intro properties_for_sort) simp_all
  moreover have "length cells = length cells'" using e by (metis size_mset)
  ultimately show ?thesis by (simp add: GreedyMesh_def)
qed

text \<open>At the largest int32 the marking loop never ends: \<open>c++\<close> wraps before \<open>c \<le> cLast\<close> fails.\<close>

lemma mark_cols_returns:
  "mark_cols r c cLast visited = Some v \<Longrightarrow> cLast \<noteq> max_i32 \<or> \<not> (min_i32 \<le> c \<and> c \<le> max_i32)"
proof (rule mark_cols.raw_induct
    [where P = "\<lambda>r c cLast visited v. cLast \<noteq> max_i32 \<or> \<not> (min_i32 \<le> c \<and> c \<le> max_i32)"])
  fix mc r c cLast visited v
  assume IH: "\<And>r c cLast visited v. mc r c cLast visited = Some v \<Longrightarrow>
      cLast \<noteq> max_i32 \<or> \<not> (min_i32 \<le> c \<and> c \<le> max_i32)"
    and body: "(if c \<le> cLast then mc r (i32 (c + 1)) cLast (Cell r c # visited) else Some visited) = Some v"
  show "cLast \<noteq> max_i32 \<or> \<not> (min_i32 \<le> c \<and> c \<le> max_i32)"
  proof (cases "c \<le> cLast")
    case True
    then have "mc r (i32 (c + 1)) cLast (Cell r c # visited) = Some v" using body by simp
    from IH [OF this] show ?thesis using i32_range [of "c + 1"] by blast
  qed auto
qed

lemma mark_cols_hangs: "mark_cols r max_i32 max_i32 visited = None"
  using mark_cols_returns [of r max_i32 max_i32 visited] by (cases "mark_cols r max_i32 max_i32 visited") auto

subsection \<open>Properties\<close>

text \<open>C5. \<open>GreedyMesh\<close> returns, and what it returns is an exact cover: for cells whose rows and columns
  stay below the largest int32, every given cell lies in a rectangle, every cell of a rectangle was given,
  and no two rectangles share a cell. The result depends only on which cells were given, not on the
  order in which the map iteration that feeds it listed them.\<close>

theorem GreedyMesh_exact_cover:
  assumes "\<forall>c \<in> set cells. below_max c"
  shows "\<exists>rects. GreedyMesh cells = Some rects \<and>
    (\<forall>c. c \<in> set cells \<longleftrightarrow> (\<exists>r \<in> set rects. in_rect c r)) \<and> sorted_wrt apart rects \<and>
    (\<forall>cells'. mset cells' = mset cells \<longrightarrow> GreedyMesh cells' = Some rects)"
  using GreedyMesh_covers [OF assms] GreedyMesh_mset unfolding covers_def by metis

theorem GreedyMesh_exact_cover_witness:
  "\<exists>rects. GreedyMesh [Cell 1 1, Cell 0 1, Cell 1 0] = Some rects \<and>
    (\<forall>c. c \<in> set [Cell 1 1, Cell 0 1, Cell 1 0] \<longleftrightarrow> (\<exists>r \<in> set rects. in_rect c r)) \<and> sorted_wrt apart rects \<and>
    (\<forall>cells'. mset cells' = mset [Cell 1 1, Cell 0 1, Cell 1 0] \<longrightarrow> GreedyMesh cells' = Some rects)"
  by (rule GreedyMesh_exact_cover) (simp add: below_max_def)

text \<open>C24. The bound in the cover theorem is needed: on a single cell in the last int32 column \<open>GreedyMesh\<close>
  does not return, whatever its row, because the marking loop's counter wraps around.\<close>

theorem GreedyMesh_hangs_at_max_column:
  "GreedyMesh [Cell r max_i32] = None"
proof -
  have w: "expand_width [Cell r max_i32] [] r max_i32 = Some max_i32"
    by (simp add: expand_width.simps open_cell_def i32_def)
  have ne: "i32 (r + 1) \<noteq> r"
  proof
    assume "i32 (r + 1) = r"
    then have "(r + 1 + 2 ^ 31) mod 2 ^ 32 = r + 2 ^ 31" by (simp add: i32_def)
    then have "1 = 2 ^ 32 * ((r + 1 + 2 ^ 31) div 2 ^ 32)"
      using minus_mod_eq_mult_div [of "r + 1 + 2 ^ 31" "2 ^ 32"] by simp
    then have "(2 :: int) ^ 32 dvd 1" by (metis dvd_triv_left)
    then show False by simp
  qed
  have h: "expand_height [Cell r max_i32] [] r max_i32 max_i32 = Some r"
    using ne by (simp add: expand_height.simps [of _ _ r] can_expand.simps [of _ _ _ max_i32] open_cell_def Let_def)
  have "mark_rows r r max_i32 max_i32 [] = None"
    by (simp add: mark_rows.simps [of r r] mark_cols_hangs)
  with w h show ?thesis by (simp add: GreedyMesh_def)
qed

text \<open>The cover is not the smallest one, although the comment says so: on a T of four cells
  \<open>GreedyMesh\<close> answers three rectangles where two disjoint ones cover the same cells.\<close>

lemma GreedyMesh_not_minimal:
  "GreedyMesh [Cell 0 1, Cell 1 0, Cell 1 1, Cell 1 2] = Some
     [\<lparr>RowFirst = 0, RowLast = 1, ColFirst = 1, ColLast = 1\<rparr>,
      \<lparr>RowFirst = 1, RowLast = 1, ColFirst = 0, ColLast = 0\<rparr>,
      \<lparr>RowFirst = 1, RowLast = 1, ColFirst = 2, ColLast = 2\<rparr>] \<and>
   covers {Cell 0 1, Cell 1 0, Cell 1 1, Cell 1 2}
     [\<lparr>RowFirst = 0, RowLast = 0, ColFirst = 1, ColLast = 1\<rparr>,
      \<lparr>RowFirst = 1, RowLast = 1, ColFirst = 0, ColLast = 2\<rparr>]"
proof
  have s: "sort [Cell 0 1, Cell 1 0, Cell 1 1, Cell 1 2] = [Cell 0 1, Cell 1 0, Cell 1 1, Cell 1 2]"
    by (simp add: sort_key_def less_eq_Cell_def less_Cell_def)
  show "GreedyMesh [Cell 0 1, Cell 1 0, Cell 1 1, Cell 1 2] = Some
     [\<lparr>RowFirst = 0, RowLast = 1, ColFirst = 1, ColLast = 1\<rparr>,
      \<lparr>RowFirst = 1, RowLast = 1, ColFirst = 0, ColLast = 0\<rparr>,
      \<lparr>RowFirst = 1, RowLast = 1, ColFirst = 2, ColLast = 2\<rparr>]"
    unfolding GreedyMesh_def s Let_def
    by (simp add: expand_width.simps expand_height.simps can_expand.simps mark_rows.simps mark_cols.simps
        open_cell_def Let_def)
  show "covers {Cell 0 1, Cell 1 0, Cell 1 1, Cell 1 2}
     [\<lparr>RowFirst = 0, RowLast = 0, ColFirst = 1, ColLast = 1\<rparr>,
      \<lparr>RowFirst = 1, RowLast = 1, ColFirst = 0, ColLast = 2\<rparr>]"
    unfolding covers_def
  proof
    show "\<forall>c. c \<in> {Cell 0 1, Cell 1 0, Cell 1 1, Cell 1 2} \<longleftrightarrow>
        (\<exists>r \<in> set [\<lparr>RowFirst = 0, RowLast = 0, ColFirst = 1, ColLast = 1\<rparr>,
          \<lparr>RowFirst = 1, RowLast = 1, ColFirst = 0, ColLast = 2\<rparr>]. in_rect c r)"
    proof
      fix c show "c \<in> {Cell 0 1, Cell 1 0, Cell 1 1, Cell 1 2} \<longleftrightarrow>
        (\<exists>r \<in> set [\<lparr>RowFirst = 0, RowLast = 0, ColFirst = 1, ColLast = 1\<rparr>,
          \<lparr>RowFirst = 1, RowLast = 1, ColFirst = 0, ColLast = 2\<rparr>]. in_rect c r)"
        by (cases c) (auto simp: in_rect_def)
    qed
  qed (auto simp: apart_def in_rect_def)
qed

end
