(* ===== verification/Scalar_Values.thy ===== *)
theory Scalar_Values
  imports Prelude
begin

section \<open>Cell values (pkg/server/types.go, converters.go)\<close>

text \<open>
  \<open>ScalarValue\<close> and the conversions around it. A float64 is its 64 bits; Go's \<open>==\<close> on it (and so
  on the struct, and so the lookup in a map keyed by it) is \<open>f64_eq\<close>: no NaN equals anything, and the
  two zeros are equal. A \<open>protocol.Any\<close> is the value its union holds; members that are not scalars
  are kept as the bytes of their table. A nil \<open>*protocol.Any\<close> is \<open>None\<close>.
\<close>

type_synonym f64 = "64 word"

definition f64_nan :: "f64 \<Rightarrow> bool" where
  "f64_nan x \<longleftrightarrow> 0x7FF0000000000000 < take_bit 63 x"

definition f64_eq :: "f64 \<Rightarrow> f64 \<Rightarrow> bool" where
  "f64_eq x y \<longleftrightarrow> \<not> f64_nan x \<and> \<not> f64_nan y \<and>
     (x = y \<or> take_bit 63 x = 0 \<and> take_bit 63 y = 0)"

datatype AnyValue =
    AnyValueNONE | AnyValueBool | AnyValueNum | AnyValueInt | AnyValueStr | AnyValueErr
  | AnyValueAsyncHandle | AnyValueNil | AnyValueGrid | AnyValueNumGrid | AnyValueRange
  | AnyValueRefCache | AnyValueDate

record ScalarValue =
  SType :: AnyValue
  SNum :: f64
  SInt :: int
  SBool :: bool
  SStr :: string
  SErr :: int

definition zero_scalar :: ScalarValue where
  "zero_scalar = \<lparr>SType = AnyValueNONE, SNum = 0, SInt = 0, SBool = False, SStr = [], SErr = 0\<rparr>"

text \<open>Go's \<open>==\<close> on the struct.\<close>

definition scalar_eq :: "ScalarValue \<Rightarrow> ScalarValue \<Rightarrow> bool" where
  "scalar_eq a b \<longleftrightarrow> SType a = SType b \<and> f64_eq (SNum a) (SNum b) \<and> SInt a = SInt b \<and> SBool a = SBool b \<and>
     SStr a = SStr b \<and> SErr a = SErr b"

datatype any_value =
    AnyBool bool | AnyNum f64 | AnyInt int | AnyStr string | AnyErr int | AnyDate f64
  | AnyOther bytes | AnyEmpty AnyValue

definition ToScalar :: "any_value option \<Rightarrow> ScalarValue option" where
  "ToScalar v =
     (case v of
        None \<Rightarrow> None
      | Some (AnyEmpty _) \<Rightarrow> None
      | Some (AnyInt i) \<Rightarrow> Some (zero_scalar\<lparr>SType := AnyValueInt, SInt := i\<rparr>)
      | Some (AnyNum x) \<Rightarrow> Some (zero_scalar\<lparr>SType := AnyValueNum, SNum := x\<rparr>)
      | Some (AnyBool b) \<Rightarrow> Some (zero_scalar\<lparr>SType := AnyValueBool, SBool := b\<rparr>)
      | Some (AnyStr s) \<Rightarrow> Some (zero_scalar\<lparr>SType := AnyValueStr, SStr := s\<rparr>)
      | Some (AnyErr e) \<Rightarrow> Some (zero_scalar\<lparr>SType := AnyValueErr, SErr := e\<rparr>)
      | Some (AnyDate x) \<Rightarrow> Some (zero_scalar\<lparr>SType := AnyValueNum, SNum := x\<rparr>)
      | Some (AnyOther _) \<Rightarrow> None)"

definition CreateScalarAny :: "ScalarValue \<Rightarrow> any_value" where
  "CreateScalarAny val =
     (if SType val = AnyValueInt then AnyInt (SInt val)
      else if SType val = AnyValueNum then AnyNum (SNum val)
      else if SType val = AnyValueBool then AnyBool (SBool val)
      else if SType val = AnyValueStr then AnyStr (SStr val)
      else if SType val = AnyValueErr then AnyErr (SErr val)
      else AnyEmpty (SType val))"

definition ParseBool :: "string \<Rightarrow> bool" where
  "ParseBool s \<longleftrightarrow> s = ''TRUE'' \<or> s = ''1'' \<or> s = ''true''"

text \<open>\<open>strconv.ParseInt(s, 10, 32)\<close>: an optional sign and decimal digits, in the range of int32.
  (Base 10 admits no underscores.)\<close>

definition digit_val :: "char \<Rightarrow> int" where
  "digit_val c = int (of_char c) - 48"

definition is_digit :: "char \<Rightarrow> bool" where
  "is_digit c \<longleftrightarrow> 48 \<le> (of_char c :: nat) \<and> (of_char c :: nat) \<le> 57"

definition decimal :: "string \<Rightarrow> int option" where
  "decimal s = (if s \<noteq> [] \<and> list_all is_digit s then Some (foldl (\<lambda>n c. 10 * n + digit_val c) 0 s) else None)"

definition strconv_ParseInt32 :: "string \<Rightarrow> int option" where
  "strconv_ParseInt32 s =
     (let neg = (s \<noteq> [] \<and> hd s = CHR ''-''); signed = (s \<noteq> [] \<and> (hd s = CHR ''-'' \<or> hd s = CHR ''+''));
          digits = (if signed then tl s else s)
      in case decimal digits of
           None \<Rightarrow> None
         | Some n \<Rightarrow> (let v = (if neg then - n else n)
                       in if min_i32 \<le> v \<and> v \<le> max_i32 then Some v else None))"

definition ParseInt :: "string \<Rightarrow> int" where
  "ParseInt s = (case strconv_ParseInt32 s of None \<Rightarrow> 0 | Some v \<Rightarrow> i32 v)"

subsection \<open>Equality and conversion\<close>

lemma f64_eq_sym: "f64_eq x y = f64_eq y x"
  by (auto simp: f64_eq_def)

lemma f64_eq_trans: "f64_eq x y \<Longrightarrow> f64_eq y z \<Longrightarrow> f64_eq x z"
  by (auto simp: f64_eq_def)

lemma scalar_eq_sym: "scalar_eq a b = scalar_eq b a"
  by (auto simp: scalar_eq_def f64_eq_sym)

lemma scalar_eq_trans: "scalar_eq a b \<Longrightarrow> scalar_eq b c \<Longrightarrow> scalar_eq a c"
  by (auto simp: scalar_eq_def intro: f64_eq_trans)

text \<open>A scalar survives the trip through \<open>ScalarValue\<close>, except that a date becomes its serial number.\<close>

lemma scalar_roundtrip:
  "ToScalar (Some v) = Some s \<Longrightarrow> CreateScalarAny s = (case v of AnyDate x \<Rightarrow> AnyNum x | _ \<Rightarrow> v)"
  by (cases v) (auto simp: ToScalar_def CreateScalarAny_def zero_scalar_def)

lemma ParseInt_range: "min_i32 \<le> ParseInt s \<and> ParseInt s \<le> max_i32"
  using i32_range by (simp add: ParseInt_def split: option.split)

end
