(* ===== verification/Command_Batcher.thy ===== *)
theory Command_Batcher
  imports Greedy_Mesh Scalar_Values
begin

section \<open>The command batcher (pkg/server/command_batcher.go, command_flush.go)\<close>

text \<open>
  \<open>CommandBatcher\<close> collects Set and Format commands during a calculation cycle and compresses them
  at its end. Each public method runs under one mutex and is one definition. Go iterates its maps in an
  arbitrary order: the order in which a flush visits its maps - the sheets, the cells of a sheet, the values or formats
  of a sheet - is the parameter \<open>ord\<close>, any rearrangement, of its own for every call, sheet and map. Row
  and column counters are int32 and wrap, so the loops over a range, and \<open>GreedyMesh\<close>, may fail to
  return: \<open>None\<close>. Serialising a command and reading one back are FlatBuffers: the parameters \<open>ser\<close>
  (a \<open>SetCommand\<close> table), \<open>des\<close> and \<open>enc\<close> (the response).
\<close>

definition batchingThreshold :: int where "batchingThreshold = 1024"
definition cmdTypeSet :: int where "cmdTypeSet = 0"
definition cmdTypeFormat :: int where "cmdTypeFormat = 1"

lemmas cmd_defs [go_defs] = batchingThreshold_def cmdTypeSet_def cmdTypeFormat_def

record QueuedCommand =
  CmdType :: int
  CmdData :: "bytes option"
  Sheet :: string
  Rects :: "Rect list"
  ScalarVal :: ScalarValue
  FormatStr :: string

text \<open>\<open>protocol.Range\<close>.\<close>

record Range =
  SheetName :: string
  Refs :: "Rect list"

record CommandBatcher =
  bufferedSets :: "(string, (Cell, ScalarValue) gomap) gomap"
  bufferedFormats :: "(string, (Cell, string) gomap) gomap"
  cmdQueue :: "QueuedCommand list"

definition NewCommandBatcher :: CommandBatcher where
  "NewCommandBatcher = \<lparr>bufferedSets = [], bufferedFormats = [], cmdQueue = []\<rparr>"

definition Clear :: "CommandBatcher \<Rightarrow> CommandBatcher" where
  "Clear cb = cb\<lparr>cmdQueue := [], bufferedSets := [], bufferedFormats := []\<rparr>"

definition calculateTotalCells :: "Range \<Rightarrow> int" where
  "calculateTotalCells r =
     fold (\<lambda>rect totalCells.
             let rows = i64 (RowLast rect - RowFirst rect + 1); cols = i64 (ColLast rect - ColFirst rect + 1)
             in i64 (totalCells + i64 (rows * cols)))
       (Refs r) 0"

definition extractAlgoRects :: "Range \<Rightarrow> Rect list" where
  "extractAlgoRects r = Refs r"

subsection \<open>Loops over int32 counters\<close>

text \<open>\<open>for i := first; i <= last; i++ { body }\<close> with an int32 \<open>i\<close>.\<close>

partial_function (option) for_i32 :: "int \<Rightarrow> int \<Rightarrow> (int \<Rightarrow> 's \<Rightarrow> 's option) \<Rightarrow> 's \<Rightarrow> 's option" where
  "for_i32 i hi body s =
     (if i \<le> hi then Option.bind (body i s) (\<lambda>s. for_i32 (i32 (i + 1)) hi body s) else Some s)"

primrec foldo :: "('a \<Rightarrow> 's \<Rightarrow> 's option) \<Rightarrow> 'a list \<Rightarrow> 's \<Rightarrow> 's option" where
  "foldo f [] s = Some s"
| "foldo f (x # xs) s = Option.bind (f x s) (foldo f xs)"

text \<open>Writing one value to every cell of a list of rectangles, as both Schedule methods do.\<close>

definition buffer_rects :: "Rect list \<Rightarrow> 'v \<Rightarrow> (Cell, 'v) gomap \<Rightarrow> (Cell, 'v) gomap option" where
  "buffer_rects rects v =
     foldo (\<lambda>rect.
       for_i32 (RowFirst rect) (RowLast rect) (\<lambda>row.
         for_i32 (ColFirst rect) (ColLast rect) (\<lambda>col cells. Some (gm_put (Cell row col) v cells))))
       rects"

subsection \<open>Flushing\<close>

text \<open>\<open>byVal[val] = append(byVal[val], cell)\<close>: a lookup by Go's \<open>==\<close>; a key that equals nothing,
  not even itself, is a new entry every time. (Of two equal float keys the map keeps the later.)\<close>

fun group_put :: "('v \<Rightarrow> 'v \<Rightarrow> bool) \<Rightarrow> 'v \<Rightarrow> 'c \<Rightarrow> ('v \<times> 'c list) list \<Rightarrow> ('v \<times> 'c list) list" where
  "group_put eq k c [] = [(k, [c])]"
| "group_put eq k c ((k', cs) # m) = (if eq k' k then (k, cs @ [c]) # m else (k', cs) # group_put eq k c m)"

definition group_cells :: "('v \<Rightarrow> 'v \<Rightarrow> bool) \<Rightarrow> (Cell, 'v) gomap \<Rightarrow> ('v \<times> Cell list) list" where
  "group_cells eq cells = fold (\<lambda>(cell, val) byVal. group_put eq val cell byVal) cells []"

text \<open>\<open>for i := 0; i < len(rects); i += 32\<close>: the batches.\<close>

function rect_batches :: "int \<Rightarrow> Rect list \<Rightarrow> Rect list list" where
  "rect_batches i rects =
     (if i < int (length rects) then
        (let e = i + 32; e = (if e > int (length rects) then int (length rects) else e)
         in slice rects i e # rect_batches (i + 32) rects)
      else [])"
  by pat_completeness auto
termination by (relation "measure (\<lambda>(i, rects). nat (int (length rects) - i))") auto

declare rect_batches.simps [simp del]

text \<open>The order in which the \<open>range\<close> loops of one flush visit the sheets, the cells of a sheet and the groups of a sheet.\<close>

record 'v map_order =
  ord_sheets :: "(string \<times> (Cell, 'v) gomap) list \<Rightarrow> (string \<times> (Cell, 'v) gomap) list"
  ord_cells :: "string \<Rightarrow> (Cell \<times> 'v) list \<Rightarrow> (Cell \<times> 'v) list"
  ord_groups :: "string \<Rightarrow> ('v \<times> Cell list) list \<Rightarrow> ('v \<times> Cell list) list"

text \<open>The body for one sheet, for either kind of command.\<close>

definition flush_sheet ::
  "('v \<Rightarrow> 'v \<Rightarrow> bool) \<Rightarrow> 'v map_order \<Rightarrow>
   (string \<Rightarrow> 'v \<Rightarrow> Rect list \<Rightarrow> QueuedCommand) \<Rightarrow> string \<times> (Cell, 'v) gomap \<Rightarrow>
   QueuedCommand list \<Rightarrow> QueuedCommand list option" where
  "flush_sheet eq ord mk entry queue =
     foldo (\<lambda>(val, cellList) queue.
        Option.bind (GreedyMesh cellList) (\<lambda>rects.
          Some (queue @ map (mk (fst entry) val) (rect_batches 0 rects))))
       (ord_groups ord (fst entry) (group_cells eq (ord_cells ord (fst entry) (snd entry)))) queue"

definition set_command :: "string \<Rightarrow> ScalarValue \<Rightarrow> Rect list \<Rightarrow> QueuedCommand" where
  "set_command sheet val batch =
     \<lparr>CmdType = cmdTypeSet, CmdData = None, Sheet = sheet, Rects = batch, ScalarVal = val, FormatStr = []\<rparr>"

definition format_command :: "string \<Rightarrow> string \<Rightarrow> Rect list \<Rightarrow> QueuedCommand" where
  "format_command sheet fmt batch =
     \<lparr>CmdType = cmdTypeFormat, CmdData = None, Sheet = sheet, Rects = batch, ScalarVal = zero_scalar,
      FormatStr = fmt\<rparr>"

record map_orders =
  ord_vals :: "ScalarValue map_order"
  ord_fmts :: "string map_order"

definition flushBuffersLocked :: "map_orders \<Rightarrow> CommandBatcher \<Rightarrow> CommandBatcher option" where
  "flushBuffersLocked ord cb =
     (if gm_len (bufferedSets cb) = 0 \<and> gm_len (bufferedFormats cb) = 0 then Some cb
      else
        (let sets = bufferedSets cb; formats = bufferedFormats cb;
             cb = cb\<lparr>bufferedSets := [], bufferedFormats := []\<rparr>
         in Option.bind (foldo (flush_sheet scalar_eq (ord_vals ord) set_command) (ord_sheets (ord_vals ord) sets) (cmdQueue cb)) (\<lambda>queue.
            Option.bind (foldo (flush_sheet (=) (ord_fmts ord) format_command) (ord_sheets (ord_fmts ord) formats) queue) (\<lambda>queue.
              Some (cb\<lparr>cmdQueue := queue\<rparr>)))))"

subsection \<open>Scheduling\<close>

definition enqueue :: "QueuedCommand \<Rightarrow> CommandBatcher \<Rightarrow> CommandBatcher" where
  "enqueue c cb = cb\<lparr>cmdQueue := cmdQueue cb @ [c]\<rparr>"

definition sheet_cells :: "(string, (Cell, 'v) gomap) gomap \<Rightarrow> string \<Rightarrow> (Cell, 'v) gomap" where
  "sheet_cells m sheet = (case gm_get m sheet of None \<Rightarrow> [] | Some cells \<Rightarrow> cells)"

definition ScheduleSet ::
  "map_orders \<Rightarrow> (Range \<Rightarrow> any_value option \<Rightarrow> bytes) \<Rightarrow> Range \<Rightarrow> any_value option \<Rightarrow> CommandBatcher \<Rightarrow>
   CommandBatcher option" where
  "ScheduleSet ord ser r v cb =
     (case ToScalar v of
        Some scalar \<Rightarrow>
          if calculateTotalCells r > batchingThreshold then
            Option.bind (flushBuffersLocked ord cb)
              (\<lambda>cb. Some (enqueue (set_command (SheetName r) scalar (extractAlgoRects r)) cb))
          else
            Option.bind (buffer_rects (Refs r) scalar (sheet_cells (bufferedSets cb) (SheetName r)))
              (\<lambda>cells. Some (cb\<lparr>bufferedSets := gm_put (SheetName r) cells (bufferedSets cb)\<rparr>))
      | None \<Rightarrow>
          Option.bind (flushBuffersLocked ord cb)
            (\<lambda>cb. Some (enqueue
               \<lparr>CmdType = cmdTypeSet, CmdData = Some (ser r v), Sheet = [], Rects = [],
                ScalarVal = zero_scalar, FormatStr = []\<rparr> cb)))"

definition ScheduleFormat :: "map_orders \<Rightarrow> Range \<Rightarrow> string \<Rightarrow> CommandBatcher \<Rightarrow> CommandBatcher option" where
  "ScheduleFormat ord r fmtStr cb =
     (if calculateTotalCells r > batchingThreshold then
        Option.bind (flushBuffersLocked ord cb)
          (\<lambda>cb. Some (enqueue (format_command (SheetName r) fmtStr (extractAlgoRects r)) cb))
      else
        Option.bind (buffer_rects (Refs r) fmtStr (sheet_cells (bufferedFormats cb) (SheetName r)))
          (\<lambda>cells. Some (cb\<lparr>bufferedFormats := gm_put (SheetName r) cells (bufferedFormats cb)\<rparr>)))"

subsection \<open>The response\<close>

text \<open>The union of commands in a \<open>CalculationEndedResponse\<close>.\<close>

datatype wire_command = SetCommand Range "any_value option" | FormatCommand Range string

definition wire_of ::
  "(bytes \<Rightarrow> Range \<times> any_value option) \<Rightarrow> (bytes \<Rightarrow> Range \<times> string) \<Rightarrow> QueuedCommand \<Rightarrow> wire_command" where
  "wire_of des_set des_format c =
     (case CmdData c of
        None \<Rightarrow>
          (let target = \<lparr>SheetName = Sheet c, Refs = Rects c\<rparr>
           in if CmdType c = cmdTypeSet then SetCommand target (Some (CreateScalarAny (ScalarVal c)))
              else FormatCommand target (FormatStr c))
      | Some data \<Rightarrow>
          if CmdType c = cmdTypeSet then
            (let (target, value) = des_set data in SetCommand target value)
          else (let (target, fmt) = des_format data in FormatCommand target fmt))"

text \<open>The result is Go's nil slice (\<open>None\<close>) or the bytes; the outer option is \<open>None\<close> when a loop
  does not return.\<close>

definition FlushCommands ::
  "map_orders \<Rightarrow> (bytes \<Rightarrow> Range \<times> any_value option) \<Rightarrow> (bytes \<Rightarrow> Range \<times> string) \<Rightarrow>
   (wire_command list \<Rightarrow> bytes) \<Rightarrow> CommandBatcher \<Rightarrow> (bytes option \<times> CommandBatcher) option" where
  "FlushCommands ord des_set des_format enc cb =
     Option.bind (flushBuffersLocked ord cb) (\<lambda>cb.
       if length (cmdQueue cb) = 0 then Some (None, cb)
       else Some (Some (enc (map (wire_of des_set des_format) (cmdQueue cb))), cb\<lparr>cmdQueue := []\<rparr>))"

subsection \<open>The loops\<close>

definition rect_ok :: "Rect \<Rightarrow> bool" where
  "rect_ok r \<longleftrightarrow> min_i32 \<le> RowFirst r \<and> RowLast r < max_i32 \<and> min_i32 \<le> ColFirst r \<and> ColLast r < max_i32"

lemma for_i32_inv:
  assumes body: "\<And>k s. i \<le> k \<Longrightarrow> k \<le> hi \<Longrightarrow> I k s \<Longrightarrow> \<exists>s'. body k s = Some s' \<and> I (k + 1) s'"
  shows "min_i32 \<le> i \<Longrightarrow> hi < max_i32 \<Longrightarrow> I i s \<Longrightarrow> i \<le> hi + 1 \<Longrightarrow>
    \<exists>s'. for_i32 i hi body s = Some s' \<and> I (hi + 1) s'"
  using body
proof (induction "nat (hi + 1 - i)" arbitrary: i s rule: less_induct)
  case less
  show ?case
  proof (cases "i \<le> hi")
    case True
    obtain s1 where s1: "body i s = Some s1" "I (i + 1) s1" using less.prems(5) [of i s] less.prems(3) True by auto
    have "\<exists>s'. for_i32 (i + 1) hi body s1 = Some s' \<and> I (hi + 1) s'"
      by (rule less.hyps) (use less.prems True s1 in auto)
    then show ?thesis using s1 True less.prems(1,2) by (simp add: for_i32.simps [of i])
  next
    case False
    then have "i = hi + 1" using less.prems(4) by simp
    then show ?thesis using less.prems(3) by (intro exI [of _ s]) (subst for_i32.simps, simp)
  qed
qed

text \<open>Buffering a rectangle writes exactly its cells.\<close>

lemma buffer_row:
  assumes "min_i32 \<le> a" and "b < max_i32"
  shows "\<exists>m'. for_i32 a b (\<lambda>col cells. Some (gm_put (Cell row col) v cells)) m = Some m' \<and> (gm_ok m \<longrightarrow> gm_ok m') \<and>
    (\<forall>c. gm_get m' c = (if Row c = row \<and> a \<le> Col c \<and> Col c \<le> b then Some v else gm_get m c))"
proof (cases "a \<le> b")
  case False
  then show ?thesis by (intro exI [of _ m]) (auto simp: for_i32.simps)
next
  case True
  let ?I = "\<lambda>k m'. (gm_ok m \<longrightarrow> gm_ok m') \<and>
    (\<forall>c. gm_get m' c = (if Row c = row \<and> a \<le> Col c \<and> Col c < k then Some v else gm_get m c))"
  have "\<exists>m'. for_i32 a b (\<lambda>col cells. Some (gm_put (Cell row col) v cells)) m = Some m' \<and> ?I (b + 1) m'"
  proof (rule for_i32_inv)
    fix k s assume k: "a \<le> k" "k \<le> b" and I: "?I k s"
    have "gm_get (gm_put (Cell row k) v s) c =
        (if Row c = row \<and> a \<le> Col c \<and> Col c < k + 1 then Some v else gm_get m c)" for c
      using I k by (cases c) auto
    then show "\<exists>s'. Some (gm_put (Cell row k) v s) = Some s' \<and> ?I (k + 1) s'"
      using I k by auto
  qed (use assms True in auto)
  then show ?thesis by (simp add: zle_add1_eq_le)
qed

lemma buffer_rect:
  assumes "rect_ok r"
  shows "\<exists>m'. for_i32 (RowFirst r) (RowLast r) (\<lambda>row.
      for_i32 (ColFirst r) (ColLast r) (\<lambda>col cells. Some (gm_put (Cell row col) v cells))) m = Some m' \<and>
    (gm_ok m \<longrightarrow> gm_ok m') \<and> (\<forall>c. gm_get m' c = (if in_rect c r then Some v else gm_get m c))"
proof (cases "RowFirst r \<le> RowLast r")
  case False
  then show ?thesis by (intro exI [of _ m]) (auto simp: for_i32.simps in_rect_def)
next
  case True
  let ?in = "\<lambda>c k. RowFirst r \<le> Row c \<and> Row c < k \<and> ColFirst r \<le> Col c \<and> Col c \<le> ColLast r"
  let ?I = "\<lambda>k m'. (gm_ok m \<longrightarrow> gm_ok m') \<and> (\<forall>c. gm_get m' c = (if ?in c k then Some v else gm_get m c))"
  have "\<exists>m'. for_i32 (RowFirst r) (RowLast r) (\<lambda>row.
      for_i32 (ColFirst r) (ColLast r) (\<lambda>col cells. Some (gm_put (Cell row col) v cells))) m = Some m' \<and>
    ?I (RowLast r + 1) m'"
  proof (rule for_i32_inv)
    fix k s assume k: "RowFirst r \<le> k" "k \<le> RowLast r" and I: "?I k s"
    obtain s' where s': "for_i32 (ColFirst r) (ColLast r) (\<lambda>col cells. Some (gm_put (Cell k col) v cells)) s = Some s'"
      "gm_ok s \<longrightarrow> gm_ok s'"
      "\<forall>c. gm_get s' c = (if Row c = k \<and> ColFirst r \<le> Col c \<and> Col c \<le> ColLast r then Some v else gm_get s c)"
      using buffer_row [of "ColFirst r" "ColLast r" k v s] assms by (auto simp: rect_ok_def)
    have "gm_get s' c = (if ?in c (k + 1) then Some v else gm_get m c)" for c
      using s'(3) I k by auto
    then show "\<exists>s'. for_i32 (ColFirst r) (ColLast r) (\<lambda>col cells. Some (gm_put (Cell k col) v cells)) s = Some s' \<and>
        ?I (k + 1) s'" using s'(1,2) I by blast
  qed (use assms True in \<open>auto simp: rect_ok_def\<close>)
  then show ?thesis by (simp add: zle_add1_eq_le in_rect_def conj_assoc)
qed

definition in_rects :: "Cell \<Rightarrow> Rect list \<Rightarrow> bool" where
  "in_rects c rects \<longleftrightarrow> (\<exists>r \<in> set rects. in_rect c r)"

lemma buffer_rects_spec:
  assumes "\<forall>r \<in> set rects. rect_ok r"
  shows "\<exists>m'. buffer_rects rects v m = Some m' \<and> (gm_ok m \<longrightarrow> gm_ok m') \<and>
    (\<forall>c. gm_get m' c = (if in_rects c rects then Some v else gm_get m c))"
  using assms
proof (induction rects arbitrary: m)
  case Nil
  then show ?case by (simp add: buffer_rects_def in_rects_def)
next
  case (Cons r rects)
  obtain m1 where m1: "for_i32 (RowFirst r) (RowLast r) (\<lambda>row.
      for_i32 (ColFirst r) (ColLast r) (\<lambda>col cells. Some (gm_put (Cell row col) v cells))) m = Some m1"
    "gm_ok m \<longrightarrow> gm_ok m1" "\<forall>c. gm_get m1 c = (if in_rect c r then Some v else gm_get m c)"
    using buffer_rect [of r v m] Cons.prems by auto
  obtain m2 where m2: "buffer_rects rects v m1 = Some m2" "gm_ok m1 \<longrightarrow> gm_ok m2"
    "\<forall>c. gm_get m2 c = (if in_rects c rects then Some v else gm_get m1 c)"
    using Cons.IH [of m1] Cons.prems by auto
  have "buffer_rects (r # rects) v m = Some m2" using m1(1) m2(1) by (simp add: buffer_rects_def)
  moreover have "\<forall>c. gm_get m2 c = (if in_rects c (r # rects) then Some v else gm_get m c)"
    using m1(3) m2(3) by (auto simp: in_rects_def)
  ultimately show ?case using m1(2) m2(2) by blast
qed

subsection \<open>Grouping and batching\<close>

text \<open>Two values are the same for a cell when they are identical or equal in Go's sense (for a NaN
  only the former holds, for the two zeros only the latter).\<close>

definition same :: "('v \<Rightarrow> 'v \<Rightarrow> bool) \<Rightarrow> 'v \<Rightarrow> 'v \<Rightarrow> bool" where
  "same eq x y \<longleftrightarrow> x = y \<or> eq x y"

definition per :: "('v \<Rightarrow> 'v \<Rightarrow> bool) \<Rightarrow> bool" where
  "per eq \<longleftrightarrow> (\<forall>x y. eq x y \<longrightarrow> eq y x) \<and> (\<forall>x y z. eq x y \<longrightarrow> eq y z \<longrightarrow> eq x z)"

lemma per_scalar_eq: "per scalar_eq"
  using scalar_eq_sym scalar_eq_trans unfolding per_def by blast

lemma per_eq: "per (=)"
  by (simp add: per_def)

text \<open>The groups partition the cells, and a group's key is the same as the value of each of its cells.\<close>

definition groups_of :: "('v \<Rightarrow> 'v \<Rightarrow> bool) \<Rightarrow> (Cell \<times> 'v) list \<Rightarrow> ('v \<times> Cell list) list \<Rightarrow> bool" where
  "groups_of eq kvs gs \<longleftrightarrow> mset (concat (map snd gs)) = mset (map fst kvs) \<and>
     (\<forall>(k, cs) \<in> set gs. \<forall>c \<in> set cs. \<exists>v. (c, v) \<in> set kvs \<and> same eq k v)"

lemma group_put_spec:
  assumes "per eq"
  shows "mset (concat (map snd (group_put eq k c gs))) = add_mset c (mset (concat (map snd gs)))"
    and "(k', cs) \<in> set (group_put eq k c gs) \<Longrightarrow> d \<in> set cs \<Longrightarrow>
      (d = c \<and> k' = k) \<or> (\<exists>k'' ds. (k'', ds) \<in> set gs \<and> d \<in> set ds \<and> same eq k' k'')"
proof -
  show "mset (concat (map snd (group_put eq k c gs))) = add_mset c (mset (concat (map snd gs)))"
    by (induction gs) auto
  show "(k', cs) \<in> set (group_put eq k c gs) \<Longrightarrow> d \<in> set cs \<Longrightarrow>
      (d = c \<and> k' = k) \<or> (\<exists>k'' ds. (k'', ds) \<in> set gs \<and> d \<in> set ds \<and> same eq k' k'')"
  proof (induction gs)
    case (Cons g gs)
    obtain l ds where g: "g = (l, ds)" by fastforce
    show ?case
    proof (cases "eq l k")
      case True
      then have "eq k l" using assms unfolding per_def by blast
      from Cons.prems(1) g True consider "k' = k" "cs = ds @ [c]" | "(k', cs) \<in> set gs" by auto
      then show ?thesis
      proof cases
        case 1
        have "same eq k l" using \<open>eq k l\<close> by (simp add: same_def)
        then show ?thesis using 1 Cons.prems(2) g by auto
      next
        case 2
        have "same eq k' k'" by (simp add: same_def)
        then show ?thesis using 2 Cons.prems(2) by auto
      qed
    next
      case False
      from Cons.prems(1) g False consider "(k', cs) = (l, ds)" | "(k', cs) \<in> set (group_put eq k c gs)" by auto
      then show ?thesis
      proof cases
        case 1
        moreover have "same eq l l" by (simp add: same_def)
        ultimately show ?thesis using Cons.prems(2) g by auto
      next
        case 2
        then show ?thesis using Cons.IH [OF 2 Cons.prems(2)] g by auto
      qed
    qed
  qed auto
qed

lemma same_trans: "per eq \<Longrightarrow> same eq x y \<Longrightarrow> same eq y z \<Longrightarrow> same eq x z"
  unfolding per_def same_def by blast

lemma groups_fold:
  assumes "per eq"
  shows "groups_of eq done gs \<Longrightarrow>
    groups_of eq (done @ kvs) (fold (\<lambda>(cell, val) byVal. group_put eq val cell byVal) kvs gs)"
proof (induction kvs arbitrary: "done" gs)
  case (Cons e kvs)
  obtain c v where e: "e = (c, v)" by fastforce
  have "groups_of eq (done @ [e]) (group_put eq v c gs)"
    unfolding groups_of_def
  proof (intro conjI ballI)
    show "mset (concat (map snd (group_put eq v c gs))) = mset (map fst (done @ [e]))"
      using Cons.prems group_put_spec(1) [OF assms, of v c gs] by (simp add: groups_of_def e)
  next
    fix g assume g: "g \<in> set (group_put eq v c gs)"
    obtain k cs where kc: "g = (k, cs)" by fastforce
    have "\<exists>w. (d, w) \<in> set (done @ [e]) \<and> same eq k w" if d: "d \<in> set cs" for d
    proof -
      from group_put_spec(2) [OF assms g [unfolded kc] d]
      consider "d = c" "k = v" | l ds where "(l, ds) \<in> set gs" "d \<in> set ds" "same eq k l" by blast
      then show ?thesis
      proof cases
        case 1
        then show ?thesis by (intro exI [of _ v]) (simp add: e same_def)
      next
        case (2 l ds)
        then obtain w where "(d, w) \<in> set done" "same eq l w" using Cons.prems by (fastforce simp: groups_of_def)
        then show ?thesis using same_trans [OF assms 2(3)] by auto
      qed
    qed
    then show "case g of (k, cs) \<Rightarrow> \<forall>c \<in> set cs. \<exists>v. (c, v) \<in> set (done @ [e]) \<and> same eq k v" by (simp add: kc)
  qed
  from Cons.IH [OF this] show ?case by (simp add: e)
qed simp

lemma group_cells_groups: "per eq \<Longrightarrow> groups_of eq kvs (group_cells eq kvs)"
  using groups_fold [of eq "[]" "[]" kvs] by (simp add: group_cells_def groups_of_def)

lemma rect_batches_concat:
  "0 \<le> i \<Longrightarrow> concat (rect_batches i rects) = drop (nat i) rects"
proof (induction i rects rule: rect_batches.induct)
  case (1 i rects)
  show ?case
  proof (cases "i < int (length rects)")
    case True
    let ?e = "min (i + 32) (int (length rects))"
    have "concat (rect_batches i rects) = slice rects i ?e @ concat (rect_batches (i + 32) rects)"
      using True by (simp add: rect_batches.simps [of i] Let_def min_def)
    also have "concat (rect_batches (i + 32) rects) = drop (nat (i + 32)) rects"
      using 1 True by simp
    also have "drop (nat (i + 32)) rects = slice rects ?e (int (length rects))"
      by (auto simp: slice_def min_def nat_add_distrib)
    also have "slice rects i ?e @ slice rects ?e (int (length rects)) = slice rects i (int (length rects))"
      by (rule slice_append) (use 1(2) True in auto)
    also have "\<dots> = drop (nat i) rects" using 1(2) by (simp add: slice_def nat_diff_distrib)
    finally show ?thesis .
  next
    case False
    then show ?thesis by (simp add: rect_batches.simps [of i])
  qed
qed

lemma rect_batches_size: "0 \<le> i \<Longrightarrow> b \<in> set (rect_batches i rects) \<Longrightarrow> 0 < length b \<and> length b \<le> 32"
proof (induction i rects rule: rect_batches.induct)
  case (1 i rects)
  show ?case
  proof (cases "i < int (length rects)")
    case True
    then have "b = slice rects i (min (i + 32) (int (length rects))) \<or> b \<in> set (rect_batches (i + 32) rects)"
      using 1(3) by (auto simp: rect_batches.simps [of i] Let_def min_def split: if_splits)
    then show ?thesis
    proof
      assume "b = slice rects i (min (i + 32) (int (length rects)))"
      then have "int (length b) = min (i + 32) (int (length rects)) - i"
        using 1(2) True by (simp add: length_slice)
      then show ?thesis using True by linarith
    next
      assume "b \<in> set (rect_batches (i + 32) rects)"
      then show ?thesis using 1 True by simp
    qed
  next
    case False
    then show ?thesis using 1(3) by (simp add: rect_batches.simps [of i])
  qed
qed

subsection \<open>What a queue writes\<close>

text \<open>A writer says what one command writes to a fixed cell; the last one in the queue wins.\<close>

definition last_write :: "('c \<Rightarrow> 'x option) \<Rightarrow> 'c list \<Rightarrow> 'x option" where
  "last_write w cmds = fold (\<lambda>c acc. case w c of None \<Rightarrow> acc | Some x \<Rightarrow> Some x) cmds None"

lemma last_write_fold:
  "fold (\<lambda>c acc. case w c of None \<Rightarrow> acc | Some x \<Rightarrow> Some x) cmds acc =
     (case last_write w cmds of None \<Rightarrow> acc | Some x \<Rightarrow> Some x)"
proof (induction cmds arbitrary: acc)
  case (Cons c cmds)
  let ?F = "\<lambda>acc. case w c of None \<Rightarrow> acc | Some x \<Rightarrow> Some x"
  have "last_write w (c # cmds) = fold (\<lambda>c acc. case w c of None \<Rightarrow> acc | Some x \<Rightarrow> Some x) cmds (?F None)"
    by (simp add: last_write_def)
  then show ?case unfolding Cons.IH [of "?F None"] using Cons.IH [of "?F acc"]
    by (cases "w c") (simp_all split: option.split)
qed (simp add: last_write_def)

lemma last_write_simps [simp]:
  "last_write w [] = None"
  "last_write w (xs @ ys) = (case last_write w ys of None \<Rightarrow> last_write w xs | Some x \<Rightarrow> Some x)"
  "last_write w [c] = w c"
proof -
  show "last_write w (xs @ ys) = (case last_write w ys of None \<Rightarrow> last_write w xs | Some x \<Rightarrow> Some x)"
    unfolding last_write_def [of w "xs @ ys"] fold_append o_apply last_write_fold by (simp split: option.split)
qed (simp_all add: last_write_def split: option.split)

lemma last_write_none: "(\<And>c. c \<in> set cmds \<Longrightarrow> w c = None) \<Longrightarrow> last_write w cmds = None"
  by (induction cmds rule: rev_induct) simp_all

text \<open>The writer of the commands a flush makes, for one sheet and cell.\<close>

definition makes :: "(QueuedCommand \<Rightarrow> 'x option) \<Rightarrow> (string \<Rightarrow> 'v \<Rightarrow> Rect list \<Rightarrow> QueuedCommand) \<Rightarrow> ('v \<Rightarrow> 'x) \<Rightarrow>
   string \<Rightarrow> Cell \<Rightarrow> bool" where
  "makes w mk f sheet cell \<longleftrightarrow>
     (\<forall>s v rects. w (mk s v rects) = (if s = sheet \<and> in_rects cell rects then Some (f v) else None))"

definition made_by :: "(string \<Rightarrow> 'v \<Rightarrow> Rect list \<Rightarrow> QueuedCommand) \<Rightarrow> QueuedCommand \<Rightarrow> bool" where
  "made_by mk c \<longleftrightarrow> (\<exists>s v b. c = mk s v b \<and> 0 < length b \<and> length b \<le> 32)"

definition wrote :: "('v \<Rightarrow> 'x) \<Rightarrow> ('v \<Rightarrow> 'v \<Rightarrow> bool) \<Rightarrow> 'v option \<Rightarrow> 'x option \<Rightarrow> bool" where
  "wrote f eq buffered r \<longleftrightarrow>
     (case buffered of None \<Rightarrow> r = None | Some v \<Rightarrow> \<exists>k. r = Some (f k) \<and> same eq k v)"

lemma in_rects_append: "in_rects c (xs @ ys) \<longleftrightarrow> in_rects c xs \<or> in_rects c ys"
  by (auto simp: in_rects_def)

lemma batches_write:
  assumes "makes w mk f sheet cell"
  shows "last_write w (map (mk s v) bs) =
    (if s = sheet \<and> in_rects cell (concat bs) then Some (f v) else None)"
proof (induction bs rule: rev_induct)
  case (snoc b bs)
  then show ?case using assms by (auto simp: makes_def in_rects_append)
qed (simp add: in_rects_def)

lemma groups_write:
  assumes mk: "makes w mk f sheet cell"
  shows "\<forall>(k, cs) \<in> set gs. \<forall>c \<in> set cs. below_max c \<Longrightarrow> distinct (concat (map snd gs)) \<Longrightarrow>
    \<exists>new. foldo (\<lambda>(val, cellList) queue. Option.bind (GreedyMesh cellList) (\<lambda>rects.
          Some (queue @ map (mk s val) (rect_batches 0 rects)))) gs q = Some (q @ new) \<and>
      (\<forall>c \<in> set new. made_by mk c) \<and>
      (s \<noteq> sheet \<or> cell \<notin> set (concat (map snd gs)) \<longrightarrow> last_write w new = None) \<and>
      (\<forall>k cs. s = sheet \<and> (k, cs) \<in> set gs \<and> cell \<in> set cs \<longrightarrow> last_write w new = Some (f k))"
proof (induction gs arbitrary: q)
  case (Cons g gs)
  obtain k cs where g: "g = (k, cs)" by fastforce
  obtain rects where r: "GreedyMesh cs = Some rects" "covers (set cs) rects"
    using GreedyMesh_covers [of cs] Cons.prems(1) by (auto simp: g)
  let ?mine = "map (mk s k) (rect_batches 0 rects)"
  obtain new where new: "foldo (\<lambda>(val, cellList) queue. Option.bind (GreedyMesh cellList) (\<lambda>rects.
          Some (queue @ map (mk s val) (rect_batches 0 rects)))) gs (q @ ?mine) = Some ((q @ ?mine) @ new)"
    "\<forall>c \<in> set new. made_by mk c"
    "s \<noteq> sheet \<or> cell \<notin> set (concat (map snd gs)) \<longrightarrow> last_write w new = None"
    "\<forall>k cs. s = sheet \<and> (k, cs) \<in> set gs \<and> cell \<in> set cs \<longrightarrow> last_write w new = Some (f k)"
    using Cons.IH [of "q @ ?mine"] Cons.prems by (auto simp: g)
  have mine: "last_write w ?mine = (if s = sheet \<and> cell \<in> set cs then Some (f k) else None)"
    using r(2) batches_write [OF mk, of s k "rect_batches 0 rects"]
    by (simp add: rect_batches_concat covers_def in_rects_def)
  have apart: "cell \<in> set cs \<Longrightarrow> cell \<notin> set (concat (map snd gs))" using Cons.prems(2) by (auto simp: g)
  have made: "\<forall>c \<in> set (?mine @ new). made_by mk c"
    using new(2) rect_batches_size [of 0 _ rects] unfolding made_by_def by fastforce
  have none: "s \<noteq> sheet \<or> cell \<notin> set (concat (map snd (g # gs))) \<longrightarrow> last_write w (?mine @ new) = None"
    using mine new(3) by (auto simp: g)
  have some: "last_write w (?mine @ new) = Some (f k')"
    if "s = sheet" "(k', cs') \<in> set (g # gs)" "cell \<in> set cs'" for k' cs'
  proof (cases "(k', cs') = (k, cs)")
    case True
    then show ?thesis using that mine new(3) apart by simp
  next
    case False
    then have "last_write w new = Some (f k')" using that new(4) by (auto simp: g)
    then show ?thesis by simp
  qed
  have run: "foldo (\<lambda>(val, cellList) queue. Option.bind (GreedyMesh cellList) (\<lambda>rects.
          Some (queue @ map (mk s val) (rect_batches 0 rects)))) (g # gs) q = Some (q @ (?mine @ new))"
    using new(1) r(1) by (simp add: g)
  show ?case using run made none some by blast
qed simp

definition cells_ok :: "(Cell, 'v) gomap \<Rightarrow> bool" where
  "cells_ok m \<longleftrightarrow> gm_ok m \<and> (\<forall>c v. (c, v) \<in> set m \<longrightarrow> below_max c)"

definition rearranges :: "('a list \<Rightarrow> 'a list) \<Rightarrow> bool" where
  "rearranges ord \<longleftrightarrow> (\<forall>xs. mset (ord xs) = mset xs)"

definition order_ok :: "'v map_order \<Rightarrow> bool" where
  "order_ok ord \<longleftrightarrow> rearranges (ord_sheets ord) \<and> (\<forall>s. rearranges (ord_cells ord s)) \<and> (\<forall>s. rearranges (ord_groups ord s))"

text \<open>A Go map visited in another order is the same map.\<close>

lemma rearranges_gm:
  assumes "rearranges ord"
  shows "set (ord m) = set m" "gm_ok m \<Longrightarrow> gm_ok (ord m)" "gm_ok m \<Longrightarrow> gm_get (ord m) = gm_get m"
proof -
  have m: "mset (ord m) = mset m" using assms by (simp add: rearranges_def)
  then show set: "set (ord m) = set m" by (rule mset_eq_setD)
  have keys: "mset (map fst (ord m)) = mset (map fst m)" using m by simp
  show ok: "gm_ok (ord m)" if "gm_ok m" using that mset_eq_imp_distinct_iff [OF keys] by (simp add: gm_ok_def)
  show "gm_get (ord m) = gm_get m" if "gm_ok m"
  proof -
    have "distinct (map fst m)" "distinct (map fst (ord m))" using that ok by (simp_all add: gm_ok_def)
    then have "map_of (ord m) = map_of m" using set by (simp add: map_of_inject_set)
    then show ?thesis by (simp add: gm_get_def fun_eq_iff)
  qed
qed

lemma mset_concat_snd: "mset gs = mset hs \<Longrightarrow> mset (concat (map snd gs)) = mset (concat (map snd hs))"
  by (metis map_map mset_concat mset_map sum_mset_sum_list)

lemma flush_sheet_spec:
  assumes mk: "makes w mk f sheet cell" and eq: "per eq" and ord: "order_ok ord" and cells: "cells_ok cells"
  shows "\<exists>new. flush_sheet eq ord mk (s, cells) q = Some (q @ new) \<and> (\<forall>c \<in> set new. made_by mk c) \<and>
    wrote f eq (if s = sheet then gm_get cells cell else None) (last_write w new)"
proof -
  define m where "m = ord_cells ord s cells"
  have reo: "rearranges (ord_cells ord s)" using ord by (simp add: order_ok_def)
  have ok: "cells_ok m" and get: "gm_get m = gm_get cells"
    using cells rearranges_gm [OF reo, of cells] by (simp_all add: cells_ok_def m_def)
  define gs where "gs = ord_groups ord s (group_cells eq m)"
  have ms: "mset gs = mset (group_cells eq m)" using ord by (simp add: order_ok_def rearranges_def gs_def)
  then have st: "set gs = set (group_cells eq m)" by (metis set_mset_mset)
  have g: "groups_of eq m (group_cells eq m)" by (rule group_cells_groups [OF eq])
  have cat: "mset (concat (map snd gs)) = mset (map fst m)"
    using g mset_concat_snd [OF ms] by (simp add: groups_of_def)
  have "distinct (map fst m)" using ok by (simp add: cells_ok_def gm_ok_def)
  then have dist: "distinct (concat (map snd gs))" using mset_eq_imp_distinct_iff [OF cat] by simp
  have keys: "set (concat (map snd gs)) = gm_dom m" using cat by (metis set_mset_mset set_map)
  have val: "\<exists>v. (c, v) \<in> set m \<and> same eq k v" if "(k, cs) \<in> set gs" "c \<in> set cs" for k cs c
    using g that by (fastforce simp: st groups_of_def)
  have below: "\<forall>(k, cs) \<in> set gs. \<forall>c \<in> set cs. below_max c"
    using val ok by (fastforce simp: cells_ok_def)
  obtain new where new: "flush_sheet eq ord mk (s, cells) q = Some (q @ new)" "\<forall>c \<in> set new. made_by mk c"
    "s \<noteq> sheet \<or> cell \<notin> gm_dom m \<longrightarrow> last_write w new = None"
    "\<forall>k cs. s = sheet \<and> (k, cs) \<in> set gs \<and> cell \<in> set cs \<longrightarrow> last_write w new = Some (f k)"
    using groups_write [OF mk below dist, of s q]
    unfolding keys flush_sheet_def fst_conv snd_conv m_def [symmetric] gs_def [symmetric] by blast
  have "wrote f eq (if s = sheet then gm_get m cell else None) (last_write w new)"
  proof (cases "s = sheet \<and> gm_get m cell \<noteq> None")
    case True
    then obtain v where v: "s = sheet" "gm_get m cell = Some v" by auto
    then have "cell \<in> set (concat (map snd gs))" unfolding keys by (simp add: gm_dom_iff)
    then obtain k cs where k: "(k, cs) \<in> set gs" "cell \<in> set cs" by auto
    obtain u where "(cell, u) \<in> set m" "same eq k u" using val [OF k] by blast
    moreover have "gm_get m cell = Some u" if "(cell, u) \<in> set m" for u
      using that ok by (auto simp: cells_ok_def intro: gm_get_in)
    ultimately show ?thesis using new(4) k v by (auto simp: wrote_def)
  next
    case False
    then have "last_write w new = None" using new(3) by (auto simp: gm_dom_iff)
    then show ?thesis using False by (auto simp: wrote_def)
  qed
  with new show ?thesis unfolding get by blast
qed

lemma flush_sheets_spec:
  assumes mk: "makes w mk f sheet cell" and eq: "per eq" and ord: "order_ok ord"
  shows "gm_ok sheets \<Longrightarrow> \<forall>(s, m) \<in> set sheets. cells_ok m \<Longrightarrow>
    \<exists>new. foldo (flush_sheet eq ord mk) sheets q = Some (q @ new) \<and> (\<forall>c \<in> set new. made_by mk c) \<and>
      wrote f eq (gm_get (sheet_cells sheets sheet) cell) (last_write w new)"
proof (induction sheets arbitrary: q)
  case Nil
  then show ?case by (simp add: sheet_cells_def wrote_def)
next
  case (Cons e sheets)
  obtain s m where e: "e = (s, m)" by fastforce
  obtain new1 where new1: "flush_sheet eq ord mk (s, m) q = Some (q @ new1)" "\<forall>c \<in> set new1. made_by mk c"
    "wrote f eq (if s = sheet then gm_get m cell else None) (last_write w new1)"
    using flush_sheet_spec [OF mk eq ord, of m s q] Cons.prems by (auto simp: e)
  obtain new2 where new2: "foldo (flush_sheet eq ord mk) sheets (q @ new1) = Some ((q @ new1) @ new2)"
    "\<forall>c \<in> set new2. made_by mk c" "wrote f eq (gm_get (sheet_cells sheets sheet) cell) (last_write w new2)"
    using Cons.IH [of "q @ new1"] Cons.prems by (auto simp: gm_ok_def)
  have rest: "s = sheet \<Longrightarrow> sheet_cells sheets sheet = []"
    using Cons.prems(1) by (simp add: e sheet_cells_def gm_ok_def gm_get_def map_of_eq_None_iff [THEN iffD2])
  have "gm_get (sheet_cells (e # sheets) sheet) cell =
      (if s = sheet then gm_get m cell else gm_get (sheet_cells sheets sheet) cell)"
    by (simp add: e sheet_cells_def gm_get_def)
  then have "wrote f eq (gm_get (sheet_cells (e # sheets) sheet) cell) (last_write w (new1 @ new2))"
    using new1(3) new2(3) rest by (cases "s = sheet") (auto simp: wrote_def split: option.splits)
  then show ?case using new1 new2 e by (intro exI [of _ "new1 @ new2"]) auto
qed

lemma flush_maps_spec:
  assumes mk: "makes w mk f sheet cell" and eq: "per eq" and ord: "order_ok ord" and ok: "gm_ok sheets" "\<forall>(s, m) \<in> set sheets. cells_ok m"
  shows "\<exists>new. foldo (flush_sheet eq ord mk) (ord_sheets ord sheets) q = Some (q @ new) \<and> (\<forall>c \<in> set new. made_by mk c) \<and>
      wrote f eq (gm_get (sheet_cells sheets sheet) cell) (last_write w new)"
proof -
  have "rearranges (ord_sheets ord)" using ord by (simp add: order_ok_def)
  note re = rearranges_gm [OF this, of sheets]
  have "sheet_cells (ord_sheets ord sheets) = sheet_cells sheets" using re(3) ok(1) by (simp add: sheet_cells_def fun_eq_iff)
  then show ?thesis using flush_sheets_spec [OF mk eq ord re(2) [OF ok(1)]] ok(2) re(1) by simp
qed

subsection \<open>What a batcher will write\<close>

text \<open>The effect of the response on one cell: the value or the format of the last command that
  targets it. A value is the \<open>Any\<close> on the wire.\<close>

definition in_range :: "Range \<Rightarrow> string \<Rightarrow> Cell \<Rightarrow> bool" where
  "in_range r sheet cell \<longleftrightarrow> SheetName r = sheet \<and> in_rects cell (Refs r)"

definition wire_value :: "string \<Rightarrow> Cell \<Rightarrow> wire_command \<Rightarrow> any_value option option" where
  "wire_value sheet cell c =
     (case c of SetCommand r v \<Rightarrow> if in_range r sheet cell then Some v else None | FormatCommand r fmt \<Rightarrow> None)"

definition wire_format :: "string \<Rightarrow> Cell \<Rightarrow> wire_command \<Rightarrow> string option" where
  "wire_format sheet cell c =
     (case c of SetCommand r v \<Rightarrow> None | FormatCommand r fmt \<Rightarrow> if in_range r sheet cell then Some fmt else None)"

definition pending_value ::
  "(QueuedCommand \<Rightarrow> wire_command) \<Rightarrow> string \<Rightarrow> Cell \<Rightarrow> CommandBatcher \<Rightarrow> any_value option option" where
  "pending_value wire sheet cell cb =
     (case gm_get (sheet_cells (bufferedSets cb) sheet) cell of
        Some v \<Rightarrow> Some (Some (CreateScalarAny v))
      | None \<Rightarrow> last_write (wire_value sheet cell \<circ> wire) (cmdQueue cb))"

definition pending_format ::
  "(QueuedCommand \<Rightarrow> wire_command) \<Rightarrow> string \<Rightarrow> Cell \<Rightarrow> CommandBatcher \<Rightarrow> string option" where
  "pending_format wire sheet cell cb =
     (case gm_get (sheet_cells (bufferedFormats cb) sheet) cell of
        Some v \<Rightarrow> Some v
      | None \<Rightarrow> last_write (wire_format sheet cell \<circ> wire) (cmdQueue cb))"

text \<open>Two values on the wire that Excel cannot tell apart: the same, or two zeros.\<close>

definition same_any :: "any_value option option \<Rightarrow> any_value option option \<Rightarrow> bool" where
  "same_any x y \<longleftrightarrow> x = y \<or>
     (\<exists>a b. x = Some (Some (AnyNum a)) \<and> y = Some (Some (AnyNum b)) \<and> f64_eq a b)"

lemma same_any_refl [simp]: "same_any x x"
  by (simp add: same_any_def)

lemma same_any_trans: "same_any x y \<Longrightarrow> same_any y z \<Longrightarrow> same_any x z"
  unfolding same_any_def using f64_eq_trans by blast

lemma same_scalar_any:
  "same scalar_eq k v \<Longrightarrow> same_any (Some (Some (CreateScalarAny k))) (Some (Some (CreateScalarAny v)))"
  by (auto simp: same_def same_any_def scalar_eq_def CreateScalarAny_def)

definition batcher_ok :: "CommandBatcher \<Rightarrow> bool" where
  "batcher_ok cb \<longleftrightarrow> gm_ok (bufferedSets cb) \<and> gm_ok (bufferedFormats cb) \<and>
     (\<forall>(s, m) \<in> set (bufferedSets cb). cells_ok m) \<and> (\<forall>(s, m) \<in> set (bufferedFormats cb). cells_ok m)"

definition orders_ok :: "map_orders \<Rightarrow> bool" where
  "orders_ok ord \<longleftrightarrow> order_ok (ord_vals ord) \<and> order_ok (ord_fmts ord)"

text \<open>A command a flush made, as opposed to one that was enqueued whole.\<close>

definition flushed :: "QueuedCommand \<Rightarrow> bool" where
  "flushed c \<longleftrightarrow> made_by set_command c \<or> made_by format_command c"

lemma makes_set:
  "makes (wire_value sheet cell \<circ> wire_of ds df) set_command (\<lambda>v. Some (CreateScalarAny v)) sheet cell"
  by (auto simp: makes_def wire_value_def wire_of_def set_command_def in_range_def)

lemma makes_format: "makes (wire_format sheet cell \<circ> wire_of ds df) format_command (\<lambda>v. v) sheet cell"
  by (auto simp: makes_def wire_format_def wire_of_def format_command_def in_range_def cmd_defs)

lemma other_kind:
  "made_by format_command c \<Longrightarrow> (wire_value sheet cell \<circ> wire_of ds df) c = None"
  "made_by set_command c \<Longrightarrow> (wire_format sheet cell \<circ> wire_of ds df) c = None"
  by (auto simp: made_by_def wire_value_def wire_format_def wire_of_def set_command_def format_command_def
      cmd_defs)

text \<open>Flushing moves the pending effect into the queue and changes it for no cell.\<close>

lemma flush_spec:
  assumes ok: "batcher_ok cb" and ord: "orders_ok ord"
  shows "\<exists>cb' new. flushBuffersLocked ord cb = Some cb' \<and> bufferedSets cb' = [] \<and> bufferedFormats cb' = [] \<and>
    cmdQueue cb' = cmdQueue cb @ new \<and> (\<forall>c \<in> set new. flushed c) \<and>
    same_any (pending_value (wire_of ds df) sheet cell cb') (pending_value (wire_of ds df) sheet cell cb) \<and>
    pending_format (wire_of ds df) sheet cell cb' = pending_format (wire_of ds df) sheet cell cb"
proof (cases "bufferedSets cb = [] \<and> bufferedFormats cb = []")
  case True
  then show ?thesis by (intro exI [of _ cb] exI [of _ "[]"]) (simp add: flushBuffersLocked_def)
next
  case False
  note W = makes_set [of sheet cell ds df] and F = makes_format [of sheet cell ds df]
  have b: "gm_ok (bufferedSets cb)" "gm_ok (bufferedFormats cb)" "\<forall>(s, m) \<in> set (bufferedSets cb). cells_ok m"
    "\<forall>(s, m) \<in> set (bufferedFormats cb). cells_ok m" "order_ok (ord_vals ord)" "order_ok (ord_fmts ord)"
    using ok ord by (auto simp: batcher_ok_def orders_ok_def)
  from flush_maps_spec [OF W per_scalar_eq b(5,1,3), of "cmdQueue cb"] obtain n1 where n1:
    "foldo (flush_sheet scalar_eq (ord_vals ord) set_command) (ord_sheets (ord_vals ord) (bufferedSets cb)) (cmdQueue cb) = Some (cmdQueue cb @ n1)"
    "\<forall>c \<in> set n1. made_by set_command c"
    "wrote (\<lambda>v. Some (CreateScalarAny v)) scalar_eq (gm_get (sheet_cells (bufferedSets cb) sheet) cell)
      (last_write (wire_value sheet cell \<circ> wire_of ds df) n1)" by blast
  from flush_maps_spec [OF F per_eq b(6,2,4), of "cmdQueue cb @ n1"] obtain n2 where n2:
    "foldo (flush_sheet (=) (ord_fmts ord) format_command) (ord_sheets (ord_fmts ord) (bufferedFormats cb)) (cmdQueue cb @ n1) =
      Some ((cmdQueue cb @ n1) @ n2)" "\<forall>c \<in> set n2. made_by format_command c"
    "wrote (\<lambda>v. v) (=) (gm_get (sheet_cells (bufferedFormats cb) sheet) cell)
      (last_write (wire_format sheet cell \<circ> wire_of ds df) n2)" by blast
  let ?cb = "cb\<lparr>bufferedSets := [], bufferedFormats := [], cmdQueue := cmdQueue cb @ (n1 @ n2)\<rparr>"
  have "gm_len (bufferedSets cb) \<noteq> 0 \<or> gm_len (bufferedFormats cb) \<noteq> 0"
    using False by (auto simp: gm_len_def)
  then have run: "flushBuffersLocked ord cb = Some ?cb"
    using n1(1) n2(1) by (auto simp: flushBuffersLocked_def Let_def)
  have z: "last_write (wire_value sheet cell \<circ> wire_of ds df) n2 = None"
    "last_write (wire_format sheet cell \<circ> wire_of ds df) n1 = None"
    using last_write_none other_kind n1(2) n2(2) by metis+
  have "same_any (pending_value (wire_of ds df) sheet cell ?cb) (pending_value (wire_of ds df) sheet cell cb)"
    using n1(3) z(1) by (auto simp: pending_value_def wrote_def sheet_cells_def same_scalar_any split: option.splits)
  moreover have "pending_format (wire_of ds df) sheet cell ?cb = pending_format (wire_of ds df) sheet cell cb"
    using n2(3) z(2) by (auto simp: pending_format_def wrote_def sheet_cells_def same_def split: option.splits)
  moreover have "\<forall>c \<in> set (n1 @ n2). flushed c" using n1(2) n2(2) by (auto simp: flushed_def)
  ultimately show ?thesis using run by (intro exI [of _ ?cb] exI [of _ "n1 @ n2"]) auto
qed

lemma flush_all:
  assumes ok: "batcher_ok cb" and ord: "orders_ok ord"
  shows "\<exists>cb' new. flushBuffersLocked ord cb = Some cb' \<and> bufferedSets cb' = [] \<and> bufferedFormats cb' = [] \<and>
    cmdQueue cb' = cmdQueue cb @ new \<and> (\<forall>c \<in> set new. flushed c) \<and> (\<forall>sheet cell.
      same_any (pending_value (wire_of ds df) sheet cell cb') (pending_value (wire_of ds df) sheet cell cb) \<and>
      pending_format (wire_of ds df) sheet cell cb' = pending_format (wire_of ds df) sheet cell cb)"
proof -
  obtain cb' new where c: "flushBuffersLocked ord cb = Some cb'" "bufferedSets cb' = []" "bufferedFormats cb' = []"
    "cmdQueue cb' = cmdQueue cb @ new" "\<forall>c \<in> set new. flushed c"
    using flush_spec [OF ok ord] by blast
  have "same_any (pending_value (wire_of ds df) sheet cell cb') (pending_value (wire_of ds df) sheet cell cb) \<and>
      pending_format (wire_of ds df) sheet cell cb' = pending_format (wire_of ds df) sheet cell cb" for sheet cell
    using flush_spec [OF ok ord, of ds df sheet cell] c(1) by auto
  with c show ?thesis by blast
qed

subsection \<open>Scheduling, by its effect\<close>

datatype schedule = DoSet Range "any_value option" | DoFormat Range string

definition run_schedule ::
  "map_orders \<Rightarrow> (Range \<Rightarrow> any_value option \<Rightarrow> bytes) \<Rightarrow> schedule \<Rightarrow> CommandBatcher \<Rightarrow> CommandBatcher option" where
  "run_schedule ord ser op cb =
     (case op of DoSet r v \<Rightarrow> ScheduleSet ord ser r v cb | DoFormat r fmt \<Rightarrow> ScheduleFormat ord r fmt cb)"

definition target :: "schedule \<Rightarrow> Range" where
  "target op = (case op of DoSet r v \<Rightarrow> r | DoFormat r fmt \<Rightarrow> r)"

text \<open>What the schedule asks for, read directly: the value arrives on the wire as \<open>ToScalar\<close> and
  \<open>CreateScalarAny\<close> leave it.\<close>

definition wire_any :: "any_value option \<Rightarrow> any_value option" where
  "wire_any v = (case ToScalar v of Some s \<Rightarrow> Some (CreateScalarAny s) | None \<Rightarrow> v)"

definition direct_value :: "string \<Rightarrow> Cell \<Rightarrow> schedule \<Rightarrow> any_value option option" where
  "direct_value sheet cell op =
     (case op of DoSet r v \<Rightarrow> if in_range r sheet cell then Some (wire_any v) else None | DoFormat r fmt \<Rightarrow> None)"

definition direct_format :: "string \<Rightarrow> Cell \<Rightarrow> schedule \<Rightarrow> string option" where
  "direct_format sheet cell op =
     (case op of DoSet r v \<Rightarrow> None | DoFormat r fmt \<Rightarrow> if in_range r sheet cell then Some fmt else None)"

definition over :: "'x option \<Rightarrow> 'x option \<Rightarrow> 'x option" where
  "over new old = (case new of None \<Rightarrow> old | Some x \<Rightarrow> Some x)"

lemma in_rect_below_max: "rect_ok r \<Longrightarrow> in_rect c r \<Longrightarrow> below_max c"
  by (simp add: rect_ok_def in_rect_def below_max_def)

lemma sheet_cells_put: "sheet_cells (gm_put s m sheets) sheet = (if sheet = s then m else sheet_cells sheets sheet)"
  by (simp add: sheet_cells_def)

lemma buffered_ok:
  assumes "gm_ok sheets" and "\<forall>(s, m) \<in> set sheets. cells_ok m" and "\<forall>r \<in> set rects. rect_ok r"
  shows "\<exists>m'. buffer_rects rects v (sheet_cells sheets s) = Some m' \<and> gm_ok (gm_put s m' sheets) \<and>
    (\<forall>(s, m) \<in> set (gm_put s m' sheets). cells_ok m) \<and>
    (\<forall>c. gm_get m' c = (if in_rects c rects then Some v else gm_get (sheet_cells sheets s) c))"
proof -
  have m: "cells_ok (sheet_cells sheets s)"
  proof (cases "gm_get sheets s")
    case None
    then show ?thesis by (simp add: sheet_cells_def cells_ok_def)
  next
    case (Some x)
    then show ?thesis using bspec [OF assms(2) gm_get_Some_in [OF Some]] by (simp add: sheet_cells_def)
  qed
  obtain m' where m': "buffer_rects rects v (sheet_cells sheets s) = Some m'"
    "gm_ok (sheet_cells sheets s) \<longrightarrow> gm_ok m'"
    "\<forall>c. gm_get m' c = (if in_rects c rects then Some v else gm_get (sheet_cells sheets s) c)"
    using buffer_rects_spec [OF assms(3), of v "sheet_cells sheets s"] by metis
  have ok': "gm_ok m'" using m m'(2) by (simp add: cells_ok_def)
  have "below_max c" if "(c, u) \<in> set m'" for c u
  proof (cases "in_rects c rects")
    case True
    then show ?thesis using assms(3) in_rect_below_max by (auto simp: in_rects_def)
  next
    case False
    then have "gm_get (sheet_cells sheets s) c = Some u" using gm_get_in [OF ok' that] m'(3) by simp
    then show ?thesis using m gm_get_Some_in by (fastforce simp: cells_ok_def)
  qed
  then have "cells_ok m'" using ok' by (simp add: cells_ok_def)
  then show ?thesis using m' assms(1,2) by (auto simp: set_gm_put)
qed

lemma schedule_spec:
  assumes ok: "batcher_ok cb" and ord: "orders_ok ord" and refs: "\<forall>r \<in> set (Refs (target op)). rect_ok r"
    and ser: "\<And>r v. op = DoSet r v \<Longrightarrow> ToScalar v = None \<Longrightarrow> ds (ser r v) = (r, v)"
  shows "\<exists>cb'. run_schedule ord ser op cb = Some cb' \<and> batcher_ok cb' \<and> (\<forall>sheet cell.
    same_any (pending_value (wire_of ds df) sheet cell cb')
      (over (direct_value sheet cell op) (pending_value (wire_of ds df) sheet cell cb)) \<and>
    pending_format (wire_of ds df) sheet cell cb' =
      over (direct_format sheet cell op) (pending_format (wire_of ds df) sheet cell cb))"
proof -
  obtain fl new where fl: "flushBuffersLocked ord cb = Some fl" "bufferedSets fl = []" "bufferedFormats fl = []"
    and fl_eff: "\<And>sheet cell. same_any (pending_value (wire_of ds df) sheet cell fl) (pending_value (wire_of ds df) sheet cell cb)"
      "\<And>sheet cell. pending_format (wire_of ds df) sheet cell fl = pending_format (wire_of ds df) sheet cell cb"
    using flush_all [OF ok ord, of ds df] by blast
  have enq: "\<And>c. batcher_ok (enqueue c fl)"
    "\<And>c sheet cell. pending_value (wire_of ds df) sheet cell (enqueue c fl) =
       over (wire_value sheet cell (wire_of ds df c)) (pending_value (wire_of ds df) sheet cell fl)"
    "\<And>c sheet cell. pending_format (wire_of ds df) sheet cell (enqueue c fl) =
       over (wire_format sheet cell (wire_of ds df c)) (pending_format (wire_of ds df) sheet cell fl)"
    using fl(2,3) by (auto simp: enqueue_def batcher_ok_def pending_value_def pending_format_def sheet_cells_def
        over_def split: option.split)
  have same_over: "same_any x y \<Longrightarrow> same_any (over w x) (over w y)" for w x y
    by (simp add: over_def split: option.split)
  have gms: "gm_ok (bufferedSets cb)" "gm_ok (bufferedFormats cb)" "\<forall>(s, m) \<in> set (bufferedSets cb). cells_ok m"
    "\<forall>(s, m) \<in> set (bufferedFormats cb). cells_ok m" using ok by (auto simp: batcher_ok_def)
  show ?thesis
  proof (cases op)
    case (DoSet r v)
    have refs': "\<forall>x \<in> set (Refs r). rect_ok x" using refs DoSet by (simp add: target_def)
    show ?thesis
    proof (cases "ToScalar v")
      case None
      let ?c = "\<lparr>CmdType = cmdTypeSet, CmdData = Some (ser r v), Sheet = [], Rects = [],
          ScalarVal = zero_scalar, FormatStr = []\<rparr>"
      have "wire_of ds df ?c = SetCommand r v" by (simp add: wire_of_def ser [OF DoSet None])
      then show ?thesis using fl(1) enq fl_eff same_over None DoSet
        by (intro exI [of _ "enqueue ?c fl"])
           (simp add: run_schedule_def ScheduleSet_def direct_value_def direct_format_def wire_value_def
             wire_format_def wire_any_def)
    next
      case (Some s)
      have wa: "wire_any v = Some (CreateScalarAny s)" using Some by (simp add: wire_any_def)
      show ?thesis
      proof (cases "calculateTotalCells r > batchingThreshold")
        case True
        let ?c = "set_command (SheetName r) s (extractAlgoRects r)"
        have "wire_of ds df ?c = SetCommand r (wire_any v)"
          by (simp add: wire_of_def set_command_def extractAlgoRects_def wa)
        then show ?thesis using fl(1) enq fl_eff same_over Some True DoSet
          by (intro exI [of _ "enqueue ?c fl"])
             (simp add: run_schedule_def ScheduleSet_def direct_value_def direct_format_def wire_value_def
               wire_format_def)
      next
        case False
        obtain m where m: "buffer_rects (Refs r) s (sheet_cells (bufferedSets cb) (SheetName r)) = Some m"
          "gm_ok (gm_put (SheetName r) m (bufferedSets cb))"
          "\<forall>(s, m) \<in> set (gm_put (SheetName r) m (bufferedSets cb)). cells_ok m"
          "\<forall>c. gm_get m c = (if in_rects c (Refs r) then Some s
             else gm_get (sheet_cells (bufferedSets cb) (SheetName r)) c)"
          using buffered_ok [OF gms(1,3) refs'] by blast
        let ?cb = "cb\<lparr>bufferedSets := gm_put (SheetName r) m (bufferedSets cb)\<rparr>"
        have "pending_value (wire_of ds df) sheet cell ?cb =
            over (direct_value sheet cell op) (pending_value (wire_of ds df) sheet cell cb)" for sheet cell
          using m(4) by (auto simp: DoSet pending_value_def sheet_cells_put direct_value_def in_range_def wa over_def
            split: option.split)
        then show ?thesis using m gms Some False DoSet
          by (intro exI [of _ ?cb])
             (simp add: run_schedule_def ScheduleSet_def batcher_ok_def direct_format_def over_def pending_format_def
             cong: option.case_cong)
      qed
    qed
  next
    case (DoFormat r fmt)
    have refs': "\<forall>x \<in> set (Refs r). rect_ok x" using refs DoFormat by (simp add: target_def)
    show ?thesis
    proof (cases "calculateTotalCells r > batchingThreshold")
      case True
      let ?c = "format_command (SheetName r) fmt (extractAlgoRects r)"
      have "wire_of ds df ?c = FormatCommand r fmt"
        by (simp add: wire_of_def format_command_def extractAlgoRects_def cmd_defs)
      then show ?thesis using fl(1) enq fl_eff same_over True DoFormat
        by (intro exI [of _ "enqueue ?c fl"])
           (simp add: run_schedule_def ScheduleFormat_def direct_value_def direct_format_def wire_value_def
             wire_format_def)
    next
      case False
      obtain m where m: "buffer_rects (Refs r) fmt (sheet_cells (bufferedFormats cb) (SheetName r)) = Some m"
        "gm_ok (gm_put (SheetName r) m (bufferedFormats cb))"
        "\<forall>(s, m) \<in> set (gm_put (SheetName r) m (bufferedFormats cb)). cells_ok m"
        "\<forall>c. gm_get m c = (if in_rects c (Refs r) then Some fmt
           else gm_get (sheet_cells (bufferedFormats cb) (SheetName r)) c)"
        using buffered_ok [OF gms(2,4) refs'] by blast
      let ?cb = "cb\<lparr>bufferedFormats := gm_put (SheetName r) m (bufferedFormats cb)\<rparr>"
      have "pending_format (wire_of ds df) sheet cell ?cb =
          over (direct_format sheet cell op) (pending_format (wire_of ds df) sheet cell cb)" for sheet cell
        using m(4) by (auto simp: DoFormat pending_format_def sheet_cells_put direct_format_def in_range_def over_def
            split: option.split)
      then show ?thesis using m gms False DoFormat
        by (intro exI [of _ ?cb])
           (simp add: run_schedule_def ScheduleFormat_def batcher_ok_def direct_value_def over_def pending_value_def
             cong: option.case_cong)
    qed
  qed
qed

lemma over_over: "over (case a of None \<Rightarrow> b | Some x \<Rightarrow> Some x) w = over a (over b w)"
  by (simp add: over_def split: option.split)

lemma same_any_over: "same_any x y \<Longrightarrow> same_any (over w x) (over w y)"
  by (simp add: over_def split: option.split)

lemma last_write_Cons: "last_write w (c # cs) = over (last_write w cs) (w c)"
  using last_write_simps(2) [of w "[c]" cs] by (cases "last_write w cs") (simp_all add: over_def)

text \<open>A sequence of calls, each with the orders its flush visits the maps in, and what the calls ask for.\<close>

abbreviation run_schedules ::
  "(Range \<Rightarrow> any_value option \<Rightarrow> bytes) \<Rightarrow> (map_orders \<times> schedule) list \<Rightarrow> CommandBatcher \<Rightarrow> CommandBatcher option" where
  "run_schedules ser calls \<equiv> foldo (\<lambda>(ord, op). run_schedule ord ser op) calls"

definition calls_ok ::
  "(Range \<Rightarrow> any_value option \<Rightarrow> bytes) \<Rightarrow> (bytes \<Rightarrow> Range \<times> any_value option) \<Rightarrow> (map_orders \<times> schedule) list \<Rightarrow> bool" where
  "calls_ok ser ds calls \<longleftrightarrow>
     (\<forall>(ord, op) \<in> set calls. orders_ok ord \<and> (\<forall>r \<in> set (Refs (target op)). rect_ok r) \<and>
        (\<forall>r v. op = DoSet r v \<longrightarrow> ToScalar v = None \<longrightarrow> ds (ser r v) = (r, v)))"

lemma schedules_spec:
  "batcher_ok cb \<Longrightarrow> calls_ok ser ds calls \<Longrightarrow>
    \<exists>cb'. run_schedules ser calls cb = Some cb' \<and> batcher_ok cb' \<and> (\<forall>sheet cell.
      same_any (pending_value (wire_of ds df) sheet cell cb')
        (over (last_write (direct_value sheet cell) (map snd calls)) (pending_value (wire_of ds df) sheet cell cb)) \<and>
      pending_format (wire_of ds df) sheet cell cb' =
        over (last_write (direct_format sheet cell) (map snd calls)) (pending_format (wire_of ds df) sheet cell cb))"
proof (induction calls arbitrary: cb)
  case Nil
  then show ?case by (simp add: over_def)
next
  case (Cons call calls)
  obtain ord op where call: "call = (ord, op)" by fastforce
  have ord: "orders_ok ord" and refs: "\<forall>r \<in> set (Refs (target op)). rect_ok r"
    and ser: "\<And>r v. op = DoSet r v \<Longrightarrow> ToScalar v = None \<Longrightarrow> ds (ser r v) = (r, v)" and rest: "calls_ok ser ds calls"
    using Cons.prems(2) by (auto simp: calls_ok_def call)
  obtain cb1 where c1: "run_schedule ord ser op cb = Some cb1" "batcher_ok cb1"
    and e1: "\<And>sheet cell. same_any (pending_value (wire_of ds df) sheet cell cb1)
        (over (direct_value sheet cell op) (pending_value (wire_of ds df) sheet cell cb))"
      "\<And>sheet cell. pending_format (wire_of ds df) sheet cell cb1 =
        over (direct_format sheet cell op) (pending_format (wire_of ds df) sheet cell cb)"
    using schedule_spec [OF Cons.prems(1) ord refs, of ds ser df] ser by blast
  obtain cb2 where c2: "run_schedules ser calls cb1 = Some cb2" "batcher_ok cb2"
    and e2: "\<And>sheet cell. same_any (pending_value (wire_of ds df) sheet cell cb2)
        (over (last_write (direct_value sheet cell) (map snd calls)) (pending_value (wire_of ds df) sheet cell cb1))"
      "\<And>sheet cell. pending_format (wire_of ds df) sheet cell cb2 =
        over (last_write (direct_format sheet cell) (map snd calls)) (pending_format (wire_of ds df) sheet cell cb1)"
    using Cons.IH [OF c1(2) rest] by blast
  have "same_any (pending_value (wire_of ds df) sheet cell cb2)
      (over (last_write (direct_value sheet cell) (op # map snd calls)) (pending_value (wire_of ds df) sheet cell cb))" for sheet cell
    unfolding last_write_Cons [of _ op "map snd calls"] over_over [folded over_def]
    using same_any_trans [OF e2(1) same_any_over [OF e1(1)]] by (simp add: over_def split: option.splits)
  moreover have "pending_format (wire_of ds df) sheet cell cb2 =
      over (last_write (direct_format sheet cell) (op # map snd calls)) (pending_format (wire_of ds df) sheet cell cb)" for sheet cell
    unfolding last_write_Cons [of _ op "map snd calls"] using e1(2) e2(2) by (simp add: over_def split: option.splits)
  ultimately show ?case using c1(1) c2 by (intro exI [of _ cb2]) (simp add: call)
qed

lemma last_write_map: "last_write w (map f xs) = last_write (w \<circ> f) xs"
  by (induction xs rule: rev_induct) (simp_all add: o_def cong: option.case_cong)

lemma flushed_batch: "flushed c \<Longrightarrow> 0 < length (Rects c) \<and> length (Rects c) \<le> 32"
  by (auto simp: flushed_def made_by_def set_command_def format_command_def)

lemma batcher_ok_New: "batcher_ok NewCommandBatcher"
  by (simp add: batcher_ok_def NewCommandBatcher_def gm_ok_def)

lemma schedules_flush:
  assumes "orders_ok ord" and "calls_ok ser ds calls"
  shows "\<exists>cb out cmds. run_schedules ser calls NewCommandBatcher = Some cb \<and>
    FlushCommands ord ds df enc cb = Some (out, NewCommandBatcher) \<and>
    out = (if cmds = [] then None else Some (enc cmds)) \<and>
    (\<forall>sheet cell. same_any (last_write (wire_value sheet cell) cmds) (last_write (direct_value sheet cell) (map snd calls)) \<and>
       last_write (wire_format sheet cell) cmds = last_write (direct_format sheet cell) (map snd calls))"
proof -
  obtain cb where cb: "run_schedules ser calls NewCommandBatcher = Some cb" "batcher_ok cb"
    and eff: "\<And>sheet cell. same_any (pending_value (wire_of ds df) sheet cell cb)
        (over (last_write (direct_value sheet cell) (map snd calls)) None)"
      "\<And>sheet cell. pending_format (wire_of ds df) sheet cell cb =
        over (last_write (direct_format sheet cell) (map snd calls)) None"
    using schedules_spec [OF batcher_ok_New assms(2), of df]
    by (auto simp: NewCommandBatcher_def pending_value_def pending_format_def sheet_cells_def)
  obtain fl new where fl: "flushBuffersLocked ord cb = Some fl" "bufferedSets fl = []" "bufferedFormats fl = []"
    and fl_eff: "\<And>sheet cell. same_any (pending_value (wire_of ds df) sheet cell fl) (pending_value (wire_of ds df) sheet cell cb)"
      "\<And>sheet cell. pending_format (wire_of ds df) sheet cell fl = pending_format (wire_of ds df) sheet cell cb"
    using flush_all [OF cb(2) assms(1), of ds df] by blast
  let ?cmds = "map (wire_of ds df) (cmdQueue fl)"
  have over_None: "over x None = x" for x :: "'x option" by (simp add: over_def split: option.split)
  have "same_any (last_write (wire_value sheet cell) ?cmds) (last_write (direct_value sheet cell) (map snd calls)) \<and>
      last_write (wire_format sheet cell) ?cmds = last_write (direct_format sheet cell) (map snd calls)" for sheet cell
    using same_any_trans [OF fl_eff(1) eff(1), of sheet cell] fl_eff(2) [of sheet cell] eff(2) [of sheet cell] fl(2,3)
    by (simp add: pending_value_def pending_format_def sheet_cells_def last_write_map over_None)
  then show ?thesis using cb(1) fl
    by (intro exI [of _ cb] exI [of _ "if ?cmds = [] then None else Some (enc ?cmds)"] exI [of _ ?cmds])
       (auto simp: FlushCommands_def NewCommandBatcher_def)
qed

text \<open>C4. A calculation cycle: whatever sequence of Set and Format calls is scheduled over ranges that end before the last
  int32 row and column (\<open>rect_ok\<close>; on that row or column the loop over the range never ends), no call hangs, and
  \<open>FlushCommands\<close> returns and leaves the batcher empty; the commands in its response, applied in their order, leave in
  every cell of every sheet the value and the format of the last call that addressed the cell, exactly as the calls
  applied one by one would (values up to the sign of a zero). Every flush on the way visits the sheets, the cells of each
  sheet and the groups of equal values or formats of each sheet in an order of its own. The result is the nil
  slice exactly when there is no command.\<close>

theorem commands_preserved:
  assumes "orders_ok ord" and "calls_ok ser ds calls"
  shows "\<exists>cb out cmds. run_schedules ser calls NewCommandBatcher = Some cb \<and>
    FlushCommands ord ds df enc cb = Some (out, NewCommandBatcher) \<and>
    out = (if cmds = [] then None else Some (enc cmds)) \<and>
    (\<forall>sheet cell. same_any (last_write (wire_value sheet cell) cmds) (last_write (direct_value sheet cell) (map snd calls)) \<and>
       last_write (wire_format sheet cell) cmds = last_write (direct_format sheet cell) (map snd calls))"
  using schedules_flush [OF assms, of df enc] by blast

text \<open>C23. Batching: every command a flush adds to the queue covers at least one and at most thirty-two
  rectangles, what was queued stays in front unchanged, and both buffers are empty afterwards.\<close>

theorem flush_batches:
  assumes "batcher_ok cb" and "orders_ok ord"
  shows "\<exists>cb' new. flushBuffersLocked ord cb = Some cb' \<and> bufferedSets cb' = [] \<and> bufferedFormats cb' = [] \<and>
    cmdQueue cb' = cmdQueue cb @ new \<and> (\<forall>c \<in> set new. 0 < length (Rects c) \<and> length (Rects c) \<le> 32)"
proof -
  obtain cb' new where "flushBuffersLocked ord cb = Some cb'" "bufferedSets cb' = []" "bufferedFormats cb' = []"
    "cmdQueue cb' = cmdQueue cb @ new" "\<forall>c \<in> set new. flushed c"
    using flush_all [OF assms] by blast
  then show ?thesis using flushed_batch by blast
qed

subsection \<open>Instances\<close>

text \<open>A block of numbers, a second value over part of it, a table-valued cell that is queued whole, and a
  format; maps visited from the last entry to the first.\<close>

abbreviation demo_rect :: "int \<Rightarrow> int \<Rightarrow> int \<Rightarrow> int \<Rightarrow> Rect" where
  "demo_rect a b c d \<equiv> \<lparr>RowFirst = a, RowLast = b, ColFirst = c, ColLast = d\<rparr>"

definition demo_orders :: map_orders where
  "demo_orders = \<lparr>ord_vals = \<lparr>ord_sheets = rev, ord_cells = (\<lambda>s. rev), ord_groups = (\<lambda>s. rev)\<rparr>,
     ord_fmts = \<lparr>ord_sheets = rev, ord_cells = (\<lambda>s. rev), ord_groups = (\<lambda>s. rev)\<rparr>\<rparr>"

definition demo_schedules :: "(map_orders \<times> schedule) list" where
  "demo_schedules = map (Pair demo_orders)
     [DoSet \<lparr>SheetName = ''S'', Refs = [demo_rect 1 2 1 2]\<rparr> (Some (AnyInt 1)),
      DoSet \<lparr>SheetName = ''S'', Refs = [demo_rect 2 2 1 1]\<rparr> (Some (AnyInt 5)),
      DoSet \<lparr>SheetName = ''S'', Refs = [demo_rect 9 9 1 1]\<rparr> (Some (AnyOther [4])),
      DoFormat \<lparr>SheetName = ''S'', Refs = [demo_rect 1 1 1 2]\<rparr> ''0.00'']"

definition demo_read_set :: "bytes \<Rightarrow> Range \<times> any_value option" where
  "demo_read_set b = (\<lparr>SheetName = ''S'', Refs = [demo_rect 9 9 1 1]\<rparr>, Some (AnyOther [4]))"

lemma demo_orders_ok: "orders_ok demo_orders"
  by (simp add: orders_ok_def order_ok_def rearranges_def demo_orders_def)

theorem commands_preserved_witness:
  "\<exists>cb out cmds. run_schedules (\<lambda>r v. [7]) demo_schedules NewCommandBatcher = Some cb \<and>
    FlushCommands demo_orders demo_read_set (\<lambda>b. (\<lparr>SheetName = [], Refs = []\<rparr>, [])) (\<lambda>cmds. [0]) cb = Some (out, NewCommandBatcher) \<and>
    out = (if cmds = [] then None else Some [0]) \<and>
    (\<forall>sheet cell. same_any (last_write (wire_value sheet cell) cmds)
         (last_write (direct_value sheet cell) (map snd demo_schedules)) \<and>
       last_write (wire_format sheet cell) cmds = last_write (direct_format sheet cell) (map snd demo_schedules))"
  by (rule commands_preserved)
     (auto simp: demo_orders_ok calls_ok_def demo_schedules_def demo_read_set_def target_def rect_ok_def ToScalar_def)

lemma demo_schedules_effect:
  "last_write (direct_value ''S'' (Cell 2 1)) (map snd demo_schedules) = Some (Some (AnyInt 5))"
  "last_write (direct_value ''S'' (Cell 1 2)) (map snd demo_schedules) = Some (Some (AnyInt 1))"
  "last_write (direct_format ''S'' (Cell 1 1)) (map snd demo_schedules) = Some ''0.00''"
  by (simp_all add: last_write_def demo_schedules_def direct_value_def direct_format_def in_range_def in_rects_def
      in_rect_def wire_any_def ToScalar_def CreateScalarAny_def)

theorem flush_batches_witness:
  "\<exists>cb' new. flushBuffersLocked demo_orders \<lparr>bufferedSets = [(''S'', [(Cell 1 1, zero_scalar)])],
      bufferedFormats = [], cmdQueue = []\<rparr> = Some cb' \<and> bufferedSets cb' = [] \<and> bufferedFormats cb' = [] \<and>
    cmdQueue cb' = [] @ new \<and> (\<forall>c \<in> set new. 0 < length (Rects c) \<and> length (Rects c) \<le> 32)"
  using flush_batches [of "\<lparr>bufferedSets = [(''S'', [(Cell 1 1, zero_scalar)])], bufferedFormats = [],
      cmdQueue = []\<rparr>" demo_orders]
  by (simp add: demo_orders_ok batcher_ok_def cells_ok_def gm_ok_def below_max_def)

end
