(* ===== verification/Excel_Dates.thy ===== *)
theory Excel_Dates
  imports Scalar_Values "HOL-Library.Log_Nat"
begin

section \<open>Doubles and Excel dates (pkg/xldate/xldate.go)\<close>

text \<open>
  The float64 arithmetic the code uses, on the bits of \<open>Scalar_Values\<close>: a finite double stands
  for a rational, and an operation is the exact result rounded to the nearest double, ties to even
  (\<open>f64_round\<close>). On it \<open>ToSerial\<close> and \<open>FromSerial\<close> of \<open>xldate.go\<close> are written as the
  code has them. A \<open>time.Time\<close> is its Unix second, its nanosecond within the second and the offset of
  its location at that instant, so that its wall clock is what UTC shows at second + offset.
\<close>

subsection \<open>Doubles\<close>

definition f64_sign :: "f64 \<Rightarrow> rat" where
  "f64_sign x = (if bit x 63 then -1 else 1)"

definition f64_exp :: "f64 \<Rightarrow> int" where
  "f64_exp x = uint (take_bit 11 (drop_bit 52 x))"

definition f64_frac :: "f64 \<Rightarrow> int" where
  "f64_frac x = uint (take_bit 52 x)"

definition f64_finite :: "f64 \<Rightarrow> bool" where
  "f64_finite x \<longleftrightarrow> f64_exp x \<noteq> 2047"

text \<open>A power of two with an integer exponent.\<close>

definition pow2 :: "int \<Rightarrow> rat" where
  "pow2 k = (if 0 \<le> k then 2 ^ nat k else inverse (2 ^ nat (- k)))"

text \<open>The number a finite double stands for.\<close>

definition f64_val :: "f64 \<Rightarrow> rat" where
  "f64_val x =
     (if f64_exp x = 0 then f64_sign x * of_int (f64_frac x) * pow2 (-1074)
      else f64_sign x * of_int (2 ^ 52 + f64_frac x) * pow2 (f64_exp x - 1075))"

definition half_even :: "rat \<Rightarrow> int" where
  "half_even r =
     (let f = \<lfloor>r\<rfloor>; d = r - of_int f
      in if d < 1 / 2 then f else if d > 1 / 2 then f + 1 else if even f then f else f + 1)"

text \<open>The exponent of a positive rational: \<open>pow2 e \<le> r < pow2 (e + 1)\<close>.\<close>

definition rat_exp :: "rat \<Rightarrow> int" where
  "rat_exp r =
     (let (p, q) = quotient_of r; k = int (floorlog 2 (nat p)) - int (floorlog 2 (nat q))
      in if pow2 k \<le> r then k else k - 1)"

text \<open>The double nearest to a rational; too large a number gives an infinity.\<close>

definition f64_round :: "rat \<Rightarrow> f64" where
  "f64_round r =
     (if r = 0 then 0
      else
        (let e = max (rat_exp \<bar>r\<bar>) (-1022);
             m = half_even (\<bar>r\<bar> * pow2 (52 - e));
             b = min ((e + 1022) * 2 ^ 52 + m) (2047 * 2 ^ 52)
         in of_int (if r < 0 then 2 ^ 63 + b else b)))"

definition f64_of_int :: "int \<Rightarrow> f64" where
  "f64_of_int v = f64_round (of_int v)"

definition f64_div :: "f64 \<Rightarrow> f64 \<Rightarrow> f64" where
  "f64_div x y = f64_round (f64_val x / f64_val y)"

definition f64_add :: "f64 \<Rightarrow> f64 \<Rightarrow> f64" where
  "f64_add x y = f64_round (f64_val x + f64_val y)"

definition f64_sub :: "f64 \<Rightarrow> f64 \<Rightarrow> f64" where
  "f64_sub x y = f64_round (f64_val x - f64_val y)"

definition f64_mul :: "f64 \<Rightarrow> f64 \<Rightarrow> f64" where
  "f64_mul x y = f64_round (f64_val x * f64_val y)"

definition math_Floor :: "f64 \<Rightarrow> f64" where
  "math_Floor x = f64_round (of_int \<lfloor>f64_val x\<rfloor>)"

text \<open>\<open>int64(math.Round(x))\<close>: half away from zero.\<close>

definition math_Round :: "f64 \<Rightarrow> int" where
  "math_Round x = (let v = f64_val x in if v < 0 then - \<lfloor>- v + 1 / 2\<rfloor> else \<lfloor>v + 1 / 2\<rfloor>)"

text \<open>\<open>float64(v)\<close> of a float32.\<close>

definition f64_of_f32 :: "32 word \<Rightarrow> f64" where
  "f64_of_f32 x =
     (let s = (if bit x 31 then 2 ^ 63 else 0); e = uint (take_bit 8 (drop_bit 23 x)); f = uint (take_bit 23 x)
      in if e = 255 then of_int (s + 2047 * 2 ^ 52 + (if f = 0 then 0 else or (f * 2 ^ 29) (2 ^ 51)))
         else if e = 0 then (if f = 0 then of_int s else of_int s + f64_round (of_int f * pow2 (-149)))
         else of_int (s + (e + 896) * 2 ^ 52 + f * 2 ^ 29))"

subsection \<open>Serial dates\<close>

record time =
  unix :: int
  nsec :: int
  zone :: int

text \<open>\<open>time.Date(1899, 12, 30, 0, 0, 0, 0, time.UTC)\<close>.\<close>

definition excelEpoch :: time where
  "excelEpoch = \<lparr>unix = -2209161600, nsec = 0, zone = 0\<rparr>"

text \<open>The UTC instant whose clock shows what the clock of \<open>t\<close> shows.\<close>

definition wall_clock :: "time \<Rightarrow> time" where
  "wall_clock t = \<lparr>unix = unix t + zone t, nsec = nsec t, zone = 0\<rparr>"

definition ToSerial :: "time \<Rightarrow> f64" where
  "ToSerial t =
     (let wall = wall_clock t; secs = i64 (unix wall - unix excelEpoch)
      in f64_add (f64_div (f64_of_int secs) (f64_of_int 86400))
           (f64_div (f64_div (f64_of_int (nsec wall)) (f64_of_int 1000000000)) (f64_of_int 86400)))"

text \<open>\<open>t.AddDate(0, 0, days)\<close> in UTC and \<open>t.Add(d)\<close>.\<close>

definition add_days :: "int \<Rightarrow> time \<Rightarrow> time" where
  "add_days days t = t\<lparr>unix := unix t + days * 86400\<rparr>"

definition add_duration :: "int \<Rightarrow> time \<Rightarrow> time" where
  "add_duration d t =
     t\<lparr>unix := unix t + (nsec t + d) div 1000000000, nsec := (nsec t + d) mod 1000000000\<rparr>"

definition FromSerial :: "f64 \<Rightarrow> time" where
  "FromSerial serial =
     (let days = math_Floor serial; frac = f64_sub serial days;
          ns = math_Round (f64_mul (f64_mul frac (f64_of_int 86400)) (f64_of_int 1000000000))
      in add_duration ns (add_days \<lfloor>f64_val days\<rfloor> excelEpoch))"

subsection \<open>Exact results\<close>

lemma pow2_pos [simp]: "0 < pow2 k"
  by (simp add: pow2_def)

lemma pow2_nat: "pow2 (int n) = 2 ^ n"
  by (simp add: pow2_def)

lemma half_even_int [simp]: "half_even (of_int n) = n"
  by (simp add: half_even_def Let_def)

lemma quotient_of_pos_int: "quotient_of (of_int n) = (n, 1)"
  by (simp add: quotient_of_int [symmetric] Fract_of_int_quotient)

lemma f64_fields:
  "f64_exp x = uint x div 2 ^ 52 mod 2 ^ 11" "f64_frac x = uint x mod 2 ^ 52"
  "bit x 63 \<longleftrightarrow> odd (uint x div 2 ^ 63)"
proof -
  show "f64_exp x = uint x div 2 ^ 52 mod 2 ^ 11" "f64_frac x = uint x mod 2 ^ 52"
    by (simp_all add: f64_exp_def f64_frac_def unsigned_take_bit_eq unsigned_drop_bit_eq take_bit_eq_mod
        drop_bit_eq_div uint_div uint_mod)
  have "bit x 63 \<longleftrightarrow> bit (uint x) 63" by (simp add: bit_uint_iff)
  then show "bit x 63 \<longleftrightarrow> odd (uint x div 2 ^ 63)" by (simp only: bit_iff_odd [of "uint x"])
qed

text \<open>Reading back the fields of a double that was put together from them.\<close>

lemma f64_of_fields:
  assumes "0 < e" and "e < 2047" and "0 \<le> f" and "f < 2 ^ 52" and "b = e * 2 ^ 52 + f"
  shows "f64_val (of_int b) = of_int (2 ^ 52 + f) * pow2 (e - 1075)"
    and "f64_val (of_int (2 ^ 63 + b)) = - (of_int (2 ^ 52 + f) * pow2 (e - 1075))"
proof -
  have r: "0 \<le> b" "b < 2 ^ 63" using assms by simp_all
  have q: "b div 2 ^ 52 = e" "b mod 2 ^ 52 = f"
    unfolding assms(5) using div_pos_pos_trivial [OF assms(3,4)] mod_pos_pos_trivial [OF assms(3,4)] by simp_all
  have u: "uint (of_int z :: f64) = z" if "0 \<le> z" "z < 2 ^ 64" for z
    using that by (simp only: unsigned_of_int) (simp add: take_bit_int_eq_self)
  have h: "(2 ^ 63 + b) div 2 ^ 52 = 2 ^ 11 + e" "(2 ^ 63 + b) mod 2 ^ 52 = f"
  proof -
    have "2 ^ 63 + b = b + 2 ^ 11 * 2 ^ 52" by simp
    then show "(2 ^ 63 + b) div 2 ^ 52 = 2 ^ 11 + e" "(2 ^ 63 + b) mod 2 ^ 52 = f"
      using q by (simp_all only: div_mult_self1 mod_mult_self1) simp
  qed
  have "f64_val x = of_int (2 ^ 52 + f) * pow2 (e - 1075)" if "uint x = b" for x
    using assms r by (simp add: f64_val_def f64_sign_def f64_fields that q)
  then show "f64_val (of_int b) = of_int (2 ^ 52 + f) * pow2 (e - 1075)" using u [of b] r by simp
  have "f64_val x = - (of_int (2 ^ 52 + f) * pow2 (e - 1075))" if x: "uint x = 2 ^ 63 + b" for x
  proof -
    have "f64_exp x = e" "f64_frac x = f" using assms(1,2) by (simp_all only: f64_fields x h) simp
    moreover have "f64_sign x = -1" using r by (simp add: f64_sign_def f64_fields x)
    ultimately show ?thesis using assms(1) by (simp add: f64_val_def algebra_simps)
  qed
  then show "f64_val (of_int (2 ^ 63 + b)) = - (of_int (2 ^ 52 + f) * pow2 (e - 1075))"
    using u [of "2 ^ 63 + b"] r by simp
qed

lemma f64_decode:
  assumes "0 < e" and "e < 2047" and "2 ^ 52 \<le> m" and "m < 2 ^ 53"
  shows "f64_val (of_int ((e - 1) * 2 ^ 52 + m)) = of_int m * pow2 (e - 1075)"
    and "f64_val (of_int (2 ^ 63 + ((e - 1) * 2 ^ 52 + m))) = - (of_int m * pow2 (e - 1075))"
  using f64_of_fields [OF assms(1,2), of "m - 2 ^ 52" "(e - 1) * 2 ^ 52 + m"] assms(3,4)
  by (simp_all del: of_int_add of_int_mult of_int_diff)

lemma pow2_mult: "pow2 a * pow2 b = pow2 (a + b)"
proof -
  have r: "pow2 k = 2 powi k" for k by (simp add: pow2_def power_int_def field_simps)
  show ?thesis by (simp add: r power_int_add)
qed

lemma rat_exp_int: "0 < n \<Longrightarrow> n < 2 ^ 53 \<Longrightarrow> \<exists>k \<le> 52. rat_exp (of_int n) = int k \<and> 2 ^ k \<le> n \<and> n < 2 ^ (k + 1)"
proof -
  assume n: "0 < n" "n < 2 ^ 53"
  let ?k = "floorlog 2 (nat n) - 1"
  have b: "2 ^ ?k \<le> nat n" "nat n < 2 ^ floorlog 2 (nat n)" using floorlog_bounds [of "nat n" 2] n by simp_all
  have p: "0 < floorlog 2 (nat n)" using n floorlog_eq_zero_iff [of 2 "nat n"] by simp
  have l: "floorlog 2 (nat n) \<le> 53"
    by (rule floorlog_leI) (use n in \<open>simp_all add: nat_less_iff\<close>)
  have B: "2 ^ ?k \<le> n" "n < 2 ^ (?k + 1)" using b p n by (simp_all add: le_nat_iff nat_less_iff)
  have one: "floorlog 2 (nat 1) = 1" by (simp add: floorlog_def)
  have "pow2 (int ?k) \<le> of_int n" using B(1) by (simp add: pow2_nat flip: of_int_power_le_of_int_cancel_iff)
  then have "rat_exp (of_int n) = int ?k"
    using p one by (simp add: rat_exp_def quotient_of_pos_int of_nat_diff)
  then show ?thesis using B l by (intro exI [of _ ?k]) auto
qed

text \<open>Every integer of at most 53 bits is its own nearest double.\<close>

lemma f64_of_int_exact: "\<bar>n\<bar> < 2 ^ 53 \<Longrightarrow> f64_val (f64_of_int n) = of_int n"
proof -
  assume n: "\<bar>n\<bar> < 2 ^ 53"
  show ?thesis
  proof (cases "n = 0")
    case True
    then show ?thesis by (simp add: f64_of_int_def f64_round_def f64_val_def f64_exp_def f64_frac_def)
  next
    case False
    obtain k where k: "k \<le> 52" "rat_exp (of_int \<bar>n\<bar>) = int k" "2 ^ k \<le> \<bar>n\<bar>" "\<bar>n\<bar> < 2 ^ (k + 1)"
      using rat_exp_int [of "\<bar>n\<bar>"] n False by auto
    let ?m = "\<bar>n\<bar> * 2 ^ (52 - k)"
    have sc: "(2 :: int) ^ 52 = 2 ^ k * 2 ^ (52 - k)" "(2 :: int) ^ 53 = 2 ^ (k + 1) * 2 ^ (52 - k)"
      using k(1) by (simp_all flip: power_add)
    have m: "2 ^ 52 \<le> ?m" "?m < 2 ^ 53" unfolding sc
    by (rule mult_right_mono [OF k(3)], simp) (rule mult_strict_right_mono [OF k(4)], simp)
    have p: "pow2 (52 - int k) = of_int (2 ^ (52 - k))"
      using k(1) pow2_nat [of "52 - k"] by (simp add: of_nat_diff)
    have h: "half_even (of_int \<bar>n\<bar> * pow2 (52 - int k)) = ?m" 
      unfolding p using half_even_int [of ?m] by simp
    have e: "max (int k) (-1022) = int k" by simp
    have b: "min ((int k + 1022) * 2 ^ 52 + ?m) (2047 * 2 ^ 52) = ((int k + 1023) - 1) * 2 ^ 52 + ?m"
      using m k(1) by simp
    have r: "f64_of_int n = of_int (if n < 0 then 2 ^ 63 + (((int k + 1023) - 1) * 2 ^ 52 + ?m)
        else ((int k + 1023) - 1) * 2 ^ 52 + ?m)"
      unfolding f64_of_int_def f64_round_def Let_def of_int_abs [symmetric] k(2) e h b
      using False by (simp only: of_int_eq_0_iff of_int_less_0_iff if_False)
    have v: "of_int ?m * pow2 (int k + 1023 - 1075) = of_int \<bar>n\<bar>"
    proof -
      have "of_int ?m = of_int \<bar>n\<bar> * pow2 (52 - int k)" unfolding p by simp
      moreover have "pow2 (52 - int k) * pow2 (int k + 1023 - 1075) = 1"
        unfolding pow2_mult by (simp add: pow2_def)
      ultimately show ?thesis by (simp only: mult.assoc mult_1_right)
    qed
    show ?thesis unfolding r using f64_decode [of "int k + 1023" ?m] m k(1) v by auto
  qed
qed

subsection \<open>Dates survive the round trip\<close>

lemma f64_val_0 [simp]: "f64_val 0 = 0"
  by (simp add: f64_val_def f64_exp_def f64_frac_def)

lemma ToSerial_dates:
  assumes "unix t + zone t = days * 86400 - 2209161600" and "nsec t = 0" and "\<bar>days\<bar> < 2 ^ 36"
  shows "ToSerial t = f64_of_int days"
proof -
  have b: "\<bar>days * 86400\<bar> < 2 ^ 53" using assms(3) by (simp add: abs_mult)
  then have i: "i64 (days * 86400) = days * 86400" by (intro i64_id) simp_all
  have "f64_div (f64_of_int (days * 86400)) (f64_of_int 86400) = f64_of_int days"
    using f64_of_int_exact [OF b] f64_of_int_exact [of 86400] by (simp add: f64_div_def f64_of_int_def)
  moreover have "f64_div (f64_div (f64_of_int 0) x) y = 0" for x y
    by (simp add: f64_div_def f64_of_int_def f64_round_def)
  moreover have "f64_val (f64_of_int days) = of_int days" by (rule f64_of_int_exact) (use assms(3) in simp)
  ultimately show ?thesis using assms(1,2) i
    by (simp add: ToSerial_def Let_def wall_clock_def excelEpoch_def f64_add_def) (simp add: f64_of_int_def)
qed

text \<open>C31. A date (a midnight on the wall clock, whatever the time zone) survives the round trip through an
  Excel serial exactly: the serial is the whole number of days since 1899-12-30, and \<open>FromSerial\<close> gives back
  the instant whose UTC clock shows that midnight. The bound covers far more than Excel's calendar.\<close>

theorem date_roundtrip:
  assumes "unix t + zone t = days * 86400 - 2209161600" and "nsec t = 0" and "\<bar>days\<bar> < 2 ^ 36"
  shows "f64_val (ToSerial t) = of_int days \<and> FromSerial (ToSerial t) = wall_clock t"
proof -
  have s: "ToSerial t = f64_of_int days" using assms by (simp add: ToSerial_dates)
  have v: "f64_val (f64_of_int days) = of_int days" by (rule f64_of_int_exact) (use assms(3) in simp)
  have "math_Floor (f64_of_int days) = f64_of_int days"
    unfolding math_Floor_def v by (simp add: f64_of_int_def)
  moreover have "f64_sub (f64_of_int days) (f64_of_int days) = 0" by (simp add: f64_sub_def f64_round_def)
  moreover have "math_Round (f64_mul (f64_mul 0 x) y) = 0" for x y
    by (simp add: f64_mul_def f64_round_def math_Round_def Let_def floor_eq_iff)
  ultimately have "FromSerial (f64_of_int days) = add_duration 0 (add_days days excelEpoch)"
    by (simp add: FromSerial_def Let_def v)
  also have "\<dots> = wall_clock t"
    using assms by (simp add: add_duration_def add_days_def excelEpoch_def wall_clock_def)
  finally show ?thesis by (simp add: s v)
qed

theorem date_roundtrip_witness:
  "f64_val (ToSerial \<lparr>unix = 1700006400 - 32400, nsec = 0, zone = 32400\<rparr>) = 45245 \<and>
   FromSerial (ToSerial \<lparr>unix = 1700006400 - 32400, nsec = 0, zone = 32400\<rparr>) =
     \<lparr>unix = 1700006400, nsec = 0, zone = 0\<rparr>"
  using date_roundtrip [of "\<lparr>unix = 1700006400 - 32400, nsec = 0, zone = 32400\<rparr>" 45245]
  by (simp add: wall_clock_def)

end
