(* ===== verification/Fb_Any.thy ===== *)
theory Fb_Any
  imports Excel_Dates
begin

section \<open>Values and grids on the wire (internal/fbany/fbany.go, pkg/server/converters.go)\<close>

text \<open>
  The builder of \<open>protocol.Any\<close>. A Go \<open>any\<close> is a tagged value, one constructor per dynamic type
  the code distinguishes; of a value of any other type only what \<open>fmt.Sprintf("%v", v)\<close> prints is
  known (\<open>GoOther\<close>), and for the types the code does not switch on that text is the parameter
  \<open>sprint\<close>. A FlatBuffers table is the record of what was added to it; offset 0 is \<open>None\<close>. A failed
  type assertion panics: \<open>None\<close> in \<open>Build\<close>'s result.
\<close>

datatype go_value =
    GoNil | GoString string | GoBool bool
  | GoInt int | GoInt8 int | GoInt16 int | GoInt32 int | GoInt64 int
  | GoUint int | GoUint8 int | GoUint16 int | GoUint32 int | GoUint64 int
  | GoFloat64 f64 | GoFloat32 "32 word" | GoTime time
  | GoGrid "go_value list list" | GoNumGrid "f64 list list" | GoOther string

text \<open>The members of the union; a cell of a grid is a union of some of them.\<close>

datatype member =
    MInt int | MNum f64 | MBool bool | MStr string | MErr int | MNil
  | MGrid int int "member list" | MNumGrid int int "f64 list" | MDate f64

record any_table =
  val_type :: AnyValue
  any_val :: "member option"

subsection \<open>Grid dimensions\<close>

datatype grid_error = NoRows | NoColumns | TooManyCells nat nat | NotRectangular nat nat nat

definition check_rows :: "nat \<Rightarrow> 'a list list \<Rightarrow> grid_error option" where
  "check_rows cols v =
     (case filter (\<lambda>(i, row). length row \<noteq> cols) (enumerate 0 v) of
        [] \<Rightarrow> None
      | (i, row) # _ \<Rightarrow> Some (NotRectangular i (length row) cols))"

definition ValidateGridDims :: "'a list list \<Rightarrow> grid_error + int \<times> int" where
  "ValidateGridDims v =
     (if length v = 0 then Inl NoRows
      else
        (let cols = length (v ! 0) in
         if cols = 0 then Inl NoColumns
         else if int (length v * cols) mod 2 ^ 64 > max_i32 then Inl (TooManyCells (length v) cols)
         else (case check_rows cols v of
                 Some e \<Rightarrow> Inl e
               | None \<Rightarrow> Inr (int (length v), int cols))))"

subsection \<open>Scalars\<close>

definition mapUint64 :: "int \<Rightarrow> AnyValue \<times> go_value" where
  "mapUint64 v =
     (if v \<le> max_i32 then (AnyValueInt, GoInt32 (i32 v)) else (AnyValueNum, GoFloat64 (f64_of_int v)))"

definition MapGo :: "(go_value \<Rightarrow> string) \<Rightarrow> go_value \<Rightarrow> AnyValue \<times> go_value" where
  "MapGo sprint value =
     (case value of
        GoNil \<Rightarrow> (AnyValueNil, GoNil)
      | GoString v \<Rightarrow> (AnyValueStr, GoString v)
      | GoInt v \<Rightarrow> (AnyValueNum, GoFloat64 (f64_of_int v))
      | GoInt8 v \<Rightarrow> (AnyValueInt, GoInt32 (i32 v))
      | GoInt16 v \<Rightarrow> (AnyValueInt, GoInt32 (i32 v))
      | GoInt32 v \<Rightarrow> (AnyValueInt, GoInt32 v)
      | GoInt64 v \<Rightarrow> (AnyValueNum, GoFloat64 (f64_of_int v))
      | GoUint8 v \<Rightarrow> (AnyValueInt, GoInt32 (i32 v))
      | GoUint16 v \<Rightarrow> (AnyValueInt, GoInt32 (i32 v))
      | GoUint v \<Rightarrow> mapUint64 v
      | GoUint32 v \<Rightarrow> mapUint64 v
      | GoUint64 v \<Rightarrow> mapUint64 v
      | GoFloat64 v \<Rightarrow> (AnyValueNum, GoFloat64 v)
      | GoFloat32 v \<Rightarrow> (AnyValueNum, GoFloat64 (f64_of_f32 v))
      | GoBool v \<Rightarrow> (AnyValueBool, GoBool v)
      | GoTime v \<Rightarrow> (AnyValueDate, GoTime v)
      | v \<Rightarrow> (AnyValueStr, GoString (sprint v)))"

definition buildIntOrNumCell :: "int \<Rightarrow> member" where
  "buildIntOrNumCell v = (if v \<ge> min_i32 \<and> v \<le> max_i32 then MInt (i32 v) else MNum (f64_of_int v))"

definition buildUintOrNumCell :: "int \<Rightarrow> member" where
  "buildUintOrNumCell v = (if v \<le> max_i32 then MInt (i32 v) else MNum (f64_of_int v))"

definition buildScalarCell :: "(go_value \<Rightarrow> string) \<Rightarrow> go_value \<Rightarrow> member" where
  "buildScalarCell sprint c =
     (case c of
        GoNil \<Rightarrow> MNil
      | GoBool v \<Rightarrow> MBool v
      | GoString v \<Rightarrow> MStr v
      | GoInt v \<Rightarrow> buildIntOrNumCell v
      | GoInt8 v \<Rightarrow> MInt (i32 v)
      | GoInt16 v \<Rightarrow> MInt (i32 v)
      | GoInt32 v \<Rightarrow> MInt v
      | GoInt64 v \<Rightarrow> buildIntOrNumCell v
      | GoUint v \<Rightarrow> buildUintOrNumCell v
      | GoUint8 v \<Rightarrow> MInt (i32 v)
      | GoUint16 v \<Rightarrow> MInt (i32 v)
      | GoUint32 v \<Rightarrow> buildUintOrNumCell v
      | GoUint64 v \<Rightarrow> buildUintOrNumCell v
      | GoFloat32 v \<Rightarrow> MNum (f64_of_f32 v)
      | GoFloat64 v \<Rightarrow> MNum v
      | GoTime v \<Rightarrow> MDate (ToSerial v)
      | v \<Rightarrow> MStr (sprint v))"

subsection \<open>Grids\<close>

definition BuildGrid :: "(go_value \<Rightarrow> string) \<Rightarrow> go_value list list \<Rightarrow> grid_error + member" where
  "BuildGrid sprint v =
     (case ValidateGridDims v of
        Inl e \<Rightarrow> Inl e
      | Inr (rows, cols) \<Rightarrow>
          (let cellOffsets = concat (map (map (buildScalarCell sprint)) v)
           in Inr (MGrid (i32 rows) (i32 cols) (fold (\<lambda>i vec. cellOffsets ! i # vec) (rev [0..<length cellOffsets]) []))))"

text \<open>\<open>for i := rows - 1; i >= 0; i--\<close> and within it the columns, each value prepended.\<close>

definition BuildNumGrid :: "f64 list list \<Rightarrow> grid_error + member" where
  "BuildNumGrid v =
     (case ValidateGridDims v of
        Inl e \<Rightarrow> Inl e
      | Inr (rows, cols) \<Rightarrow>
          Inr (MNumGrid (i32 rows) (i32 cols)
            (fold (\<lambda>i vec. fold (\<lambda>j vec. v ! i ! j # vec) (rev [0..<nat cols]) vec) (rev [0..<nat rows]) [])))"

subsection \<open>The Any table\<close>

definition any_table :: "AnyValue \<Rightarrow> member option \<Rightarrow> any_table" where
  "any_table tag off = \<lparr>val_type = tag, any_val = off\<rparr>"

definition Build :: "(go_value \<Rightarrow> string) \<Rightarrow> AnyValue \<Rightarrow> go_value \<Rightarrow> any_table option" where
  "Build sprint tag val =
     (case tag of
        AnyValueInt \<Rightarrow> (case val of GoInt32 v \<Rightarrow> Some (any_table tag (Some (MInt v))) | _ \<Rightarrow> None)
      | AnyValueNum \<Rightarrow> (case val of GoFloat64 v \<Rightarrow> Some (any_table tag (Some (MNum v))) | _ \<Rightarrow> None)
      | AnyValueBool \<Rightarrow> (case val of GoBool v \<Rightarrow> Some (any_table tag (Some (MBool v))) | _ \<Rightarrow> None)
      | AnyValueStr \<Rightarrow> (case val of GoString v \<Rightarrow> Some (any_table tag (Some (MStr v))) | _ \<Rightarrow> None)
      | AnyValueErr \<Rightarrow> (case val of GoInt16 v \<Rightarrow> Some (any_table tag (Some (MErr v))) | _ \<Rightarrow> None)
      | AnyValueNil \<Rightarrow> Some (any_table tag (Some MNil))
      | AnyValueGrid \<Rightarrow>
          (case val of
             GoGrid grid \<Rightarrow>
               (case BuildGrid sprint grid of
                  Inl e \<Rightarrow> Some (any_table AnyValueNONE None)
                | Inr off \<Rightarrow> Some (any_table tag (Some off)))
           | _ \<Rightarrow> Some (any_table AnyValueNONE None))
      | AnyValueNumGrid \<Rightarrow>
          (case val of
             GoNumGrid ng \<Rightarrow>
               (case BuildNumGrid ng of
                  Inl e \<Rightarrow> Some (any_table AnyValueNONE None)
                | Inr off \<Rightarrow> Some (any_table tag (Some off)))
           | _ \<Rightarrow> Some (any_table AnyValueNONE None))
      | AnyValueDate \<Rightarrow>
          (case val of
             GoTime t \<Rightarrow> Some (any_table tag (Some (MDate (ToSerial t))))
           | _ \<Rightarrow> Some (any_table AnyValueNONE None))
      | _ \<Rightarrow> Some (any_table AnyValueNONE None))"

definition BuildGo :: "(go_value \<Rightarrow> string) \<Rightarrow> go_value \<Rightarrow> any_table option" where
  "BuildGo sprint value = (let (tag, payload) = MapGo sprint value in Build sprint tag payload)"

definition BuildEmpty :: "AnyValue \<Rightarrow> any_table" where
  "BuildEmpty tag = any_table tag None"

subsection \<open>Pre-sizing\<close>

definition AnyGridBytesPerCell :: int where "AnyGridBytesPerCell = 32"
definition NumGridBytesPerCell :: int where "NumGridBytesPerCell = 8"
definition gridBuilderOverhead :: int where "gridBuilderOverhead = 512"
definition maxGridBuilderHint :: int where "maxGridBuilderHint = 256 * 2 ^ 20"

lemmas grid_defs [go_defs] = AnyGridBytesPerCell_def NumGridBytesPerCell_def gridBuilderOverhead_def
  maxGridBuilderHint_def

definition GridBuilderSize :: "'a list list \<Rightarrow> int \<Rightarrow> int" where
  "GridBuilderSize v bytesPerCell =
     (if length v = 0 then gridBuilderOverhead
      else
        (let cells = int (length v * length (v ! 0)) mod 2 ^ 64 in
         if cells = 0 \<or> cells > max_i32 then gridBuilderOverhead
         else
           (let size = (cells * bytesPerCell) mod 2 ^ 64
            in if size > maxGridBuilderHint then maxGridBuilderHint else size + gridBuilderOverhead)))"

text \<open>\<open>BuildRtdOnceGridResult\<close>: the table it finishes; \<open>Inl\<close> when it returns an error.\<close>

definition BuildRtdOnceGridResult ::
  "(go_value \<Rightarrow> string) \<Rightarrow> string \<Rightarrow> go_value \<Rightarrow> grid_error option + string \<times> any_table" where
  "BuildRtdOnceGridResult sprint key v =
     (case v of
        GoGrid g \<Rightarrow>
          (case BuildGrid sprint g of
             Inl e \<Rightarrow> Inl (Some e)
           | Inr off \<Rightarrow> Inr (key, any_table AnyValueGrid (Some off)))
      | GoNumGrid g \<Rightarrow>
          (case BuildNumGrid g of
             Inl e \<Rightarrow> Inl (Some e)
           | Inr off \<Rightarrow> Inr (key, any_table AnyValueNumGrid (Some off)))
      | _ \<Rightarrow> Inl None)"

definition ValidateGrid :: "go_value list list \<Rightarrow> grid_error option" where
  "ValidateGrid v = (case ValidateGridDims v of Inl e \<Rightarrow> Some e | Inr _ \<Rightarrow> None)"

definition ValidateNumGrid :: "f64 list list \<Rightarrow> grid_error option" where
  "ValidateNumGrid v = (case ValidateGridDims v of Inl e \<Rightarrow> Some e | Inr _ \<Rightarrow> None)"

text \<open>The names under which \<open>pkg/server/converters.go\<close> gives these to the generated code.\<close>

definition MapAnyValue :: "(go_value \<Rightarrow> string) \<Rightarrow> go_value \<Rightarrow> AnyValue \<times> go_value" where
  "MapAnyValue = MapGo"

definition BuildAnyFromGo :: "(go_value \<Rightarrow> string) \<Rightarrow> go_value \<Rightarrow> any_table option" where
  "BuildAnyFromGo = BuildGo"

definition BuildGridFromGo :: "(go_value \<Rightarrow> string) \<Rightarrow> go_value list list \<Rightarrow> grid_error + member" where
  "BuildGridFromGo = BuildGrid"

definition BuildNumGridFromGo :: "f64 list list \<Rightarrow> grid_error + member" where
  "BuildNumGridFromGo = BuildNumGrid"

definition SerialToTime :: "f64 \<Rightarrow> time" where
  "SerialToTime = FromSerial"

subsection \<open>What the builders promise\<close>

definition rectangular :: "'a list list \<Rightarrow> nat \<Rightarrow> bool" where
  "rectangular v cols \<longleftrightarrow> (\<forall>row \<in> set v. length row = cols)"

lemma check_rows_none: "check_rows cols v = None \<longleftrightarrow> rectangular v cols"
proof -
  have "check_rows cols v = None \<longleftrightarrow> filter (\<lambda>(i, row). length row \<noteq> cols) (enumerate 0 v) = []"
    by (simp add: check_rows_def split: list.split prod.split)
  also have "\<dots> \<longleftrightarrow> (\<forall>(i, row) \<in> set (enumerate 0 v). length row = cols)"
    by (auto simp: filter_empty_conv)
  also have "\<dots> \<longleftrightarrow> rectangular v cols"
    unfolding rectangular_def by (simp add: enumerate_eq_zip all_set_conv_all_nth split_beta)
  finally show ?thesis .
qed

lemma ValidateGridDims_Inr:
  assumes "int (length v * length (v ! 0)) < 2 ^ 64"
  shows "ValidateGridDims v = Inr (r, c) \<longleftrightarrow>
    r = int (length v) \<and> c = int (length (v ! 0)) \<and> 0 < r \<and> 0 < c \<and> r * c \<le> max_i32 \<and>
    rectangular v (length (v ! 0))"
proof -
  have m: "int (length v * length (v ! 0)) mod 2 ^ 64 = int (length v) * int (length (v ! 0))"
    using assms by (simp add: mod_pos_pos_trivial)
  show ?thesis unfolding ValidateGridDims_def Let_def m check_rows_none [symmetric]
    by (auto split: option.splits)
qed

lemma length_concat_rect: "rectangular v c \<Longrightarrow> length (concat v) = length v * c"
  by (induction v) (auto simp: rectangular_def)

lemma nth_concat_rect: "rectangular v c \<Longrightarrow> i < length v \<Longrightarrow> j < c \<Longrightarrow> concat v ! (i * c + j) = v ! i ! j"
proof (induction v arbitrary: i)
  case (Cons row v)
  then show ?case by (cases i) (auto simp: rectangular_def nth_append)
qed simp

lemma fold_prepend: "fold (\<lambda>i vec. f i # vec) (rev is) = (\<lambda>acc. map f is @ acc)"
  by (induction "is" rule: rev_induct) (simp_all add: fun_eq_iff)

lemma fold_prepend_rows: "fold (\<lambda>i vec. g i @ vec) (rev is) acc = concat (map g is) @ acc"
  by (induction "is" arbitrary: acc rule: rev_induct) simp_all

lemma BuildGrid_data:
  "BuildGrid sprint v =
     (case ValidateGridDims v of Inl e \<Rightarrow> Inl e
      | Inr (rows, cols) \<Rightarrow> Inr (MGrid (i32 rows) (i32 cols) (concat (map (map (buildScalarCell sprint)) v))))"
  by (simp add: BuildGrid_def fold_prepend map_nth split: sum.split)

lemma BuildNumGrid_data:
  assumes "int (length v * length (v ! 0)) < 2 ^ 64"
  shows "BuildNumGrid v =
     (case ValidateGridDims v of Inl e \<Rightarrow> Inl e
      | Inr (rows, cols) \<Rightarrow> Inr (MNumGrid (i32 rows) (i32 cols) (concat v)))"
proof (cases "ValidateGridDims v")
  case (Inr p)
  then obtain r c where p: "ValidateGridDims v = Inr (r, c)" by (cases p) simp
  have d: "r = int (length v)" "c = int (length (v ! 0))" "rectangular v (length (v ! 0))"
    using p ValidateGridDims_Inr [OF assms] by auto
  have "map (\<lambda>i. map (\<lambda>j. v ! i ! j) [0..<length (v ! 0)]) [0..<length v] = map (\<lambda>i. v ! i) [0..<length v]"
  proof (rule map_cong [OF refl])
    fix i assume "i \<in> set [0..<length v]"
    then have "length (v ! i) = length (v ! 0)" using d(3) by (auto simp: rectangular_def)
    then show "map (\<lambda>j. v ! i ! j) [0..<length (v ! 0)] = v ! i" by (metis map_nth)
  qed
  then show ?thesis by (simp add: BuildNumGrid_def p d(1,2) fold_prepend fold_prepend_rows map_nth)
qed (simp add: BuildNumGrid_def)

text \<open>The tag of a member.\<close>

fun member_tag :: "member \<Rightarrow> AnyValue" where
  "member_tag (MInt _) = AnyValueInt"
| "member_tag (MNum _) = AnyValueNum"
| "member_tag (MBool _) = AnyValueBool"
| "member_tag (MStr _) = AnyValueStr"
| "member_tag (MErr _) = AnyValueErr"
| "member_tag MNil = AnyValueNil"
| "member_tag (MGrid _ _ _) = AnyValueGrid"
| "member_tag (MNumGrid _ _ _) = AnyValueNumGrid"
| "member_tag (MDate _) = AnyValueDate"

text \<open>A Go integer of some type, with its value.\<close>

fun go_int :: "go_value \<Rightarrow> int option" where
  "go_int (GoInt v) = (if min_i64 \<le> v \<and> v \<le> max_i64 then Some v else None)"
| "go_int (GoInt8 v) = (if -128 \<le> v \<and> v < 128 then Some v else None)"
| "go_int (GoInt16 v) = (if -32768 \<le> v \<and> v < 32768 then Some v else None)"
| "go_int (GoInt32 v) = (if min_i32 \<le> v \<and> v \<le> max_i32 then Some v else None)"
| "go_int (GoInt64 v) = (if min_i64 \<le> v \<and> v \<le> max_i64 then Some v else None)"
| "go_int (GoUint v) = (if 0 \<le> v \<and> v < 2 ^ 64 then Some v else None)"
| "go_int (GoUint8 v) = (if 0 \<le> v \<and> v < 256 then Some v else None)"
| "go_int (GoUint16 v) = (if 0 \<le> v \<and> v < 65536 then Some v else None)"
| "go_int (GoUint32 v) = (if 0 \<le> v \<and> v < 2 ^ 32 then Some v else None)"
| "go_int (GoUint64 v) = (if 0 \<le> v \<and> v < 2 ^ 64 then Some v else None)"
| "go_int _ = None"

text \<open>A value as Go has it: an integer in the range of its type.\<close>

definition in_range :: "go_value \<Rightarrow> bool" where
  "in_range v \<longleftrightarrow> go_int v \<noteq> None \<or>
     (case v of GoNil \<Rightarrow> True | GoString _ \<Rightarrow> True | GoBool _ \<Rightarrow> True | GoFloat64 _ \<Rightarrow> True | GoFloat32 _ \<Rightarrow> True
      | GoTime _ \<Rightarrow> True | GoGrid _ \<Rightarrow> True | GoNumGrid _ \<Rightarrow> True | GoOther _ \<Rightarrow> True | _ \<Rightarrow> False)"

text \<open>That a member of the union says what a Go value is: the same text, truth value, instant or grid, the double that
  is or is nearest to the number, or the text that prints a value of any other type.\<close>

fun carries :: "(go_value \<Rightarrow> string) \<Rightarrow> member \<Rightarrow> go_value \<Rightarrow> bool" where
  "carries sprint MNil v \<longleftrightarrow> v = GoNil"
| "carries sprint (MBool b) v \<longleftrightarrow> v = GoBool b"
| "carries sprint (MInt k) v \<longleftrightarrow> go_int v = Some k"
| "carries sprint (MErr k) v \<longleftrightarrow> v = GoInt16 k"
| "carries sprint (MNum x) v \<longleftrightarrow> v = GoFloat64 x \<or> (\<exists>y. v = GoFloat32 y \<and> x = f64_of_f32 y) \<or>
     (\<exists>n. go_int v = Some n \<and> x = f64_of_int n)"
| "carries sprint (MStr s) v \<longleftrightarrow> v = GoString s \<or>
     s = sprint v \<and> (case v of GoGrid _ \<Rightarrow> True | GoNumGrid _ \<Rightarrow> True | GoOther _ \<Rightarrow> True | _ \<Rightarrow> False)"
| "carries sprint (MDate d) v \<longleftrightarrow> (\<exists>t. v = GoTime t \<and> d = ToSerial t)"
| "carries sprint (MGrid r c cells) v \<longleftrightarrow> (\<exists>g. v = GoGrid g \<and> BuildGrid sprint g = Inr (MGrid r c cells))"
| "carries sprint (MNumGrid r c cells) v \<longleftrightarrow> (\<exists>g. v = GoNumGrid g \<and> BuildNumGrid g = Inr (MNumGrid r c cells))"

text \<open>The tags whose value is taken by an unchecked type assertion, with the type asserted; and what else a table of
  a tag can be built from.\<close>

fun assertion_holds :: "AnyValue \<Rightarrow> go_value \<Rightarrow> bool" where
  "assertion_holds AnyValueInt v \<longleftrightarrow> (\<exists>k. v = GoInt32 k)"
| "assertion_holds AnyValueNum v \<longleftrightarrow> (\<exists>x. v = GoFloat64 x)"
| "assertion_holds AnyValueBool v \<longleftrightarrow> (\<exists>b. v = GoBool b)"
| "assertion_holds AnyValueStr v \<longleftrightarrow> (\<exists>s. v = GoString s)"
| "assertion_holds AnyValueErr v \<longleftrightarrow> (\<exists>k. v = GoInt16 k)"
| "assertion_holds _ v \<longleftrightarrow> True"

fun buildable :: "AnyValue \<Rightarrow> go_value \<Rightarrow> bool" where
  "buildable AnyValueGrid v \<longleftrightarrow> (\<exists>g. v = GoGrid g \<and> ValidateGrid g = None)"
| "buildable AnyValueNumGrid v \<longleftrightarrow> (\<exists>g. v = GoNumGrid g \<and> ValidateNumGrid g = None)"
| "buildable AnyValueDate v \<longleftrightarrow> (\<exists>t. v = GoTime t)"
| "buildable tag v \<longleftrightarrow> tag \<in> {AnyValueInt, AnyValueNum, AnyValueBool, AnyValueStr, AnyValueErr, AnyValueNil}"

text \<open>C28. No corrupt union, and panics exactly where the code documents them. \<open>BuildGo\<close> returns on every Go value a table
  that says what the value is: its tag is that of the member it holds, and the member is nil, a truth value, a text,
  a date or a number with the value's own content, or the text that prints a value of any other type. \<open>Build\<close> panics
  exactly when its tag is Int, Num, Bool, Str or Err and its value is not of the one Go type the code asserts. Else a grid that
  passes validation under its own tag, a time under Date, and any value so asserted or under Nil give a table with that
  tag and the value's own member; everything else, such as a grid that does not validate, gives the empty table
  tagged NONE. (The integers are in the range of their types.)\<close>

theorem Build_well_formed:
  assumes "in_range v" and "in_range val"
  shows "(\<exists>m. BuildGo sprint v = Some \<lparr>val_type = member_tag m, any_val = Some m\<rparr> \<and> carries sprint m v \<and>
      member_tag m \<notin> {AnyValueErr, AnyValueGrid, AnyValueNumGrid}) \<and>
    (case Build sprint tag val of
       None \<Rightarrow> \<not> assertion_holds tag val
     | Some t \<Rightarrow> assertion_holds tag val \<and>
         (if buildable tag val
          then \<exists>m. t = \<lparr>val_type = tag, any_val = Some m\<rparr> \<and> member_tag m = tag \<and> (m = MNil \<or> carries sprint m val)
          else t = \<lparr>val_type = AnyValueNONE, any_val = None\<rparr>))"
proof
  show "\<exists>m. BuildGo sprint v = Some \<lparr>val_type = member_tag m, any_val = Some m\<rparr> \<and> carries sprint m v \<and>
      member_tag m \<notin> {AnyValueErr, AnyValueGrid, AnyValueNumGrid}"
    using assms(1) by (cases v) (auto simp: in_range_def BuildGo_def MapGo_def mapUint64_def Build_def any_table_def
        split: if_splits)
  have grid: "\<exists>r c cells. BuildGrid sprint g = Inr (MGrid r c cells)" if "ValidateGridDims g = Inr p" for g p
    using that by (cases p) (simp add: BuildGrid_def Let_def)
  have num: "\<exists>r c cells. BuildNumGrid g = Inr (MNumGrid r c cells)" if "ValidateGridDims g = Inr p" for g p
    using that by (cases p) (simp add: BuildNumGrid_def)
  have inl: "ValidateGridDims g = Inl e \<Longrightarrow> BuildGrid sprint g = Inl e" "ValidateGridDims w = Inl e \<Longrightarrow> BuildNumGrid w = Inl e"
    for g w e by (simp_all add: BuildGrid_def BuildNumGrid_def)
  have valid: "ValidateGrid g = None \<longleftrightarrow> (\<exists>p. ValidateGridDims g = Inr p)"
    "ValidateNumGrid w = None \<longleftrightarrow> (\<exists>p. ValidateGridDims w = Inr p)" for g w
    by (simp_all add: ValidateGrid_def ValidateNumGrid_def split: sum.split)
  show "case Build sprint tag val of
       None \<Rightarrow> \<not> assertion_holds tag val
     | Some t \<Rightarrow> assertion_holds tag val \<and>
         (if buildable tag val
          then \<exists>m. t = \<lparr>val_type = tag, any_val = Some m\<rparr> \<and> member_tag m = tag \<and> (m = MNil \<or> carries sprint m val)
          else t = \<lparr>val_type = AnyValueNONE, any_val = None\<rparr>)"
  proof (cases "tag \<in> {AnyValueGrid, AnyValueNumGrid}")
    case True
    show ?thesis
    proof (cases val)
      case (GoGrid g)
      then show ?thesis using True grid [of g] inl(1) [of g]
        by (cases "ValidateGridDims g") (auto simp: Build_def any_table_def valid)
    next
      case (GoNumGrid g)
      then show ?thesis using True num [of g] inl(2) [of g]
        by (cases "ValidateGridDims g") (auto simp: Build_def any_table_def valid)
    qed (use True in \<open>auto simp: Build_def any_table_def\<close>)
  next
    case False
    then show ?thesis using assms(2)
      by (cases tag) (auto simp: Build_def any_table_def in_range_def split: go_value.splits if_splits)
  qed
qed

theorem Build_well_formed_witness:
  "in_range (GoInt32 7) \<and> in_range (GoGrid [[GoNil], []]) \<and>
   (\<exists>m. BuildGo (\<lambda>v. []) (GoInt32 7) = Some \<lparr>val_type = member_tag m, any_val = Some m\<rparr> \<and> carries (\<lambda>v. []) m (GoInt32 7)) \<and>
   Build (\<lambda>v. []) AnyValueGrid (GoGrid [[GoNil], []]) = Some \<lparr>val_type = AnyValueNONE, any_val = None\<rparr> \<and>
   \<not> assertion_holds AnyValueInt (GoInt 7)"
proof -
  have r: "in_range (GoInt32 7)" "in_range (GoGrid [[GoNil], []])" by (simp_all add: in_range_def)
  have bad: "\<not> buildable AnyValueGrid (GoGrid [[GoNil], []])"
    by (simp add: ValidateGrid_def ValidateGridDims_def check_rows_def Let_def)
  from Build_well_formed [OF r, of "\<lambda>v. []" AnyValueGrid] bad r show ?thesis
    by (auto split: option.splits)
qed

text \<open>The double a cell shows.\<close>

fun shown :: "member \<Rightarrow> f64 option" where
  "shown (MInt v) = Some (f64_of_int v)"
| "shown (MNum x) = Some x"
| "shown _ = None"

text \<open>C29. Numbers are never truncated: a Go integer of any type reaches the cell as the double nearest to it,
  whether it travels as a scalar or inside a grid, and as exactly itself when it has at most 53 bits; and
  what is sent as an int32 is the number itself.\<close>

theorem integers_not_truncated:
  assumes "go_int v = Some n"
  shows "\<exists>t m. BuildGo sprint v = Some t \<and> any_val t = Some m \<and> shown m = Some (f64_of_int n) \<and>
    shown (buildScalarCell sprint v) = Some (f64_of_int n) \<and>
    (\<bar>n\<bar> < 2 ^ 53 \<longrightarrow> f64_val (f64_of_int n) = of_int n) \<and>
    (\<forall>k. m = MInt k \<or> buildScalarCell sprint v = MInt k \<longrightarrow> k = n)"
proof -
  have "\<bar>n\<bar> < 2 ^ 53 \<longrightarrow> f64_val (f64_of_int n) = of_int n" using f64_of_int_exact by blast
  then show ?thesis using assms
    by (cases v) (auto simp: BuildGo_def MapGo_def mapUint64_def Build_def any_table_def buildScalarCell_def
        buildIntOrNumCell_def buildUintOrNumCell_def split: if_splits)
qed

theorem integers_not_truncated_witness:
  "\<exists>t m. BuildGo (\<lambda>v. []) (GoUint64 4294967296) = Some t \<and> any_val t = Some m \<and>
    shown m = Some (f64_of_int 4294967296) \<and>
    shown (buildScalarCell (\<lambda>v. []) (GoUint64 4294967296)) = Some (f64_of_int 4294967296) \<and>
    (\<bar>4294967296 :: int\<bar> < 2 ^ 53 \<longrightarrow> f64_val (f64_of_int 4294967296) = 4294967296) \<and>
    (\<forall>k. m = MInt k \<or> buildScalarCell (\<lambda>v. []) (GoUint64 4294967296) = MInt k \<longrightarrow> k = 4294967296)"
  using integers_not_truncated [of "GoUint64 4294967296" 4294967296 "\<lambda>v. []"] by simp

lemma nth_concat_map_rect:
  assumes "rectangular v c" and "i < length v" and "j < c"
  shows "concat (map (map f) v) ! (i * c + j) = f (v ! i ! j)"
proof -
  have "rectangular (map (map f) v) c" using assms(1) by (simp add: rectangular_def)
  then have "concat (map (map f) v) ! (i * c + j) = map (map f) v ! i ! j"
    using assms(2,3) by (intro nth_concat_rect) simp_all
  also have "\<dots> = f (v ! i ! j)" using assms by (simp add: rectangular_def)
  finally show ?thesis .
qed

text \<open>The dimensions and cells of a grid that validates, and the reason of one that does not.\<close>

lemma grid_cells:
  assumes "int (length v * length (v ! 0)) < 2 ^ 64"
  shows "case ValidateGridDims v of
      Inl e \<Rightarrow> \<not> (v \<noteq> [] \<and> 0 < length (v ! 0) \<and> length v * length (v ! 0) \<le> 2147483647 \<and> rectangular v (length (v ! 0)))
    | Inr (r, c) \<Rightarrow> \<exists>rows cols. i32 r = int rows \<and> i32 c = int cols \<and> rows = length v \<and> 0 < rows \<and> 0 < cols \<and> rectangular v cols \<and>
        length (concat (map (map f) v)) = rows * cols \<and> rows * cols \<le> 2147483647 \<and>
        (\<forall>i < rows. \<forall>j < cols. concat (map (map f) v) ! (i * cols + j) = f (v ! i ! j))"
proof (cases "ValidateGridDims v")
  case (Inl e)
  then have "ValidateGridDims v \<noteq> Inr (int (length v), int (length (v ! 0)))" by simp
  then have "\<not> (0 < int (length v) \<and> 0 < int (length (v ! 0)) \<and> int (length v) * int (length (v ! 0)) \<le> max_i32 \<and>
      rectangular v (length (v ! 0)))" unfolding ValidateGridDims_Inr [OF assms] by simp
  moreover have "int (length v) * int (length (v ! 0)) \<le> max_i32 \<longleftrightarrow> length v * length (v ! 0) \<le> 2147483647"
    by (simp flip: of_nat_mult)
  ultimately show ?thesis by (auto simp: Inl)
next
  case (Inr p)
  then obtain r c where p: "ValidateGridDims v = Inr (r, c)" by (cases p) simp
  let ?n = "length v" and ?m = "length (v ! 0)"
  have d: "r = int ?n" "c = int ?m" "0 < ?n" "0 < ?m" "int ?n * int ?m \<le> max_i32" "rectangular v ?m"
    using p unfolding ValidateGridDims_Inr [OF assms] by auto
  have le: "?n * ?m \<le> 2147483647" using d(5) by (simp flip: of_nat_mult)
  have "?n \<le> ?n * ?m" "?m \<le> ?n * ?m" using mult_le_mono2 [of 1 ?m ?n] mult_le_mono1 [of 1 ?n ?m] d(3,4) by linarith+
  then have "?n \<le> 2147483647" "?m \<le> 2147483647" using le by linarith+
  then have "i32 r = int ?n" "i32 c = int ?m" unfolding d(1,2) by (intro i32_id; linarith)+
  moreover have "length (concat (map (map f) v)) = ?n * ?m"
    using length_concat_rect [of "map (map f) v" ?m] d(6) by (simp add: rectangular_def)
  ultimately have "\<exists>rows cols. i32 r = int rows \<and> i32 c = int cols \<and> rows = ?n \<and> 0 < rows \<and> 0 < cols \<and> rectangular v cols \<and>
      length (concat (map (map f) v)) = rows * cols \<and> rows * cols \<le> 2147483647 \<and>
      (\<forall>i < rows. \<forall>j < cols. concat (map (map f) v) ! (i * cols + j) = f (v ! i ! j))"
    using le d(3,4,6) nth_concat_map_rect [OF d(6), where f = f]
    by - (rule exI [where x = ?n], rule exI [where x = ?m], simp)
  then show ?thesis by (simp add: p)
qed

lemmas num_cells = grid_cells [where f = "\<lambda>x. x", unfolded list.map_ident]

text \<open>C30. Grids: a grid is built exactly when it has a row, its rows have equally many columns and at
  least one, and the number of cells fits an int32; then its dimensions are the real ones and the
  data vector is row-major, the entry at row * cols + col being the cell there, for mixed and for
  numeric grids alike. (The cell count of a slice is below 2^64.)\<close>

theorem grids_row_major:
  assumes "int (length v * length (v ! 0)) < 2 ^ 64" and "int (length w * length (w ! 0)) < 2 ^ 64"
  shows "(case BuildGrid sprint v of
      Inl e \<Rightarrow> \<not> (v \<noteq> [] \<and> 0 < length (v ! 0) \<and> length v * length (v ! 0) \<le> 2147483647 \<and> rectangular v (length (v ! 0)))
    | Inr m \<Rightarrow> \<exists>rows cols cells. m = MGrid (int rows) (int cols) cells \<and> rows = length v \<and> 0 < rows \<and> 0 < cols \<and> rectangular v cols \<and>
        length cells = rows * cols \<and> rows * cols \<le> 2147483647 \<and>
        (\<forall>i < rows. \<forall>j < cols. cells ! (i * cols + j) = buildScalarCell sprint (v ! i ! j))) \<and>
    (case BuildNumGrid w of
      Inl e \<Rightarrow> \<not> (w \<noteq> [] \<and> 0 < length (w ! 0) \<and> length w * length (w ! 0) \<le> 2147483647 \<and> rectangular w (length (w ! 0)))
    | Inr m \<Rightarrow> \<exists>rows cols cells. m = MNumGrid (int rows) (int cols) cells \<and> rows = length w \<and> 0 < rows \<and> 0 < cols \<and> rectangular w cols \<and>
        length cells = rows * cols \<and> rows * cols \<le> 2147483647 \<and>
        (\<forall>i < rows. \<forall>j < cols. cells ! (i * cols + j) = w ! i ! j))"
  using grid_cells [OF assms(1), of "buildScalarCell sprint"] num_cells [OF assms(2)]
  unfolding BuildGrid_data BuildNumGrid_data [OF assms(2)]
  by (auto split: sum.splits)

theorem grids_row_major_witness:
  "(case BuildGrid (\<lambda>v. []) [[GoInt 1, GoNil], [GoBool True, GoString ''x'']] of Inl e \<Rightarrow> False
    | Inr m \<Rightarrow> \<exists>rows cols cells. m = MGrid (int rows) (int cols) cells \<and> rows = 2 \<and> length cells = rows * cols) \<and>
   (case BuildNumGrid [[0], [1, 2]] of Inl e \<Rightarrow> True | Inr m \<Rightarrow> False)"
  using grids_row_major [of "[[GoInt 1, GoNil], [GoBool True, GoString ''x'']]" "[[0], [1, 2]]" "\<lambda>v. []"]
  by (auto simp: rectangular_def split: sum.splits)

end
