(* ===== verification/Rtd_Manager.thy ===== *)
theory Rtd_Manager
  imports Chunk_Frames Fb_Any "HOL-Library.Multiset"
begin

section \<open>RTD topics and their sends (pkg/rtd/manager.go)\<close>

text \<open>
  \<open>RtdManager\<close>: which topic is subscribed to which key, the cancel functions of connects in flight,
  and the gate that stops sends at shutdown. Every method runs under one mutex, so it is one
  definition, except the sends: they claim the gate under the mutex (\<open>beginSend\<close>), use the client
  outside it and release the gate (\<open>endSend\<close>). A context is a number, and calling its cancel function
  is an effect: the operation returns the contexts it cancelled. A client is what the code can ask of it
  (its request capacity, whether it can send chunks); what its calls do is the parameter \<open>io\<close>, as
  are the FlatBuffers tables around the values and the random transfer ids. The wait group is its counter.
\<close>

record rtdClient =
  max_request :: "int option"
  chunk_sender :: bool

record 'w rtd_io =
  guest_call :: "rtdClient \<Rightarrow> bytes \<Rightarrow> u32 \<Rightarrow> int option \<Rightarrow> 'w \<Rightarrow> string option \<times> 'w"
  update_table :: "int \<Rightarrow> any_table \<Rightarrow> bool \<Rightarrow> bytes"
  frame_table :: "string \<Rightarrow> chunk_frame \<Rightarrow> bytes"
  sprintf :: "go_value \<Rightarrow> string"
  new_id :: "'w \<Rightarrow> u64 \<times> 'w"

record connectCancel =
  cancel :: nat
  gen :: u64

record RtdManager =
  keyToIDs :: "(string, (int, unit) gomap) gomap"
  idToKey :: "(int, string) gomap"
  client :: "rtdClient option"
  connectCancels :: "(int, connectCancel) gomap"
  connectGen :: u64
  stopped :: bool
  sendWG :: int

datatype rtd_error =
    ErrStopped
  | NotConnected
  | RtdNotConnected
  | CallFailed string
  | EmptyPayload string
  | NoChunkSupport int int
  | ChunkedSendFailed "string send_error"
  | Joined "(int \<times> rtd_error) list"

definition NewRtdManager :: RtdManager where
  "NewRtdManager = \<lparr>keyToIDs = [], idToKey = [], client = None, connectCancels = [], connectGen = 0,
     stopped = False, sendWG = 0\<rparr>"

definition SetClient :: "rtdClient option \<Rightarrow> RtdManager \<Rightarrow> RtdManager" where
  "SetClient c m = m\<lparr>client := c\<rparr>"

subsection \<open>Subscriptions\<close>

text \<open>\<open>m.keyToIDs[key]\<close>, which reads as an empty map when there is none; and the removal of a topic from
  its key's set, with the set itself when it becomes empty.\<close>

definition ids_of :: "RtdManager \<Rightarrow> string \<Rightarrow> (int, unit) gomap" where
  "ids_of m key = (case gm_get (keyToIDs m) key of None \<Rightarrow> [] | Some ids \<Rightarrow> ids)"

definition drop_id :: "string \<Rightarrow> int \<Rightarrow> RtdManager \<Rightarrow> RtdManager" where
  "drop_id key topicID m =
     (let ids = gm_del topicID (ids_of m key)
      in if gm_len ids = 0 then m\<lparr>keyToIDs := gm_del key (keyToIDs m)\<rparr>
         else m\<lparr>keyToIDs := gm_put key ids (keyToIDs m)\<rparr>)"

definition add_id :: "string \<Rightarrow> int \<Rightarrow> RtdManager \<Rightarrow> RtdManager" where
  "add_id key topicID m =
     m\<lparr>keyToIDs := gm_put key (gm_put topicID () (ids_of m key)) (keyToIDs m),
       idToKey := gm_put topicID key (idToKey m)\<rparr>"

definition Subscribe :: "string \<Rightarrow> int \<Rightarrow> RtdManager \<Rightarrow> RtdManager" where
  "Subscribe key topicID m =
     (case gm_get (idToKey m) topicID of
        None \<Rightarrow> add_id key topicID m
      | Some oldKey \<Rightarrow> if oldKey = key then m else add_id key topicID (drop_id oldKey topicID m))"

definition Unsubscribe :: "int \<Rightarrow> RtdManager \<Rightarrow> RtdManager \<times> nat list" where
  "Unsubscribe topicID m =
     (let m = (case gm_get (idToKey m) topicID of
                 None \<Rightarrow> m
               | Some key \<Rightarrow> (drop_id key topicID m)\<lparr>idToKey := gm_del topicID (idToKey m)\<rparr>)
      in case gm_get (connectCancels m) topicID of
           None \<Rightarrow> (m, [])
         | Some cc \<Rightarrow> (m\<lparr>connectCancels := gm_del topicID (connectCancels m)\<rparr>, [cancel cc]))"

subsection \<open>Connects in flight\<close>

text \<open>The result is the new state, the generation that the returned closure holds, and the contexts
  cancelled; \<open>deregister\<close> is that closure.\<close>

definition RegisterConnectCancel :: "int \<Rightarrow> nat \<Rightarrow> RtdManager \<Rightarrow> RtdManager \<times> u64 \<times> nat list" where
  "RegisterConnectCancel topicID cfun m =
     (let g = connectGen m + 1;
          cancelled = (case gm_get (connectCancels m) topicID of None \<Rightarrow> [] | Some prev \<Rightarrow> [cancel prev])
      in (m\<lparr>connectGen := g,
            connectCancels := gm_put topicID \<lparr>cancel = cfun, gen = g\<rparr> (connectCancels m)\<rparr>, g, cancelled))"

definition deregister :: "int \<Rightarrow> u64 \<Rightarrow> RtdManager \<Rightarrow> RtdManager" where
  "deregister topicID g m =
     (case gm_get (connectCancels m) topicID of
        None \<Rightarrow> m
      | Some cc \<Rightarrow>
          if gen cc = g then m\<lparr>connectCancels := gm_del topicID (connectCancels m)\<rparr> else m)"

subsection \<open>The send gate\<close>

definition beginSend :: "RtdManager \<Rightarrow> (rtd_error + rtdClient) \<times> RtdManager" where
  "beginSend m =
     (if stopped m then (Inl ErrStopped, m)
      else (case client m of
              None \<Rightarrow> (Inl NotConnected, m)
            | Some c \<Rightarrow> (Inr c, m\<lparr>sendWG := sendWG m + 1\<rparr>)))"

definition beginSends :: "nat \<Rightarrow> RtdManager \<Rightarrow> (rtd_error + rtdClient) \<times> RtdManager" where
  "beginSends n m =
     (if stopped m then (Inl ErrStopped, m)
      else (case client m of
              None \<Rightarrow> (Inl RtdNotConnected, m)
            | Some c \<Rightarrow> (Inr c, m\<lparr>sendWG := sendWG m + int n\<rparr>)))"

definition endSend :: "RtdManager \<Rightarrow> RtdManager" where
  "endSend m = m\<lparr>sendWG := sendWG m - 1\<rparr>"

primrec endSends :: "nat \<Rightarrow> RtdManager \<Rightarrow> RtdManager" where
  "endSends 0 m = m"
| "endSends (Suc n) m = endSends n (endSend m)"

text \<open>The critical section of \<open>Stop\<close>, and the verdict of its \<open>select\<close>: \<open>drained\<close> says whether the
  counter was zero at a moment between the latch and the timeout.\<close>

definition Stop_latch :: "RtdManager \<Rightarrow> RtdManager" where
  "Stop_latch m = m\<lparr>stopped := True\<rparr>"

subsection \<open>Sends\<close>

definition RtdUpdateTimeout :: int where "RtdUpdateTimeout = 1000000000"
definition onceGridSendTimeout :: int where "onceGridSendTimeout = 5000000000"
definition onceGridChunkSize :: int where "onceGridChunkSize = DefaultChunkSize"

definition send_update :: "'w rtd_io \<Rightarrow> rtdClient option \<Rightarrow> int \<Rightarrow> go_value \<Rightarrow> bool \<Rightarrow> 'w \<Rightarrow> rtd_error option \<times> 'w" where
  "send_update io cl topicID value isError w =
     (case cl of
        None \<Rightarrow> (Some NotConnected, w)
      | Some c \<Rightarrow>
          (let data = update_table io topicID (the (BuildGo (sprintf io) value)) isError
           in case guest_call io c data MsgRtdUpdate (Some RtdUpdateTimeout) w of
                (None, w) \<Rightarrow> (None, w)
              | (Some e, w) \<Rightarrow> (Some (CallFailed e), w)))"

text \<open>The loop of \<open>Publish\<close> over the snapshot of topics.\<close>

primrec publish_loop ::
  "'w rtd_io \<Rightarrow> rtdClient \<Rightarrow> go_value \<Rightarrow> int list \<Rightarrow> 'w \<Rightarrow> (int \<times> rtd_error) list \<times> 'w" where
  "publish_loop io c value [] w = ([], w)"
| "publish_loop io c value (tid # ids) w =
     (let (err, w) = send_update io (Some c) tid value False w;
          (errs, w) = publish_loop io c value ids w
      in ((case err of None \<Rightarrow> errs | Some e \<Rightarrow> (tid, e) # errs), w))"

definition Publish ::
  "'w rtd_io \<Rightarrow> string \<Rightarrow> go_value \<Rightarrow> RtdManager \<times> 'w \<Rightarrow> rtd_error option \<times> RtdManager \<times> 'w" where
  "Publish io key value = (\<lambda>(m, w).
     let topicIDs = map fst (ids_of m key) in
     if length topicIDs = 0 then (None, m, w)
     else (case beginSends (length topicIDs) m of
             (Inl e, m) \<Rightarrow> (Some e, m, w)
           | (Inr c, m) \<Rightarrow>
               (let (errs, w) = publish_loop io c value topicIDs w
                in ((if errs = [] then None else Some (Joined errs)), endSends (length topicIDs) m, w))))"

definition SendUpdate ::
  "'w rtd_io \<Rightarrow> int \<Rightarrow> go_value \<Rightarrow> RtdManager \<times> 'w \<Rightarrow> rtd_error option \<times> RtdManager \<times> 'w" where
  "SendUpdate io topicID value = (\<lambda>(m, w).
     case beginSend m of
       (Inl e, m) \<Rightarrow> (Some e, m, w)
     | (Inr c, m) \<Rightarrow> (let (err, w) = send_update io (Some c) topicID value False w in (err, endSend m, w)))"

definition SendErrorUpdate ::
  "'w rtd_io \<Rightarrow> int \<Rightarrow> go_value \<Rightarrow> RtdManager \<times> 'w \<Rightarrow> rtd_error option \<times> RtdManager \<times> 'w" where
  "SendErrorUpdate io topicID value = (\<lambda>(m, w).
     case beginSend m of
       (Inl e, m) \<Rightarrow> (Some e, m, w)
     | (Inr c, m) \<Rightarrow> (let (err, w) = send_update io (Some c) topicID value True w in (err, endSend m, w)))"

text \<open>\<open>SendOnceGrid\<close>: the part between \<open>beginSend\<close> and \<open>endSend\<close>.\<close>

definition once_grid :: "'w rtd_io \<Rightarrow> string \<Rightarrow> bytes \<Rightarrow> rtdClient \<Rightarrow> 'w \<Rightarrow> rtd_error option \<times> 'w" where
  "once_grid io key payload c w =
     (if length payload = 0 then (Some (EmptyPayload key), w)
      else
        (let budget = GuestBudget (max_request c) in
         if int (length payload) \<le> budget then
           (case guest_call io c payload MsgRtdOnceGrid (Some onceGridSendTimeout) w of
              (None, w) \<Rightarrow> (None, w)
            | (Some e, w) \<Rightarrow> (Some (CallFailed e), w))
         else if \<not> chunk_sender c then (Some (NoChunkSupport (int (length payload)) budget), w)
         else
           (let (tid, w) = new_id io w;
                send = (\<lambda>frame. guest_call io c frame MsgChunk None);
                (r, slept, w) = Send (frame_table io) \<lparr>ChunkSize = budget, MaxTotalBytes = 0\<rparr> payload tid
                  MsgRtdOnceGrid send NoRetry w
            in (map_option ChunkedSendFailed r, w))))"

definition SendOnceGrid ::
  "'w rtd_io \<Rightarrow> string \<Rightarrow> bytes \<Rightarrow> RtdManager \<times> 'w \<Rightarrow> rtd_error option \<times> RtdManager \<times> 'w" where
  "SendOnceGrid io key payload = (\<lambda>(m, w).
     case beginSend m of
       (Inl e, m) \<Rightarrow> (Some e, m, w)
     | (Inr c, m) \<Rightarrow> (let (err, w) = once_grid io key payload c w in (err, endSend m, w)))"

subsection \<open>Subscriptions as one map\<close>

text \<open>The contract of the two maps: they are inverse to each other, and no key has an empty set. What
  they stand for is the map from topics to keys.\<close>

definition subs_ok :: "RtdManager \<Rightarrow> bool" where
  "subs_ok m \<longleftrightarrow> gm_ok (keyToIDs m) \<and> gm_ok (idToKey m) \<and>
     (\<forall>key ids. gm_get (keyToIDs m) key = Some ids \<longrightarrow> gm_ok ids \<and> ids \<noteq> []) \<and>
     (\<forall>key tid. gm_get (ids_of m key) tid \<noteq> None \<longleftrightarrow> gm_get (idToKey m) tid = Some key)"

definition topics :: "RtdManager \<Rightarrow> int \<Rightarrow> string option" where
  "topics m = gm_get (idToKey m)"

lemma subs_okD:
  assumes "subs_ok m"
  shows "gm_ok (keyToIDs m)" "gm_ok (idToKey m)" "gm_ok (ids_of m key)"
    "gm_get (ids_of m key) tid \<noteq> None \<longleftrightarrow> gm_get (idToKey m) tid = Some key"
    "gm_get (keyToIDs m) key = Some ids \<Longrightarrow> ids \<noteq> []"
  using assms by (auto simp: subs_ok_def ids_of_def split: option.split)

lemma gm_len_0 [simp]: "gm_len m = 0 \<longleftrightarrow> m = []"
  by (simp add: gm_len_def)

lemma gm_put_not_Nil [simp]: "gm_put k v m \<noteq> []"
  by (cases m) (auto simp: gm_put_def)

lemma ids_of_drop:
  "ids_of (drop_id key topicID m) k = (if k = key then gm_del topicID (ids_of m key) else ids_of m k)"
  by (auto simp: drop_id_def ids_of_def Let_def split: option.split)

lemma drop_id_fields [simp]:
  "idToKey (drop_id key topicID m) = idToKey m" "client (drop_id key topicID m) = client m"
  "connectCancels (drop_id key topicID m) = connectCancels m" "connectGen (drop_id key topicID m) = connectGen m"
  "stopped (drop_id key topicID m) = stopped m" "sendWG (drop_id key topicID m) = sendWG m"
  by (simp_all add: drop_id_def Let_def)

lemma keys_drop:
  assumes "gm_ok (keyToIDs m)" and "\<forall>k ids. gm_get (keyToIDs m) k = Some ids \<longrightarrow> gm_ok ids \<and> ids \<noteq> []"
  shows "gm_ok (keyToIDs (drop_id key topicID m))"
    and "gm_get (keyToIDs (drop_id key topicID m)) k = Some ids \<Longrightarrow> gm_ok ids \<and> ids \<noteq> []"
proof -
  have "gm_ok (ids_of m key)" using assms(2) by (auto simp: ids_of_def split: option.split)
  then show "gm_ok (keyToIDs (drop_id key topicID m))"
    and "gm_get (keyToIDs (drop_id key topicID m)) k = Some ids \<Longrightarrow> gm_ok ids \<and> ids \<noteq> []"
    using assms by (auto simp: drop_id_def Let_def split: if_splits)
qed

lemma ids_of_put [simp]: "ids_of (m\<lparr>keyToIDs := gm_put key ids (keyToIDs m), idToKey := x\<rparr>) k = (if k = key then ids else ids_of m k)"
  by (simp add: ids_of_def)

lemma subs_okI:
  assumes "gm_ok (keyToIDs m)" and "gm_ok (idToKey m)"
    and "\<And>key ids. gm_get (keyToIDs m) key = Some ids \<Longrightarrow> gm_ok ids \<and> ids \<noteq> []"
    and "\<And>key tid. gm_get (ids_of m key) tid \<noteq> None \<longleftrightarrow> gm_get (idToKey m) tid = Some key"
  shows "subs_ok m"
  using assms unfolding subs_ok_def by blast

lemma subs_keys: "subs_ok m \<Longrightarrow> \<forall>key ids. gm_get (keyToIDs m) key = Some ids \<longrightarrow> gm_ok ids \<and> ids \<noteq> []"
  unfolding subs_ok_def by blast

lemma subs_ok_add:
  assumes ok: "subs_ok m" and new: "gm_get (idToKey m) tid = None"
  shows "subs_ok (add_id key tid m)"
proof (rule subs_okI)
  note d = subs_okD [OF ok]
  show "gm_ok (keyToIDs (add_id key tid m))" "gm_ok (idToKey (add_id key tid m))" using d(1,2) by (simp_all add: add_id_def)
  show "gm_ok ids \<and> ids \<noteq> []" if "gm_get (keyToIDs (add_id key tid m)) k = Some ids" for k ids
    using that subs_keys [OF ok] d(3) [of key] by (auto simp: add_id_def split: if_splits)
  show "gm_get (ids_of (add_id key tid m) k) t \<noteq> None \<longleftrightarrow> gm_get (idToKey (add_id key tid m)) t = Some k" for k t
    using d(4) [of k t] new by (simp add: add_id_def) auto
qed

lemma subs_ok_forget:
  assumes ok: "subs_ok m" and old: "gm_get (idToKey m) tid = Some key"
  shows "subs_ok ((drop_id key tid m)\<lparr>idToKey := gm_del tid (idToKey m)\<rparr>)"
proof (rule subs_okI)
  note d = subs_okD [OF ok] and k = keys_drop [OF subs_okD(1) [OF ok] subs_keys [OF ok], of key tid]
  have i: "ids_of ((drop_id key tid m)\<lparr>idToKey := x\<rparr>) k = ids_of (drop_id key tid m) k" for x k by (simp add: ids_of_def)
  let ?m = "(drop_id key tid m)\<lparr>idToKey := gm_del tid (idToKey m)\<rparr>"
  show "gm_ok (keyToIDs ?m)" "gm_ok (idToKey ?m)" using k(1) d(2) by simp_all
  show "gm_ok ids \<and> ids \<noteq> []" if "gm_get (keyToIDs ?m) k = Some ids" for k ids
    by (rule k(2)) (use that in simp)
  show "gm_get (ids_of ?m k) t \<noteq> None \<longleftrightarrow> gm_get (idToKey ?m) t = Some k" for k t
    using d(4) [of k t] d(4) [of key t] old by (cases "t = tid") (auto simp: i ids_of_drop)
qed

lemma subs_ok_move:
  assumes ok: "subs_ok m" and old: "gm_get (idToKey m) tid = Some old" and ne: "old \<noteq> key"
  shows "subs_ok (add_id key tid (drop_id old tid m))"
proof (rule subs_okI)
  note d = subs_okD [OF ok] and k = keys_drop [OF subs_okD(1) [OF ok] subs_keys [OF ok], of old tid]
  let ?m = "add_id key tid (drop_id old tid m)"
  have i: "ids_of ?m k = (if k = key then gm_put tid () (ids_of m key)
      else if k = old then gm_del tid (ids_of m old) else ids_of m k)" for k
    using ne by (simp add: add_id_def ids_of_drop)
  show "gm_ok (keyToIDs ?m)" "gm_ok (idToKey ?m)" using k(1) d(2) by (simp_all add: add_id_def)
  show "gm_ok ids \<and> ids \<noteq> []" if "gm_get (keyToIDs ?m) k = Some ids" for k ids
  proof (cases "k = key")
    case True
    then have "ids = ids_of ?m key" using that by (simp add: ids_of_def)
    then show ?thesis using d(3) [of key] by (simp add: i)
  next
    case False
    then show ?thesis using that by (intro k(2)) (simp add: add_id_def)
  qed
  have j: "idToKey ?m = gm_put tid key (idToKey m)" by (simp add: add_id_def)
  show "gm_get (ids_of ?m k) t \<noteq> None \<longleftrightarrow> gm_get (idToKey ?m) t = Some k" for k t
    using d(4) [of k t] d(4) [of old t] d(4) [of key t] old ne by (cases "t = tid") (auto simp: i j)
qed

lemma Subscribe_spec:
  assumes "subs_ok m"
  shows "subs_ok (Subscribe key tid m)" and "topics (Subscribe key tid m) = (topics m)(tid \<mapsto> key)"
proof -
  show "subs_ok (Subscribe key tid m)"
    using assms subs_ok_add subs_ok_move by (auto simp: Subscribe_def split: option.split)
  show "topics (Subscribe key tid m) = (topics m)(tid \<mapsto> key)"
    by (auto simp: Subscribe_def topics_def add_id_def fun_eq_iff split: option.split)
qed

lemma subs_ok_cong:
  "keyToIDs m' = keyToIDs m \<Longrightarrow> idToKey m' = idToKey m \<Longrightarrow> subs_ok m' = subs_ok m"
  by (simp add: subs_ok_def ids_of_def)

lemma Unsubscribe_spec:
  assumes "subs_ok m"
  shows "subs_ok (fst (Unsubscribe tid m))" and "topics (fst (Unsubscribe tid m)) = (topics m)(tid := None)"
proof -
  let ?m = "case gm_get (idToKey m) tid of None \<Rightarrow> m
    | Some key \<Rightarrow> (drop_id key tid m)\<lparr>idToKey := gm_del tid (idToKey m)\<rparr>"
  have e: "keyToIDs (fst (Unsubscribe tid m)) = keyToIDs ?m" "idToKey (fst (Unsubscribe tid m)) = idToKey ?m"
    by (simp_all add: Unsubscribe_def Let_def split: option.split)
  have "subs_ok ?m" using assms subs_ok_forget by (auto split: option.split)
  then show "subs_ok (fst (Unsubscribe tid m))" using subs_ok_cong [OF e] by simp
  show "topics (fst (Unsubscribe tid m)) = (topics m)(tid := None)"
    unfolding topics_def e by (auto simp: fun_eq_iff split: option.split)
qed

lemma subs_ok_New: "subs_ok NewRtdManager"
  by (simp add: subs_ok_def NewRtdManager_def ids_of_def)

lemma set_ids_of: "subs_ok m \<Longrightarrow> set (map fst (ids_of m key)) = {tid. topics m tid = Some key}"
  unfolding set_map set_eq_iff gm_dom_iff topics_def mem_Collect_eq using subs_okD(4) by blast

lemma distinct_ids_of: "subs_ok m \<Longrightarrow> distinct (map fst (ids_of m key))"
  using subs_okD(3) by (simp add: gm_ok_def)

subsection \<open>What a send does to the gate\<close>

lemma endSends_eq: "endSends n m = m\<lparr>sendWG := sendWG m - int n\<rparr>"
  by (induction n arbitrary: m) (simp_all add: endSend_def)

lemma SendUpdate_gate: "fst (snd (SendUpdate io tid v (m, w))) = m"
  by (simp add: SendUpdate_def beginSend_def endSend_def split: option.split prod.split)

lemma SendErrorUpdate_gate: "fst (snd (SendErrorUpdate io tid v (m, w))) = m"
  by (simp add: SendErrorUpdate_def beginSend_def endSend_def split: option.split prod.split)

lemma SendOnceGrid_gate: "fst (snd (SendOnceGrid io key p (m, w))) = m"
  by (simp add: SendOnceGrid_def beginSend_def endSend_def split: option.split prod.split)

lemma Publish_gate: "fst (snd (Publish io key v (m, w))) = m"
  by (simp add: Publish_def beginSends_def endSends_eq Let_def split: option.split prod.split)

subsection \<open>Recording the calls of the client\<close>

text \<open>The same client with a log of the calls made: the bytes, their message type, whether the call
  succeeded.\<close>

type_synonym call_log = "(bytes \<times> u32 \<times> bool) list"

definition recording_io :: "'w rtd_io \<Rightarrow> ('w \<times> call_log) rtd_io" where
  "recording_io io =
     \<lparr>guest_call = (\<lambda>c data mt t (w, cs). case guest_call io c data mt t w of
        (e, w') \<Rightarrow> (e, w', cs @ [(data, mt, e = None)])),
      update_table = update_table io, frame_table = frame_table io, sprintf = sprintf io,
      new_id = (\<lambda>(w, cs). case new_id io w of (tid, w') \<Rightarrow> (tid, w', cs))\<rparr>"

lemma recording_io_sel [simp]:
  "guest_call (recording_io io) c data mt t (w, cs) =
     (fst (guest_call io c data mt t w), snd (guest_call io c data mt t w),
      cs @ [(data, mt, fst (guest_call io c data mt t w) = None)])"
  "update_table (recording_io io) = update_table io" "frame_table (recording_io io) = frame_table io"
  "sprintf (recording_io io) = sprintf io"
  "new_id (recording_io io) (w, cs) = (fst (new_id io w), snd (new_id io w), cs)"
  by (simp_all add: recording_io_def split: prod.split)

text \<open>The bytes of the update of a topic.\<close>

definition update_bytes :: "'w rtd_io \<Rightarrow> int \<Rightarrow> go_value \<Rightarrow> bool \<Rightarrow> bytes" where
  "update_bytes io tid v isError = update_table io tid (the (BuildGo (sprintf io) v)) isError"

lemma send_update_call:
  assumes "send_update (recording_io io) (Some c) tid v isError (w, cs) = (err, w', cs')"
  shows "cs' = cs @ [(update_bytes io tid v isError, MsgRtdUpdate, err = None)]"
  using assms by (auto simp: send_update_def update_bytes_def Let_def split: prod.splits option.splits)

lemma publish_loop_calls:
  "publish_loop (recording_io io) c v ids (w, cs) = (errs, w', cs') \<Longrightarrow>
    \<exists>oks. length oks = length ids \<and>
      cs' = cs @ map2 (\<lambda>tid ok. (update_bytes io tid v False, MsgRtdUpdate, ok)) ids oks \<and>
      map fst errs = map fst (filter (\<lambda>(tid, ok). \<not> ok) (zip ids oks))"
proof (induction ids arbitrary: w cs errs w' cs')
  case (Cons tid ids)
  obtain err w1 log1 where 1: "send_update (recording_io io) (Some c) tid v False (w, cs) = (err, w1, log1)"
    by (metis prod_cases3)
  obtain es w2 log2 where 2: "publish_loop (recording_io io) c v ids (w1, log1) = (es, w2, log2)"
    by (metis prod_cases3)
  obtain oks where oks: "length oks = length ids"
    "log2 = log1 @ map2 (\<lambda>tid ok. (update_bytes io tid v False, MsgRtdUpdate, ok)) ids oks"
    "map fst es = map fst (filter (\<lambda>(tid, ok). \<not> ok) (zip ids oks))" using Cons.IH [OF 2] by blast
  have r: "errs = (case err of None \<Rightarrow> es | Some e \<Rightarrow> (tid, e) # es)" "cs' = log2"
    using Cons.prems by (simp_all add: 1 2)
  show ?case
    by (rule exI [of _ "(err = None) # oks"])
       (use oks r send_update_call [OF 1] in \<open>simp split: option.split\<close>)
qed simp

subsection \<open>Runs\<close>

datatype sub_event = Sub string int | Unsub int

primrec sub_step :: "RtdManager \<Rightarrow> sub_event \<Rightarrow> RtdManager" where
  "sub_step m (Sub key tid) = Subscribe key tid m"
| "sub_step m (Unsub tid) = fst (Unsubscribe tid m)"

primrec abs_step :: "(int \<Rightarrow> string option) \<Rightarrow> sub_event \<Rightarrow> (int \<Rightarrow> string option)" where
  "abs_step f (Sub key tid) = f(tid \<mapsto> key)"
| "abs_step f (Unsub tid) = f(tid := None)"

lemma sub_run:
  assumes "subs_ok m"
  shows "subs_ok (foldl sub_step m es) \<and> topics (foldl sub_step m es) = foldl abs_step (topics m) es"
  using assms
proof (induction es arbitrary: m)
  case (Cons e es)
  have "subs_ok (sub_step m e) \<and> topics (sub_step m e) = abs_step (topics m) e"
    using Subscribe_spec Unsubscribe_spec Cons.prems by (cases e) auto
  then show ?case using Cons.IH [of "sub_step m e"] by simp
qed simp

lemma topics_New [simp]: "topics NewRtdManager = (\<lambda>tid. None)"
  by (simp add: topics_def NewRtdManager_def fun_eq_iff)

lemma foldl_client:
  "client (foldl sub_step m es) = client m \<and> stopped (foldl sub_step m es) = stopped m"
proof (induction es arbitrary: m)
  case (Cons e es)
  have "client (sub_step m e) = client m \<and> stopped (sub_step m e) = stopped m"
    by (cases e) (auto simp: Subscribe_def add_id_def Unsubscribe_def Let_def split: option.split)
  then show ?case using Cons.IH by simp
qed simp

text \<open>C9. The two subscription maps implement one map from topics to keys, and \<open>Publish\<close> reaches exactly
  its preimage. After any sequence of Subscribe and Unsubscribe calls on a new, connected manager, a
  publication calls the client exactly once for every topic whose last event subscribed it to the
  key, with that topic's update, and for no other topic; a failing topic does not keep the others from
  being sent, and the topics named in the joined error are exactly the failing ones.\<close>

theorem Publish_reaches_subscribers:
  assumes "m = foldl sub_step (SetClient (Some c) NewRtdManager) es"
    and "Publish (recording_io io) key v (m, w, []) = (err, m', w', calls)"
  shows "\<exists>ids oks. distinct ids \<and> set ids = {tid. foldl abs_step (\<lambda>tid. None) es tid = Some key} \<and>
    length oks = length ids \<and>
    calls = map2 (\<lambda>tid ok. (update_bytes io tid v False, MsgRtdUpdate, ok)) ids oks \<and>
    (case err of None \<Rightarrow> list_all (\<lambda>ok. ok) oks
     | Some e \<Rightarrow> \<exists>errs. e = Joined errs \<and> errs \<noteq> [] \<and>
         map fst errs = map fst (filter (\<lambda>(tid, ok). \<not> ok) (zip ids oks))) \<and>
    m' = m"
proof -
  let ?m0 = "SetClient (Some c) NewRtdManager" and ?ids = "map fst (ids_of m key)"
  have "subs_ok ?m0" "topics ?m0 = topics NewRtdManager"
    using subs_ok_New subs_ok_cong [of ?m0 NewRtdManager] by (simp_all add: SetClient_def topics_def)
  then have ok: "subs_ok m" "topics m = foldl abs_step (\<lambda>tid. None) es"
    using sub_run [of ?m0 es] by (simp_all add: assms(1))
  have cl: "client m = Some c" "\<not> stopped m"
    using foldl_client [of ?m0 es] by (simp_all add: assms(1) SetClient_def NewRtdManager_def)
  have ids: "distinct ?ids" "set ?ids = {tid. foldl abs_step (\<lambda>tid. None) es tid = Some key}"
    using distinct_ids_of [OF ok(1)] set_ids_of [OF ok(1)] ok(2) by simp_all
  have m': "m' = m" using Publish_gate [of "recording_io io" key v m "(w, [])"] assms(2) by simp
  show ?thesis
  proof (cases "ids_of m key = []")
    case True
    then have "err = None" "calls = []" using assms(2) by (simp_all add: Publish_def)
    then show ?thesis using True ids m' by (intro exI [of _ ?ids] exI [of _ "[]"]) simp
  next
    case False
    obtain errs w1 log1 where l: "publish_loop (recording_io io) c v ?ids (w, []) = (errs, w1, log1)"
      by (metis prod_cases3)
    then have r: "err = (if errs = [] then None else Some (Joined errs))" "calls = log1"
      using assms(2) cl False by (simp_all add: Publish_def beginSends_def)
    obtain oks where oks: "length oks = length ?ids"
      "calls = map2 (\<lambda>tid ok. (update_bytes io tid v False, MsgRtdUpdate, ok)) ?ids oks"
      "map fst errs = map fst (filter (\<lambda>(tid, ok). \<not> ok) (zip ?ids oks))"
      using publish_loop_calls [OF l] r(2) by auto
    have "errs = [] \<longleftrightarrow> filter (\<lambda>(tid, ok). \<not> ok) (zip ?ids oks) = []" using oks(3) by (metis map_is_Nil_conv)
    also have "\<dots> \<longleftrightarrow> list_all (\<lambda>ok. ok) oks"
    proof -
      have "set oks = snd ` set (zip ?ids oks)" using oks(1) map_snd_zip [of ?ids oks] by (metis list.set_map)
      then show ?thesis by (auto simp: filter_empty_conv list_all_iff)
    qed
    finally show ?thesis using ids oks r m' by (intro exI [of _ ?ids] exI [of _ oks]) (simp split: option.split)
  qed
qed

definition demo_io :: "unit rtd_io" where
  "demo_io = \<lparr>guest_call = (\<lambda>c data mt t w. (if data = [2] then Some ''timeout'' else None, w)),
     update_table = (\<lambda>tid t isError. [of_int tid]), frame_table = (\<lambda>i f. fr_data f),
     sprintf = (\<lambda>v. []), new_id = (\<lambda>w. (7, w))\<rparr>"

definition demo_client :: rtdClient where
  "demo_client = \<lparr>max_request = Some 512, chunk_sender = True\<rparr>"

theorem Publish_reaches_subscribers_witness:
  "let m = foldl sub_step (SetClient (Some demo_client) NewRtdManager)
         [Sub ''a'' 1, Sub ''a'' 2, Sub ''b'' 1, Sub ''a'' 3, Unsub 9];
       r = Publish (recording_io demo_io) ''a'' GoNil (m, (), [])
   in \<exists>ids oks. distinct ids \<and> set ids = {2, 3} \<and> length oks = length ids \<and>
      snd (snd (snd r)) = map2 (\<lambda>tid ok. ([of_int tid], MsgRtdUpdate, ok)) ids oks"
proof -
  let ?es = "[Sub ''a'' 1, Sub ''a'' 2, Sub ''b'' 1, Sub ''a'' 3, Unsub 9]"
  let ?m = "foldl sub_step (SetClient (Some demo_client) NewRtdManager) ?es"
  obtain err m' w' calls where r: "Publish (recording_io demo_io) ''a'' GoNil (?m, (), []) = (err, m', w', calls)"
    by (metis prod_cases4)
  have "{tid. foldl abs_step (\<lambda>tid. None) ?es tid = Some ''a''} = {2, 3}" by auto
  moreover have "update_bytes demo_io tid v e = [of_int tid]" for tid v e
    by (simp add: update_bytes_def demo_io_def)
  ultimately show ?thesis using Publish_reaches_subscribers [OF refl r] unfolding Let_def r snd_conv
    by (elim exE conjE, intro exI conjI) (assumption | simp only:)+
qed

subsection \<open>Connects and their contexts\<close>

text \<open>A history of connects: \<open>Connect\<close> registers a fresh context for a topic, \<open>Disconnect\<close> is
  \<open>Unsubscribe\<close>, and \<open>Finish c\<close> calls the closure the registration of \<open>c\<close> returned. The closures, the
  contexts cancelled, and what each closure removed are recorded.\<close>

datatype connect_event = Connect int nat | Disconnect int | Finish nat

record connects =
  conn :: RtdManager
  closures :: "(nat \<times> int \<times> u64) list"
  cancelled :: "nat list"
  released :: "(nat \<times> nat) list"

primrec connect_step :: "connects \<Rightarrow> connect_event \<Rightarrow> connects" where
  "connect_step s (Connect tid c) =
     (let (m, g, cs) = RegisterConnectCancel tid c (conn s)
      in s\<lparr>conn := m, closures := closures s @ [(c, tid, g)], cancelled := cancelled s @ cs\<rparr>)"
| "connect_step s (Disconnect tid) =
     (let (m, cs) = Unsubscribe tid (conn s) in s\<lparr>conn := m, cancelled := cancelled s @ cs\<rparr>)"
| "connect_step s (Finish c) =
     (case map_of (closures s) c of
        None \<Rightarrow> s
      | Some (tid, g) \<Rightarrow>
          (let m = deregister tid g (conn s);
               gone = (case gm_get (connectCancels (conn s)) tid of
                         None \<Rightarrow> []
                       | Some cc \<Rightarrow> if gm_get (connectCancels m) tid = None then [(c, cancel cc)] else [])
           in s\<lparr>conn := m, released := released s @ gone\<rparr>))"

definition no_connects :: "RtdManager \<Rightarrow> connects" where
  "no_connects m = \<lparr>conn = m, closures = [], cancelled = [], released = []\<rparr>"

definition live :: "RtdManager \<Rightarrow> nat list" where
  "live m = map (cancel \<circ> snd) (connectCancels m)"

definition connects_ok :: "connects \<Rightarrow> bool" where
  "connects_ok s \<longleftrightarrow> gm_ok (connectCancels (conn s)) \<and> distinct (map fst (closures s)) \<and>
     unat (connectGen (conn s)) = length (closures s) \<and>
     (\<forall>i < length (closures s). unat (snd (snd (closures s ! i))) = Suc i) \<and>
     (\<forall>(tid, cc) \<in> set (connectCancels (conn s)). (cancel cc, tid, gen cc) \<in> set (closures s)) \<and>
     mset (map fst (closures s)) =
       mset (live (conn s)) + mset (cancelled s) + mset (map snd (released s)) \<and>
     (\<forall>(c, d) \<in> set (released s). c = d)"

lemma mset_gm_put:
  "mset (map f (gm_put k v m)) + (case gm_get m k of None \<Rightarrow> {#} | Some u \<Rightarrow> {#f (k, u)#}) =
     add_mset (f (k, v)) (mset (map f m))"
  by (induction m) (auto simp: gm_put_def gm_get_def split: option.splits)

lemma mset_gm_del:
  "gm_ok m \<Longrightarrow> mset (map f (gm_del k m)) + (case gm_get m k of None \<Rightarrow> {#} | Some u \<Rightarrow> {#f (k, u)#}) = mset (map f m)"
proof (induction m)
  case (Cons e m)
  obtain a b where e: "e = (a, b)" by fastforce
  have ok: "gm_ok m" "a \<notin> fst ` set m" using Cons.prems by (auto simp: gm_ok_def e)
  have "gm_del a m = m" using ok(2) by (auto simp: gm_del_def filter_id_conv)
  then show ?case using Cons.IH [OF ok(1)] ok(2)
    by (cases "a = k") (auto simp: e gm_del_def gm_get_def map_of_eq_None_iff split: option.splits)
qed (simp add: gm_del_def)


lemma live_put:
  "mset (live (m\<lparr>connectGen := g, connectCancels := gm_put tid cc (connectCancels m)\<rparr>)) +
     (case gm_get (connectCancels m) tid of None \<Rightarrow> {#} | Some u \<Rightarrow> {#cancel u#}) =
   add_mset (cancel cc) (mset (live m))"
  using mset_gm_put [of "cancel \<circ> snd" tid cc "connectCancels m"] by (simp add: live_def cong: option.case_cong)

lemma live_del:
  "gm_ok (connectCancels m) \<Longrightarrow> mset (map (cancel \<circ> snd) (gm_del tid (connectCancels m))) +
     (case gm_get (connectCancels m) tid of None \<Rightarrow> {#} | Some u \<Rightarrow> {#cancel u#}) = mset (live m)"
  using mset_gm_del [of "connectCancels m" "cancel \<circ> snd" tid] by (simp add: live_def cong: option.case_cong)

lemma connects_ok_Connect:
  assumes ok: "connects_ok s" and new: "c \<notin> fst ` set (closures s)" and room: "Suc (length (closures s)) < 2 ^ 64"
  shows "connects_ok (connect_step s (Connect tid c))"
proof -
  let ?g = "connectGen (conn s) + 1"
  have g: "unat ?g = Suc (length (closures s))"
    using ok room by (simp add: connects_ok_def unat_word_ariths)
  let ?cs = "case gm_get (connectCancels (conn s)) tid of None \<Rightarrow> [] | Some prev \<Rightarrow> [cancel prev]"
  let ?s = "connect_step s (Connect tid c)"
  have f: "connectCancels (conn ?s) = gm_put tid \<lparr>cancel = c, gen = ?g\<rparr> (connectCancels (conn s))"
    "connectGen (conn ?s) = ?g" "closures ?s = closures s @ [(c, tid, ?g)]" "cancelled ?s = cancelled s @ ?cs"
    "released ?s = released s"
    by (simp_all add: RegisterConnectCancel_def Let_def)
  have l: "mset (live (conn ?s)) + mset ?cs = add_mset c (mset (live (conn s)))"
    using live_put [where m = "conn s" and tid = tid and cc = "\<lparr>cancel = c, gen = ?g\<rparr>" and g = ?g]
    by (simp add: RegisterConnectCancel_def Let_def split: option.splits)
  show ?thesis unfolding connects_ok_def
  proof (intro conjI)
    show "gm_ok (connectCancels (conn ?s))" using ok by (simp only: f) (simp add: connects_ok_def)
    show "distinct (map fst (closures ?s))" using ok new by (simp only: f) (simp add: connects_ok_def)
    show "unat (connectGen (conn ?s)) = length (closures ?s)" using g by (simp only: f) simp
    show "\<forall>i < length (closures ?s). unat (snd (snd (closures ?s ! i))) = Suc i"
      using ok g by (simp only: f) (simp add: connects_ok_def nth_append less_Suc_eq)
    show "\<forall>(tid, cc) \<in> set (connectCancels (conn ?s)). (cancel cc, tid, gen cc) \<in> set (closures ?s)"
      using ok by (simp only: f) (auto simp: connects_ok_def set_gm_put)
    show "mset (map fst (closures ?s)) = mset (live (conn ?s)) + mset (cancelled ?s) + mset (map snd (released ?s))"
      using ok l by (simp only: f) (simp add: connects_ok_def ac_simps)
    show "\<forall>(c, d) \<in> set (released ?s). c = d" using ok by (simp only: f) (simp add: connects_ok_def)
  qed
qed

lemma connects_ok_Disconnect:
  assumes ok: "connects_ok s"
  shows "connects_ok (connect_step s (Disconnect tid))"
proof -
  let ?s = "connect_step s (Disconnect tid)"
  let ?cs = "case gm_get (connectCancels (conn s)) tid of None \<Rightarrow> [] | Some cc \<Rightarrow> [cancel cc]"
  have f: "connectCancels (conn ?s) = (if gm_get (connectCancels (conn s)) tid = None then connectCancels (conn s)
      else gm_del tid (connectCancels (conn s)))"
    "connectGen (conn ?s) = connectGen (conn s)" "closures ?s = closures s" "cancelled ?s = cancelled s @ ?cs"
    "released ?s = released s"
    by (auto simp: Unsubscribe_def Let_def split: option.split)
  have g: "gm_ok (connectCancels (conn s))" using ok by (simp add: connects_ok_def)
  have l: "mset (live (conn ?s)) + mset ?cs = mset (live (conn s))"
    using live_del [OF g, of tid] unfolding live_def f by (auto split: option.splits)
  have "gm_ok (connectCancels (conn ?s))" using g by (simp only: f) simp
  moreover have "\<forall>(tid, cc) \<in> set (connectCancels (conn ?s)). (cancel cc, tid, gen cc) \<in> set (closures ?s)"
    using ok by (simp only: f) (auto simp: connects_ok_def)
  ultimately show ?thesis using ok l unfolding connects_ok_def f(2-5) by (simp add: ac_simps)
qed

lemma closures_gen:
  assumes "connects_ok s" and "(c, tid, g) \<in> set (closures s)" and "(c', tid', g) \<in> set (closures s)"
  shows "c = c'"
proof -
  obtain i j where ij: "i < length (closures s)" "j < length (closures s)" "closures s ! i = (c, tid, g)"
    "closures s ! j = (c', tid', g)" using assms(2,3) by (auto simp: in_set_conv_nth)
  have "Suc i = unat g" "Suc j = unat g"
    using assms(1) ij unfolding connects_ok_def by (metis snd_conv)+
  then have "i = j" by linarith
  then show ?thesis using ij by simp
qed

lemma connects_ok_Finish:
  assumes ok: "connects_ok s"
  shows "connects_ok (connect_step s (Finish c))"
proof (cases "map_of (closures s) c")
  case None
  then show ?thesis using ok by simp
next
  case (Some p)
  obtain tid g where p: "p = (tid, g)" by fastforce
  have c: "(c, tid, g) \<in> set (closures s)" using map_of_SomeD [OF Some] p by simp
  have k: "gm_ok (connectCancels (conn s))" using ok by (simp add: connects_ok_def)
  show ?thesis
  proof (cases "gm_get (connectCancels (conn s)) tid")
    case None
    then show ?thesis using Some p ok by (simp add: deregister_def)
  next
    case (Some cc)
    have in_c: "(cancel cc, tid, gen cc) \<in> set (closures s)"
      using ok gm_get_Some_in [OF Some] by (auto simp: connects_ok_def)
    show ?thesis
    proof (cases "gen cc = g")
      case False
      then have "connect_step s (Finish c) = s"
        using \<open>map_of (closures s) c = Some p\<close> p Some by (simp add: deregister_def)
      then show ?thesis using ok by simp
    next
      case True
      have "cancel cc = c" using closures_gen [OF ok in_c] c True by simp
      then have e: "connect_step s (Finish c) = s\<lparr>conn := (conn s)\<lparr>connectCancels := gm_del tid (connectCancels (conn s))\<rparr>,
          released := released s @ [(c, c)]\<rparr>"
        using \<open>map_of (closures s) c = Some p\<close> p Some True by (simp add: deregister_def)
      have l: "add_mset c (mset (map (cancel \<circ> snd) (gm_del tid (connectCancels (conn s))))) = mset (live (conn s))"
        using live_del [OF k, of tid] Some \<open>cancel cc = c\<close> by simp
      show ?thesis using ok k l unfolding e connects_ok_def by (auto simp: live_def ac_simps)
    qed
  qed
qed

definition contexts :: "connect_event list \<Rightarrow> nat list" where
  "contexts es = concat (map (\<lambda>e. case e of Connect tid c \<Rightarrow> [c] | _ \<Rightarrow> []) es)"

lemma closures_run: "map fst (closures (foldl connect_step s es)) = map fst (closures s) @ contexts es"
proof (induction es arbitrary: s)
  case (Cons e es)
  have "map fst (closures (connect_step s e)) = map fst (closures s) @ contexts [e]"
    by (cases e) (auto simp: contexts_def RegisterConnectCancel_def Let_def split: prod.split option.split)
  then show ?case using Cons.IH [of "connect_step s e"] by (simp add: contexts_def)
qed (simp add: contexts_def)

lemma connects_ok_run:
  "connects_ok s \<Longrightarrow> distinct (map fst (closures s) @ contexts es) \<Longrightarrow>
    length (closures s) + length (contexts es) < 2 ^ 64 \<Longrightarrow> connects_ok (foldl connect_step s es)"
proof (induction es arbitrary: s)
  case (Cons e es)
  have c: "contexts (e # es) = contexts [e] @ contexts es" by (simp add: contexts_def)
  have m: "map fst (closures (connect_step s e)) = map fst (closures s) @ contexts [e]"
    using closures_run [of s "[e]"] by simp
  then have len: "length (closures (connect_step s e)) = length (closures s) + length (contexts [e])"
    by (metis length_append length_map)
  have "connects_ok (connect_step s e)"
  proof (cases e)
    case (Connect tid d)
    then show ?thesis using connects_ok_Connect [OF Cons.prems(1), of d tid] Cons.prems(2,3)
      by (auto simp: contexts_def)
  qed (use connects_ok_Disconnect connects_ok_Finish Cons.prems(1) in auto)
  then show ?case using Cons.IH [of "connect_step s e"] Cons.prems(2,3) m len c by simp
qed simp

lemma connects_ok_start: "connects_ok (no_connects NewRtdManager)"
  by (simp add: connects_ok_def no_connects_def NewRtdManager_def live_def)

text \<open>C17. The life of a connect's context. In any history of connects with fresh contexts, disconnects and
  finished handlers (fewer than 2^64 connects, so the generation counter does not wrap), every registered
  context is at each moment in exactly one of three places: live in the table, cancelled exactly
  once, or removed by its own closure; a closure never removes a registration other than its own, however
  often the topic was reused.\<close>

theorem connect_contexts:
  assumes "distinct (contexts es)" and "length (contexts es) < 2 ^ 64"
    and "s = foldl connect_step (no_connects NewRtdManager) es"
  shows "mset (contexts es) = mset (live (conn s)) + mset (cancelled s) + mset (map snd (released s)) \<and>
    distinct (live (conn s) @ cancelled s @ map snd (released s)) \<and> (\<forall>(c, d) \<in> set (released s). c = d)"
proof -
  have ok: "connects_ok s" unfolding assms(3)
    by (rule connects_ok_run [OF connects_ok_start]) (use assms(1,2) in \<open>simp_all add: no_connects_def\<close>)
  have c: "map fst (closures s) = contexts es" using closures_run by (simp add: assms(3) no_connects_def)
  have m: "mset (contexts es) = mset (live (conn s) @ cancelled s @ map snd (released s))"
    using ok c unfolding connects_ok_def by (simp add: add.assoc)
  then have "distinct (live (conn s) @ cancelled s @ map snd (released s))"
    using assms(1) mset_eq_imp_distinct_iff by metis
  then show ?thesis using m ok by (simp add: connects_ok_def add.assoc)
qed

theorem connect_contexts_witness:
  "let s = foldl connect_step (no_connects NewRtdManager) [Connect 1 10, Connect 1 11, Finish 10, Disconnect 1]
   in {#10, 11#} = mset (live (conn s)) + mset (cancelled s) + mset (map snd (released s)) \<and>
      distinct (live (conn s) @ cancelled s @ map snd (released s))"
  using connect_contexts [OF _ _ refl, of "[Connect 1 10, Connect 1 11, Finish 10, Disconnect 1]"]
  by (simp add: contexts_def Let_def)

end
