(* ===== verification/Frame_Transport.thy ===== *)
theory Frame_Transport
  imports Chunk_Frames
begin

section \<open>The interface between a sender of frames and its transport\<close>

text \<open>
  \<open>Sender.Send\<close> relies on a transport only through its \<open>SendFunc\<close>: nil says the frame was accepted,
  an error that it was not. The locale states that contract over whatever the transport lets one
  observe, and proves once what a \<open>Send\<close> over it delivers; each transport of the program interprets it.
\<close>

locale frame_transport =
  fixes send :: "('w, 's, 'e) SendFunc"
    and accepted :: "'s \<Rightarrow> 'm list"
    and message :: "'w \<Rightarrow> 'm"
  assumes accepts: "send w s = (None, s') \<Longrightarrow> accepted s' = accepted s @ [message w]"
    and rejects: "send w s = (Some e, s') \<Longrightarrow> accepted s' = accepted s"
begin

lemma tries_accepts:
  "tries send w n s = (r, k, s') \<Longrightarrow> 0 < n \<Longrightarrow>
    accepted s' = (if r = None then accepted s @ [message w] else accepted s)"
proof (induction n arbitrary: s r k s')
  case (Suc n)
  obtain e s1 where sd: "send w s = (e, s1)" by fastforce
  show ?case
  proof (cases e)
    case None
    then show ?thesis using Suc.prems sd accepts [of w s] by simp
  next
    case (Some x)
    then have a: "accepted s1 = accepted s" using sd rejects by simp
    show ?thesis
    proof (cases "n = 0")
      case True
      then show ?thesis using Suc.prems sd Some a by auto
    next
      case False
      obtain r1 k1 s2 where t: "tries send w n s1 = (r1, k1, s2)" by (metis prod_cases3)
      show ?thesis using Suc.IH [OF t] False Suc.prems sd Some t a by auto
    qed
  qed
qed simp

lemma sendWithRetry_accepts:
  assumes "sendWithRetry send w policy s = (r, slept, s')"
  shows "accepted s' = (if r = None then accepted s @ [message w] else accepted s)"
proof -
  obtain r1 k1 s1 where t: "tries send w (nat (max 1 (Attempts policy))) s = (r1, k1, s1)" by (metis prod_cases3)
  have "0 < nat (max 1 (Attempts policy))" by simp
  from tries_accepts [OF t this] t assms show ?thesis by (simp add: sendWithRetry_tries)
qed

lemma deliver_accepts:
  "deliver enc send policy off cid fs s = (r, slept, s') \<Longrightarrow>
    \<exists>k \<le> length fs. accepted s' = accepted s @ map (message \<circ> enc fileIdentifier) (take k fs) \<and>
      (r = None \<longleftrightarrow> k = length fs)"
proof (induction fs arbitrary: off s r slept s')
  case (Cons f fs)
  obtain r1 sl1 s1 where sw: "sendWithRetry send (enc fileIdentifier f) policy s = (r1, sl1, s1)" by (metis prod_cases3)
  note acc = sendWithRetry_accepts [OF sw]
  show ?case
  proof (cases r1)
    case (Some e)
    then show ?thesis using Cons.prems sw acc by (intro exI [of _ 0]) auto
  next
    case None
    obtain r2 sl2 s2 where d: "deliver enc send policy (off + int (length (fr_data f))) cid fs s1 = (r2, sl2, s2)"
      by (metis prod_cases3)
    from Cons.IH [OF d] obtain k where "k \<le> length fs"
      "accepted s2 = accepted s1 @ map (message \<circ> enc fileIdentifier) (take k fs)" "r2 = None \<longleftrightarrow> k = length fs"
      by blast
    with Cons.prems sw None d acc show ?thesis by (intro exI [of _ "Suc k"]) auto
  qed
qed simp

text \<open>A \<open>Send\<close> over the transport: a prefix of the one split of the payload, all of it when nil.\<close>

lemma Send_accepts:
  assumes "Send enc sd payload cid mt send policy s = (r, slept, s')"
  shows "\<exists>fs k. split_of sd payload cid mt fs \<and> k \<le> length fs \<and>
    accepted s' = accepted s @ map (message \<circ> enc fileIdentifier) (take k fs) \<and> (r = None \<longrightarrow> k = length fs)"
proof (cases "payload \<noteq> [] \<and> int (length payload) \<le> maxTotalBytes sd")
  case True
  then show ?thesis using deliver_accepts [of enc policy 0 cid "frames_from sd payload cid mt 0" s r slept s']
      frames_from_split [of sd payload cid mt] assms by (auto simp: Send_deliver)
next
  case False
  have "accepted s' = accepted s" "r = None \<longrightarrow> payload = []"
    using assms False by (auto simp: Send_def split: if_splits)
  then show ?thesis using frames_from_split [of sd payload cid mt]
    by (intro exI [of _ "frames_from sd payload cid mt 0"] exI [of _ "0 :: nat"]) (auto simp: frames_from.simps)
qed

end

text \<open>The recording of any transport keeps the contract.\<close>

interpretation recorded: frame_transport "recording send" snd "\<lambda>w. w"
  for send :: "('w, 's, 'e) SendFunc"
  by unfold_locales (auto simp: recording_def split: prod.splits option.splits)

end
