(* ===== verification/Go_Strings.thy ===== *)
theory Go_Strings
  imports Prelude
begin

section \<open>Strings of the standard library\<close>

text \<open>What the components use of \<open>strings\<close> and \<open>strconv\<close>, on strings of bytes.\<close>

subsection \<open>Decimal numbers\<close>

fun dec_nat :: "nat \<Rightarrow> string" where
  "dec_nat n = (if n < 10 then [char_of (48 + n)] else dec_nat (n div 10) @ [char_of (48 + n mod 10)])"

declare dec_nat.simps [simp del]

text \<open>\<open>strconv.FormatInt(v, 10)\<close> and \<open>strconv.Itoa\<close>.\<close>

definition FormatInt :: "int \<Rightarrow> string" where
  "FormatInt v = (if v < 0 then CHR ''-'' # dec_nat (nat (- v)) else dec_nat (nat v))"

definition nat_of_digits :: "string \<Rightarrow> nat" where
  "nat_of_digits s = foldl (\<lambda>n c. 10 * n + (of_char c - 48)) 0 s"

lemma of_char_digit [simp]: "n < 10 \<Longrightarrow> of_char (char_of (48 + n :: nat)) = 48 + n"
  by (simp add: of_char_of)

lemma nat_of_dec_nat: "nat_of_digits (dec_nat n) = n"
proof (induction n rule: dec_nat.induct)
  case (1 n)
  then show ?case by (simp add: dec_nat.simps [of n] nat_of_digits_def)
qed

lemma dec_nat_digits: "c \<in> set (dec_nat n) \<Longrightarrow> 48 \<le> (of_char c :: nat) \<and> (of_char c :: nat) \<le> 57"
proof (induction n rule: dec_nat.induct)
  case (1 n)
  have "n mod 10 < 10" by simp
  then show ?case using 1 by (auto simp: dec_nat.simps [of n] split: if_splits)
qed

lemma dec_nat_inject [simp]: "dec_nat m = dec_nat n \<longleftrightarrow> m = n"
  using nat_of_dec_nat by metis

lemma dec_nat_not_Nil [simp]: "dec_nat n \<noteq> []"
  by (simp add: dec_nat.simps [of n])

lemma dec_nat_no_sign: "dec_nat n \<noteq> CHR ''-'' # s"
  using dec_nat_digits [of "CHR ''-''" n] by auto

lemma FormatInt_inject [simp]: "FormatInt v = FormatInt w \<longleftrightarrow> v = w"
proof -
  have "CHR ''-'' # s \<noteq> dec_nat n" for s n using dec_nat_no_sign [of n s] by metis
  then show ?thesis using dec_nat_no_sign by (cases "v < 0"; cases "w < 0") (auto simp: FormatInt_def)
qed

subsection \<open>Joining and splitting\<close>

primrec join_from :: "string \<Rightarrow> string \<Rightarrow> string list \<Rightarrow> string" where
  "join_from sep acc [] = acc"
| "join_from sep acc (x # xs) = join_from sep (acc @ sep @ x) xs"

definition strings_Join :: "string list \<Rightarrow> string \<Rightarrow> string" where
  "strings_Join xs sep = (case xs of [] \<Rightarrow> [] | x # xs \<Rightarrow> join_from sep x xs)"

definition HasPrefix :: "string \<Rightarrow> string \<Rightarrow> bool" where
  "HasPrefix s p \<longleftrightarrow> take (length p) s = p"

definition HasSuffix :: "string \<Rightarrow> string \<Rightarrow> bool" where
  "HasSuffix s p \<longleftrightarrow> length p \<le> length s \<and> drop (length s - length p) s = p"

definition TrimPrefix :: "string \<Rightarrow> string \<Rightarrow> string" where
  "TrimPrefix s p = (if HasPrefix s p then drop (length p) s else s)"

fun contains_sub :: "string \<Rightarrow> string \<Rightarrow> bool" where
  "contains_sub [] p = (p = [])"
| "contains_sub (c # s) p = (HasPrefix (c # s) p \<or> contains_sub s p)"

lemma HasPrefix_append [simp]: "HasPrefix (p @ s) p"
  by (simp add: HasPrefix_def)

lemma HasPrefix_iff: "HasPrefix s p \<longleftrightarrow> (\<exists>t. s = p @ t)"
  by (metis HasPrefix_append HasPrefix_def append_take_drop_id)

lemma HasSuffix_iff: "HasSuffix s p \<longleftrightarrow> (\<exists>t. s = t @ p)"
  unfolding HasSuffix_def by (metis append_take_drop_id append_eq_conv_conj diff_add_inverse2 le_add2 length_append)

lemma contains_sub_iff: "contains_sub s p \<longleftrightarrow> (\<exists>a b. s = a @ p @ b)"
proof (induction s)
  case (Cons c s)
  have "(\<exists>a b. c # s = a @ p @ b) \<longleftrightarrow> (\<exists>b. c # s = p @ b) \<or> (\<exists>a b. s = a @ p @ b)"
    by (metis append_Cons append_Nil list.exhaust list.inject)
  then show ?case using Cons by (simp add: HasPrefix_iff)
qed simp

text \<open>\<open>strings.Split\<close> at one character.\<close>

fun Split :: "char \<Rightarrow> string \<Rightarrow> string list" where
  "Split sep [] = [[]]"
| "Split sep (c # s) =
     (if c = sep then [] # Split sep s else (case Split sep s of [] \<Rightarrow> [[c]] | part # parts \<Rightarrow> (c # part) # parts))"

text \<open>\<open>strings.ReplaceAll\<close> with a non-empty pattern.\<close>

function ReplaceAll :: "string \<Rightarrow> string \<Rightarrow> string \<Rightarrow> string" where
  "ReplaceAll s old new =
     (if s = '''' \<or> old = '''' then s
      else if HasPrefix s old then new @ ReplaceAll (drop (length old) s) old new
      else hd s # ReplaceAll (tl s) old new)"
  by pat_completeness auto
termination
  by (relation "measure (\<lambda>(s, old, new). length s)") auto

declare ReplaceAll.simps [simp del]

lemma ReplaceAll_absent: "\<not> contains_sub s old \<Longrightarrow> ReplaceAll s old new = s"
proof (induction s)
  case (Cons c s)
  then show ?case by (auto simp: ReplaceAll.simps [of "c # s"])
qed (simp add: ReplaceAll.simps)

lemma ReplaceAll_at: "old \<noteq> '''' \<Longrightarrow> ReplaceAll (old @ s) old new = new @ ReplaceAll s old new"
  by (simp add: ReplaceAll.simps [of "old @ s"])

subsection \<open>Runes\<close>

text \<open>How Go's \<open>range\<close> over a string reads it: the bytes of each rune, and the rune. A byte that does not start a
  valid UTF-8 sequence is U+FFFD on its own.\<close>

abbreviation byte :: "char \<Rightarrow> nat" where "byte c \<equiv> of_char c"

definition cont :: "nat \<Rightarrow> bool" where "cont b \<longleftrightarrow> 128 \<le> b \<and> b \<le> 191"

definition rune_len :: "string \<Rightarrow> nat" where
  "rune_len s =
     (case map byte s of
        b0 # b1 # b2 # b3 # _ \<Rightarrow>
          if 194 \<le> b0 \<and> b0 \<le> 223 \<and> cont b1 then 2
          else if 224 \<le> b0 \<and> b0 \<le> 239 \<and> cont b1 \<and> (b0 = 224 \<longrightarrow> 160 \<le> b1) \<and> (b0 = 237 \<longrightarrow> b1 \<le> 159) \<and> cont b2 then 3
          else if 240 \<le> b0 \<and> b0 \<le> 244 \<and> cont b1 \<and> (b0 = 240 \<longrightarrow> 144 \<le> b1) \<and> (b0 = 244 \<longrightarrow> b1 \<le> 143) \<and> cont b2 \<and> cont b3
            then 4
          else 1
      | [b0, b1, b2] \<Rightarrow>
          if 194 \<le> b0 \<and> b0 \<le> 223 \<and> cont b1 then 2
          else if 224 \<le> b0 \<and> b0 \<le> 239 \<and> cont b1 \<and> (b0 = 224 \<longrightarrow> 160 \<le> b1) \<and> (b0 = 237 \<longrightarrow> b1 \<le> 159) \<and> cont b2 then 3
          else 1
      | [b0, b1] \<Rightarrow> if 194 \<le> b0 \<and> b0 \<le> 223 \<and> cont b1 then 2 else 1
      | _ \<Rightarrow> 1)"

definition rune_val :: "string \<Rightarrow> nat" where
  "rune_val bs =
     (case map byte bs of
        [b0] \<Rightarrow> if b0 < 128 then b0 else 65533
      | [b0, b1] \<Rightarrow> (b0 - 192) * 64 + (b1 - 128)
      | [b0, b1, b2] \<Rightarrow> (b0 - 224) * 4096 + (b1 - 128) * 64 + (b2 - 128)
      | [b0, b1, b2, b3] \<Rightarrow> (b0 - 240) * 262144 + (b1 - 128) * 4096 + (b2 - 128) * 64 + (b3 - 128)
      | _ \<Rightarrow> 65533)"

lemma rune_len_pos: "0 < rune_len s" "s \<noteq> [] \<Longrightarrow> rune_len s \<le> length s"
  by (auto simp: rune_len_def Suc_le_eq split: list.splits)

function runes :: "string \<Rightarrow> (string \<times> nat) list" where
  "runes s =
     (if s = [] then []
      else let k = rune_len s in (take k s, rune_val (take k s)) # runes (drop k s))"
  by pat_completeness auto
termination
proof (relation "measure length", simp)
  fix s :: string and k assume "s \<noteq> []" and "k = rune_len s"
  then have "0 < k" "k \<le> length s" using rune_len_pos by auto
  then show "(drop k s, s) \<in> measure length" by simp
qed

declare runes.simps [simp del]

abbreviation rune_vals :: "string \<Rightarrow> nat list" where "rune_vals s \<equiv> map snd (runes s)"

text \<open>A rune below 128 is one byte; a longer sequence starts with a byte above and stands for a rune above.\<close>

lemma rune_len_ascii: "byte c < 128 \<Longrightarrow> rune_len (c # s) = 1"
  by (auto simp: rune_len_def split: list.splits)

lemma rune_len_cases:
  assumes "s \<noteq> []"
  shows "rune_len s = 1 \<or> (194 \<le> byte (hd s) \<and> 128 \<le> rune_val (take (rune_len s) s))"
proof (cases s rule: list.exhaust)
  case (Cons a s1)
  show ?thesis
  proof (cases s1)
    case b: (Cons b s2)
    show ?thesis
    proof (cases s2)
      case Nil
      then show ?thesis using Cons b by (auto simp: rune_len_def rune_val_def cont_def)
    next
      case c: (Cons c s3)
      show ?thesis
        by (cases s3) (auto simp: Cons b c rune_len_def rune_val_def cont_def)
    qed
  qed (simp add: Cons rune_len_def)
qed (simp add: assms)

lemma runes_Nil [simp]: "runes [] = []"
  by (simp add: runes.simps)

lemma runes_ascii [simp]: "byte c < 128 \<Longrightarrow> runes (c # s) = ([c], byte c) # runes s"
  by (subst runes.simps) (simp add: rune_len_ascii rune_val_def Let_def)

lemma runes_other:
  assumes "128 \<le> byte c"
  shows "\<exists>bs r rest. runes (c # s) = (bs, r) # rest \<and> 128 \<le> r"
proof -
  let ?k = "rune_len (c # s)"
  have "runes (c # s) = (take ?k (c # s), rune_val (take ?k (c # s))) # runes (drop ?k (c # s))"
    by (subst runes.simps) (simp add: Let_def)
  moreover have "128 \<le> rune_val (take ?k (c # s))"
    using rune_len_cases [of "c # s"] assms by (auto simp: rune_val_def)
  ultimately show ?thesis by blast
qed

text \<open>A test that only ASCII passes may be made byte by byte.\<close>

lemma runes_all_ascii:
  assumes P: "\<And>r. P r \<Longrightarrow> r < 128"
  shows "(\<forall>r \<in> set (rune_vals s). P r) \<longleftrightarrow> (\<forall>c \<in> set s. P (byte c))"
proof (induction s)
  case (Cons c s)
  show ?case
  proof (cases "byte c < 128")
    case False
    then obtain bs r rest where "runes (c # s) = (bs, r) # rest" "128 \<le> r" using runes_other [of c s] by auto
    moreover have "\<not> P r" "\<not> P (byte c)" using P [of r] P [of "byte c"] False \<open>128 \<le> r\<close> by auto
    ultimately show ?thesis by simp
  qed (use Cons.IH in simp)
qed simp

lemma runes_single:
  assumes P: "\<And>r. P r \<Longrightarrow> r < 128"
  shows "(\<exists>r. rune_vals s = [r] \<and> P r) \<longleftrightarrow> (\<exists>c. s = [c] \<and> P (byte c))"
proof
  assume "\<exists>r. rune_vals s = [r] \<and> P r"
  then obtain r where r: "rune_vals s = [r]" "P r" by (elim exE conjE)
  then have all: "\<forall>c \<in> set s. P (byte c)" using runes_all_ascii [of P s] P by simp
  show "\<exists>c. s = [c] \<and> P (byte c)"
  proof (cases s)
    case (Cons c t)
    then have "byte c < 128" using all P by auto
    then have "runes t = []" using r(1) Cons by simp
    then have "t = []" by (cases t) (auto simp: runes.simps [of "_ # _"] Let_def)
    then show ?thesis using Cons all by simp
  qed (use r in simp)
next
  assume "\<exists>c. s = [c] \<and> P (byte c)"
  then show "\<exists>r. rune_vals s = [r] \<and> P r" using P by fastforce
qed

subsection \<open>Case and white space\<close>

text \<open>\<open>strings.ToLower\<close> and \<open>strings.ToUpper\<close>, as far as a comparison with ASCII words can tell: the letters of
  ASCII, and the letters outside it whose other case is in it (U+0130 and U+212A; U+0131 and U+017F).\<close>

definition lower_ascii :: "char \<Rightarrow> char" where
  "lower_ascii c = (if 65 \<le> byte c \<and> byte c \<le> 90 then char_of (byte c + 32) else c)"

definition upper_ascii :: "char \<Rightarrow> char" where
  "upper_ascii c = (if 97 \<le> byte c \<and> byte c \<le> 122 then char_of (byte c - 32) else c)"

fun ToLower :: "string \<Rightarrow> string" where
  "ToLower [] = []"
| "ToLower (c # s) =
     (if c = CHR 0xC4 \<and> take 1 s = [CHR 0xB0] then CHR ''i'' # ToLower (drop 1 s)
      else if c = CHR 0xE2 \<and> take 2 s = [CHR 0x84, CHR 0xAA] then CHR ''k'' # ToLower (drop 2 s)
      else lower_ascii c # ToLower s)"

fun ToUpper :: "string \<Rightarrow> string" where
  "ToUpper [] = []"
| "ToUpper (c # s) =
     (if c = CHR 0xC4 \<and> take 1 s = [CHR 0xB1] then CHR ''I'' # ToUpper (drop 1 s)
      else if c = CHR 0xC5 \<and> take 1 s = [CHR 0xBF] then CHR ''S'' # ToUpper (drop 1 s)
      else upper_ascii c # ToUpper s)"

text \<open>\<open>strings.EqualFold\<close> with a word in which neither k nor s occurs.\<close>

definition EqualFold :: "string \<Rightarrow> string \<Rightarrow> bool" where
  "EqualFold s t \<longleftrightarrow> map lower_ascii s = map lower_ascii t"

definition IsSpace :: "nat \<Rightarrow> bool" where
  "IsSpace r \<longleftrightarrow> (9 \<le> r \<and> r \<le> 13) \<or> r = 32 \<or> r = 133 \<or> r = 160 \<or> r = 5760 \<or> (8192 \<le> r \<and> r \<le> 8202) \<or>
     r = 8232 \<or> r = 8233 \<or> r = 8239 \<or> r = 8287 \<or> r = 12288"

definition TrimSpace :: "string \<Rightarrow> string" where
  "TrimSpace s =
     concat (map fst (rev (dropWhile (IsSpace \<circ> snd) (rev (dropWhile (IsSpace \<circ> snd) (runes s))))))"

end
