(* ===== verification/Rtd_Once.thy ===== *)
theory Rtd_Once
  imports Rtd_Manager Frame_Transport Go_Strings
begin

section \<open>One-shot handlers (pkg/rtd/runonce.go)\<close>






text \<open>\<open>readyOnceSeq\<close> is the first component of the state of \<open>RunOnceGrid\<close>.\<close>

definition readyToken :: "int \<Rightarrow> string \<times> int" where
  "readyToken readyOnceSeq = (let n = i64 (readyOnceSeq + 1) in (FormatInt n, n))"


subsection \<open>The contracts\<close>



subsection \<open>\<open>*RtdManager\<close> is both\<close>








subsection \<open>Properties\<close>






text \<open>No two deliveries among 2^64 in a row use the same token, so Excel always sees a change.\<close>

lemma ready_tokens_distinct:
  assumes "j < k" and "k < 2 ^ 64"
  shows "fst (readyToken (((\<lambda>q. snd (readyToken q)) ^^ j) seq)) \<noteq> fst (readyToken (((\<lambda>q. snd (readyToken q)) ^^ k) seq))"
proof -
  have step: "i64 (i64 x + 1) = i64 (x + 1)" for x
  proof -
    have "((x + 2 ^ 63) mod 2 ^ 64 + 1) mod 2 ^ 64 = (x + 2 ^ 63 + 1) mod (2 :: int) ^ 64" by (rule mod_add_left_eq)
    then show ?thesis by (simp add: i64_def algebra_simps)
  qed
  have iter: "snd (readyToken (((\<lambda>q. snd (readyToken q)) ^^ n) seq)) = i64 (seq + int (Suc n))" for n
  proof (induction n)
    case (Suc n)
    have "snd (readyToken (((\<lambda>q. snd (readyToken q)) ^^ Suc n) seq)) = i64 (i64 (seq + int (Suc n)) + 1)"
      using Suc.IH by (simp add: readyToken_def Let_def)
    then show ?case unfolding step by (simp add: algebra_simps)
  qed (simp add: readyToken_def Let_def)
  have tok: "fst (readyToken q) = FormatInt (snd (readyToken q))" for q by (simp add: readyToken_def Let_def)
  have "i64 (seq + int (Suc j)) \<noteq> i64 (seq + int (Suc k))"
  proof
    assume "i64 (seq + int (Suc j)) = i64 (seq + int (Suc k))"
    then have "(2 :: int) ^ 64 dvd (seq + int (Suc k) + 2 ^ 63) - (seq + int (Suc j) + 2 ^ 63)"
      unfolding i64_def by (metis diff_add_cancel mod_eq_dvd_iff)
    then have "(2 :: int) ^ 64 dvd int (k - j)" using assms(1) by (simp add: of_nat_diff)
    then have "2 ^ 64 \<le> int (k - j)" using assms(1) by (intro zdvd_imp_le) simp_all
    then have "2 ^ 64 \<le> k - j" by (metis of_nat_le_iff of_nat_numeral of_nat_power)
    then show False using assms(2) by linarith
  qed
  then show ?thesis unfolding tok iter by simp
qed

end
