(* ===== verification/Async_Flush.thy ===== *)
theory Async_Flush
  imports Frame_Transport Fb_Any Go_Strings
begin

section \<open>Delivering a batch of async results (pkg/server/async_batcher.go, errmsg.go)\<close>

text \<open>
  \<open>flushAsyncBatchBounded\<close> serialises a batch, splits it while it exceeds the transfer limit, and
  answers a single result that is too large with an error text. The client is a parameter: its request
  capacity and its \<open>SendGuestCall\<close>; so are the FlatBuffers table of a batch and the random ids. A flush
  acts on the client's state and returns whether it came back: building a value of the wrong type panics
  (\<open>False\<close>), with what was sent before standing.
\<close>

record PendingAsyncResult =
  Handle :: bytes
  Val :: go_value
  ValType :: AnyValue
  Err :: string

definition EmptyErrorMessage :: string where
  "EmptyErrorMessage = ''handler returned an error with an empty message''"

text \<open>The error is nil or its text.\<close>

definition ErrorMessage :: "string option \<Rightarrow> string" where
  "ErrorMessage err =
     (case err of None \<Rightarrow> [] | Some msg \<Rightarrow> if msg \<noteq> [] then msg else EmptyErrorMessage)"

record 'w async_client =
  MaxRequestSize :: int
  SendGuestCall :: "bytes \<Rightarrow> u32 \<Rightarrow> 'w \<Rightarrow> string option \<times> 'w"
  batch_table :: "(bytes \<times> (string + any_table)) list \<Rightarrow> bytes"
  chunk_table :: "string \<Rightarrow> chunk_frame \<Rightarrow> bytes"
  value_text :: "go_value \<Rightarrow> string"
  fresh_id :: "'w \<Rightarrow> u64 \<times> 'w"

subsection \<open>Sending with retries\<close>

text \<open>The loop \<open>for i := 0; i < 10; i++\<close> of this file's own \<open>sendWithRetry\<close>.\<close>

function send_loop10 :: "('x, 's, 'e) SendFunc \<Rightarrow> 'x \<Rightarrow> int \<Rightarrow> 'e option \<Rightarrow> 's \<Rightarrow> 'e option \<times> int list \<times> 's" where
  "send_loop10 send payload i err s =
     (if i < 10 then
        (case send payload s of
           (None, s) \<Rightarrow> (None, [], s)
         | (Some e, s) \<Rightarrow>
             if i = 9 then (Some e, [], s)
             else
               (let slept = i64 (i64 (5 * 1000000) * i64 (2 ^ nat i));
                    (r, more, s) = send_loop10 send payload (i + 1) (Some e) s
                in (r, slept # more, s)))
      else (err, [], s))"
  by pat_completeness auto
termination by (relation "measure (\<lambda>(send, payload, i, err, s). nat (10 - i))") auto

declare send_loop10.simps [simp del]

definition sendWithRetry10 :: "('x, 's, 'e) SendFunc \<Rightarrow> 'x \<Rightarrow> 's \<Rightarrow> 'e option \<times> int list \<times> 's" where
  "sendWithRetry10 send payload s = send_loop10 send payload 0 None s"

subsection \<open>Flushing\<close>

definition oversizedAsyncResultError :: "int \<Rightarrow> int \<Rightarrow> string" where
  "oversizedAsyncResultError sz limit =
     ''xll-gen: async result too large to deliver: '' @ FormatInt sz @ '' bytes exceeds the '' @ FormatInt limit @
     ''-byte guest->host transfer limit; return fewer cells (or write the data to a file/refcache and return a handle)''"

text \<open>One \<open>AsyncResult\<close>: its handle with the error, or with the value; \<open>None\<close> when \<open>fbany.Build\<close> panics.\<close>

definition async_result :: "(go_value \<Rightarrow> string) \<Rightarrow> PendingAsyncResult \<Rightarrow> (bytes \<times> (string + any_table)) option" where
  "async_result sprint res =
     (if Err res \<noteq> [] then Some (Handle res, Inl (Err res))
      else map_option (\<lambda>t. (Handle res, Inr t)) (Build sprint (ValType res) (Val res)))"

primrec collect :: "'a option list \<Rightarrow> 'a list option" where
  "collect [] = Some []"
| "collect (x # xs) = (case x of None \<Rightarrow> None | Some y \<Rightarrow> map_option ((#) y) (collect xs))"

definition buildAsyncBatchPayload :: "'w async_client \<Rightarrow> PendingAsyncResult list \<Rightarrow> bytes option" where
  "buildAsyncBatchPayload client batch =
     map_option (batch_table client) (collect (map (async_result (value_text client)) batch))"

definition sendChunkedAsync :: "bytes \<Rightarrow> 'w async_client \<Rightarrow> int \<Rightarrow> 'w \<Rightarrow> 'w" where
  "sendChunkedAsync data client csz w =
     (let (tid, w) = fresh_id client w;
          (r, slept, w) = Send (chunk_table client) \<lparr>ChunkSize = csz, MaxTotalBytes = 0\<rparr> data tid
            MsgBatchAsyncResponse (\<lambda>frame. SendGuestCall client frame MsgChunk) AsyncRetry w
      in w)"

definition error_result :: "PendingAsyncResult \<Rightarrow> int \<Rightarrow> int \<Rightarrow> PendingAsyncResult" where
  "error_result r sz limit =
     \<lparr>Handle = Handle r, Val = GoNil, ValType = AnyValueNONE, Err = oversizedAsyncResultError sz limit\<rparr>"

text \<open>A payload within the limit.\<close>

definition send_payload :: "bytes \<Rightarrow> 'w async_client \<Rightarrow> 'w \<Rightarrow> 'w" where
  "send_payload msgBytes client w =
     (let maxPayload = GuestBudget (Some (MaxRequestSize client)) in
      if int (length msgBytes) > maxPayload then sendChunkedAsync msgBytes client maxPayload w
      else
        (let (err, slept, w) =
           sendWithRetry10 (\<lambda>data. SendGuestCall client data MsgBatchAsyncResponse) msgBytes w
         in w))"

function (sequential)
  flushAsyncBatchBounded :: "PendingAsyncResult list \<Rightarrow> 'w async_client \<Rightarrow> int \<Rightarrow> bool \<Rightarrow> 'w \<Rightarrow> bool \<times> 'w" and
  flushOversizedAsyncBatch :: "PendingAsyncResult list \<Rightarrow> 'w async_client \<Rightarrow> int \<Rightarrow> int \<Rightarrow> bool \<Rightarrow> 'w \<Rightarrow> bool \<times> 'w"
where
  "flushAsyncBatchBounded batch client limit substituted w =
     (if length batch = 0 then (True, w)
      else (case buildAsyncBatchPayload client batch of
              None \<Rightarrow> (False, w)
            | Some msgBytes \<Rightarrow>
                if int (length msgBytes) > limit then
                  flushOversizedAsyncBatch batch client limit (int (length msgBytes)) substituted w
                else (True, send_payload msgBytes client w)))"
| "flushOversizedAsyncBatch batch client limit sz substituted w =
     (if length batch > 1 then
        (let mid = length batch div 2 in
         case flushAsyncBatchBounded (take mid batch) client limit False w of
           (False, w) \<Rightarrow> (False, w)
         | (True, w) \<Rightarrow> flushAsyncBatchBounded (drop mid batch) client limit False w)
      else if substituted then (True, w)
      else (case batch of
              [] \<Rightarrow> (False, w)
            | r # _ \<Rightarrow> flushAsyncBatchBounded [error_result r sz limit] client limit True w))"
  by pat_completeness auto
termination
  by (relation "measures
       [\<lambda>x. case x of Inl (b, c, l, s, w) \<Rightarrow> length b | Inr (b, c, l, z, s, w) \<Rightarrow> length b,
        \<lambda>x. case x of Inl (b, c, l, s, w) \<Rightarrow> (if s then 0 else 2) | Inr (b, c, l, z, s, w) \<Rightarrow> (if s then 0 else 2),
        \<lambda>x. case x of Inl (b, c, l, s, w) \<Rightarrow> 1 | Inr (b, c, l, z, s, w) \<Rightarrow> 0]")
     (auto split: list.splits)

declare flushAsyncBatchBounded.simps [simp del] flushOversizedAsyncBatch.simps [simp del]

definition FlushAsyncBatch :: "PendingAsyncResult list \<Rightarrow> 'w async_client option \<Rightarrow> 'w \<Rightarrow> bool \<times> 'w" where
  "FlushAsyncBatch batch client w =
     (if length batch = 0 then (True, w)
      else (case client of
              None \<Rightarrow> (True, w)
            | Some c \<Rightarrow> flushAsyncBatchBounded batch c MaxTransferBytes False w))"

subsection \<open>The two retry loops are one\<close>

lemma send_loop10_retry_loop: "send_loop10 send p i err s = retry_loop send p 5000000 10 i err s"
proof (induction send p i err s rule: send_loop10.induct)
  case (1 send p i err s)
  show ?case
  proof (cases "i < 10")
    case True
    obtain e s1 where sd: "send p s = (e, s1)" by fastforce
    show ?thesis
    proof (cases e)
      case None
      then show ?thesis using sd True by (simp add: send_loop10.simps [of send p i] retry_loop.simps [of _ _ _ _ i])
    next
      case (Some x)
      show ?thesis
      proof (cases "i = 9")
        case True
        then show ?thesis using sd Some by (simp add: send_loop10.simps [of send p 9] retry_loop.simps [of _ _ _ _ 9])
      next
        case False
        then show ?thesis using 1 [OF True sd [symmetric] Some False refl] sd True Some
          by (simp add: send_loop10.simps [of send p i] retry_loop.simps [of _ _ _ _ i] Let_def)
      qed
    qed
  qed (simp add: send_loop10.simps [of send p i] retry_loop.simps [of _ _ _ _ i])
qed

text \<open>The file's own \<open>sendWithRetry\<close> is \<open>pkg/chunk\<close>'s with the policy \<open>AsyncRetry\<close>: the same attempts,
  the same sleeps, the same result, over any transport.\<close>

lemma sendWithRetry10_AsyncRetry: "sendWithRetry10 send p s = sendWithRetry send p AsyncRetry s"
  by (simp add: sendWithRetry10_def sendWithRetry_def AsyncRetry_def Let_def send_loop10_retry_loop)

subsection \<open>A client that records what it accepted\<close>

definition recording_client :: "'w async_client \<Rightarrow> ('w \<times> (bytes \<times> u32) list) async_client" where
  "recording_client client =
     \<lparr>MaxRequestSize = MaxRequestSize client,
      SendGuestCall = (\<lambda>data mt st. case SendGuestCall client data mt (fst st) of
         (None, w) \<Rightarrow> (None, w, snd st @ [(data, mt)])
       | (Some e, w) \<Rightarrow> (Some e, w, snd st)),
      batch_table = batch_table client, chunk_table = chunk_table client, value_text = value_text client,
      fresh_id = (\<lambda>st. case fresh_id client (fst st) of (tid, w) \<Rightarrow> (tid, w, snd st))\<rparr>"

interpretation async_frames: frame_transport "\<lambda>data. SendGuestCall (recording_client client) data mt" snd "\<lambda>data. (data, mt)"
  for client :: "'w async_client" and mt
  by unfold_locales (auto simp: recording_client_def split: prod.splits option.splits)

definition reliable :: "'w async_client \<Rightarrow> bool" where
  "reliable client \<longleftrightarrow> (\<forall>data mt w. fst (SendGuestCall client data mt w) = None)"

lemma reliable_recording: "reliable client \<Longrightarrow> reliable (recording_client client)"
proof -
  assume r: "reliable client"
  have "fst (SendGuestCall (recording_client client) data mt st) = None" for data mt st
  proof -
    obtain w where "SendGuestCall client data mt (fst st) = (None, w)"
      using r unfolding reliable_def by (metis prod.collapse)
    then show ?thesis by (simp add: recording_client_def)
  qed
  then show ?thesis by (simp add: reliable_def)
qed

text \<open>What the messages of one transfer are: the payload whole, or the frames that carry it; all of them, or
  the first ones.\<close>

definition carried :: "'w async_client \<Rightarrow> bytes \<Rightarrow> (bytes \<times> u32) list \<Rightarrow> bool \<Rightarrow> bool" where
  "carried client m ms full \<longleftrightarrow>
     (let budget = GuestBudget (Some (MaxRequestSize client)) in
      if int (length m) \<le> budget then ms = (if full then [(m, MsgBatchAsyncResponse)] else [])
      else (\<exists>tid fs k. split_of \<lparr>ChunkSize = budget, MaxTotalBytes = 0\<rparr> m tid MsgBatchAsyncResponse fs \<and>
              k \<le> length fs \<and> (full \<longrightarrow> k = length fs) \<and>
              ms = map (\<lambda>f. (chunk_table client fileIdentifier f, MsgChunk)) (take k fs)))"

lemma recording_client_sel [simp]:
  "MaxRequestSize (recording_client client) = MaxRequestSize client"
  "chunk_table (recording_client client) = chunk_table client"
  "batch_table (recording_client client) = batch_table client"
  "value_text (recording_client client) = value_text client"
  "fresh_id (recording_client client) (w, log') = (fst (fresh_id client w), snd (fresh_id client w), log')"
  by (simp_all add: recording_client_def split: prod.split)

lemma build_recording [simp]: "buildAsyncBatchPayload (recording_client client) batch = buildAsyncBatchPayload client batch"
  by (simp add: buildAsyncBatchPayload_def)

lemma reliable_Send:
  assumes "reliable c" and "int (length m) \<le> maxTotalBytes sd"
  shows "fst (Send enc sd m tid mt (\<lambda>frame. SendGuestCall c frame mc) policy w) = None"
proof (cases "m = []")
  case False
  have "SendGuestCall c frame mc w = (None, snd (SendGuestCall c frame mc w))" for frame w
    using assms(1) by (simp add: reliable_def prod_eq_iff)
  from deliver_ok [of "\<lambda>frame. SendGuestCall c frame mc", OF this] show ?thesis
    by (simp add: Send_deliver [OF False assms(2)])
qed (simp add: Send_def)

lemma send_payload_carried:
  assumes "int (length m) \<le> MaxTransferBytes" and "send_payload m (recording_client client) (w, ms0) = (w', ms1)"
  shows "\<exists>ms full. ms1 = ms0 @ ms \<and> carried client m ms full \<and> (reliable client \<longrightarrow> full)"
proof (cases "int (length m) \<le> GuestBudget (Some (MaxRequestSize client))")
  case True
  let ?send = "\<lambda>data. SendGuestCall (recording_client client) data MsgBatchAsyncResponse"
  obtain err sl st where s: "sendWithRetry10 ?send m (w, ms0) = (err, sl, st)" by (metis prod_cases3)
  have st: "st = (w', ms1)" using assms(2) True s by (simp add: send_payload_def Let_def)
  have acc: "ms1 = ms0 @ (if err = None then [(m, MsgBatchAsyncResponse)] else [])"
    using async_frames.sendWithRetry_accepts [of client MsgBatchAsyncResponse m AsyncRetry "(w, ms0)"] s st
    by (simp add: sendWithRetry10_AsyncRetry split: if_splits)
  have "err = None" if "reliable client"
  proof -
    have "fst (?send m (w, ms0)) = None" using reliable_recording [OF that] by (simp add: reliable_def)
    then obtain s1 where "?send m (w, ms0) = (None, s1)" by (metis prod.collapse)
    from sendWithRetry_ok [of ?send, OF this] s show ?thesis by (simp add: sendWithRetry10_AsyncRetry)
  qed
  then show ?thesis using acc True
    by (intro exI [of _ "if err = None then [(m, MsgBatchAsyncResponse)] else []"] exI [of _ "err = None"])
       (auto simp: carried_def)
next
  case False
  let ?b = "GuestBudget (Some (MaxRequestSize client))" and ?tid = "fst (fresh_id client w)"
  let ?sd = "\<lparr>ChunkSize = ?b, MaxTotalBytes = 0\<rparr>"
  let ?send = "\<lambda>frame. SendGuestCall (recording_client client) frame MsgChunk"
  obtain r sl st where s: "Send (chunk_table client) ?sd m ?tid MsgBatchAsyncResponse ?send AsyncRetry
      (snd (fresh_id client w), ms0) = (r, sl, st)" by (metis prod_cases3)
  have st: "st = (w', ms1)" using assms(2) False s by (simp add: send_payload_def sendChunkedAsync_def Let_def)
  obtain fs k where fs: "split_of ?sd m ?tid MsgBatchAsyncResponse fs" "k \<le> length fs"
    "ms1 = ms0 @ map ((\<lambda>data. (data, MsgChunk)) \<circ> chunk_table client fileIdentifier) (take k fs)"
    "r = None \<longrightarrow> k = length fs"
    using async_frames.Send_accepts [OF s] st by auto
  have "r = None" if "reliable client"
    using reliable_Send [OF reliable_recording [OF that], of m ?sd "chunk_table client" ?tid MsgBatchAsyncResponse MsgChunk
        AsyncRetry "(snd (fresh_id client w), ms0)"] s assms(1) by (simp add: maxTotalBytes_def)
  then show ?thesis using fs False
    by (intro exI [of _ "map (\<lambda>f. (chunk_table client fileIdentifier f, MsgChunk)) (take k fs)"] exI [of _ "r = None"])
       (auto simp: carried_def Let_def o_def)
qed

subsection \<open>Every handle is answered\<close>

text \<open>How the results of a batch may come out: itself; replaced by the error text when it is too large alone;
  dropped only when even the error text does not fit.\<close>

inductive answers :: "'w async_client \<Rightarrow> int \<Rightarrow> PendingAsyncResult list \<Rightarrow> PendingAsyncResult list \<Rightarrow> bool"
  for client limit where
  nothing: "answers client limit [] []"
| itself: "answers client limit rs out \<Longrightarrow> answers client limit (r # rs) (r # out)"
| replaced: "answers client limit rs out \<Longrightarrow> buildAsyncBatchPayload client [r] = Some m \<Longrightarrow> int (length m) > limit \<Longrightarrow>
    buildAsyncBatchPayload client [error_result r (int (length m)) limit] = Some e \<Longrightarrow> int (length e) \<le> limit \<Longrightarrow>
    answers client limit (r # rs) (error_result r (int (length m)) limit # out)"
| dropped: "answers client limit rs out \<Longrightarrow> buildAsyncBatchPayload client [r] = Some m \<Longrightarrow> int (length m) > limit \<Longrightarrow>
    buildAsyncBatchPayload client [error_result r (int (length m)) limit] = Some e \<Longrightarrow> int (length e) > limit \<Longrightarrow>
    answers client limit (r # rs) out"

lemma answers_append: "answers client limit xs a \<Longrightarrow> answers client limit ys b \<Longrightarrow> answers client limit (xs @ ys) (a @ b)"
  by (induction rule: answers.induct) (auto intro: answers.intros)

lemma answers_self: "answers client limit rs rs"
  by (induction rs) (auto intro: answers.intros)

definition buildable :: "'w async_client \<Rightarrow> PendingAsyncResult \<Rightarrow> bool" where
  "buildable client r \<longleftrightarrow> async_result (value_text client) r \<noteq> None"

lemma collect_Some: "collect xs \<noteq> None \<longleftrightarrow> None \<notin> set xs"
  by (induction xs) (auto split: option.splits)

lemma build_Some: "\<forall>r \<in> set batch. buildable client r \<Longrightarrow> \<exists>m. buildAsyncBatchPayload client batch = Some m"
  using collect_Some [of "map (async_result (value_text client)) batch"]
  by (auto simp: buildAsyncBatchPayload_def buildable_def image_iff)

lemma buildable_error [simp]: "buildable client (error_result r z limit)"
  by (simp add: buildable_def async_result_def error_result_def oversizedAsyncResultError_def)

text \<open>The outcome of a flush: it came back, and its transfers carry the answers.\<close>

definition flushed_as ::
  "'w async_client \<Rightarrow> int \<Rightarrow> PendingAsyncResult list \<Rightarrow> (bytes \<times> u32) list \<Rightarrow> (bytes \<times> u32) list \<Rightarrow> bool" where
  "flushed_as client limit batch before after \<longleftrightarrow>
     (\<exists>plan. answers client limit batch (concat (map fst plan)) \<and> after = before @ concat (map snd plan) \<and>
        (\<forall>(t, ms) \<in> set plan. t \<noteq> [] \<and> (\<exists>m full. buildAsyncBatchPayload client t = Some m \<and> int (length m) \<le> limit \<and>
           carried client m ms full \<and> (reliable client \<longrightarrow> full))))"

lemma flushed_append:
  assumes "flushed_as client limit xs a b" and "flushed_as client limit ys b c"
  shows "flushed_as client limit (xs @ ys) a c"
proof -
  obtain p q where p: "answers client limit xs (concat (map fst p))" "b = a @ concat (map snd p)"
      "\<forall>(t, ms) \<in> set p. t \<noteq> [] \<and> (\<exists>m full. buildAsyncBatchPayload client t = Some m \<and> int (length m) \<le> limit \<and>
         carried client m ms full \<and> (reliable client \<longrightarrow> full))"
    and q: "answers client limit ys (concat (map fst q))" "c = b @ concat (map snd q)"
      "\<forall>(t, ms) \<in> set q. t \<noteq> [] \<and> (\<exists>m full. buildAsyncBatchPayload client t = Some m \<and> int (length m) \<le> limit \<and>
         carried client m ms full \<and> (reliable client \<longrightarrow> full))"
    using assms unfolding flushed_as_def by blast
  have "answers client limit (xs @ ys) (concat (map fst (p @ q)))" using answers_append [OF p(1) q(1)] by simp
  moreover have "c = a @ concat (map snd (p @ q))" using p(2) q(2) by simp
  ultimately show ?thesis using p(3) q(3) unfolding flushed_as_def by (intro exI [of _ "p @ q"]) auto
qed

lemma flushed_one:
  assumes "batch \<noteq> []" and "buildAsyncBatchPayload client batch = Some m" and "int (length m) \<le> limit"
    and "limit \<le> MaxTransferBytes" and "send_payload m (recording_client client) (w, before) = (w', after)"
  shows "flushed_as client limit batch before after"
proof -
  obtain ms full where "after = before @ ms" "carried client m ms full" "reliable client \<longrightarrow> full"
    using send_payload_carried [OF _ assms(5)] assms(3,4) by auto
  then show ?thesis using assms answers_self [of client limit batch]
    unfolding flushed_as_def by (intro exI [of _ "[(batch, ms)]"]) auto
qed

lemma flushed_dropped:
  assumes "buildAsyncBatchPayload client [r] = Some m" and "int (length m) > limit"
    and "buildAsyncBatchPayload client [error_result r (int (length m)) limit] = Some e" and "int (length e) > limit"
  shows "flushed_as client limit [r] a a"
  unfolding flushed_as_def using answers.dropped [OF answers.nothing assms] by (intro exI [of _ "[]"]) simp

lemma flushed_replaced:
  assumes "buildAsyncBatchPayload client [r] = Some m" and "int (length m) > limit"
    and "buildAsyncBatchPayload client [error_result r (int (length m)) limit] = Some e" and "int (length e) \<le> limit"
    and "limit \<le> MaxTransferBytes" and "send_payload e (recording_client client) (w, before) = (w', after)"
  shows "flushed_as client limit [r] before after"
proof -
  let ?e = "error_result r (int (length m)) limit"
  obtain ms full where "after = before @ ms" "carried client e ms full" "reliable client \<longrightarrow> full"
    using send_payload_carried [OF _ assms(6)] assms(4,5) by auto
  then show ?thesis using assms answers.replaced [OF answers.nothing assms(1-4)]
    unfolding flushed_as_def by (intro exI [of _ "[([?e], ms)]"]) auto
qed

lemma flush_error_result:
  assumes "buildAsyncBatchPayload client [r] = Some m" and "int (length m) > limit" and "limit \<le> MaxTransferBytes"
    and "flushAsyncBatchBounded [error_result r (int (length m)) limit] (recording_client client) limit True (w, before) =
      (ok, w', after)"
  shows "ok \<and> flushed_as client limit [r] before after"
proof -
  let ?e = "error_result r (int (length m)) limit"
  obtain e where e: "buildAsyncBatchPayload client [?e] = Some e" using build_Some [of "[?e]" client] by auto
  show ?thesis
  proof (cases "int (length e) > limit")
    case True
    then have "ok" "after = before"
      using assms(4) e by (auto simp: flushAsyncBatchBounded.simps flushOversizedAsyncBatch.simps)
    then show ?thesis using flushed_dropped [OF assms(1,2) e True] by simp
  next
    case False
    then have ok: "ok" and s: "send_payload e (recording_client client) (w, before) = (w', after)"
      using assms(4) e by (auto simp: flushAsyncBatchBounded.simps)
    show ?thesis using ok flushed_replaced [OF assms(1,2) e _ assms(3) s] False by simp
  qed
qed

lemma flush_batch:
  assumes lim: "limit \<le> MaxTransferBytes"
  shows "\<forall>r \<in> set batch. buildable client r \<Longrightarrow>
    flushAsyncBatchBounded batch (recording_client client) limit False (w, before) = (ok, w', after) \<Longrightarrow>
    ok \<and> flushed_as client limit batch before after"
proof (induction "length batch" arbitrary: batch w before ok w' after rule: less_induct)
  case less
  show ?case
  proof (cases "batch = []")
    case True
    then have "flushed_as client limit batch before before"
      unfolding flushed_as_def using answers.nothing by (intro exI [of _ "[]"]) simp
    then show ?thesis using True less.prems(2) by (simp add: flushAsyncBatchBounded.simps)
  next
    case False
    obtain m where m: "buildAsyncBatchPayload client batch = Some m" using build_Some [OF less.prems(1)] by blast
    show ?thesis
    proof (cases "int (length m) > limit")
      case small: False
      then have "ok" and s: "send_payload m (recording_client client) (w, before) = (w', after)"
        using less.prems(2) False m by (auto simp: flushAsyncBatchBounded.simps)
      then show ?thesis using flushed_one [OF False m _ lim s] small by simp
    next
      case big: True
      then have over: "flushOversizedAsyncBatch batch (recording_client client) limit (int (length m)) False (w, before) =
          (ok, w', after)" using less.prems(2) False m by (simp add: flushAsyncBatchBounded.simps)
      show ?thesis
      proof (cases "length batch > 1")
        case True
        let ?mid = "length batch div 2"
        obtain ok1 w1 a1 where h1: "flushAsyncBatchBounded (take ?mid batch) (recording_client client) limit False (w, before) =
            (ok1, w1, a1)" by (metis prod_cases3)
        have 1: "ok1 \<and> flushed_as client limit (take ?mid batch) before a1"
          by (rule less.hyps [OF _ _ h1]) (use True less.prems(1) in \<open>auto dest: in_set_takeD\<close>)
        then have h2: "flushAsyncBatchBounded (drop ?mid batch) (recording_client client) limit False (w1, a1) = (ok, w', after)"
          using over True h1 by (simp add: flushOversizedAsyncBatch.simps Let_def)
        have 2: "ok \<and> flushed_as client limit (drop ?mid batch) a1 after"
          by (rule less.hyps [OF _ _ h2]) (use True less.prems(1) in \<open>auto dest: in_set_dropD\<close>)
        show ?thesis using flushed_append [of client limit "take ?mid batch" before a1 "drop ?mid batch" after] 1 2 by simp
      next
        case one: False
        then obtain r where r: "batch = [r]" using False by (cases batch; cases "tl batch") auto
        show ?thesis using flush_error_result [of client r m limit w before ok w' after] m big lim over
          by (simp add: r flushOversizedAsyncBatch.simps)
      qed
    qed
  qed
qed

subsection \<open>Properties\<close>

text \<open>C19. No waiting cell is forgotten. A flush of any batch of results of the right types returns, and what
  the client accepted is a sequence of transfers, none above the transfer limit, whose results are those of the
  batch in order: each once, unchanged, except that one which is too large even alone is replaced by an
  error result for its handle (and left out only when that error does not fit either). A transfer
  that fits the request buffer is one message; a larger one is the frames of one split, in order. A client that
  accepts every call has been given every transfer in full.\<close>

theorem FlushAsyncBatch_answers:
  assumes "\<forall>r \<in> set batch. buildable client r"
    and "FlushAsyncBatch batch (Some (recording_client client)) (w, []) = (ok, w', sent)"
  shows "ok \<and> (\<exists>plan. answers client MaxTransferBytes batch (concat (map fst plan)) \<and> sent = concat (map snd plan) \<and>
    (\<forall>(t, ms) \<in> set plan. t \<noteq> [] \<and> (\<exists>m full. buildAsyncBatchPayload client t = Some m \<and>
       int (length m) \<le> MaxTransferBytes \<and> carried client m ms full \<and> (reliable client \<longrightarrow> full))))"
proof -
  have "flushAsyncBatchBounded batch (recording_client client) MaxTransferBytes False (w, []) = (ok, w', sent)"
    using assms(2) by (auto simp: FlushAsyncBatch_def flushAsyncBatchBounded.simps split: if_splits)
  from flush_batch [OF order_refl assms(1) this] show ?thesis by (simp add: flushed_as_def)
qed

definition demo_async :: "unit async_client" where
  "demo_async = \<lparr>MaxRequestSize = 512, SendGuestCall = (\<lambda>data mt w. (None, w)),
     batch_table = (\<lambda>rs. concat (map fst rs)), chunk_table = (\<lambda>i f. fr_data f), value_text = (\<lambda>v. []),
     fresh_id = (\<lambda>w. (7, w))\<rparr>"

abbreviation demo_result :: "bytes \<Rightarrow> PendingAsyncResult" where
  "demo_result h \<equiv> \<lparr>Handle = h, Val = GoInt32 5, ValType = AnyValueInt, Err = []\<rparr>"

theorem FlushAsyncBatch_answers_witness:
  "fst (FlushAsyncBatch [demo_result [1], demo_result [2]] (Some (recording_client demo_async)) ((), []))"
proof -
  obtain ok w' sent where r: "FlushAsyncBatch [demo_result [1], demo_result [2]] (Some (recording_client demo_async)) ((), [])
      = (ok, w', sent)" by (metis prod_cases3)
  have "\<forall>r \<in> set [demo_result [1], demo_result [2]]. buildable demo_async r"
    by (simp add: buildable_def async_result_def Build_def)
  from FlushAsyncBatch_answers [OF this r] r show ?thesis by simp
qed

text \<open>Splitting keeps siblings of a result that is too large alone: under a limit of three bytes
  (a table of one byte per handle byte), the two small results travel and only the large one is lost, here
  because even its error does not change the size of the handle.\<close>

lemma oversized_sibling_kept:
  "flushAsyncBatchBounded [demo_result [1], demo_result [2, 2, 2, 2], demo_result [3]] (recording_client demo_async) 3 False
     ((), []) = (True, (), [([1], MsgBatchAsyncResponse), ([3], MsgBatchAsyncResponse)])"
  by (simp add: flushAsyncBatchBounded.simps flushOversizedAsyncBatch.simps buildAsyncBatchPayload_def async_result_def
      Build_def demo_async_def send_payload_def sendWithRetry10_def send_loop10.simps recording_client_def
      GuestBudget_def Budget_def geometry_defs Let_def error_result_def oversizedAsyncResultError_def)

text \<open>An error always has a text: on the error path \<open>ErrorMessage\<close> is never the empty string, which
  a consumer could take for success, and it is the error's own text whenever that is not empty.\<close>

lemma ErrorMessage_not_empty:
  "ErrorMessage (Some msg) \<noteq> [] \<and> (msg \<noteq> [] \<longrightarrow> ErrorMessage (Some msg) = msg) \<and> ErrorMessage None = []"
  by (simp add: ErrorMessage_def EmptyErrorMessage_def)

end
