(* ===== verification/Drainer.thy ===== *)
theory Drainer
  imports Main
begin

section \<open>The interface \<open>Drainer\<close> (pkg/server/lifecycle.go)\<close>

text \<open>
  What \<open>Lifecycle\<close> needs of a send path: once its \<open>Stop\<close> has returned true, nothing it owns touches the
  client any more. A send path is a step relation whose states record how often the client has been
  touched and whether \<open>Stop\<close> has returned true; the law is about one step, the lemma about every run.
  The teardown composes such paths, and \<open>Rtd_Gate\<close> and \<open>Async_Batcher\<close> provide them.
\<close>

locale drainer =
  fixes start :: 's
    and step :: "'s \<Rightarrow> 's \<Rightarrow> bool"
    and touched :: "'s \<Rightarrow> nat"
    and stopped_true :: "'s \<Rightarrow> bool"
  assumes quiet_step: "step\<^sup>*\<^sup>* start s \<Longrightarrow> step s t \<Longrightarrow> stopped_true s \<Longrightarrow> stopped_true t \<and> touched t = touched s"
begin

lemma quiet_run:
  assumes "step\<^sup>*\<^sup>* s t" and "step\<^sup>*\<^sup>* start s" and "stopped_true s"
  shows "stopped_true t \<and> touched t = touched s"
  using assms
proof (induction rule: rtranclp_induct)
  case (step t u)
  then have "stopped_true t \<and> touched t = touched s" by blast
  then show ?case using quiet_step [of t u] step.hyps step.prems by (metis rtranclp_trans)
qed simp

end

text \<open>Two send paths side by side, each taking its own steps.\<close>

definition both_step :: "('a \<Rightarrow> 'a \<Rightarrow> bool) \<Rightarrow> ('b \<Rightarrow> 'b \<Rightarrow> bool) \<Rightarrow> 'a \<times> 'b \<Rightarrow> 'a \<times> 'b \<Rightarrow> bool" where
  "both_step R S x y \<longleftrightarrow> R (fst x) (fst y) \<and> snd y = snd x \<or> fst y = fst x \<and> S (snd x) (snd y)"

lemma both_run: "(both_step R S)\<^sup>*\<^sup>* x y \<Longrightarrow> R\<^sup>*\<^sup>* (fst x) (fst y) \<and> S\<^sup>*\<^sup>* (snd x) (snd y)"
  by (induction rule: rtranclp_induct) (auto simp: both_step_def intro: rtranclp.rtrancl_into_rtrancl)

locale two_drainers =
  a: drainer start1 step1 touched1 stopped1 + b: drainer start2 step2 touched2 stopped2
  for start1 :: 'a and step1 touched1 stopped1 and start2 :: 'b and step2 touched2 stopped2

text \<open>Side by side they are a drainer again, stopped when both are.\<close>

sublocale two_drainers \<subseteq> pair: drainer "(start1, start2)" "both_step step1 step2"
  "\<lambda>s. touched1 (fst s) + touched2 (snd s)" "\<lambda>s. stopped1 (fst s) \<and> stopped2 (snd s)"
proof (unfold_locales)
  fix s t
  assume reach: "(both_step step1 step2)\<^sup>*\<^sup>* (start1, start2) s" and step: "both_step step1 step2 s t"
    and stopped: "stopped1 (fst s) \<and> stopped2 (snd s)"
  from both_run [OF reach] have "step1\<^sup>*\<^sup>* start1 (fst s)" "step2\<^sup>*\<^sup>* start2 (snd s)" by simp_all
  then show "(stopped1 (fst t) \<and> stopped2 (snd t)) \<and> touched1 (fst t) + touched2 (snd t) = touched1 (fst s) + touched2 (snd s)"
    using step stopped a.quiet_step [of "fst s" "fst t"] b.quiet_step [of "snd s" "snd t"]
    unfolding both_step_def by auto
qed

end
