(* ===== verification/Async_Batcher.thy ===== *)
theory Async_Batcher
  imports Async_Flush Drainer "HOL-Library.Multiset"
begin

section \<open>The async batch worker (pkg/server/batcher.go)\<close>

text \<open>
  \<open>AsyncBatcher\<close> is a queue of 1024 slots, a worker that collects up to 256 results and flushes them, and a
  shutdown gate. Callers of \<open>QueueResult\<close> and \<open>Stop\<close> and the worker run concurrently, so the component is
  a step relation. A step is one channel or atomic operation: \<open>QueueResult\<close> first loads the flag and
  enqueues in a second step, \<open>Stop\<close> latches the flag before it closes the channel, and the worker's program
  counter says at which select it is. What a flush does is \<open>FlushAsyncBatch\<close> on a client that records the
  calls it accepted; while it runs the worker may touch the client any number of times. The generated
  server starts one worker. \<open>Stop\<close>'s verdict is recorded when it is decided.
\<close>

record AsyncBatcher =
  queue :: "PendingAsyncResult list"
  ab_stopped :: bool
  stop_closed :: bool
  started :: bool
  workerDone :: bool

definition queueCap :: nat where "queueCap = 1024"
definition maxBatchSize :: nat where "maxBatchSize = 256"

definition NewAsyncBatcher :: AsyncBatcher where
  "NewAsyncBatcher = \<lparr>queue = [], ab_stopped = False, stop_closed = False, started = False, workerDone = False\<rparr>"

subsection \<open>Operations\<close>

text \<open>The non-blocking send to the queue; and \<open>QueueResult\<close> run without interruption.\<close>

definition try_enqueue :: "PendingAsyncResult \<Rightarrow> AsyncBatcher \<Rightarrow> bool \<times> AsyncBatcher" where
  "try_enqueue r ab =
     (if length (queue ab) < queueCap then (True, ab\<lparr>queue := queue ab @ [r]\<rparr>) else (False, ab))"

definition QueueResult :: "PendingAsyncResult \<Rightarrow> AsyncBatcher \<Rightarrow> bool \<times> AsyncBatcher" where
  "QueueResult r ab = (if ab_stopped ab then (False, ab) else try_enqueue r ab)"

text \<open>\<open>runFlush\<close>: a panic of the flush is recovered, so the worker goes on in either case.\<close>

definition runFlush :: "'w async_client option \<Rightarrow> PendingAsyncResult list \<Rightarrow> 'w \<Rightarrow> 'w" where
  "runFlush client batch w = snd (FlushAsyncBatch batch client w)"

text \<open>The worker: before the goroutine runs, at the top of its loop, in the blocking select, filling a batch,
  inside \<open>flushFunc\<close>, and gone. \<open>select_top\<close> is the non-blocking check at the top.\<close>

datatype worker =
    NotStarted
  | Top
  | Receiving
  | Collecting "PendingAsyncResult list"
  | Flushing "PendingAsyncResult list"
  | Exited

definition select_top :: "AsyncBatcher \<Rightarrow> worker" where
  "select_top ab = (if stop_closed ab then Exited else Receiving)"

text \<open>One round of the loop \<open>drain\<close>.\<close>

definition collect_more :: "PendingAsyncResult list \<Rightarrow> AsyncBatcher \<Rightarrow> worker \<times> AsyncBatcher" where
  "collect_more batch ab =
     (if length batch < maxBatchSize then
        (case queue ab of
           [] \<Rightarrow> (Flushing batch, ab)
         | r # rest \<Rightarrow> (Collecting (batch @ [r]), ab\<lparr>queue := rest\<rparr>))
      else (Flushing batch, ab))"

text \<open>The two statements of the \<open>Once\<close> body of \<open>Stop\<close>.\<close>

definition latch_stop :: "AsyncBatcher \<Rightarrow> AsyncBatcher" where "latch_stop ab = ab\<lparr>ab_stopped := True\<rparr>"
definition close_stop :: "AsyncBatcher \<Rightarrow> AsyncBatcher" where "close_stop ab = ab\<lparr>stop_closed := True\<rparr>"

subsection \<open>Interleavings\<close>

text \<open>The history: results that got into the queue, batches handed to \<open>flushFunc\<close>, touches of
  the client, and what \<open>Stop\<close> calls returned. \<open>submitters\<close> are the \<open>QueueResult\<close> calls between their two
  steps.\<close>

record 'w async_system =
  batcher :: AsyncBatcher
  pc :: worker
  submitters :: "PendingAsyncResult multiset"
  transport :: "'w \<times> (bytes \<times> u32) list"
  enqueued :: "PendingAsyncResult list"
  flushed :: "PendingAsyncResult list list"
  touches :: nat
  verdicts :: "bool list"

definition async_start :: "'w \<Rightarrow> 'w async_system" where
  "async_start w = \<lparr>batcher = NewAsyncBatcher, pc = NotStarted, submitters = {#}, transport = (w, []),
     enqueued = [], flushed = [], touches = 0, verdicts = []\<rparr>"

inductive async_step :: "'w async_client \<Rightarrow> 'w async_system \<Rightarrow> 'w async_system \<Rightarrow> bool" for client where
  load_open: "\<not> ab_stopped (batcher s) \<Longrightarrow> async_step client s (s\<lparr>submitters := add_mset r (submitters s)\<rparr>)"
| enqueue: "submitters s = add_mset r R \<Longrightarrow> try_enqueue r (batcher s) = (ok, ab) \<Longrightarrow>
    async_step client s (s\<lparr>submitters := R, batcher := ab, enqueued := enqueued s @ (if ok then [r] else [])\<rparr>)"
| store_started: "\<not> started (batcher s) \<Longrightarrow>
    async_step client s (s\<lparr>batcher := (batcher s)\<lparr>started := True\<rparr>\<rparr>)"
| spawn: "started (batcher s) \<Longrightarrow> pc s = NotStarted \<Longrightarrow> async_step client s (s\<lparr>pc := Top\<rparr>)"
| check_stop: "pc s = Top \<Longrightarrow> select_top (batcher s) = p \<Longrightarrow> async_step client s (s\<lparr>pc := p\<rparr>)"
| receive: "pc s = Receiving \<Longrightarrow> queue (batcher s) = r # rest \<Longrightarrow>
    async_step client s (s\<lparr>pc := Collecting [r], batcher := (batcher s)\<lparr>queue := rest\<rparr>\<rparr>)"
| receive_stop: "pc s = Receiving \<Longrightarrow> stop_closed (batcher s) \<Longrightarrow> async_step client s (s\<lparr>pc := Exited\<rparr>)"
| fill: "pc s = Collecting batch \<Longrightarrow> collect_more batch (batcher s) = (p, ab) \<Longrightarrow>
    async_step client s (s\<lparr>pc := p, batcher := ab\<rparr>)"
| touch: "pc s = Flushing batch \<Longrightarrow> async_step client s (s\<lparr>touches := touches s + 1\<rparr>)"
| flush: "pc s = Flushing batch \<Longrightarrow>
    async_step client s (s\<lparr>pc := Top, transport := runFlush (Some (recording_client client)) batch (transport s),
      flushed := flushed s @ [batch], touches := touches s + 1\<rparr>)"
| close_done: "pc s = Exited \<Longrightarrow> \<not> workerDone (batcher s) \<Longrightarrow> async_step client s (s\<lparr>batcher := (batcher s)\<lparr>workerDone := True\<rparr>\<rparr>)"
| latch: "\<not> ab_stopped (batcher s) \<Longrightarrow> async_step client s (s\<lparr>batcher := latch_stop (batcher s)\<rparr>)"
| close: "ab_stopped (batcher s) \<Longrightarrow> \<not> stop_closed (batcher s) \<Longrightarrow>
    async_step client s (s\<lparr>batcher := close_stop (batcher s)\<rparr>)"
| stop_unstarted: "stop_closed (batcher s) \<Longrightarrow> \<not> started (batcher s) \<Longrightarrow>
    async_step client s (s\<lparr>verdicts := verdicts s @ [True]\<rparr>)"
| stop_drained: "stop_closed (batcher s) \<Longrightarrow> workerDone (batcher s) \<Longrightarrow>
    async_step client s (s\<lparr>verdicts := verdicts s @ [True]\<rparr>)"
| stop_timeout: "stop_closed (batcher s) \<Longrightarrow> started (batcher s) \<Longrightarrow>
    async_step client s (s\<lparr>verdicts := verdicts s @ [False]\<rparr>)"
| elsewhere: "async_step client s (s\<lparr>transport := (w, snd (transport s))\<rparr>)"

inductive_cases async_stepE: "async_step client s t"

text \<open>The worker's results that are on their way: not yet flushed.\<close>

primrec in_hand :: "worker \<Rightarrow> PendingAsyncResult list" where
  "in_hand NotStarted = []"
| "in_hand Top = []"
| "in_hand Receiving = []"
| "in_hand (Collecting batch) = batch"
| "in_hand (Flushing batch) = batch"
| "in_hand Exited = []"

subsection \<open>Invariant\<close>

definition async_ok :: "'w async_client \<Rightarrow> 'w async_system \<Rightarrow> bool" where
  "async_ok client s \<longleftrightarrow>
     length (queue (batcher s)) \<le> queueCap \<and>
     length (in_hand (pc s)) \<le> maxBatchSize \<and> (\<forall>b. pc s = Collecting b \<or> pc s = Flushing b \<longrightarrow> b \<noteq> []) \<and>
     (\<forall>b \<in> set (flushed s). b \<noteq> [] \<and> length b \<le> maxBatchSize) \<and>
     enqueued s = concat (flushed s) @ in_hand (pc s) @ queue (batcher s) \<and>
     ((\<forall>r \<in> set (enqueued s). buildable client r) \<longrightarrow>
        flushed_as client MaxTransferBytes (concat (flushed s)) [] (snd (transport s)))"

text \<open>The shutdown part of the state.\<close>

definition stop_ok :: "'w async_system \<Rightarrow> bool" where
  "stop_ok s \<longleftrightarrow>
     (stop_closed (batcher s) \<longrightarrow> ab_stopped (batcher s)) \<and>
     (workerDone (batcher s) \<longrightarrow> pc s = Exited) \<and>
     (\<not> started (batcher s) \<longrightarrow> pc s = NotStarted) \<and>
     (True \<in> set (verdicts s) \<longrightarrow> stop_closed (batcher s) \<and> pc s \<in> {NotStarted, Top, Exited})"

lemmas batcher_ops = try_enqueue_def select_top_def collect_more_def latch_stop_def close_stop_def

lemma stop_ok_step: "async_step client s t \<Longrightarrow> stop_ok s \<Longrightarrow> stop_ok t"
  by (induction rule: async_step.induct)
     (auto simp: stop_ok_def batcher_ops split: if_splits list.splits)

lemma runFlush_flushed:
  assumes "\<forall>r \<in> set batch. buildable client r"
  shows "flushed_as client MaxTransferBytes batch before
    (snd (runFlush (Some (recording_client client)) batch (w, before)))"
proof -
  obtain ok w' after where f: "flushAsyncBatchBounded batch (recording_client client) MaxTransferBytes False (w, before) =
      (ok, w', after)" by (metis prod_cases3)
  have "FlushAsyncBatch batch (Some (recording_client client)) (w, before) = (ok, w', after)"
    using f by (auto simp: FlushAsyncBatch_def flushAsyncBatchBounded.simps)
  then show ?thesis using flush_batch [OF order_refl assms f] by (simp add: runFlush_def)
qed

lemma async_ok_flush:
  assumes "async_ok client s" and "pc s = Flushing batch"
  shows "async_ok client (s\<lparr>pc := Top, transport := runFlush (Some (recording_client client)) batch (transport s),
    flushed := flushed s @ [batch], touches := touches s + 1\<rparr>)"
proof -
  obtain w before where t: "transport s = (w, before)" by fastforce
  have "flushed_as client MaxTransferBytes (concat (flushed s) @ batch) []
      (snd (runFlush (Some (recording_client client)) batch (transport s)))"
    if "\<forall>r \<in> set (enqueued s). buildable client r"
  proof -
    have "flushed_as client MaxTransferBytes (concat (flushed s)) [] before" and "\<forall>r \<in> set batch. buildable client r"
      using assms that t by (simp_all add: async_ok_def)
    from flushed_append [OF this(1) runFlush_flushed [OF this(2)]] show ?thesis unfolding t .
  qed
  then show ?thesis using assms by (simp add: async_ok_def)
qed

lemma collect_moreE:
  assumes "collect_more batch ab = (p, ab')"
  obtains (full) "p = Flushing batch" "ab' = ab"
    | (more) r rest where "length batch < maxBatchSize" "queue ab = r # rest" "p = Collecting (batch @ [r])"
        "ab' = ab\<lparr>queue := rest\<rparr>"
  using assms by (auto simp: collect_more_def split: if_splits list.splits)

lemma async_ok_fill:
  assumes ok: "async_ok client s" and pc: "pc s = Collecting batch" and c: "collect_more batch (batcher s) = (p, ab)"
  shows "async_ok client (s\<lparr>pc := p, batcher := ab\<rparr>)"
  using c
proof (cases rule: collect_moreE)
  case full
  show ?thesis using ok pc unfolding async_ok_def full by simp
next
  case (more r rest)
  have "enqueued s = concat (flushed s) @ (batch @ [r]) @ rest" using ok pc more(2) by (simp add: async_ok_def)
  then show ?thesis using ok pc more(1,2) unfolding async_ok_def more(3,4) by simp
qed

lemma async_ok_step: "async_step client s t \<Longrightarrow> async_ok client s \<Longrightarrow> async_ok client t"
proof (induction rule: async_step.induct)
  case (enqueue s r R ok ab)
  then show ?case by (auto simp: async_ok_def try_enqueue_def split: if_splits)
next
  case (fill s batch p ab)
  then show ?case by (intro async_ok_fill)
next
  case (flush s batch)
  then show ?case by (rule async_ok_flush [rotated])
next
  case (check_stop s p)
  have "p = Exited \<or> p = Receiving" using check_stop(2) by (auto simp: select_top_def split: if_splits)
  then show ?case using check_stop(1,3) unfolding async_ok_def by (elim disjE) simp_all
next
  case (receive s r rest)
  then show ?case by (simp add: async_ok_def maxBatchSize_def)
qed (simp_all add: async_ok_def latch_stop_def close_stop_def)

lemma async_start_ok: "async_ok client (async_start w)" "stop_ok (async_start w)"
  using answers.nothing
  by (auto simp: async_ok_def stop_ok_def async_start_def NewAsyncBatcher_def flushed_as_def intro!: exI [of _ "[]"])

lemma async_run_ok:
  assumes "(async_step client)\<^sup>*\<^sup>* (async_start w) s"
  shows "async_ok client s" "stop_ok s"
  using assms by (induction rule: rtranclp_induct) (blast intro: async_start_ok async_ok_step stop_ok_step)+

text \<open>After \<open>Stop\<close> returned true the worker does nothing but exit.\<close>

interpretation async_path: drainer "async_start w" "async_step client" touches "\<lambda>s. True \<in> set (verdicts s)"
  for client :: "'w async_client" and w
proof
  fix s t :: "'w async_system"
  assume "(async_step client)\<^sup>*\<^sup>* (async_start w) s" and step: "async_step client s t" and v: "True \<in> set (verdicts s)"
  then have "stop_ok s" by (auto dest: async_run_ok(2))
  with step v show "True \<in> set (verdicts t) \<and> touches t = touches s"
    by (cases rule: async_stepE) (auto simp: stop_ok_def)
qed

subsection \<open>Properties\<close>

text \<open>C12. Results travel in the order they were queued, and none is lost between the queue and the wire. In every
  interleaving, what got into the queue is exactly what was flushed, then what the worker holds, then what is still
  queued; the queue never exceeds 1024 results and a flush never 256; and what the client accepted are
  transfers that answer the flushed results in order, each handle as \<open>FlushAsyncBatch\<close> promises.\<close>

theorem async_results_in_order:
  assumes "(async_step client)\<^sup>*\<^sup>* (async_start w) s"
  shows "enqueued s = concat (flushed s) @ in_hand (pc s) @ queue (batcher s) \<and>
    length (queue (batcher s)) \<le> 1024 \<and> (\<forall>b \<in> set (flushed s). b \<noteq> [] \<and> length b \<le> 256) \<and>
    ((\<forall>r \<in> set (enqueued s). buildable client r) \<longrightarrow>
       flushed_as client MaxTransferBytes (concat (flushed s)) [] (snd (transport s)))"
  using async_run_ok(1) [OF assms] by (simp add: async_ok_def queueCap_def maxBatchSize_def)

text \<open>Queue a result, let the worker flush it, and stop while a second one is between its two steps.\<close>

definition demo_batcher :: AsyncBatcher where
  "demo_batcher = \<lparr>queue = [], ab_stopped = True, stop_closed = True, started = True, workerDone = True\<rparr>"

definition demo_async_end :: "unit async_system" where
  "demo_async_end = \<lparr>batcher = demo_batcher, pc = Exited, submitters = {#demo_result [2]#},
     transport = ((), [([1], MsgBatchAsyncResponse)]), enqueued = [demo_result [1]],
     flushed = [[demo_result [1]]], touches = 1, verdicts = [True]\<rparr>"

lemma runFlush_demo:
  "runFlush (Some (recording_client demo_async)) [demo_result [1]] ((), []) = ((), [([1], MsgBatchAsyncResponse)])"
  by (simp add: runFlush_def FlushAsyncBatch_def flushAsyncBatchBounded.simps buildAsyncBatchPayload_def async_result_def
      Build_def demo_async_def send_payload_def sendWithRetry10_def send_loop10.simps recording_client_def
      GuestBudget_def Budget_def geometry_defs MaxTransferBytes_def Let_def)

lemma demo_async_run: "(async_step demo_async)\<^sup>*\<^sup>* (async_start ()) demo_async_end"
proof -
  let ?s = "\<lambda>q a c st d p sub ms enq fl t v. \<lparr>batcher = \<lparr>queue = q, ab_stopped = a, stop_closed = c, started = st,
    workerDone = d\<rparr>, pc = p, submitters = sub, transport = ((), ms), enqueued = enq, flushed = fl, touches = t, verdicts = v\<rparr>"
  let ?r = "demo_result [1]" and ?r2 = "demo_result [2]" and ?R = "(async_step demo_async)\<^sup>*\<^sup>* (async_start ())"
  let ?ms = "[([1], MsgBatchAsyncResponse)] :: (bytes \<times> u32) list"
  note advance = rtranclp.rtrancl_into_rtrancl [of "async_step demo_async" "async_start ()"]
  have "?R (?s [] False False False False NotStarted {#} [] [] [] 0 [])"
    by (simp add: async_start_def NewAsyncBatcher_def)
  from advance [OF this store_started] have "?R (?s [] False False True False NotStarted {#} [] [] [] 0 [])" by simp
  from advance [OF this spawn] have "?R (?s [] False False True False Top {#} [] [] [] 0 [])" by simp
  from advance [OF this load_open [of _ _ ?r]] have "?R (?s [] False False True False Top {#?r#} [] [] [] 0 [])" by simp
  from advance [OF this enqueue [of _ ?r "{#}" True "\<lparr>queue = [?r], ab_stopped = False, stop_closed = False,
    started = True, workerDone = False\<rparr>"]]
  have "?R (?s [?r] False False True False Top {#} [] [?r] [] 0 [])" by (simp add: try_enqueue_def queueCap_def)
  from advance [OF this check_stop [of _ Receiving]] have "?R (?s [?r] False False True False Receiving {#} [] [?r] [] 0 [])"
    by (simp add: select_top_def)
  from advance [OF this receive [of _ ?r "[]"]]
  have "?R (?s [] False False True False (Collecting [?r]) {#} [] [?r] [] 0 [])" by simp
  from advance [OF this fill [of _ "[?r]" "Flushing [?r]" "\<lparr>queue = [], ab_stopped = False, stop_closed = False,
    started = True, workerDone = False\<rparr>"]]
  have "?R (?s [] False False True False (Flushing [?r]) {#} [] [?r] [] 0 [])"
    by (simp add: collect_more_def maxBatchSize_def)
  from advance [OF this flush [of _ "[?r]"]]
  have "?R (?s [] False False True False Top {#} ?ms [?r] [[?r]] 1 [])" by (simp add: runFlush_demo)
  from advance [OF this load_open [of _ _ ?r2]] have "?R (?s [] False False True False Top {#?r2#} ?ms [?r] [[?r]] 1 [])" by simp
  from advance [OF this latch] have "?R (?s [] True False True False Top {#?r2#} ?ms [?r] [[?r]] 1 [])"
    by (simp add: latch_stop_def)
  from advance [OF this close] have "?R (?s [] True True True False Top {#?r2#} ?ms [?r] [[?r]] 1 [])"
    by (simp add: close_stop_def)
  from advance [OF this check_stop [of _ Exited]] have "?R (?s [] True True True False Exited {#?r2#} ?ms [?r] [[?r]] 1 [])"
    by (simp add: select_top_def)
  from advance [OF this close_done] have "?R (?s [] True True True True Exited {#?r2#} ?ms [?r] [[?r]] 1 [])" by simp
  from advance [OF this stop_drained] show ?thesis by (simp add: demo_async_end_def demo_batcher_def)
qed

theorem async_results_in_order_witness:
  "flushed_as demo_async MaxTransferBytes [demo_result [1]] [] [([1], MsgBatchAsyncResponse)] \<and>
   length (queue (batcher demo_async_end)) \<le> 1024"
  using async_results_in_order [OF demo_async_run]
  by (simp add: demo_async_end_def demo_batcher_def buildable_def async_result_def Build_def)

text \<open>C13. When \<open>Stop\<close> has returned true, the worker never touches the client again, in every interleaving from
  there on: also when \<open>StartWorker\<close> comes after \<open>Stop\<close>, when results are still queued, and when several callers
  stop at once.\<close>

theorem no_flush_after_stop:
  assumes "(async_step client)\<^sup>*\<^sup>* (async_start w) s" and "True \<in> set (verdicts s)" and "(async_step client)\<^sup>*\<^sup>* s t"
  shows "touches t = touches s \<and> True \<in> set (verdicts t)"
  using async_path.quiet_run [OF assms(3,1,2)] by simp

definition demo_async_late :: "unit async_system" where
  "demo_async_late = demo_async_end\<lparr>submitters := {#}, batcher := demo_batcher\<lparr>queue := [demo_result [2]]\<rparr>,
     enqueued := [demo_result [1], demo_result [2]]\<rparr>"

lemma demo_async_late: "async_step demo_async demo_async_end demo_async_late"
  using enqueue [of demo_async_end "demo_result [2]" "{#}" True "demo_batcher\<lparr>queue := [demo_result [2]]\<rparr>" demo_async]
  by (simp add: demo_async_late_def demo_async_end_def demo_batcher_def try_enqueue_def queueCap_def)

theorem no_flush_after_stop_witness:
  "touches demo_async_late = 1 \<and> queue (batcher demo_async_late) = [demo_result [2]]"
proof -
  have "True \<in> set (verdicts demo_async_end)" by (simp add: demo_async_end_def)
  from no_flush_after_stop [OF demo_async_run this r_into_rtranclp [of "async_step demo_async", OF demo_async_late]]
  show ?thesis by (simp add: demo_async_end_def demo_async_late_def demo_batcher_def)
qed

text \<open>The latch is not a barrier: a caller that has loaded the flag before it was set still gets its result into the
  queue after the worker has exited, where nobody reads it.\<close>

lemma late_result_stranded:
  "\<exists>s t. (async_step demo_async)\<^sup>*\<^sup>* (async_start ()) s \<and> ab_stopped (batcher s) \<and> workerDone (batcher s) \<and>
     async_step demo_async s t \<and> queue (batcher t) = queue (batcher s) @ [demo_result [2]]"
  by (rule exI [of _ demo_async_end], rule exI [of _ demo_async_late])
     (use demo_async_run demo_async_late in \<open>simp add: demo_async_end_def demo_async_late_def demo_batcher_def\<close>)

end
