(* ===== verification/Rtd_Gate.thy ===== *)
theory Rtd_Gate
  imports Rtd_Manager Drainer
begin

section \<open>The shutdown gate under concurrency (pkg/rtd/manager.go)\<close>

text \<open>
  Sends run on goroutines the manager does not own. A sender has claimed the gate with some count
  and may touch the client any number of times (\<open>Sending\<close>); then it gives the count back one by
  one, as the loop of \<open>endSends\<close> does (\<open>Ending\<close>). \<open>Stop\<close> latches the gate and returns true once the
  counter was seen at zero, or false when its timeout comes first. All other methods may run in
  between. A step is one critical section, one use of the client, or one return of \<open>Stop\<close>.
\<close>

datatype sender = Sending rtdClient nat | Ending nat

datatype gate_event = Touched rtdClient | StopReturned bool

record gate =
  manager_of :: RtdManager
  senders :: "sender multiset"
  events :: "gate_event list"

definition gate_start :: gate where
  "gate_start = \<lparr>manager_of = NewRtdManager, senders = {#}, events = []\<rparr>"

text \<open>The methods that leave the gate alone.\<close>

inductive manages :: "RtdManager \<Rightarrow> RtdManager \<Rightarrow> bool" where
  "manages m (Subscribe key tid m)"
| "manages m (fst (Unsubscribe tid m))"
| "manages m (SetClient c m)"
| "manages m (fst (RegisterConnectCancel tid ctx m))"
| "manages m (deregister tid g m)"

inductive gate_step :: "gate \<Rightarrow> gate \<Rightarrow> bool" where
  begin_one: "beginSend (manager_of g) = (Inr c, m) \<Longrightarrow>
    gate_step g (g\<lparr>manager_of := m, senders := add_mset (Sending c 1) (senders g)\<rparr>)"
| begin_many: "0 < n \<Longrightarrow> beginSends n (manager_of g) = (Inr c, m) \<Longrightarrow>
    gate_step g (g\<lparr>manager_of := m, senders := add_mset (Sending c n) (senders g)\<rparr>)"
| touch: "Sending c n \<in># senders g \<Longrightarrow> gate_step g (g\<lparr>events := events g @ [Touched c]\<rparr>)"
| finish: "senders g = add_mset (Sending c n) S \<Longrightarrow> gate_step g (g\<lparr>senders := add_mset (Ending n) S\<rparr>)"
| release: "senders g = add_mset (Ending (Suc k)) S \<Longrightarrow>
    gate_step g (g\<lparr>manager_of := endSend (manager_of g), senders := add_mset (Ending k) S\<rparr>)"
| latch: "gate_step g (g\<lparr>manager_of := Stop_latch (manager_of g)\<rparr>)"
| drained: "stopped (manager_of g) \<Longrightarrow> sendWG (manager_of g) = 0 \<Longrightarrow>
    gate_step g (g\<lparr>events := events g @ [StopReturned True]\<rparr>)"
| timed_out: "stopped (manager_of g) \<Longrightarrow> gate_step g (g\<lparr>events := events g @ [StopReturned False]\<rparr>)"
| manage: "manages (manager_of g) m \<Longrightarrow> gate_step g (g\<lparr>manager_of := m\<rparr>)"

inductive gate_reachable :: "gate \<Rightarrow> bool" where
  gate_begin: "gate_reachable gate_start"
| gate_next: "gate_reachable g \<Longrightarrow> gate_step g h \<Longrightarrow> gate_reachable h"

inductive_cases gate_stepE: "gate_step g h"

primrec weight :: "sender \<Rightarrow> nat" where
  "weight (Sending c n) = n"
| "weight (Ending n) = n"

definition claims :: "sender multiset \<Rightarrow> nat" where
  "claims S = (\<Sum>s \<in># S. weight s)"

lemma claims_simps [simp]: "claims {#} = 0" "claims (add_mset s S) = weight s + claims S"
  by (simp_all add: claims_def)

lemma claims_0: "claims S = 0 \<longleftrightarrow> (\<forall>s \<in># S. weight s = 0)"
  by (simp add: claims_def)

definition quiet_after_stop :: "gate_event list \<Rightarrow> bool" where
  "quiet_after_stop es \<longleftrightarrow> (\<forall>xs ys c. es = xs @ StopReturned True # ys \<longrightarrow> Touched c \<notin> set ys)"

definition gate_ok :: "gate \<Rightarrow> bool" where
  "gate_ok g \<longleftrightarrow> sendWG (manager_of g) = int (claims (senders g)) \<and>
     (\<forall>c n. Sending c n \<in># senders g \<longrightarrow> 0 < n) \<and>
     (StopReturned True \<in> set (events g) \<longrightarrow>
        stopped (manager_of g) \<and> (\<forall>c n. Sending c n \<notin># senders g)) \<and>
     quiet_after_stop (events g)"

lemma quiet_snoc:
  "quiet_after_stop (es @ [e]) \<longleftrightarrow>
     quiet_after_stop es \<and> (StopReturned True \<in> set es \<longrightarrow> (\<forall>c. e \<noteq> Touched c))"
proof
  assume q: "quiet_after_stop (es @ [e])"
  have "quiet_after_stop es" unfolding quiet_after_stop_def
  proof (intro allI impI)
    fix xs ys c assume "es = xs @ StopReturned True # ys"
    then have "es @ [e] = xs @ StopReturned True # (ys @ [e])" by simp
    then show "Touched c \<notin> set ys" using q unfolding quiet_after_stop_def by fastforce
  qed
  moreover have "e \<noteq> Touched c" if in_es: "StopReturned True \<in> set es" for c
  proof -
    obtain xs ys where "es = xs @ StopReturned True # ys" using split_list [OF in_es] by blast
    then have "es @ [e] = xs @ StopReturned True # (ys @ [e])" by simp
    then have "Touched c \<notin> set (ys @ [e])" using q unfolding quiet_after_stop_def by blast
    then show ?thesis by auto
  qed
  ultimately show "quiet_after_stop es \<and> (StopReturned True \<in> set es \<longrightarrow> (\<forall>c. e \<noteq> Touched c))" by blast
next
  assume q: "quiet_after_stop es \<and> (StopReturned True \<in> set es \<longrightarrow> (\<forall>c. e \<noteq> Touched c))"
  show "quiet_after_stop (es @ [e])" unfolding quiet_after_stop_def
  proof (intro allI impI)
    fix xs ys c assume eq: "es @ [e] = xs @ StopReturned True # ys"
    show "Touched c \<notin> set ys"
    proof (cases ys rule: rev_cases)
      case (snoc ys' y)
      then have "es = xs @ StopReturned True # ys'" "e = y" using eq by auto
      then have "Touched c \<notin> set ys'" "e \<noteq> Touched c" using q unfolding quiet_after_stop_def by auto
      then show ?thesis using snoc \<open>e = y\<close> by auto
    qed simp
  qed
qed

lemma manages_gate: "manages m m' \<Longrightarrow> stopped m' = stopped m \<and> sendWG m' = sendWG m"
  by (induction rule: manages.induct)
     (auto simp: Subscribe_def add_id_def Unsubscribe_def Let_def SetClient_def RegisterConnectCancel_def
       deregister_def split: option.split)

lemma beginSends_Inr:
  "beginSends n m = (Inr c, m') \<Longrightarrow> \<not> stopped m \<and> client m = Some c \<and> m' = m\<lparr>sendWG := sendWG m + int n\<rparr>"
  by (auto simp: beginSends_def split: if_splits option.splits)

lemma beginSend_Inr:
  "beginSend m = (Inr c, m') \<Longrightarrow> \<not> stopped m \<and> client m = Some c \<and> m' = m\<lparr>sendWG := sendWG m + int 1\<rparr>"
  by (auto simp: beginSend_def split: if_splits option.splits)

lemma gate_claim:
  assumes "gate_ok g" and "0 < n" and "\<not> stopped (manager_of g)"
  shows "gate_ok (g\<lparr>manager_of := (manager_of g)\<lparr>sendWG := sendWG (manager_of g) + int n\<rparr>,
    senders := add_mset (Sending c n) (senders g)\<rparr>)"
  using assms unfolding gate_ok_def by auto

lemma gate_ok_step: "gate_step g h \<Longrightarrow> gate_ok g \<Longrightarrow> gate_ok h"
proof (induction rule: gate_step.induct)
  case (begin_one g c m)
  then show ?case using gate_claim [of g 1 c] beginSend_Inr [OF begin_one.hyps] by simp
next
  case (begin_many n g c m)
  then show ?case using gate_claim [of g n c] beginSends_Inr [OF begin_many.hyps(2)] by simp
next
  case (touch c n g)
  then show ?case by (auto simp: gate_ok_def quiet_snoc)
next
  case (finish g c n S)
  then show ?case by (auto simp: gate_ok_def)
next
  case (release g k S)
  then show ?case by (auto simp: gate_ok_def endSend_def)
next
  case (latch g)
  then show ?case by (auto simp: gate_ok_def Stop_latch_def)
next
  case (drained g)
  have "Sending c n \<notin># senders g" for c n
  proof
    assume s: "Sending c n \<in># senders g"
    have "claims (senders g) = 0" using drained by (simp add: gate_ok_def)
    then have "weight (Sending c n) = 0" using s unfolding claims_0 by blast
    then show False using s drained.prems by (auto simp: gate_ok_def)
  qed
  then show ?case using drained by (auto simp: gate_ok_def quiet_snoc)
next
  case (timed_out g)
  then show ?case by (auto simp: gate_ok_def quiet_snoc)
next
  case (manage g m)
  then show ?case using manages_gate [OF manage.hyps] by (simp add: gate_ok_def)
qed

lemma gate_ok_start: "gate_ok gate_start"
  by (simp add: gate_start_def gate_ok_def NewRtdManager_def quiet_after_stop_def)

lemma gate_ok_reachable: "gate_reachable g \<Longrightarrow> gate_ok g"
  by (induction rule: gate_reachable.induct) (blast intro: gate_ok_start gate_ok_step)+

text \<open>C10. No use after unmap. In every interleaving of sends, subscriptions and shutdown: once \<open>Stop\<close> has
  returned true no goroutine touches the client again, so its caller may unmap the shared memory; the
  wait group never goes negative (which would panic), and it is zero exactly when every claim was given back.\<close>

theorem no_touch_after_stop:
  assumes "gate_reachable g"
  shows "(\<forall>xs ys c. events g = xs @ StopReturned True # ys \<longrightarrow> Touched c \<notin> set ys) \<and>
    0 \<le> sendWG (manager_of g) \<and>
    (sendWG (manager_of g) = 0 \<longleftrightarrow> (\<forall>s \<in># senders g. s = Ending 0))"
proof -
  have ok: "gate_ok g" by (rule gate_ok_reachable [OF assms])
  note claims_0 [of "senders g"]
  moreover have "weight s = 0 \<longleftrightarrow> s = Ending 0" if "s \<in># senders g" for s
    using ok that by (cases s) (auto simp: gate_ok_def)
  ultimately show ?thesis using ok unfolding gate_ok_def quiet_after_stop_def by auto
qed

text \<open>A send that has touched the client and returned, then a shutdown.\<close>

definition demo_gate :: gate where
  "demo_gate = \<lparr>manager_of = NewRtdManager\<lparr>client := Some demo_client, stopped := True\<rparr>, senders = {#Ending 0#},
     events = [Touched demo_client, StopReturned True]\<rparr>"

lemma demo_gate_reachable: "gate_reachable demo_gate"
proof -
  let ?m = "NewRtdManager\<lparr>client := Some demo_client\<rparr>" and ?c = demo_client
  let ?g = "\<lambda>m S es. \<lparr>manager_of = m, senders = S, events = es\<rparr>"
  note defs = NewRtdManager_def SetClient_def gate_start_def beginSend_def endSend_def Stop_latch_def
  have "gate_reachable (?g ?m {#} [])"
    using gate_next [OF gate_begin manage [OF manages.intros(3) [of _ "Some ?c"]]] by (simp add: defs)
  from gate_next [OF this begin_one [of _ ?c]]
  have "gate_reachable (?g (?m\<lparr>sendWG := 1\<rparr>) {#Sending ?c 1#} [])" by (simp add: defs)
  from gate_next [OF this touch [of ?c 1]]
  have "gate_reachable (?g (?m\<lparr>sendWG := 1\<rparr>) {#Sending ?c 1#} [Touched ?c])" by simp
  from gate_next [OF this finish [of _ ?c 1]]
  have "gate_reachable (?g (?m\<lparr>sendWG := 1\<rparr>) {#Ending 1#} [Touched ?c])" by simp
  from gate_next [OF this release [of _ 0]]
  have "gate_reachable (?g ?m {#Ending 0#} [Touched ?c])" by (simp add: defs)
  from gate_next [OF this latch]
  have "gate_reachable (?g (?m\<lparr>stopped := True\<rparr>) {#Ending 0#} [Touched ?c])" by (simp add: defs)
  from gate_next [OF this drained] show ?thesis by (simp add: demo_gate_def defs)
qed

theorem no_touch_after_stop_witness:
  "quiet_after_stop (events demo_gate) \<and> sendWG (manager_of demo_gate) = 0 \<and>
    events demo_gate = [Touched demo_client, StopReturned True]"
  using no_touch_after_stop [OF demo_gate_reachable] by (simp add: demo_gate_def quiet_after_stop_def)

text \<open>After the latch every send entry point gives up without touching the client or the counter:
  an update, an error update and a grid return \<open>ErrStopped\<close>, and so does a publication unless nobody is
  subscribed; and the transport is as it was.\<close>

lemma stopped_refuses_sends:
  assumes "stopped m"
  shows "SendUpdate io tid v (m, w) = (Some ErrStopped, m, w) \<and>
    SendErrorUpdate io tid v (m, w) = (Some ErrStopped, m, w) \<and>
    SendOnceGrid io key payload (m, w) = (Some ErrStopped, m, w) \<and>
    Publish io key v (m, w) = (if ids_of m key = [] then None else Some ErrStopped, m, w)"
  using assms by (simp add: SendUpdate_def SendErrorUpdate_def SendOnceGrid_def Publish_def beginSend_def
      beginSends_def)

subsection \<open>The gate as a drainer\<close>

definition gate_touches :: "gate \<Rightarrow> nat" where
  "gate_touches g = length (filter (\<lambda>e. case e of Touched c \<Rightarrow> True | StopReturned v \<Rightarrow> False) (events g))"

lemma gate_run_reachable: "gate_step\<^sup>*\<^sup>* gate_start g \<Longrightarrow> gate_reachable g"
  by (induction rule: rtranclp_induct) (blast intro: gate_begin gate_next)+

text \<open>A project without RTD has no manager to stop and no RTD sends: \<open>rtd_on\<close> says which it is.\<close>

interpretation rtd_path: drainer gate_start "\<lambda>g h. rtd_on \<and> gate_step g h" gate_touches
  "\<lambda>g. rtd_on \<longrightarrow> StopReturned True \<in> set (events g)" for rtd_on :: bool
proof
  fix g h :: gate
  assume run: "(\<lambda>g h. rtd_on \<and> gate_step g h)\<^sup>*\<^sup>* gate_start g" and step: "rtd_on \<and> gate_step g h"
    and v: "rtd_on \<longrightarrow> StopReturned True \<in> set (events g)"
  have "gate_step\<^sup>*\<^sup>* gate_start g" using run by (rule rtranclp_mono [THEN predicate2D, rotated]) blast
  then have "gate_ok g" by (intro gate_ok_reachable gate_run_reachable)
  with step v show "(rtd_on \<longrightarrow> StopReturned True \<in> set (events h)) \<and> gate_touches h = gate_touches g"
    by (auto elim!: gate_stepE simp: gate_ok_def gate_touches_def)
qed

end
