(* ===== verification/Job_Pool.thy ===== *)
theory Job_Pool
  imports Main "HOL-Library.Multiset"
begin

section \<open>The worker pool (pkg/server/jobpool.go, drain.go)\<close>

text \<open>
  \<open>JobPool\<close> runs user code on a fixed number of workers behind a queue of the same size. A job is a number.
  The operations on the queue are definitions; workers, submitters and drainers interleave, one channel operation
  at a time. A job that panics ends like one that returns, since \<open>run\<close> recovers. \<open>wg\<close> is the wait group's
  counter, which is what \<open>Drain\<close> waits on through \<open>WaitGroupTimeout\<close>.
\<close>

record JobPool =
  jobq :: "nat list"
  cap :: nat
  closed :: bool
  idle :: nat
  running :: "nat multiset"
  wg :: nat

text \<open>The number of processors, \<open>runtime.NumCPU()\<close>, is a parameter.\<close>

definition NewJobPool :: "nat \<Rightarrow> int \<Rightarrow> JobPool" where
  "NewJobPool numCPU workers =
     (let n = (if workers \<le> 0 then numCPU else nat workers)
      in \<lparr>jobq = [], cap = n, closed = False, idle = n, running = {#}, wg = n\<rparr>)"

text \<open>A send to the closed queue panics, which the deferred function turns into False.\<close>

definition Submit :: "nat \<Rightarrow> JobPool \<Rightarrow> bool \<times> JobPool" where
  "Submit job p =
     (if closed p then (False, p)
      else if length (jobq p) < cap p then (True, p\<lparr>jobq := jobq p @ [job]\<rparr>)
      else (False, p))"

text \<open>The worker loop \<open>for job := range p.queue\<close>: take a job, run it, or leave when the queue is closed and empty.\<close>

definition take_job :: "JobPool \<Rightarrow> JobPool option" where
  "take_job p =
     (case jobq p of
        [] \<Rightarrow> None
      | job # rest \<Rightarrow>
          if idle p = 0 then None
          else Some (p\<lparr>jobq := rest, idle := idle p - 1, running := add_mset job (running p)\<rparr>))"

definition end_job :: "nat \<Rightarrow> JobPool \<Rightarrow> JobPool option" where
  "end_job job p =
     (if job \<in># running p then Some (p\<lparr>running := running p - {#job#}, idle := idle p + 1\<rparr>) else None)"

definition leave :: "JobPool \<Rightarrow> JobPool option" where
  "leave p =
     (if closed p \<and> jobq p = [] \<and> 0 < idle p then Some (p\<lparr>idle := idle p - 1, wg := wg p - 1\<rparr>) else None)"

text \<open>\<open>Drain\<close>: close the queue once; then the verdict of \<open>WaitGroupTimeout\<close>, true only with the counter at zero.\<close>

definition close_queue :: "JobPool \<Rightarrow> JobPool" where "close_queue p = p\<lparr>closed := True\<rparr>"

definition WaitGroupTimeout :: "nat \<Rightarrow> bool set" where
  "WaitGroupTimeout n = (if n = 0 then {True, False} else {False})"

subsection \<open>Interleavings\<close>

record pool_system =
  pool :: JobPool
  accepted :: "nat list"
  finished :: "nat multiset"
  drains :: "bool list"

definition pool_start :: "nat \<Rightarrow> int \<Rightarrow> pool_system" where
  "pool_start numCPU workers =
     \<lparr>pool = NewJobPool numCPU workers, accepted = [], finished = {#}, drains = []\<rparr>"

inductive worker_step :: "pool_system \<Rightarrow> pool_system \<Rightarrow> bool" where
  begins: "take_job (pool s) = Some p \<Longrightarrow> worker_step s (s\<lparr>pool := p\<rparr>)"
| ends: "end_job job (pool s) = Some p \<Longrightarrow> worker_step s (s\<lparr>pool := p, finished := add_mset job (finished s)\<rparr>)"
| leaves: "leave (pool s) = Some p \<Longrightarrow> worker_step s (s\<lparr>pool := p\<rparr>)"

inductive pool_step :: "pool_system \<Rightarrow> pool_system \<Rightarrow> bool" where
  submit: "Submit job (pool s) = (ok, p) \<Longrightarrow>
    pool_step s (s\<lparr>pool := p, accepted := accepted s @ (if ok then [job] else [])\<rparr>)"
| work: "worker_step s t \<Longrightarrow> pool_step s t"
| drain_close: "pool_step s (s\<lparr>pool := close_queue (pool s)\<rparr>)"
| drain_verdict: "closed (pool s) \<Longrightarrow> v \<in> WaitGroupTimeout (wg (pool s)) \<Longrightarrow> pool_step s (s\<lparr>drains := drains s @ [v]\<rparr>)"

text \<open>\<open>n\<close> is the number of workers.\<close>

definition pool_ok :: "nat \<Rightarrow> pool_system \<Rightarrow> bool" where
  "pool_ok n s \<longleftrightarrow>
     cap (pool s) = n \<and> length (jobq (pool s)) \<le> n \<and>
     wg (pool s) = idle (pool s) + size (running (pool s)) \<and> wg (pool s) \<le> n \<and>
     mset (accepted s) = finished s + running (pool s) + mset (jobq (pool s)) \<and>
     (wg (pool s) < n \<longrightarrow> closed (pool s) \<and> jobq (pool s) = []) \<and>
     (True \<in> set (drains s) \<longrightarrow> wg (pool s) = 0)"

lemma take_job_Some:
  "take_job p = Some q \<longleftrightarrow> (\<exists>job rest. jobq p = job # rest \<and> 0 < idle p \<and>
     q = p\<lparr>jobq := rest, idle := idle p - 1, running := add_mset job (running p)\<rparr>)"
  by (auto simp: take_job_def split: list.splits)

lemma end_job_Some:
  "end_job job p = Some q \<longleftrightarrow> job \<in># running p \<and> q = p\<lparr>running := running p - {#job#}, idle := idle p + 1\<rparr>"
  by (auto simp: end_job_def)

lemma leave_Some:
  "leave p = Some q \<longleftrightarrow> closed p \<and> jobq p = [] \<and> 0 < idle p \<and> q = p\<lparr>idle := idle p - 1, wg := wg p - 1\<rparr>"
  by (auto simp: leave_def)

lemma worker_step_ok: "worker_step s t \<Longrightarrow> pool_ok n s \<Longrightarrow> pool_ok n t"
proof (induction rule: worker_step.induct)
  case (begins s p)
  then show ?case by (auto simp: pool_ok_def take_job_Some)
next
  case (ends job s p)
  from ends(1) obtain R where "running (pool s) = add_mset job R" and "p = (pool s)\<lparr>running := R, idle := idle (pool s) + 1\<rparr>"
    by (auto simp: end_job_Some dest: multi_member_split)
  then show ?case using ends(2) by (auto simp: pool_ok_def)
next
  case (leaves s p)
  then show ?case by (auto simp: pool_ok_def leave_Some)
qed

lemma pool_ok_step: "pool_step s t \<Longrightarrow> pool_ok n s \<Longrightarrow> pool_ok n t"
proof (induction rule: pool_step.induct)
  case (submit job s ok p)
  then show ?case by (auto simp: pool_ok_def Submit_def split: if_splits)
next
  case (work s t)
  then show ?case by (rule worker_step_ok)
next
  case (drain_close s)
  then show ?case by (auto simp: pool_ok_def close_queue_def)
next
  case (drain_verdict s v)
  then show ?case by (auto simp: pool_ok_def WaitGroupTimeout_def split: if_splits)
qed

lemma pool_start_ok: "pool_ok (wg (NewJobPool numCPU workers)) (pool_start numCPU workers)"
  by (simp add: pool_ok_def pool_start_def NewJobPool_def Let_def)

lemma pool_run_ok:
  "pool_step\<^sup>*\<^sup>* (pool_start numCPU workers) s \<Longrightarrow> pool_ok (wg (NewJobPool numCPU workers)) s"
  by (induction rule: rtranclp_induct) (blast intro: pool_start_ok pool_ok_step)+

text \<open>C14. A job that was accepted is run, exactly once. In every interleaving the accepted jobs are those finished,
  those running and those queued; at most as many run, and as many wait, as there are workers; and when \<open>Drain\<close>
  has returned true every accepted job has finished and no worker is left, for good.\<close>

theorem accepted_jobs_finish:
  assumes "0 < numCPU" and "pool_step\<^sup>*\<^sup>* (pool_start numCPU workers) s"
  shows "mset (accepted s) = finished s + running (pool s) + mset (jobq (pool s)) \<and>
    size (running (pool s)) \<le> wg (NewJobPool numCPU workers) \<and>
    length (jobq (pool s)) \<le> wg (NewJobPool numCPU workers) \<and>
    (True \<in> set (drains s) \<longrightarrow> mset (accepted s) = finished s \<and> wg (pool s) = 0)"
proof -
  have "0 < wg (NewJobPool numCPU workers)" using assms(1) by (simp add: NewJobPool_def Let_def)
  then show ?thesis using pool_run_ok [OF assms(2)] by (auto simp: pool_ok_def)
qed

text \<open>One worker: a job is taken, another is queued, the pool is drained.\<close>

definition demo_pool_end :: pool_system where
  "demo_pool_end = \<lparr>pool = \<lparr>jobq = [], cap = 1, closed = True, idle = 0, running = {#}, wg = 0\<rparr>,
     accepted = [7], finished = {#7#}, drains = [True]\<rparr>"

lemma demo_pool_run: "pool_step\<^sup>*\<^sup>* (pool_start 4 1) demo_pool_end"
proof -
  let ?s = "\<lambda>q c i r w acc f d. \<lparr>pool = \<lparr>jobq = q, cap = 1, closed = c, idle = i, running = r, wg = w\<rparr>,
    accepted = acc, finished = f, drains = d\<rparr>"
  note advance = rtranclp.rtrancl_into_rtrancl [of pool_step "pool_start 4 1"]
  have "pool_step\<^sup>*\<^sup>* (pool_start 4 1) (?s [] False 1 {#} 1 [] {#} [])" by (simp add: pool_start_def NewJobPool_def)
  from advance [OF this submit [of 7 _ True "\<lparr>jobq = [7], cap = 1, closed = False, idle = 1, running = {#}, wg = 1\<rparr>"]]
  have "pool_step\<^sup>*\<^sup>* (pool_start 4 1) (?s [7] False 1 {#} 1 [7] {#} [])" by (simp add: Submit_def)
  from advance [OF this work [OF begins [of _ "\<lparr>jobq = [], cap = 1, closed = False, idle = 0, running = {#7#}, wg = 1\<rparr>"]]]
  have "pool_step\<^sup>*\<^sup>* (pool_start 4 1) (?s [] False 0 {#7#} 1 [7] {#} [])" by (simp add: take_job_def)
  from advance [OF this drain_close] have "pool_step\<^sup>*\<^sup>* (pool_start 4 1) (?s [] True 0 {#7#} 1 [7] {#} [])"
    by (simp add: close_queue_def)
  from advance [OF this work [OF ends [of 7 _ "\<lparr>jobq = [], cap = 1, closed = True, idle = 1, running = {#}, wg = 1\<rparr>"]]]
  have "pool_step\<^sup>*\<^sup>* (pool_start 4 1) (?s [] True 1 {#} 1 [7] {#7#} [])" by (simp add: end_job_def)
  from advance [OF this work [OF leaves [of _ "\<lparr>jobq = [], cap = 1, closed = True, idle = 0, running = {#}, wg = 0\<rparr>"]]]
  have "pool_step\<^sup>*\<^sup>* (pool_start 4 1) (?s [] True 0 {#} 0 [7] {#7#} [])" by (simp add: leave_def)
  from advance [OF this drain_verdict [of _ True]] show ?thesis by (simp add: WaitGroupTimeout_def demo_pool_end_def)
qed

theorem accepted_jobs_finish_witness:
  "mset (accepted demo_pool_end) = finished demo_pool_end \<and> drains demo_pool_end = [True]"
  using accepted_jobs_finish [OF _ demo_pool_run] by (simp add: demo_pool_end_def)

end
