(* ===== verification/Lifecycle.thy ===== *)
theory Lifecycle
  imports Async_Batcher Rtd_Gate Job_Pool
begin

section \<open>Teardown (pkg/server/lifecycle.go, run.go)\<close>

text \<open>
  \<open>ShutdownAndClose\<close> may unmap the shared memory only when nothing can touch it any more. The teardown is the
  composition of the two send paths, the job pool and the goroutines that shut down: the one that runs
  \<open>RunAndDrain\<close> and the parent-death watcher. The decisions (\<open>wouldUnmap\<close>, \<open>WatchParentDeath\<close>, the order of
  calls in \<open>RunAndDrain\<close>) are functions; their interleaving is a step relation that counts the touches of the client
  that happen after it was unmapped. A touch by a job stands for the direct use of the client by user code, which the
  comments of jobpool.go and run.go allow for. The operating system is a parameter: whether the parent can be opened,
  how the wait ends.
\<close>

definition AsyncDrainTimeout :: int where "AsyncDrainTimeout = 5000000000"
definition RtdDrainTimeout :: int where "RtdDrainTimeout = 10000000000"
definition JobDrainTimeout :: int where "JobDrainTimeout = 5000000000"

subsection \<open>Decisions\<close>

text \<open>A drainer is what its \<open>Stop\<close> answers for a timeout, or nil.\<close>

definition drain :: "(int \<Rightarrow> bool) option \<Rightarrow> int \<Rightarrow> bool" where
  "drain d timeout = (case d of None \<Rightarrow> True | Some stop \<Rightarrow> stop timeout)"

definition wouldUnmap :: "(int \<Rightarrow> bool) option \<Rightarrow> (int \<Rightarrow> bool) option \<Rightarrow> bool \<Rightarrow> bool" where
  "wouldUnmap async rtd jobDrainFailed =
     (let asyncDrained = drain async AsyncDrainTimeout;
          rtdDrained = drain rtd RtdDrainTimeout;
          jobsDrained = \<not> jobDrainFailed
      in if \<not> asyncDrained \<or> \<not> rtdDrained \<or> \<not> jobsDrained then False else True)"

text \<open>What \<open>WatchParentDeath\<close> ends in, with the parameters \<open>openParent\<close> and \<open>waitOne\<close>; \<open>Reap\<close> runs \<open>onExit\<close> and
  then \<open>Exit(0)\<close>. \<open>WaitForProcessExit\<close> turns the result of the system call into an error.\<close>

datatype ('h, 'e) watch = SkippedNoParent | SkippedDenied 'e | NotReaping 'h 'e | Reap 'h

definition WatchParentDeath :: "int \<Rightarrow> (int \<Rightarrow> 'e + 'h) \<Rightarrow> ('h \<Rightarrow> 'e option) \<Rightarrow> ('h, 'e) watch" where
  "WatchParentDeath parentPID openParent waitOne =
     (if parentPID = 0 then SkippedNoParent
      else (case openParent parentPID of
              Inl e \<Rightarrow> SkippedDenied e
            | Inr h \<Rightarrow> (case waitOne h of Some e \<Rightarrow> NotReaping h e | None \<Rightarrow> Reap h)))"

definition WaitForProcessExit :: "string + int \<Rightarrow> string option" where
  "WaitForProcessExit ev =
     (case ev of
        Inl e \<Rightarrow> Some e
      | Inr v \<Rightarrow> if v = 4294967295 then Some ''WaitForSingleObject returned WAIT_FAILED'' else None)"

text \<open>The calls of \<open>RunAndDrain\<close> in order: whether \<open>Start\<close> fails, and what the pool's \<open>Drain\<close> answers, if there is a
  pool and a lifecycle.\<close>

datatype run_call = CallHandle | CallStart | Panic | CallWait | CallDrain int | CallMark

definition RunAndDrain :: "bool \<Rightarrow> (int \<Rightarrow> bool) option \<Rightarrow> bool \<Rightarrow> run_call list" where
  "RunAndDrain start_fails jobs has_lc =
     [CallHandle, CallStart] @
     (if start_fails then [Panic]
      else CallWait #
        (case jobs of
           None \<Rightarrow> []
         | Some Drain \<Rightarrow>
             CallDrain JobDrainTimeout #
             (if \<not> Drain JobDrainTimeout then (if has_lc then [CallMark] else []) else [])))"

subsection \<open>Interleavings\<close>

text \<open>The goroutine of \<open>Serve\<close> (before \<open>Wait\<close> returns, inside \<open>Drain\<close>, after a timeout but before the mark, after
  \<open>RunAndDrain\<close>) and the one that runs \<open>ShutdownAndClose\<close>: \<open>Closing\<close> when it has closed the channel, then with
  the verdicts it has.\<close>

datatype serving = Serving | Draining | DrainTimedOut | Returned

datatype closing = NotCalled | Closing | AsyncDone bool | BothDone bool bool | Skipped | Unmapped

record 'w teardown =
  paths :: "'w async_system \<times> gate"
  jobs :: pool_system
  serve :: serving
  close_pc :: closing
  parent_died :: bool
  jobDrainFailed :: bool
  late_sends :: nat
  late_jobs :: nat

definition path_touches :: "'w async_system \<times> gate \<Rightarrow> nat" where
  "path_touches p = touches (fst p) + gate_touches (snd p)"

abbreviation paths_step :: "'w async_client \<Rightarrow> bool \<Rightarrow> 'w async_system \<times> gate \<Rightarrow> 'w async_system \<times> gate \<Rightarrow> bool" where
  "paths_step c rtd_on \<equiv> both_step (async_step c) (\<lambda>g h. rtd_on \<and> gate_step g h)"

text \<open>The record of the late touches.\<close>

definition note_sends :: "'w teardown \<Rightarrow> nat \<Rightarrow> nat" where
  "note_sends s n = late_sends s + (if close_pc s = Unmapped then n else 0)"

definition teardown_start :: "'w \<Rightarrow> nat \<Rightarrow> int \<Rightarrow> 'w teardown" where
  "teardown_start w numCPU workers =
     \<lparr>paths = (async_start w, gate_start), jobs = pool_start numCPU workers, serve = Serving, close_pc = NotCalled,
      parent_died = False, jobDrainFailed = False, late_sends = 0, late_jobs = 0\<rparr>"

text \<open>Dispatch (and with it \<open>Submit\<close>) runs until \<open>Wait\<close> returns. The verdicts of the two drains are those their
  \<open>Stop\<close> recorded in the step; the mark comes after the timeout, in the goroutine of \<open>Serve\<close>.\<close>

inductive teardown_step :: "'w async_client \<Rightarrow> bool \<Rightarrow> 'w teardown \<Rightarrow> 'w teardown \<Rightarrow> bool" for c rtd_on where
  send_path: "paths_step c rtd_on (paths s) p \<Longrightarrow>
    teardown_step c rtd_on s (s\<lparr>paths := p, late_sends := note_sends s (path_touches p - path_touches (paths s))\<rparr>)"
| submit_job: "serve s = Serving \<Longrightarrow> Submit job (pool (jobs s)) = (ok, p) \<Longrightarrow>
    teardown_step c rtd_on s
      (s\<lparr>jobs := (jobs s)\<lparr>pool := p, accepted := accepted (jobs s) @ (if ok then [job] else [])\<rparr>\<rparr>)"
| job_work: "worker_step (jobs s) j \<Longrightarrow> teardown_step c rtd_on s (s\<lparr>jobs := j\<rparr>)"
| job_touch: "running (pool (jobs s)) \<noteq> {#} \<Longrightarrow>
    teardown_step c rtd_on s (s\<lparr>late_jobs := late_jobs s + (if close_pc s = Unmapped then 1 else 0)\<rparr>)"
| wait_returns: "serve s = Serving \<Longrightarrow>
    teardown_step c rtd_on s (s\<lparr>serve := Draining, jobs := (jobs s)\<lparr>pool := close_queue (pool (jobs s))\<rparr>\<rparr>)"
| drain_verdict: "serve s = Draining \<Longrightarrow> v \<in> WaitGroupTimeout (wg (pool (jobs s))) \<Longrightarrow>
    teardown_step c rtd_on s (s\<lparr>serve := (if v then Returned else DrainTimedOut), jobs := (jobs s)\<lparr>drains := drains (jobs s) @ [v]\<rparr>\<rparr>)"
| mark: "serve s = DrainTimedOut \<Longrightarrow> teardown_step c rtd_on s (s\<lparr>serve := Returned, jobDrainFailed := True\<rparr>)"
| parent_exit: "(WatchParentDeath pid openParent waitOne :: (nat, string) watch) = Reap h \<Longrightarrow>
    teardown_step c rtd_on s (s\<lparr>parent_died := True\<rparr>)"
| shutdown: "serve s = Returned \<or> parent_died s \<Longrightarrow> close_pc s = NotCalled \<Longrightarrow>
    teardown_step c rtd_on s (s\<lparr>close_pc := Closing\<rparr>)"
| async_drained: "close_pc s = Closing \<Longrightarrow> async_step c (fst (paths s)) a \<Longrightarrow> verdicts a = verdicts (fst (paths s)) @ [v] \<Longrightarrow>
    teardown_step c rtd_on s (s\<lparr>paths := (a, snd (paths s)), close_pc := AsyncDone v\<rparr>)"
| rtd_drained: "close_pc s = AsyncDone av \<Longrightarrow> rtd_on \<Longrightarrow> gate_step (snd (paths s)) g \<Longrightarrow>
    events g = events (snd (paths s)) @ [StopReturned v] \<Longrightarrow>
    teardown_step c rtd_on s (s\<lparr>paths := (fst (paths s), g), close_pc := BothDone av v\<rparr>)"
| rtd_nil: "close_pc s = AsyncDone av \<Longrightarrow> \<not> rtd_on \<Longrightarrow> teardown_step c rtd_on s (s\<lparr>close_pc := BothDone av True\<rparr>)"
| decide: "close_pc s = BothDone av rv \<Longrightarrow>
    teardown_step c rtd_on s (s\<lparr>close_pc :=
      (if wouldUnmap (Some (\<lambda>t. av)) (if rtd_on then Some (\<lambda>t. rv) else None) (jobDrainFailed s) then Unmapped else Skipped)\<rparr>)"

inductive_cases teardown_stepE: "teardown_step c rtd_on s t"

subsection \<open>The send paths\<close>

text \<open>Both paths together, as one drainer.\<close>

interpretation sends: two_drainers "async_start w" "async_step c" touches "\<lambda>s. True \<in> set (verdicts s)"
    gate_start "\<lambda>g h. rtd_on \<and> gate_step g h" gate_touches "\<lambda>g. rtd_on \<longrightarrow> StopReturned True \<in> set (events g)"
  for c :: "'w async_client" and w rtd_on
  by unfold_locales

definition async_stopped :: "'w teardown \<Rightarrow> bool" where
  "async_stopped s \<longleftrightarrow> True \<in> set (verdicts (fst (paths s)))"

definition rtd_stopped :: "bool \<Rightarrow> 'w teardown \<Rightarrow> bool" where
  "rtd_stopped rtd_on s \<longleftrightarrow> (rtd_on \<longrightarrow> StopReturned True \<in> set (events (snd (paths s))))"

primrec verdicts_hold :: "bool \<Rightarrow> bool \<Rightarrow> closing \<Rightarrow> bool" where
  "verdicts_hold a r NotCalled = True"
| "verdicts_hold a r Closing = True"
| "verdicts_hold a r (AsyncDone av) = (av \<longrightarrow> a)"
| "verdicts_hold a r (BothDone av rv) = ((av \<longrightarrow> a) \<and> (rv \<longrightarrow> r))"
| "verdicts_hold a r Skipped = True"
| "verdicts_hold a r Unmapped = (a \<and> r)"

definition sends_ok :: "'w async_client \<Rightarrow> bool \<Rightarrow> 'w \<Rightarrow> 'w teardown \<Rightarrow> bool" where
  "sends_ok c rtd_on w s \<longleftrightarrow>
     (paths_step c rtd_on)\<^sup>*\<^sup>* (async_start w, gate_start) (paths s) \<and>
     verdicts_hold (async_stopped s) (rtd_stopped rtd_on s) (close_pc s) \<and> late_sends s = 0"

lemma verdicts_hold_mono:
  "verdicts_hold a r p \<Longrightarrow> (a \<longrightarrow> a') \<Longrightarrow> (r \<longrightarrow> r') \<Longrightarrow> verdicts_hold a' r' p"
  by (cases p) auto

lemma wouldUnmap_iff: "wouldUnmap (Some (\<lambda>t. av)) rtd failed \<longleftrightarrow> av \<and> drain rtd RtdDrainTimeout \<and> \<not> failed"
  by (simp add: wouldUnmap_def drain_def Let_def)

lemma async_keeps: "async_step c a b \<Longrightarrow> True \<in> set (verdicts a) \<Longrightarrow> True \<in> set (verdicts b)"
  by (erule async_stepE) auto

lemma gate_keeps: "gate_step g h \<Longrightarrow> StopReturned True \<in> set (events g) \<Longrightarrow> StopReturned True \<in> set (events h)"
  by (erule gate_stepE) auto

lemma sends_ok_path:
  assumes "sends_ok c rtd_on w s" and step: "paths_step c rtd_on (paths s) p"
  shows "sends_ok c rtd_on w (s\<lparr>paths := p, late_sends := note_sends s (path_touches p - path_touches (paths s))\<rparr>)"
proof -
  have run: "(paths_step c rtd_on)\<^sup>*\<^sup>* (async_start w, gate_start) (paths s)" using assms(1) by (simp add: sends_ok_def)
  have mono: "(async_stopped s \<longrightarrow> True \<in> set (verdicts (fst p))) \<and>
      (rtd_stopped rtd_on s \<longrightarrow> (rtd_on \<longrightarrow> StopReturned True \<in> set (events (snd p))))"
    using step unfolding both_step_def async_stopped_def rtd_stopped_def by (auto dest: async_keeps gate_keeps)
  have "path_touches p = path_touches (paths s)" if "close_pc s = Unmapped"
  proof -
    have "True \<in> set (verdicts (fst (paths s))) \<and> (rtd_on \<longrightarrow> StopReturned True \<in> set (events (snd (paths s))))"
      using assms(1) that by (simp add: sends_ok_def async_stopped_def rtd_stopped_def)
    from sends.pair.quiet_step [OF run step this] show ?thesis by (simp add: path_touches_def)
  qed
  moreover have "verdicts_hold (True \<in> set (verdicts (fst p))) (rtd_on \<longrightarrow> StopReturned True \<in> set (events (snd p))) (close_pc s)"
    by (rule verdicts_hold_mono [of "async_stopped s" "rtd_stopped rtd_on s"])
      (use assms(1) mono in \<open>unfold sends_ok_def, blast+\<close>)
  ultimately show ?thesis using assms(1) rtranclp.rtrancl_into_rtrancl [OF run step]
    by (simp add: sends_ok_def note_sends_def async_stopped_def rtd_stopped_def)
qed

lemma sends_ok_step: "teardown_step c rtd_on s t \<Longrightarrow> sends_ok c rtd_on w s \<Longrightarrow> sends_ok c rtd_on w t"
proof (induction rule: teardown_step.induct)
  case (send_path s p)
  then show ?case by (rule sends_ok_path [rotated])
next
  case (async_drained s a v)
  have "paths_step c rtd_on (paths s) (a, snd (paths s))" using async_drained(2) by (simp add: both_step_def)
  then show ?case using async_drained(1,3,4)
    by (auto simp: sends_ok_def async_stopped_def intro: rtranclp.rtrancl_into_rtrancl)
next
  case (rtd_drained s av g v)
  have "paths_step c rtd_on (paths s) (fst (paths s), g)" using rtd_drained(2,3) by (simp add: both_step_def)
  then show ?case using rtd_drained(1,4,5)
    by (auto simp: sends_ok_def async_stopped_def rtd_stopped_def intro: rtranclp.rtrancl_into_rtrancl)
next
  case (decide s av rv)
  then show ?case by (simp add: sends_ok_def async_stopped_def rtd_stopped_def wouldUnmap_iff drain_def)
qed (simp_all add: sends_ok_def async_stopped_def rtd_stopped_def)

subsection \<open>The job pool\<close>

definition jobs_ok :: "nat \<Rightarrow> 'w teardown \<Rightarrow> bool" where
  "jobs_ok n s \<longleftrightarrow> pool_ok n (jobs s) \<and>
     (serve s = Returned \<and> \<not> jobDrainFailed s \<longrightarrow> wg (pool (jobs s)) = 0) \<and>
     (\<not> parent_died s \<longrightarrow>
        (close_pc s \<noteq> NotCalled \<longrightarrow> serve s = Returned) \<and> (close_pc s = Unmapped \<longrightarrow> \<not> jobDrainFailed s) \<and>
        late_jobs s = 0)"

lemma drained_pool: "pool_ok n j \<Longrightarrow> wg (pool j) = 0 \<Longrightarrow> running (pool j) = {#} \<and> \<not> worker_step j k"
  by (auto simp: pool_ok_def take_job_Some end_job_Some leave_Some elim!: worker_step.cases)

lemma jobs_ok_step: "teardown_step c rtd_on s t \<Longrightarrow> jobs_ok n s \<Longrightarrow> jobs_ok n t"
proof (induction rule: teardown_step.induct)
  case (submit_job s job ok p)
  then have "pool_step (jobs s) ((jobs s)\<lparr>pool := p, accepted := accepted (jobs s) @ (if ok then [job] else [])\<rparr>)"
    by (intro submit)
  from pool_ok_step [OF this] submit_job show ?case by (auto simp: jobs_ok_def)
next
  case (job_work s j)
  then show ?case using worker_step_ok [OF job_work(1)] drained_pool by (auto simp: jobs_ok_def)
next
  case (job_touch s)
  then show ?case using drained_pool by (auto simp: jobs_ok_def)
next
  case (wait_returns s)
  from pool_ok_step [OF drain_close] wait_returns show ?case by (auto simp: jobs_ok_def)
next
  case (drain_verdict s v)
  then show ?case by (auto simp: jobs_ok_def pool_ok_def WaitGroupTimeout_def split: if_splits)
next
  case (decide s av rv)
  then show ?case by (auto simp: jobs_ok_def wouldUnmap_iff)
qed (auto simp: jobs_ok_def)

subsection \<open>Properties\<close>

lemma teardown_run_ok:
  assumes "(teardown_step c rtd_on)\<^sup>*\<^sup>* (teardown_start w numCPU workers) s"
  shows "sends_ok c rtd_on w s" "jobs_ok (wg (NewJobPool numCPU workers)) s"
  using assms
proof (induction rule: rtranclp_induct)
  case base
  show "sends_ok c rtd_on w (teardown_start w numCPU workers)"
    by (simp add: sends_ok_def teardown_start_def)
  show "jobs_ok (wg (NewJobPool numCPU workers)) (teardown_start w numCPU workers)"
    using pool_start_ok by (simp add: jobs_ok_def teardown_start_def)
qed (blast intro: sends_ok_step jobs_ok_step)+

text \<open>C11. The mapping is never released under a sender. In every interleaving of the two send paths, the job pool and
  both goroutines that may shut down, no async flush and no RTD send touches the client after \<open>ShutdownAndClose\<close>
  unmapped it, and it unmaps only when both drains returned true; and as long as the parent process lives no
  job touches it either, since then the pool has drained first.\<close>

theorem unmap_is_safe:
  assumes "(teardown_step c rtd_on)\<^sup>*\<^sup>* (teardown_start w numCPU workers) s"
  shows "late_sends s = 0 \<and> (\<not> parent_died s \<longrightarrow> late_jobs s = 0) \<and>
    (close_pc s = Unmapped \<longrightarrow> async_stopped s \<and> rtd_stopped rtd_on s \<and>
       (\<not> parent_died s \<longrightarrow> wg (pool (jobs s)) = 0))"
  using teardown_run_ok [OF assms] by (auto simp: sends_ok_def jobs_ok_def)

subsection \<open>Two runs\<close>

abbreviation "demo_async_path a cl vs \<equiv>
  \<lparr>batcher = \<lparr>queue = [], ab_stopped = a, stop_closed = cl, started = False, workerDone = False\<rparr>, pc = NotStarted,
   submitters = {#}, transport = ((), [] :: (bytes \<times> u32) list), enqueued = [], flushed = [], touches = 0, verdicts = vs\<rparr>"

abbreviation "demo_gate_path st es \<equiv>
  \<lparr>manager_of = NewRtdManager\<lparr>stopped := st\<rparr>, senders = {#}, events = es\<rparr>"

text \<open>From a call of \<open>ShutdownAndClose\<close> to the unmap, whatever the pool does, unless its drain failed.\<close>

lemma demo_shutdown:
  assumes "pd \<or> sv = Returned"
  shows "(teardown_step demo_async True)\<^sup>*\<^sup>*
    \<lparr>paths = (demo_async_path False False [], demo_gate_path False []), jobs = j, serve = sv, close_pc = NotCalled,
      parent_died = pd, jobDrainFailed = False, late_sends = 0, late_jobs = 0\<rparr>
    \<lparr>paths = (demo_async_path True True [True], demo_gate_path True [StopReturned True]), jobs = j, serve = sv,
      close_pc = Unmapped, parent_died = pd, jobDrainFailed = False, late_sends = 0, late_jobs = 0\<rparr>"
    (is "?R\<^sup>*\<^sup>* ?start _")
proof -
  let ?s = "\<lambda>p cp. \<lparr>paths = p, jobs = j, serve = sv, close_pc = cp, parent_died = pd, jobDrainFailed = False,
    late_sends = 0, late_jobs = 0\<rparr>"
  let ?A = "demo_async_path" and ?G = "demo_gate_path"
  note advance = rtranclp.rtrancl_into_rtrancl [of ?R ?start]
  note path = send_path [of demo_async True]
  have gate: "gate_touches (?G b es) = gate_touches (?G b' es)" for b b' es by (simp add: gate_touches_def)
  have 1: "?R\<^sup>*\<^sup>* ?start (?s (?A False False [], ?G False []) Closing)"
    using shutdown [of ?start demo_async True] assms by auto
  have "async_step demo_async (?A False False []) (?A True False [])"
    using async_step.latch [of "?A False False []" demo_async] by (simp add: latch_stop_def)
  then have "?R\<^sup>*\<^sup>* ?start (?s (?A True False [], ?G False []) Closing)"
    using advance [OF 1 path [where p = "(?A True False [], ?G False [])"]] by (simp add: both_step_def note_sends_def)
  note 2 = this
  have "async_step demo_async (?A True False []) (?A True True [])"
    using async_step.close [of "?A True False []" demo_async] by (simp add: close_stop_def)
  then have "?R\<^sup>*\<^sup>* ?start (?s (?A True True [], ?G False []) Closing)"
    using advance [OF 2 path [where p = "(?A True True [], ?G False [])"]] by (simp add: both_step_def note_sends_def)
  note 3 = this
  have "async_step demo_async (?A True True []) (?A True True [True])"
    using stop_unstarted [of "?A True True []" demo_async] by simp
  then have "?R\<^sup>*\<^sup>* ?start (?s (?A True True [True], ?G False []) (AsyncDone True))"
    using advance [OF 3 async_drained [where a = "?A True True [True]" and v = True]] by simp
  note 4 = this
  have "gate_step (?G False []) (?G True [])" using gate_step.latch [of "?G False []"] by (simp add: Stop_latch_def)
  then have "?R\<^sup>*\<^sup>* ?start (?s (?A True True [True], ?G True []) (AsyncDone True))"
    using advance [OF 4 path [where p = "(?A True True [True], ?G True [])"]] by (simp add: both_step_def note_sends_def)
  note 5 = this
  have "gate_step (?G True []) (?G True [StopReturned True])"
    using gate_step.drained [of "?G True []"] by (simp add: NewRtdManager_def)
  then have "?R\<^sup>*\<^sup>* ?start (?s (?A True True [True], ?G True [StopReturned True]) (BothDone True True))"
    using advance [OF 5 rtd_drained [where av = True and g = "?G True [StopReturned True]" and v = True]] by simp
  from advance [OF this decide [where av = True and rv = True]] show ?thesis by (simp add: wouldUnmap_iff drain_def)
qed

text \<open>The ordinary exit: the pool of one worker drains, then everything is released.\<close>

abbreviation demo_jobs :: "nat list \<Rightarrow> bool \<Rightarrow> nat \<Rightarrow> nat multiset \<Rightarrow> nat \<Rightarrow> nat list \<Rightarrow> bool list \<Rightarrow> pool_system" where
  "demo_jobs q cl i r n acc d \<equiv> \<lparr>pool = \<lparr>jobq = q, cap = 1, closed = cl, idle = i, running = r, wg = n\<rparr>, accepted = acc,
     finished = {#}, drains = d\<rparr>"

definition demo_unmapped :: "pool_system \<Rightarrow> serving \<Rightarrow> bool \<Rightarrow> nat \<Rightarrow> unit teardown" where
  "demo_unmapped j sv pd late = \<lparr>paths = (demo_async_path True True [True], demo_gate_path True [StopReturned True]),
     jobs = j, serve = sv, close_pc = Unmapped, parent_died = pd, jobDrainFailed = False, late_sends = 0, late_jobs = late\<rparr>"

lemma teardown_start_demo:
  "teardown_start () 1 1 = \<lparr>paths = (demo_async_path False False [], demo_gate_path False []),
     jobs = demo_jobs [] False 1 {#} 1 [] [], serve = Serving, close_pc = NotCalled,
     parent_died = False, jobDrainFailed = False, late_sends = 0, late_jobs = 0\<rparr>"
  by (simp add: teardown_start_def async_start_def NewAsyncBatcher_def gate_start_def NewRtdManager_def pool_start_def
      NewJobPool_def)

lemma demo_normal_exit:
  "(teardown_step demo_async True)\<^sup>*\<^sup>* (teardown_start () 1 1)
     (demo_unmapped (demo_jobs [] True 0 {#} 0 [] [True]) Returned False 0)"
proof -
  let ?R = "(teardown_step demo_async True)\<^sup>*\<^sup>* (teardown_start () 1 1)"
  let ?s = "\<lambda>j sv. \<lparr>paths = (demo_async_path False False [], demo_gate_path False []), jobs = j, serve = sv,
     close_pc = NotCalled, parent_died = False, jobDrainFailed = False, late_sends = 0, late_jobs = 0\<rparr>"
  note advance = rtranclp.rtrancl_into_rtrancl [of "teardown_step demo_async True" "teardown_start () 1 1"]
  have "?R (?s (demo_jobs [] False 1 {#} 1 [] []) Serving)" unfolding teardown_start_demo by (rule rtranclp.rtrancl_refl)
  from advance [OF this wait_returns] have 1: "?R (?s (demo_jobs [] True 1 {#} 1 [] []) Draining)"
    by (simp add: close_queue_def)
  have "worker_step (demo_jobs [] True 1 {#} 1 [] []) (demo_jobs [] True 0 {#} 0 [] [])"
    using leaves [of "demo_jobs [] True 1 {#} 1 [] []"] by (simp add: leave_def)
  with advance [OF 1 job_work] have 2: "?R (?s (demo_jobs [] True 0 {#} 0 [] []) Draining)" by simp
  from advance [OF 2 drain_verdict [where v = True]] have "?R (?s (demo_jobs [] True 0 {#} 0 [] [True]) Returned)"
    by (simp add: WaitGroupTimeout_def)
  from rtranclp_trans [OF this demo_shutdown] show ?thesis by (simp add: demo_unmapped_def)
qed

theorem unmap_is_safe_witness:
  "close_pc (demo_unmapped (demo_jobs [] True 0 {#} 0 [] [True]) Returned False 0) = Unmapped \<and>
   rtd_stopped True (demo_unmapped (demo_jobs [] True 0 {#} 0 [] [True]) Returned False 0)"
  using unmap_is_safe [OF demo_normal_exit] by (simp add: demo_unmapped_def)

text \<open>When the parent dies the watcher calls \<open>ShutdownAndClose\<close> at once, while \<open>RunAndDrain\<close> is still serving: the
  pool is not drained, \<open>jobDrainFailed\<close> is not set, and a running job may touch the client after the unmap.\<close>

lemma parent_death_skips_job_drain:
  "(teardown_step demo_async True)\<^sup>*\<^sup>* (teardown_start () 1 1)
     (demo_unmapped (demo_jobs [] False 0 {#7#} 1 [7] []) Serving True 1)"
proof -
  let ?R = "(teardown_step demo_async True)\<^sup>*\<^sup>* (teardown_start () 1 1)"
  let ?s = "\<lambda>j pd. \<lparr>paths = (demo_async_path False False [], demo_gate_path False []), jobs = j, serve = Serving,
     close_pc = NotCalled, parent_died = pd, jobDrainFailed = False, late_sends = 0, late_jobs = 0\<rparr>"
  note advance = rtranclp.rtrancl_into_rtrancl [of "teardown_step demo_async True" "teardown_start () 1 1"]
  have "?R (?s (demo_jobs [] False 1 {#} 1 [] []) False)" unfolding teardown_start_demo by (rule rtranclp.rtrancl_refl)
  from advance [OF this submit_job [of _ 7 True "pool (demo_jobs [7] False 1 {#} 1 [] [])"]]
  have 1: "?R (?s (demo_jobs [7] False 1 {#} 1 [7] []) False)" by (simp add: Submit_def)
  have "worker_step (demo_jobs [7] False 1 {#} 1 [7] []) (demo_jobs [] False 0 {#7#} 1 [7] [])"
    using begins [of "demo_jobs [7] False 1 {#} 1 [7] []"] by (simp add: take_job_def)
  with advance [OF 1 job_work] have 2: "?R (?s (demo_jobs [] False 0 {#7#} 1 [7] []) False)" by simp
  have "(WatchParentDeath 1 (\<lambda>pid. Inr 0) (\<lambda>h. None) :: (nat, string) watch) = Reap 0"
    by (simp add: WatchParentDeath_def)
  from advance [OF 2 parent_exit [OF this]] have 3: "?R (?s (demo_jobs [] False 0 {#7#} 1 [7] []) True)" by simp
  from rtranclp_trans [OF 3 demo_shutdown]
  have 4: "?R (demo_unmapped (demo_jobs [] False 0 {#7#} 1 [7] []) Serving True 0)" by (simp add: demo_unmapped_def)
  from advance [OF 4 job_touch] show ?thesis by (simp add: demo_unmapped_def)
qed

end
