(* ===== verification/System_Handlers.thy ===== *)
theory System_Handlers
  imports Chunk_Handlers Command_Batcher Rtd_Manager Go_Strings
begin

section \<open>The reference cache and the system messages (pkg/server/refcache.go, refarg.go, handlers.go)\<close>

text \<open>
  The handlers of one calculation cycle and of RTD connects, over the handler's state: the chunk manager, the
  command batcher, the reference cache and the RTD manager. A user's event handler is a parameter: it acts on that
  state and returns, fails or panics (\<open>None\<close> when it does not come back). A goroutine that a handler starts
  is in its result, as the task it runs, and so are the contexts it cancels. The fields of a request are decoded by
  parameters, and responses are built by parameters. Logging is left out.
\<close>

subsection \<open>RefCache\<close>

record RefCache =
  cache :: "(string, bytes) gomap"

definition NewRefCache :: RefCache where "NewRefCache = \<lparr>cache = []\<rparr>"

definition RefCache_Set :: "string \<Rightarrow> bytes \<Rightarrow> RefCache \<Rightarrow> RefCache" where
  "RefCache_Set key v c = c\<lparr>cache := gm_put key v (cache c)\<rparr>"

definition RefCache_Get :: "string \<Rightarrow> RefCache \<Rightarrow> bytes option" where
  "RefCache_Get key c = gm_get (cache c) key"

definition RefCache_Clear :: "RefCache \<Rightarrow> RefCache" where
  "RefCache_Clear c = c\<lparr>cache := []\<rparr>"

subsection \<open>Composite arguments\<close>

text \<open>A cached payload decodes to its \<open>Any\<close>: the union's tag and its table, each if it is there.\<close>

record 't ref_any =
  ref_type :: AnyValue
  ref_table :: "'t option"

datatype ref_error =
    NilCache string
  | NoPayload string
  | NoValue string
  | WrongType string AnyValue
  | EmptyUnion string

definition RefArgTokenPrefix :: string where "RefArgTokenPrefix = ''h:''"

definition CutPrefix :: "string \<Rightarrow> string \<Rightarrow> string option" where
  "CutPrefix s p = (if HasPrefix s p then Some (TrimPrefix s p) else None)"

definition resolveRefAny ::
  "(bytes \<Rightarrow> 't ref_any option) \<Rightarrow> RefCache option \<Rightarrow> string \<Rightarrow> ref_error + 't ref_any" where
  "resolveRefAny ref_val refs token =
     (case refs of
        None \<Rightarrow> Inl (NilCache token)
      | Some c \<Rightarrow>
          (let found = (case RefCache_Get token c of
                 Some data \<Rightarrow> Some (token, data)
               | None \<Rightarrow>
                   (case CutPrefix token RefArgTokenPrefix of
                      None \<Rightarrow> None
                    | Some alt \<Rightarrow> map_option (\<lambda>data. (alt, data)) (RefCache_Get alt c)))
           in case found of
                None \<Rightarrow> Inl (NoPayload token)
              | Some (key, data) \<Rightarrow>
                  (case ref_val data of None \<Rightarrow> Inl (NoValue key) | Some a \<Rightarrow> Inr a)))"

text \<open>The body the three typed resolvers share, each with its own tag.\<close>

definition resolve_typed ::
  "AnyValue \<Rightarrow> (bytes \<Rightarrow> 't ref_any option) \<Rightarrow> RefCache option \<Rightarrow> string \<Rightarrow> ref_error + 't" where
  "resolve_typed want ref_val refs token =
     (case resolveRefAny ref_val refs token of
        Inl e \<Rightarrow> Inl e
      | Inr a \<Rightarrow>
          if ref_type a \<noteq> want then Inl (WrongType token (ref_type a))
          else (case ref_table a of None \<Rightarrow> Inl (EmptyUnion token) | Some t \<Rightarrow> Inr t))"

definition ResolveGridArg :: "(bytes \<Rightarrow> 't ref_any option) \<Rightarrow> RefCache option \<Rightarrow> string \<Rightarrow> ref_error + 't" where
  "ResolveGridArg = resolve_typed AnyValueGrid"

definition ResolveNumGridArg :: "(bytes \<Rightarrow> 't ref_any option) \<Rightarrow> RefCache option \<Rightarrow> string \<Rightarrow> ref_error + 't" where
  "ResolveNumGridArg = resolve_typed AnyValueNumGrid"

definition ResolveRangeArg :: "(bytes \<Rightarrow> 't ref_any option) \<Rightarrow> RefCache option \<Rightarrow> string \<Rightarrow> ref_error + 't" where
  "ResolveRangeArg = resolve_typed AnyValueRange"

definition ResolveAnyArg ::
  "(bytes \<Rightarrow> 't ref_any option) \<Rightarrow> RefCache option \<Rightarrow> string \<Rightarrow> ref_error + 't ref_any" where
  "ResolveAnyArg = resolveRefAny"

subsection \<open>Handlers\<close>

record SystemHandler =
  ChunkManager :: ChunkManager
  CommandBatcher :: CommandBatcher
  RefCache :: RefCache
  RtdManager :: RtdManager

definition NewSystemHandler :: "ChunkManager \<Rightarrow> CommandBatcher \<Rightarrow> RefCache \<Rightarrow> RtdManager \<Rightarrow> SystemHandler" where
  "NewSystemHandler cm cb rc rtd = \<lparr>ChunkManager = cm, CommandBatcher = cb, RefCache = rc, RtdManager = rtd\<rparr>"

datatype outcome = Returned | Failed string | Panicked

type_synonym callback = "SystemHandler \<Rightarrow> (outcome \<times> SystemHandler) option"

datatype task =
    RunConnect nat int "string list" bool
  | RunDisconnect int
  | RunCommand string string u32

definition HandleSetRefCache ::
  "(bytes \<Rightarrow> string) \<Rightarrow> (u64 option \<Rightarrow> bool \<Rightarrow> bytes) \<Rightarrow> bytes \<Rightarrow> bytes \<Rightarrow> SystemHandler \<Rightarrow> reply \<times> SystemHandler" where
  "HandleSetRefCache req_key enc_ack data respBuf h =
     (let key = req_key data;
          h = h\<lparr>RefCache := RefCache_Set key data (RefCache h)\<rparr>;
          payload = BuildAckResponse enc_ack 0 True
      in (SendAckOrChunk payload respBuf MsgAck, h))"

text \<open>The request's topic, its strings and its flag; \<open>ctx\<close> is the new context and its cancel function; \<open>hook\<close> says
  whether \<open>onConnect\<close> is not nil. The result lists the contexts cancelled and the task the goroutine runs.\<close>

definition HandleRtdConnect ::
  "(bytes \<Rightarrow> int \<times> string list \<times> bool) \<Rightarrow> bytes \<Rightarrow> bytes \<Rightarrow> bytes \<Rightarrow> nat \<Rightarrow> bool \<Rightarrow> SystemHandler \<Rightarrow>
   reply \<times> nat list \<times> task list \<times> SystemHandler" where
  "HandleRtdConnect req connect_response data respBuf ctx hook h =
     (let (topicID, topicStrings, newVal) = req data;
          (m, g, cancelled) = RegisterConnectCancel topicID ctx (RtdManager h)
      in (SendAckOrChunk connect_response respBuf MsgRtdConnect, cancelled,
          (if hook then [RunConnect ctx topicID topicStrings newVal] else []), h\<lparr>RtdManager := m\<rparr>))"

definition HandleRtdDisconnect ::
  "(bytes \<Rightarrow> int) \<Rightarrow> bytes \<Rightarrow> bytes \<Rightarrow> bool \<Rightarrow> SystemHandler \<Rightarrow> reply \<times> nat list \<times> task list \<times> SystemHandler" where
  "HandleRtdDisconnect req_topic data respBuf hook h =
     (let topicID = req_topic data;
          (m, cancelled) = Unsubscribe topicID (RtdManager h)
      in ((0, 0, respBuf), cancelled, (if hook then [RunDisconnect topicID] else []), h\<lparr>RtdManager := m\<rparr>))"

text \<open>A synchronous call of an event handler, if there is one: its error is logged and its panic recovered.\<close>

definition run_event :: "callback option \<Rightarrow> SystemHandler \<Rightarrow> SystemHandler option" where
  "run_event cb h = (case cb of None \<Rightarrow> Some h | Some f \<Rightarrow> map_option snd (f h))"

definition HandleCalculationEnded ::
  "map_orders \<Rightarrow> (bytes \<Rightarrow> Range \<times> any_value option) \<Rightarrow> (bytes \<Rightarrow> Range \<times> string) \<Rightarrow> (wire_command list \<Rightarrow> bytes) \<Rightarrow>
   bytes \<Rightarrow> callback option \<Rightarrow> SystemHandler \<Rightarrow> (reply \<times> SystemHandler) option" where
  "HandleCalculationEnded ord ds df enc respBuf onEnded h =
     (let h = h\<lparr>RefCache := RefCache_Clear (RefCache h)\<rparr>
      in Option.bind (run_event onEnded h) (\<lambda>h.
         Option.bind (FlushCommands ord ds df enc (CommandBatcher h)) (\<lambda>(resp, cb).
           let h = h\<lparr>CommandBatcher := cb\<rparr>;
               respBytes = (case resp of None \<Rightarrow> [] | Some b \<Rightarrow> b)
           in if length respBytes > 0 then Some (SendAckOrChunk respBytes respBuf MsgCalculationEnded, h)
              else Some ((0, 0, respBuf), h))))"

definition HandleCalculationCanceled :: "bytes \<Rightarrow> callback option \<Rightarrow> SystemHandler \<Rightarrow> (reply \<times> SystemHandler) option" where
  "HandleCalculationCanceled respBuf onCanceled h =
     map_option (\<lambda>h. ((0, 0, respBuf), h)) (run_event onCanceled h)"

text \<open>\<open>resolve\<close> says which commands have a handler; the response carries the flag and, if any, the error.\<close>

definition HandleCommandInvoke ::
  "(bytes \<Rightarrow> string \<times> string) \<Rightarrow> (bool \<Rightarrow> string option \<Rightarrow> bytes) \<Rightarrow> u32 \<Rightarrow> bytes \<Rightarrow> bytes \<Rightarrow> (string \<Rightarrow> bool) \<Rightarrow>
   reply \<times> task list" where
  "HandleCommandInvoke req enc excelParentPID data respBuf resolve =
     (let (name, controlID) = req data;
          (errMsg, tasks) = (if resolve name then ('''', [RunCommand name controlID excelParentPID])
                             else (''unknown command: '' @ name, []));
          payload = enc (errMsg = '''') (if errMsg \<noteq> '''' then Some errMsg else None)
      in (SendAckOrChunk payload respBuf MsgCommandInvoke, tasks))"

lemma RefCache_Clear_New: "RefCache_Clear c = NewRefCache"
  by (cases c) (simp add: RefCache_Clear_def NewRefCache_def)

subsection \<open>A cycle's commands\<close>

lemma foldo_append: "foldo f (xs @ ys) s = Option.bind (foldo f xs s) (foldo f ys)"
  by (induction xs arbitrary: s) (auto split: bind_splits)

text \<open>A user's event handler that makes \<open>calls\<close> and then ends in \<open>out\<close>.\<close>

definition scheduling ::
  "(Range \<Rightarrow> any_value option \<Rightarrow> bytes) \<Rightarrow> (map_orders \<times> schedule) list \<Rightarrow> outcome \<Rightarrow> callback" where
  "scheduling ser calls out h =
     map_option (\<lambda>cb. (out, h\<lparr>CommandBatcher := cb\<rparr>)) (run_schedules ser calls (CommandBatcher h))"

text \<open>C15. A cancelled cycle loses no write to the cancellation. Commands are scheduled (over ranges that end before the
  last int32 row and column), the calculation is cancelled, the user's handler for that schedules more and then returns,
  fails or panics, the calculation ends, and its handler does the same: both handlers return, and the cancellation
  changes nothing but what was scheduled. The commands of the end have on every cell the effect of all the calls one by
  one. When their response fits the response buffer it is the answer; when it does not, the answer is a system error
  and the commands are lost, since in either case the batcher is as new and the reference cache is empty afterwards.\<close>

theorem canceled_cycle_keeps_commands:
  assumes "orders_ok ord"
    and "calls_ok ser ds (calls1 @ calls2 @ calls3)"
    and "\<forall>cmds. enc cmds \<noteq> []"
    and "run_schedules ser calls1 NewCommandBatcher = Some (CommandBatcher h)"
  shows "\<exists>h1 cmds reply.
    HandleCalculationCanceled respBuf (Some (scheduling ser calls2 out2)) h = Some ((0, 0, respBuf), h1) \<and>
    h1\<lparr>CommandBatcher := CommandBatcher h\<rparr> = h \<and>
    HandleCalculationEnded ord ds df enc respBuf (Some (scheduling ser calls3 out3)) h1 =
      Some (reply, h\<lparr>CommandBatcher := NewCommandBatcher, RefCache := NewRefCache\<rparr>) \<and>
    reply = (if cmds = [] then (0, 0, respBuf)
             else if length (enc cmds) \<le> length respBuf then
               (i32 (int (length (enc cmds))), MsgCalculationEnded, copy_at 0 (enc cmds) respBuf)
             else (0, MsgTypeSystemError, respBuf)) \<and>
    (\<forall>sheet cell.
       same_any (last_write (wire_value sheet cell) cmds)
         (last_write (direct_value sheet cell) (map snd (calls1 @ calls2 @ calls3))) \<and>
       last_write (wire_format sheet cell) cmds = last_write (direct_format sheet cell) (map snd (calls1 @ calls2 @ calls3)))"
proof -
  obtain cb out cmds where run: "run_schedules ser (calls1 @ calls2 @ calls3) NewCommandBatcher = Some cb"
    and flush: "FlushCommands ord ds df enc cb = Some (out, NewCommandBatcher)"
    and out: "out = (if cmds = [] then None else Some (enc cmds))"
    and eff: "\<forall>sheet cell.
       same_any (last_write (wire_value sheet cell) cmds)
         (last_write (direct_value sheet cell) (map snd (calls1 @ calls2 @ calls3))) \<and>
       last_write (wire_format sheet cell) cmds = last_write (direct_format sheet cell) (map snd (calls1 @ calls2 @ calls3))"
    using schedules_flush [OF assms(1,2), of df enc] by blast
  have "Option.bind (run_schedules ser calls2 (CommandBatcher h)) (run_schedules ser calls3) = Some cb"
    using run assms(4) by (simp add: foldo_append)
  then obtain cb2 where cb2: "run_schedules ser calls2 (CommandBatcher h) = Some cb2"
    and cb3: "run_schedules ser calls3 cb2 = Some cb" by (auto simp: bind_eq_Some_conv)
  let ?h1 = "h\<lparr>CommandBatcher := cb2\<rparr>"
  let ?reply = "if cmds = [] then (0, 0, respBuf)
             else if length (enc cmds) \<le> length respBuf then
               (i32 (int (length (enc cmds))), MsgCalculationEnded, copy_at 0 (enc cmds) respBuf)
             else (0, MsgTypeSystemError, respBuf)"
  have 1: "HandleCalculationCanceled respBuf (Some (scheduling ser calls2 out2)) h = Some ((0, 0, respBuf), ?h1)"
    by (simp add: HandleCalculationCanceled_def run_event_def scheduling_def cb2)
  have 2: "HandleCalculationEnded ord ds df enc respBuf (Some (scheduling ser calls3 out3)) ?h1 =
      Some (?reply, h\<lparr>CommandBatcher := NewCommandBatcher, RefCache := NewRefCache\<rparr>)"
    using assms(3) by (cases h) (simp add: HandleCalculationEnded_def run_event_def scheduling_def cb3 flush out
        RefCache_Clear_New SendAckOrChunk_def Let_def)
  show ?thesis using 1 2 eff by (intro exI [of _ ?h1] exI [of _ cmds] exI [of _ ?reply]) simp
qed

text \<open>The flush empties the queue before it is known whether the response fits: when it does not, the commands of the
  cycle are gone.\<close>

lemma oversized_response_drops_commands:
  assumes "FlushCommands ord ds df enc (CommandBatcher h) = Some (Some resp, cb)" and "length resp > length respBuf"
  shows "HandleCalculationEnded ord ds df enc respBuf None h =
    Some ((0, MsgTypeSystemError, respBuf), h\<lparr>RefCache := RefCache_Clear (RefCache h), CommandBatcher := cb\<rparr>) \<and>
    cmdQueue cb = []"
proof -
  have "resp \<noteq> []" using assms(2) by auto
  moreover have "cmdQueue cb = []" using assms(1) by (auto simp: FlushCommands_def bind_eq_Some_conv split: if_splits)
  ultimately show ?thesis using assms by (simp add: HandleCalculationEnded_def run_event_def SendAckOrChunk_def)
qed

subsection \<open>Composite arguments within a cycle\<close>

datatype cycle_event =
    SetRef bytes
  | Connected bytes nat bool
  | Disconnected bytes bool
  | CancelCycle "callback option"
  | EndCycle "callback option"

text \<open>The environment of the handlers.\<close>

record cycle_env =
  env_key :: "bytes \<Rightarrow> string"
  env_ack :: "u64 option \<Rightarrow> bool \<Rightarrow> bytes"
  env_connect :: "bytes \<Rightarrow> int \<times> string list \<times> bool"
  env_disconnect :: "bytes \<Rightarrow> int"
  env_response :: bytes
  env_buffer :: bytes
  env_orders :: map_orders
  env_read_set :: "bytes \<Rightarrow> Range \<times> any_value option"
  env_read_format :: "bytes \<Rightarrow> Range \<times> string"
  env_commands :: "wire_command list \<Rightarrow> bytes"

primrec cycle_step :: "cycle_env \<Rightarrow> cycle_event \<Rightarrow> SystemHandler \<Rightarrow> SystemHandler option" where
  "cycle_step E (SetRef data) h = Some (snd (HandleSetRefCache (env_key E) (env_ack E) data (env_buffer E) h))"
| "cycle_step E (Connected data ctx hook) h =
     Some (snd (snd (snd (HandleRtdConnect (env_connect E) (env_response E) data (env_buffer E) ctx hook h))))"
| "cycle_step E (Disconnected data hook) h =
     Some (snd (snd (snd (HandleRtdDisconnect (env_disconnect E) data (env_buffer E) hook h))))"
| "cycle_step E (CancelCycle cb) h = map_option snd (HandleCalculationCanceled (env_buffer E) cb h)"
| "cycle_step E (EndCycle cb) h = map_option snd (HandleCalculationEnded (env_orders E) (env_read_set E)
     (env_read_format E) (env_commands E) (env_buffer E) cb h)"

text \<open>A user's handler has no access to the reference cache.\<close>

definition leaves_refs :: "callback option \<Rightarrow> bool" where
  "leaves_refs cb \<longleftrightarrow> (\<forall>f h out h'. cb = Some f \<longrightarrow> f h = Some (out, h') \<longrightarrow> RefCache h' = RefCache h)"

primrec user_ok :: "cycle_event \<Rightarrow> bool" where
  "user_ok (SetRef data) = True"
| "user_ok (Connected data ctx hook) = True"
| "user_ok (Disconnected data hook) = True"
| "user_ok (CancelCycle cb) = leaves_refs cb"
| "user_ok (EndCycle cb) = leaves_refs cb"

text \<open>The specification: what was set since the last end of a calculation.\<close>

primrec refs_step :: "cycle_env \<Rightarrow> cycle_event \<Rightarrow> (string \<Rightarrow> bytes option) \<Rightarrow> (string \<Rightarrow> bytes option)" where
  "refs_step E (SetRef data) m = m(env_key E data \<mapsto> data)"
| "refs_step E (Connected data ctx hook) m = m"
| "refs_step E (Disconnected data hook) m = m"
| "refs_step E (CancelCycle cb) m = m"
| "refs_step E (EndCycle cb) m = Map.empty"

definition payload :: "(string \<Rightarrow> bytes option) \<Rightarrow> string \<Rightarrow> (string \<times> bytes) option" where
  "payload m token =
     (if token \<in> dom m then map_option (Pair token) (m token)
      else if HasPrefix token ''h:'' then map_option (Pair (TrimPrefix token ''h:'')) (m (TrimPrefix token ''h:''))
      else None)"

lemma run_event_refs: "leaves_refs cb \<Longrightarrow> run_event cb h = Some h' \<Longrightarrow> RefCache h' = RefCache h"
  by (auto simp: leaves_refs_def run_event_def split: option.splits)

lemma cycle_step_refs:
  assumes "cycle_step E e h = Some h'" and "user_ok e"
  shows "gm_get (cache (RefCache h')) = refs_step E e (gm_get (cache (RefCache h)))"
proof (cases e)
  case (SetRef data)
  then show ?thesis using assms by (auto simp: HandleSetRefCache_def RefCache_Set_def)
next
  case (Connected data ctx hook)
  then show ?thesis using assms by (auto simp: HandleRtdConnect_def split: prod.splits)
next
  case (Disconnected data hook)
  then show ?thesis using assms by (auto simp: HandleRtdDisconnect_def Let_def split: prod.splits)
next
  case (CancelCycle cb)
  then show ?thesis using assms run_event_refs [of cb h] by (auto simp: HandleCalculationCanceled_def)
next
  case (EndCycle cb)
  then obtain h1 where h1: "run_event cb (h\<lparr>RefCache := RefCache_Clear (RefCache h)\<rparr>) = Some h1" "RefCache h' = RefCache h1"
    using assms by (auto simp: HandleCalculationEnded_def Let_def bind_eq_Some_conv split: if_splits)
  have "RefCache h1 = RefCache_Clear (RefCache h)" using run_event_refs [OF _ h1(1)] assms(2) EndCycle by simp
  then show ?thesis using EndCycle h1(2) by (simp add: RefCache_Clear_def fun_eq_iff)
qed

lemma cycle_refs:
  "foldo (cycle_step E) es h = Some h' \<Longrightarrow> \<forall>e \<in> set es. user_ok e \<Longrightarrow>
    gm_get (cache (RefCache h')) = fold (refs_step E) es (gm_get (cache (RefCache h)))"
  by (induction es arbitrary: h) (auto simp: bind_eq_Some_conv dest: cycle_step_refs)

lemma resolve_spec:
  "resolveRefAny ref_val (Some c) token =
     (case payload (gm_get (cache c)) token of
        None \<Rightarrow> Inl (NoPayload token)
      | Some (key, data) \<Rightarrow> (case ref_val data of None \<Rightarrow> Inl (NoValue key) | Some a \<Rightarrow> Inr a))"
  by (auto simp: resolveRefAny_def payload_def RefCache_Get_def CutPrefix_def RefArgTokenPrefix_def dom_def Let_def
      split: option.splits)

lemma resolve_typed_iff:
  "resolve_typed want ref_val refs token = Inr t \<longleftrightarrow>
     (\<exists>a. resolveRefAny ref_val refs token = Inr a \<and> ref_type a = want \<and> ref_table a = Some t)"
  by (auto simp: resolve_typed_def split: sum.splits option.splits)

text \<open>C16. The cache belongs to one calculation cycle. After any sequence of system messages and events, from an empty cache, a
  composite argument resolves to the payload last set under its token since the last end of a calculation
  (a cancellation does not end it), under the token as it is or without its prefix; the typed resolvers give its
  table exactly when its tag is theirs; and a token from an earlier cycle is the error that names it.\<close>

theorem composite_arguments_per_cycle:
  assumes "foldo (cycle_step E) es h = Some h'" and "\<forall>e \<in> set es. user_ok e" and "RefCache h = NewRefCache"
    and "p = payload (fold (refs_step E) es Map.empty) token" and "c = Some (RefCache h')"
  shows "ResolveAnyArg ref_val c token =
      (case p of None \<Rightarrow> Inl (NoPayload token)
       | Some (key, data) \<Rightarrow> (case ref_val data of None \<Rightarrow> Inl (NoValue key) | Some a \<Rightarrow> Inr a)) \<and>
    (ResolveGridArg ref_val c token = Inr t \<longleftrightarrow>
      (\<exists>key data a. p = Some (key, data) \<and> ref_val data = Some a \<and> ref_type a = AnyValueGrid \<and> ref_table a = Some t)) \<and>
    (ResolveNumGridArg ref_val c token = Inr t \<longleftrightarrow>
      (\<exists>key data a. p = Some (key, data) \<and> ref_val data = Some a \<and> ref_type a = AnyValueNumGrid \<and> ref_table a = Some t)) \<and>
    (ResolveRangeArg ref_val c token = Inr t \<longleftrightarrow>
      (\<exists>key data a. p = Some (key, data) \<and> ref_val data = Some a \<and> ref_type a = AnyValueRange \<and> ref_table a = Some t))"
proof -
  have "gm_get ([] :: (string, bytes) gomap) = Map.empty" by (rule ext) simp
  then have "gm_get (cache (RefCache h')) = fold (refs_step E) es Map.empty"
    using cycle_refs [OF assms(1,2)] assms(3) by (simp add: NewRefCache_def)
  then have r: "resolveRefAny ref_val c token =
      (case p of None \<Rightarrow> Inl (NoPayload token)
       | Some (key, data) \<Rightarrow> (case ref_val data of None \<Rightarrow> Inl (NoValue key) | Some a \<Rightarrow> Inr a))"
    unfolding assms(4,5) resolve_spec by simp
  have typed: "resolve_typed want ref_val c token = Inr t \<longleftrightarrow>
      (\<exists>key data a. p = Some (key, data) \<and> ref_val data = Some a \<and> ref_type a = want \<and> ref_table a = Some t)" for want
    unfolding resolve_typed_iff r by (auto split: option.splits)
  show ?thesis unfolding ResolveAnyArg_def ResolveGridArg_def ResolveNumGridArg_def ResolveRangeArg_def
    using r typed by blast
qed

subsection \<open>Instances\<close>

definition demo_handler :: "CommandBatcher \<Rightarrow> RefCache \<Rightarrow> SystemHandler" where
  "demo_handler cb refs = NewSystemHandler 
     (NewChunkManagerFromConfig \<lparr>CfgMaxBufferBytes = 0, CfgCleanupInterval = 0, CfgBufferTTL = 0,
        CfgMaxConcurrentTransfers = 0, CfgMaxPoisonedTransfers = 0\<rparr>) cb refs NewRtdManager"

theorem canceled_cycle_keeps_commands_witness:
  "\<exists>h h1 reply h2.
    HandleCalculationCanceled [0] (Some (scheduling (\<lambda>r v. [7]) [(demo_orders, DoFormat \<lparr>SheetName = ''S'', Refs = []\<rparr> ''0'')] Panicked)) h =
      Some ((0, 0, [0]), h1) \<and>
    HandleCalculationEnded demo_orders demo_read_set (\<lambda>b. (\<lparr>SheetName = [], Refs = []\<rparr>, [])) (\<lambda>cmds. [0]) [0]
      (Some (scheduling (\<lambda>r v. [7]) [] Returned)) h1 = Some (reply, h2) \<and>
    CommandBatcher h2 = NewCommandBatcher"
proof -
  let ?calls2 = "[(demo_orders, DoFormat \<lparr>SheetName = ''S'', Refs = []\<rparr> ''0'')]" and ?df = "\<lambda>b. (\<lparr>SheetName = [], Refs = []\<rparr>, [])"
  have ok: "calls_ok (\<lambda>r v. [7]) demo_read_set (demo_schedules @ ?calls2 @ [])"
    by (auto simp: calls_ok_def demo_schedules_def demo_read_set_def ToScalar_def target_def rect_ok_def demo_orders_ok)
  then have "calls_ok (\<lambda>r v. [7]) demo_read_set demo_schedules" by (simp add: calls_ok_def)
  from schedules_flush [OF demo_orders_ok this, of ?df "\<lambda>c. [0]"]
  obtain cb where run: "run_schedules (\<lambda>r v. [7]) demo_schedules NewCommandBatcher =
      Some (CommandBatcher (demo_handler cb NewRefCache))"
    by (auto simp: demo_handler_def NewSystemHandler_def)
  have enc: "\<forall>cmds :: wire_command list. (\<lambda>c. [0 :: u8]) cmds \<noteq> []" by simp
  note spec = canceled_cycle_keeps_commands [where ?calls1.0 = demo_schedules and ?calls2.0 = ?calls2 and ?calls3.0 = "[]"
      and respBuf = "[0]" and ?out2.0 = Panicked and ?out3.0 = Returned and df = ?df, OF demo_orders_ok ok enc run]
  show ?thesis using spec by (elim exE conjE) ((rule exI)+, (erule conjI)+, simp_all)
qed

text \<open>Two calculation cycles: the payload of the first is gone, that of the second survives the cancellation.\<close>

definition demo_cycle :: cycle_env where
  "demo_cycle = \<lparr>env_key = (\<lambda>data. if data = [2] then ''a'' else ''b''), env_ack = (\<lambda>tid ok. [1]), env_connect = (\<lambda>d. (1, [], True)),
     env_disconnect = (\<lambda>d. 1), env_response = [1], env_buffer = [0], env_orders = demo_orders,
     env_read_set = demo_read_set, env_read_format = (\<lambda>b. (\<lparr>SheetName = [], Refs = []\<rparr>, [])), env_commands = (\<lambda>c. [0])\<rparr>"

definition demo_events :: "cycle_event list" where
  "demo_events = [SetRef [1], EndCycle None, SetRef [2], CancelCycle None, Connected [] 5 True]"

lemma demo_cycle_run:
  "\<exists>h. foldo (cycle_step demo_cycle) demo_events (demo_handler NewCommandBatcher NewRefCache) = Some h"
  by (simp add: demo_events_def demo_cycle_def HandleSetRefCache_def HandleCalculationEnded_def run_event_def FlushCommands_def
      flushBuffersLocked_def NewCommandBatcher_def demo_handler_def NewSystemHandler_def HandleCalculationCanceled_def
      HandleRtdConnect_def RegisterConnectCancel_def Let_def)

theorem composite_arguments_per_cycle_witness:
  "\<exists>h. foldo (cycle_step demo_cycle) demo_events (demo_handler NewCommandBatcher NewRefCache) = Some h \<and>
    ResolveGridArg (\<lambda>data. Some \<lparr>ref_type = AnyValueGrid, ref_table = Some data\<rparr>) (Some (RefCache h)) ''h:a'' = Inr [2] \<and>
    ResolveAnyArg (\<lambda>data. Some \<lparr>ref_type = AnyValueGrid, ref_table = Some data\<rparr>) (Some (RefCache h)) ''b'' = Inl (NoPayload ''b'')"
proof -
  let ?val = "\<lambda>data. Some \<lparr>ref_type = AnyValueGrid, ref_table = Some data\<rparr> :: bytes ref_any option"
  obtain h where run: "foldo (cycle_step demo_cycle) demo_events (demo_handler NewCommandBatcher NewRefCache) = Some h"
    using demo_cycle_run by blast
  have ok: "\<forall>e \<in> set demo_events. user_ok e" by (simp add: demo_events_def leaves_refs_def)
  have new: "RefCache (demo_handler NewCommandBatcher NewRefCache) = NewRefCache"
    by (simp add: demo_handler_def NewSystemHandler_def)
  note spec = composite_arguments_per_cycle [OF run ok new refl refl]
  have "ResolveGridArg ?val (Some (RefCache h)) ''h:a'' = Inr [2]"
    using spec [of ?val "''h:a''" "[2]"]
    by (simp add: demo_events_def demo_cycle_def payload_def HasPrefix_def TrimPrefix_def)
  moreover have "ResolveAnyArg ?val (Some (RefCache h)) ''b'' = Inl (NoPayload ''b'')"
    using spec [of ?val "''b''" "[2]"]
    by (simp add: demo_events_def demo_cycle_def payload_def HasPrefix_def TrimPrefix_def)
  ultimately show ?thesis using run by blast
qed

end
