(* ===== verification/Config_Names.thy ===== *)
theory Config_Names
  imports Go_Strings
begin

section \<open>Names (internal/config/excel_names.go, validateIdentifier)\<close>

text \<open>
  The tables of names the configuration is checked against, and the two checks of a single name: it must be an identifier
  of the generated Go and C++ code, and Excel must not already have the name. The sets of the source are lists here.
  An error is its case with the data it reports.
\<close>

subsection \<open>Tables\<close>

definition validArgTypes :: "string list" where
  "validArgTypes =
     [''int'', ''float'', ''string'', ''bool'', ''range'', ''grid'', ''numgrid'', ''any'', ''date'']"

definition validReturnTypes :: "string list" where
  "validReturnTypes =
     [''int'', ''float'', ''string'', ''bool'', ''any'', ''grid'', ''numgrid'']"

definition validEventTypes :: "string list" where
  "validEventTypes =
     [''CalculationEnded'', ''CalculationCanceled'']"

definition rtdCompositeReturnTypes :: "string list" where
  "rtdCompositeReturnTypes =
     [''range'', ''grid'', ''numgrid'']"

definition goReservedWords :: "string list" where
  "goReservedWords =
     [''break'', ''case'', ''chan'', ''const'', ''continue'', ''default'', ''defer'', ''else'', ''fallthrough'',
      ''for'', ''func'', ''go'', ''goto'', ''if'', ''import'', ''interface'', ''map'', ''package'', ''range'',
      ''return'', ''select'', ''struct'', ''switch'', ''type'', ''var'']"

definition cppReservedWords :: "string list" where
  "cppReservedWords =
     [''alignas'', ''alignof'', ''and'', ''and_eq'', ''asm'', ''auto'', ''bitand'', ''bitor'', ''bool'',
      ''break'', ''case'', ''catch'', ''char'', ''char16_t'', ''char32_t'', ''class'', ''compl'', ''const'',
      ''constexpr'', ''const_cast'', ''continue'', ''decltype'', ''default'', ''delete'', ''do'', ''double'',
      ''dynamic_cast'', ''else'', ''enum'', ''explicit'', ''export'', ''extern'', ''false'', ''float'', ''for'',
      ''friend'', ''goto'', ''if'', ''inline'', ''int'', ''long'', ''mutable'', ''namespace'', ''new'',
      ''noexcept'', ''not'', ''not_eq'', ''nullptr'', ''operator'', ''or'', ''or_eq'', ''private'',
      ''protected'', ''public'', ''register'', ''reinterpret_cast'', ''return'', ''short'', ''signed'',
      ''sizeof'', ''static'', ''static_assert'', ''static_cast'', ''struct'', ''switch'', ''template'', ''this'',
      ''thread_local'', ''throw'', ''true'', ''try'', ''typedef'', ''typeid'', ''typename'', ''union'',
      ''unsigned'', ''using'', ''virtual'', ''void'', ''volatile'', ''wchar_t'', ''while'', ''xor'', ''xor_eq'']"

definition ribbonImageFileExts :: "string list" where
  "ribbonImageFileExts =
     [''.png'', ''.jpg'', ''.jpeg'', ''.bmp'', ''.gif'', ''.ico'']"

definition xlmReservedNamesList :: "string list" where
  "xlmReservedNamesList =
     [''ABSREF'', ''ALERT'', ''ARGUMENT'', ''BEEP'', ''BREAK'', ''CALLER'', ''CLOSE'', ''COPY'', ''CUT'',
      ''DEREF'', ''DIRECTORY'', ''DUPLICATE'', ''ECHO'', ''EXEC'', ''FCLOSE'', ''FOPEN'', ''FPOS'', ''FREAD'',
      ''FREADLN'', ''FSIZE'', ''FWRITE'', ''FWRITELN'', ''GOTO'', ''HALT'', ''HELP'', ''HIDE'', ''HLINE'',
      ''HPAGE'', ''HSCROLL'', ''INPUT'', ''LEGEND'', ''MESSAGE'', ''MOVE'', ''NEW'', ''NOTE'', ''OPEN'',
      ''PASTE'', ''PRECISION'', ''PRINT'', ''QUIT'', ''REFTEXT'', ''REGISTER'', ''RELREF'', ''RESTART'',
      ''RESULT'', ''RETURN'', ''RUN'', ''SAVE'', ''SELECT'', ''SELECTION'', ''SIZE'', ''SORT'', ''SPLIT'',
      ''STEP'', ''TABLE'', ''TEXTREF'', ''UNDO'', ''UNHIDE'', ''UNREGISTER'', ''VLINE'', ''VOLATILE'', ''VPAGE'',
      ''VSCROLL'', ''WAIT'', ''WHILE'']"

definition builtinFunctionNamesList :: "string list" where
  "builtinFunctionNamesList =
     [''ABS'', ''ACOS'', ''ACOSH'', ''ACOT'', ''ACOTH'', ''AGGREGATE'', ''ARABIC'', ''ASIN'', ''ASINH'',
      ''ATAN'', ''ATAN2'', ''ATANH'', ''BASE'', ''CEILING'', ''CEILING.MATH'', ''CEILING.PRECISE'', ''COMBIN'',
      ''COMBINA'', ''COS'', ''COSH'', ''COT'', ''COTH'', ''CSC'', ''CSCH'', ''DECIMAL'', ''DEGREES'', ''EVEN'',
      ''EXP'', ''FACT'', ''FACTDOUBLE'', ''FLOOR'', ''FLOOR.MATH'', ''FLOOR.PRECISE'', ''GCD'', ''INT'',
      ''ISO.CEILING'', ''LCM'', ''LN'', ''LOG'', ''LOG10'', ''MDETERM'', ''MINVERSE'', ''MMULT'', ''MOD'',
      ''MROUND'', ''MULTINOMIAL'', ''MUNIT'', ''ODD'', ''PI'', ''POWER'', ''PRODUCT'', ''QUOTIENT'', ''RADIANS'',
      ''RAND'', ''RANDARRAY'', ''RANDBETWEEN'', ''ROMAN'', ''ROUND'', ''ROUNDDOWN'', ''ROUNDUP'', ''SEC'',
      ''SECH'', ''SEQUENCE'', ''SERIESSUM'', ''SIGN'', ''SIN'', ''SINH'', ''SQRT'', ''SQRTPI'', ''SUBTOTAL'',
      ''SUM'', ''SUMIF'', ''SUMIFS'', ''SUMPRODUCT'', ''SUMSQ'', ''SUMX2MY2'', ''SUMX2PY2'', ''SUMXMY2'',
      ''TAN'', ''TANH'', ''TRUNC'', ''AVEDEV'', ''AVERAGE'', ''AVERAGEA'', ''AVERAGEIF'', ''AVERAGEIFS'',
      ''BETA.DIST'', ''BETA.INV'', ''BETADIST'', ''BETAINV'', ''BINOM.DIST'', ''BINOM.DIST.RANGE'',
      ''BINOM.INV'', ''BINOMDIST'', ''CHIDIST'', ''CHIINV'', ''CHISQ.DIST'', ''CHISQ.DIST.RT'', ''CHISQ.INV'',
      ''CHISQ.INV.RT'', ''CHISQ.TEST'', ''CHITEST'', ''CONFIDENCE'', ''CONFIDENCE.NORM'', ''CONFIDENCE.T'',
      ''CORREL'', ''COUNT'', ''COUNTA'', ''COUNTBLANK'', ''COUNTIF'', ''COUNTIFS'', ''COVAR'', ''COVARIANCE.P'',
      ''COVARIANCE.S'', ''CRITBINOM'', ''DEVSQ'', ''EXPON.DIST'', ''EXPONDIST'', ''F.DIST'', ''F.DIST.RT'',
      ''F.INV'', ''F.INV.RT'', ''F.TEST'', ''FDIST'', ''FINV'', ''FISHER'', ''FISHERINV'', ''FORECAST'',
      ''FORECAST.ETS'', ''FORECAST.ETS.CONFINT'', ''FORECAST.ETS.SEASONALITY'', ''FORECAST.ETS.STAT'',
      ''FORECAST.LINEAR'', ''FREQUENCY'', ''FTEST'', ''GAMMA'', ''GAMMA.DIST'', ''GAMMA.INV'', ''GAMMADIST'',
      ''GAMMAINV'', ''GAMMALN'', ''GAMMALN.PRECISE'', ''GAUSS'', ''GEOMEAN'', ''GROWTH'', ''HARMEAN'',
      ''HYPGEOM.DIST'', ''HYPGEOMDIST'', ''INTERCEPT'', ''KURT'', ''LARGE'', ''LINEST'', ''LOGEST'', ''LOGINV'',
      ''LOGNORM.DIST'', ''LOGNORM.INV'', ''LOGNORMDIST'', ''MAX'', ''MAXA'', ''MAXIFS'', ''MEDIAN'', ''MIN'',
      ''MINA'', ''MINIFS'', ''MODE'', ''MODE.MULT'', ''MODE.SNGL'', ''NEGBINOM.DIST'', ''NEGBINOMDIST'',
      ''NORM.DIST'', ''NORM.INV'', ''NORM.S.DIST'', ''NORM.S.INV'', ''NORMDIST'', ''NORMINV'', ''NORMSDIST'',
      ''NORMSINV'', ''PEARSON'', ''PERCENTILE'', ''PERCENTILE.EXC'', ''PERCENTILE.INC'', ''PERCENTRANK'',
      ''PERCENTRANK.EXC'', ''PERCENTRANK.INC'', ''PERMUT'', ''PERMUTATIONA'', ''PHI'', ''POISSON'',
      ''POISSON.DIST'', ''PROB'', ''QUARTILE'', ''QUARTILE.EXC'', ''QUARTILE.INC'', ''RANK'', ''RANK.AVG'',
      ''RANK.EQ'', ''RSQ'', ''SKEW'', ''SKEW.P'', ''SLOPE'', ''SMALL'', ''STANDARDIZE'', ''STDEV'', ''STDEV.P'',
      ''STDEV.S'', ''STDEVA'', ''STDEVP'', ''STDEVPA'', ''STEYX'', ''T.DIST'', ''T.DIST.2T'', ''T.DIST.RT'',
      ''T.INV'', ''T.INV.2T'', ''T.TEST'', ''TDIST'', ''TINV'', ''TREND'', ''TRIMMEAN'', ''TTEST'', ''VAR'',
      ''VAR.P'', ''VAR.S'', ''VARA'', ''VARP'', ''VARPA'', ''WEIBULL'', ''WEIBULL.DIST'', ''Z.TEST'', ''ZTEST'',
      ''ARRAYTOTEXT'', ''ASC'', ''BAHTTEXT'', ''CHAR'', ''CLEAN'', ''CODE'', ''CONCAT'', ''CONCATENATE'',
      ''DBCS'', ''DOLLAR'', ''EXACT'', ''FIND'', ''FINDB'', ''FIXED'', ''JIS'', ''LEFT'', ''LEFTB'', ''LEN'',
      ''LENB'', ''LOWER'', ''MID'', ''MIDB'', ''NUMBERVALUE'', ''PHONETIC'', ''PROPER'', ''REPLACE'',
      ''REPLACEB'', ''REPT'', ''RIGHT'', ''RIGHTB'', ''SEARCH'', ''SEARCHB'', ''SUBSTITUTE'', ''T'', ''TEXT'',
      ''TEXTAFTER'', ''TEXTBEFORE'', ''TEXTJOIN'', ''TEXTSPLIT'', ''TRIM'', ''UNICHAR'', ''UNICODE'', ''UPPER'',
      ''VALUE'', ''VALUETOTEXT'', ''AND'', ''BYCOL'', ''BYROW'', ''FALSE'', ''IF'', ''IFERROR'', ''IFNA'',
      ''IFS'', ''ISOMITTED'', ''LAMBDA'', ''LET'', ''MAKEARRAY'', ''MAP'', ''NOT'', ''OR'', ''REDUCE'', ''SCAN'',
      ''SWITCH'', ''TRUE'', ''XOR'', ''ADDRESS'', ''AREAS'', ''CHOOSE'', ''CHOOSECOLS'', ''CHOOSEROWS'',
      ''COLUMN'', ''COLUMNS'', ''DROP'', ''EXPAND'', ''FILTER'', ''FORMULATEXT'', ''GETPIVOTDATA'', ''GROUPBY'',
      ''HLOOKUP'', ''HSTACK'', ''HYPERLINK'', ''IMAGE'', ''INDEX'', ''INDIRECT'', ''LOOKUP'', ''MATCH'',
      ''OFFSET'', ''PIVOTBY'', ''ROW'', ''ROWS'', ''RTD'', ''SORTBY'', ''TAKE'', ''TOCOL'', ''TOROW'',
      ''TRANSPOSE'', ''UNIQUE'', ''VLOOKUP'', ''VSTACK'', ''WRAPCOLS'', ''WRAPROWS'', ''XLOOKUP'', ''XMATCH'',
      ''DATE'', ''DATEDIF'', ''DATEVALUE'', ''DAY'', ''DAYS'', ''DAYS360'', ''EDATE'', ''EOMONTH'', ''HOUR'',
      ''ISOWEEKNUM'', ''MINUTE'', ''MONTH'', ''NETWORKDAYS'', ''NETWORKDAYS.INTL'', ''NOW'', ''SECOND'',
      ''TIME'', ''TIMEVALUE'', ''TODAY'', ''WEEKDAY'', ''WEEKNUM'', ''WORKDAY'', ''WORKDAY.INTL'', ''YEAR'',
      ''YEARFRAC'', ''CELL'', ''ERROR.TYPE'', ''INFO'', ''ISBLANK'', ''ISERR'', ''ISERROR'', ''ISEVEN'',
      ''ISFORMULA'', ''ISLOGICAL'', ''ISNA'', ''ISNONTEXT'', ''ISNUMBER'', ''ISODD'', ''ISREF'', ''ISTEXT'',
      ''N'', ''NA'', ''SHEET'', ''SHEETS'', ''TYPE'', ''DAVERAGE'', ''DCOUNT'', ''DCOUNTA'', ''DGET'', ''DMAX'',
      ''DMIN'', ''DPRODUCT'', ''DSTDEV'', ''DSTDEVP'', ''DSUM'', ''DVAR'', ''DVARP'', ''ACCRINT'', ''ACCRINTM'',
      ''AMORDEGRC'', ''AMORLINC'', ''COUPDAYBS'', ''COUPDAYS'', ''COUPDAYSNC'', ''COUPNCD'', ''COUPNUM'',
      ''COUPPCD'', ''CUMIPMT'', ''CUMPRINC'', ''DB'', ''DDB'', ''DISC'', ''DOLLARDE'', ''DOLLARFR'',
      ''DURATION'', ''EFFECT'', ''FV'', ''FVSCHEDULE'', ''INTRATE'', ''IPMT'', ''IRR'', ''ISPMT'', ''MDURATION'',
      ''MIRR'', ''NOMINAL'', ''NPER'', ''NPV'', ''ODDFPRICE'', ''ODDFYIELD'', ''ODDLPRICE'', ''ODDLYIELD'',
      ''PDURATION'', ''PMT'', ''PPMT'', ''PRICE'', ''PRICEDISC'', ''PRICEMAT'', ''PV'', ''RATE'', ''RECEIVED'',
      ''RRI'', ''SLN'', ''STOCKHISTORY'', ''SYD'', ''TBILLEQ'', ''TBILLPRICE'', ''TBILLYIELD'', ''VDB'',
      ''XIRR'', ''XNPV'', ''YIELD'', ''YIELDDISC'', ''YIELDMAT'', ''BESSELI'', ''BESSELJ'', ''BESSELK'',
      ''BESSELY'', ''BIN2DEC'', ''BIN2HEX'', ''BIN2OCT'', ''BITAND'', ''BITLSHIFT'', ''BITOR'', ''BITRSHIFT'',
      ''BITXOR'', ''COMPLEX'', ''CONVERT'', ''DEC2BIN'', ''DEC2HEX'', ''DEC2OCT'', ''DELTA'', ''ERF'',
      ''ERF.PRECISE'', ''ERFC'', ''ERFC.PRECISE'', ''GESTEP'', ''HEX2BIN'', ''HEX2DEC'', ''HEX2OCT'', ''IMABS'',
      ''IMAGINARY'', ''IMARGUMENT'', ''IMCONJUGATE'', ''IMCOS'', ''IMCOSH'', ''IMCOT'', ''IMCSC'', ''IMCSCH'',
      ''IMDIV'', ''IMEXP'', ''IMLN'', ''IMLOG10'', ''IMLOG2'', ''IMPOWER'', ''IMPRODUCT'', ''IMREAL'', ''IMSEC'',
      ''IMSECH'', ''IMSIN'', ''IMSINH'', ''IMSQRT'', ''IMSUB'', ''IMSUM'', ''IMTAN'', ''OCT2BIN'', ''OCT2DEC'',
      ''OCT2HEX'', ''ENCODEURL'', ''FILTERXML'', ''WEBSERVICE'', ''CUBEKPIMEMBER'', ''CUBEMEMBER'',
      ''CUBEMEMBERPROPERTY'', ''CUBERANKEDMEMBER'', ''CUBESET'', ''CUBESETCOUNT'', ''CUBEVALUE'']"

subsection \<open>Checks\<close>

datatype name_error =
    EmptyName string
  | BadCharset string string
  | LeadingDigit string string
  | GoReserved string string
  | CppReserved string string

definition name_char :: "nat \<Rightarrow> bool" where
  "name_char r \<longleftrightarrow> (97 \<le> r \<and> r \<le> 122) \<or> (65 \<le> r \<and> r \<le> 90) \<or> (48 \<le> r \<and> r \<le> 57) \<or> r = 95"

definition validateIdentifier :: "string \<Rightarrow> string \<Rightarrow> name_error option" where
  "validateIdentifier kind name =
     (if name = [] then Some (EmptyName kind)
      else if \<exists>r \<in> set (rune_vals name). \<not> name_char r then Some (BadCharset kind name)
      else if 48 \<le> byte (name ! 0) \<and> byte (name ! 0) \<le> 57 then Some (LeadingDigit kind name)
      else if name \<in> set goReservedWords then Some (GoReserved kind name)
      else if name \<in> set cppReservedWords then Some (CppReserved kind name)
      else None)"

definition toUpperSet :: "string list \<Rightarrow> string set" where
  "toUpperSet names = ToUpper ` set names"

datatype name_collision = NoCollision | XlmKeyword string | BuiltinFunction string

definition checkExcelNameCollision :: "string \<Rightarrow> name_collision" where
  "checkExcelNameCollision name =
     (let upper = ToUpper name
      in if upper \<in> toUpperSet xlmReservedNamesList then XlmKeyword upper
         else if upper \<in> toUpperSet builtinFunctionNamesList then BuiltinFunction upper
         else NoCollision)"

subsection \<open>What an accepted name is\<close>

definition legal_name :: "string \<Rightarrow> bool" where
  "legal_name name \<longleftrightarrow> name \<noteq> [] \<and> (\<forall>c \<in> set name. name_char (byte c)) \<and> \<not> (48 \<le> byte (hd name) \<and> byte (hd name) \<le> 57) \<and>
     name \<notin> set goReservedWords \<and> name \<notin> set cppReservedWords"

lemma name_char_ascii: "name_char r \<Longrightarrow> r < 128"
  by (auto simp: name_char_def)

lemma validateIdentifier_None [simp]: "validateIdentifier kind name = None \<longleftrightarrow> legal_name name"
  using runes_all_ascii [of name_char name, OF name_char_ascii]
  by (auto simp: validateIdentifier_def legal_name_def hd_conv_nth)

text \<open>On the names that pass, only ASCII letters change case.\<close>

lemma ToUpper_ascii: "\<forall>c \<in> set s. byte c < 128 \<Longrightarrow> ToUpper s = map upper_ascii s"
  by (induction s rule: ToUpper.induct) auto

definition excel_name :: "string \<Rightarrow> bool" where
  "excel_name name \<longleftrightarrow>
     (\<forall>k \<in> set xlmReservedNamesList \<union> set builtinFunctionNamesList. ToUpper k \<noteq> map upper_ascii name)"

lemma checkExcelNameCollision_None:
  assumes "legal_name name"
  shows "checkExcelNameCollision name = NoCollision \<longleftrightarrow> excel_name name"
proof -
  have "ToUpper name = map upper_ascii name"
    using assms by (intro ToUpper_ascii) (auto simp: legal_name_def dest: name_char_ascii)
  then show ?thesis unfolding checkExcelNameCollision_def excel_name_def toUpperSet_def Let_def
    by (auto split: if_splits) (metis imageI)+
qed

text \<open>No name in the tables is longer than 25 characters.\<close>

lemma ToUpper_length: "length (ToUpper s) \<le> length s"
  by (induction s rule: ToUpper.induct) auto

lemma table_lengths:
  "\<forall>k \<in> set xlmReservedNamesList. length k \<le> 25" "\<forall>k \<in> set builtinFunctionNamesList. length k \<le> 25"
  by code_simp+

lemma long_name_free: "25 < length name \<Longrightarrow> excel_name name"
proof -
  assume long: "25 < length name"
  have "length (ToUpper k) \<le> 25" if "k \<in> set xlmReservedNamesList \<union> set builtinFunctionNamesList" for k
    using that table_lengths ToUpper_length [of k] by (auto intro: order_trans)
  then show ?thesis unfolding excel_name_def using long by (metis length_map not_le)
qed

end
