(* ===== verification/Go_Duration.thy ===== *)
theory Go_Duration
  imports Excel_Dates Go_Strings
begin

section \<open>time.ParseDuration\<close>

text \<open>
  The standard library's parser, which every duration of the configuration goes through. Numbers are uint64 and a
  value that leaves the range is an error; a fraction is computed in float64, as the library does.
\<close>

definition digit :: "char \<Rightarrow> bool" where
  "digit c \<longleftrightarrow> 48 \<le> byte c \<and> byte c \<le> 57"

definition digit_num :: "char \<Rightarrow> int" where
  "digit_num c = int (byte c) - 48"

text \<open>\<open>leadingInt\<close>: None on overflow.\<close>

fun leadingInt :: "int \<Rightarrow> string \<Rightarrow> (int \<times> string) option" where
  "leadingInt x [] = Some (x, [])"
| "leadingInt x (c # s) =
     (if \<not> digit c then Some (x, c # s)
      else if x > 2 ^ 63 div 10 then None
      else if x * 10 + digit_num c > 2 ^ 63 then None
      else leadingInt (x * 10 + digit_num c) s)"

text \<open>\<open>leadingFraction\<close>: digits beyond the range are skipped.\<close>

fun leadingFraction :: "int \<Rightarrow> f64 \<Rightarrow> bool \<Rightarrow> string \<Rightarrow> int \<times> f64 \<times> string" where
  "leadingFraction x scale overflow [] = (x, scale, [])"
| "leadingFraction x scale overflow (c # s) =
     (if \<not> digit c then (x, scale, c # s)
      else if overflow \<or> x > (2 ^ 63 - 1) div 10 \<or> x * 10 + digit_num c > 2 ^ 63 then leadingFraction x scale True s
      else leadingFraction (x * 10 + digit_num c) (f64_mul scale (f64_of_int 10)) False s)"

definition unit_of :: "string \<Rightarrow> int option" where
  "unit_of u =
     (if u = ''ns'' then Some 1
      else if u = ''us'' \<or> u = [CHR 0xC2, CHR 0xB5, CHR ''s''] \<or> u = [CHR 0xCE, CHR 0xBC, CHR ''s''] then Some 1000
      else if u = ''ms'' then Some 1000000
      else if u = ''s'' then Some 1000000000
      else if u = ''m'' then Some 60000000000
      else if u = ''h'' then Some 3600000000000
      else None)"

definition unit_char :: "char \<Rightarrow> bool" where
  "unit_char c \<longleftrightarrow> \<not> (c = CHR ''.'' \<or> digit c)"

text \<open>\<open>uint64(x)\<close> of a float64 that is not negative and below 2^64.\<close>

definition f64_trunc :: "f64 \<Rightarrow> int" where
  "f64_trunc x = \<lfloor>f64_val x\<rfloor>"

text \<open>One round of the loop: the number, the fraction and the unit; the value and the rest of the text.\<close>

definition duration_item :: "string \<Rightarrow> (int \<times> string) option" where
  "duration_item s =
     (if s = [] \<or> \<not> (hd s = CHR ''.'' \<or> digit (hd s)) then None
      else
        (case leadingInt 0 s of
           None \<Rightarrow> None
         | Some (v, s1) \<Rightarrow>
             (let pre = (length s1 \<noteq> length s);
                  (f, scale, s2, post) =
                    (if s1 \<noteq> [] \<and> hd s1 = CHR ''.'' then
                       (let (f, scale, s2) = leadingFraction 0 (f64_of_int 1) False (tl s1)
                        in (f, scale, s2, length s2 \<noteq> length (tl s1)))
                     else (0, f64_of_int 1, s1, False));
                  u = takeWhile unit_char s2; rest = dropWhile unit_char s2
              in if \<not> pre \<and> \<not> post then None
                 else if u = [] then None
                 else
                   (case unit_of u of
                      None \<Rightarrow> None
                    | Some unit \<Rightarrow>
                        if v > 2 ^ 63 div unit then None
                        else
                          (let w = v * unit +
                               (if f > 0 then f64_trunc (f64_mul (f64_of_int f) (f64_div (f64_of_int unit) scale)) else 0)
                           in if f > 0 \<and> w > 2 ^ 63 then None else Some (w, rest))))))"

text \<open>A round uses up at least its unit, so as many rounds as characters are enough.\<close>

primrec duration_loop :: "nat \<Rightarrow> int \<Rightarrow> string \<Rightarrow> int option" where
  "duration_loop 0 d s = (if s = [] then Some d else None)"
| "duration_loop (Suc n) d s =
     (if s = [] then Some d
      else (case duration_item s of
              None \<Rightarrow> None
            | Some (v, rest) \<Rightarrow>
                if (d + v) mod 2 ^ 64 > 2 ^ 63 then None else duration_loop n ((d + v) mod 2 ^ 64) rest))"

definition ParseDuration :: "string \<Rightarrow> int option" where
  "ParseDuration orig =
     (let (neg, s) = (if orig \<noteq> [] \<and> (hd orig = CHR ''-'' \<or> hd orig = CHR ''+'') then (hd orig = CHR ''-'', tl orig)
                      else (False, orig))
      in if s = ''0'' then Some 0
         else if s = [] then None
         else (case duration_loop (length s) 0 s of
                 None \<Rightarrow> None
               | Some d \<Rightarrow> if neg then Some (- d) else if d > 2 ^ 63 - 1 then None else Some d))"

lemma leadingInt_rest: "leadingInt x s = Some (v, r) \<Longrightarrow> length r \<le> length s"
  by (induction x s rule: leadingInt.induct) (auto split: if_splits)

lemma leadingFraction_rest: "leadingFraction x sc b s = (f, sc', r) \<Longrightarrow> length r \<le> length s"
  by (induction x sc b s rule: leadingFraction.induct) (auto split: if_splits)

lemma dropWhile_shorter: "takeWhile P s \<noteq> [] \<Longrightarrow> length (dropWhile P s) < length s"
  using arg_cong [OF takeWhile_dropWhile_id [of P s], of length] by (cases "takeWhile P s") auto

lemma duration_item_shorter: "duration_item s = Some (v, rest) \<Longrightarrow> length rest < length s"
proof -
  assume d: "duration_item s = Some (v, rest)"
  then obtain w s1 where s1: "leadingInt 0 s = Some (w, s1)" by (auto simp: duration_item_def split: if_splits option.splits)
  obtain f scale s2 where fr: "leadingFraction 0 (f64_of_int 1) False (tl s1) = (f, scale, s2)" by (metis prod_cases3)
  have "length s2 \<le> length s1" using leadingFraction_rest [OF fr] by simp
  then have "length (dropWhile unit_char s2) < length s" if "takeWhile unit_char s2 \<noteq> []"
    using dropWhile_shorter [OF that] leadingInt_rest [OF s1] by linarith
  moreover have "length (dropWhile unit_char s1) < length s" if "takeWhile unit_char s1 \<noteq> []"
    using dropWhile_shorter [OF that] leadingInt_rest [OF s1] by linarith
  ultimately show ?thesis using d s1 fr by (auto simp: duration_item_def Let_def split: if_splits option.splits)
qed

text \<open>More rounds change nothing.\<close>

lemma duration_loop_Nil [simp]: "duration_loop n d [] = Some d"
  by (cases n) simp_all

lemma duration_loop_enough: "length s \<le> n \<Longrightarrow> length s \<le> m \<Longrightarrow> duration_loop n d s = duration_loop m d s"
proof (induction n arbitrary: m d s)
  case (Suc n)
  show ?case
  proof (cases m)
    case (Suc m')
    have "duration_loop n e r = duration_loop m' e r" if "duration_item s = Some (v, r)" for v r e
      using duration_item_shorter [OF that] Suc.prems Suc by (intro Suc.IH) auto
    then show ?thesis using Suc by (auto split: option.split)
  qed (use Suc.prems in simp)
qed simp

lemma ParseDuration_examples:
  "ParseDuration ''5s'' = Some 5000000000" "ParseDuration ''-200ms'' = Some (-200000000)" "ParseDuration ''0'' = Some 0"
  "ParseDuration ''10'' = None" "ParseDuration '''' = None" "ParseDuration ''1h30m'' = Some 5400000000000"
  by (simp_all add: ParseDuration_def duration_item_def digit_def digit_num_def unit_of_def unit_char_def Let_def)

end
