(* ===== verification/Config.thy ===== *)
theory Config
  imports Config_Names Go_Duration
begin

section \<open>The project configuration (internal/config/config.go)\<close>

text \<open>
  \<open>xll.yaml\<close> as decoded: the records of the source (a slice is a list, a pointer that may be nil an option), the
  defaults and the checks. The YAML decoder is third-party and left out, and so is the version-5 UUID a missing CLSID
  is derived from: it is the parameter \<open>sha1_uuid\<close>. A check returns the first error it finds, as its case with the
  data it reports; the texts of the messages are left out.
\<close>

subsection \<open>Records\<close>

record Arg =
  argName :: string
  argType :: string
  argDescription :: string

record FunctionCacheConfig =
  fcEnabled :: "bool option"
  fcTTL :: string

record Function =
  fnName :: string
  fnDescription :: string
  fnArgs :: "Arg list"
  fnReturn :: string
  fnAsync :: bool
  fnResizable :: bool
  fnVolatile :: bool
  fnCategory :: string
  fnShortcut :: string
  fnHelpTopic :: string
  fnTimeout :: string
  fnCaller :: bool
  fnMacro :: bool
  fnMode :: string
  fnMemoize :: bool
  fnMemoizeTTL :: string
  fnLoadingPlaceholder :: string
  fnCache :: "FunctionCacheConfig option"

record Command =
  cmdName :: string
  cmdDescription :: string
  cmdHandler :: string
  cmdShortcut :: string

record Event =
  evtType :: string
  evtHandler :: string

record RtdConfig =
  rtdEnabled :: bool
  rtdProgID :: string
  rtdClsid :: string
  rtdDescription :: string
  rtdThrottleInterval :: string
  rtdLoadingPlaceholder :: string

record CacheConfig =
  cacheEnabled :: bool
  cacheTTL :: string
  cacheJitter :: string

record LoggingConfig =
  logLevel :: string
  logDir :: string

record BuildConfig =
  Singlefile :: string
  TempDir :: string

record ChunkConfig =
  MaxBufferBytes :: int
  CleanupInterval :: string
  BufferTTL :: string
  MaxConcurrentTransfers :: int

record LaunchConfig =
  launchEnabled :: "bool option"
  launchCommand :: string
  launchCwd :: string

record ServerConfig =
  srvCommand :: string
  Workers :: int
  srvTimeout :: string
  AsyncAckTimeout :: string
  Launch :: "LaunchConfig option"
  Chunk :: "ChunkConfig option"

record ProjectConfig =
  projName :: string
  projVersion :: string

record GoConfig =
  goModule :: string
  goPackage :: string

record GenConfig =
  genGo :: GoConfig
  DisablePidSuffix :: bool

record RibbonButton =
  btnLabel :: string
  btnCommand :: string
  btnSize :: string
  btnImage :: string

record RibbonGroup =
  grpLabel :: string
  grpButtons :: "RibbonButton list"

record RibbonConfig =
  Tab :: string
  Groups :: "RibbonGroup list"
  XML :: string
  ribProgID :: string
  ribClsid :: string
  Bounce :: string

record Config =
  Project :: ProjectConfig
  Build :: BuildConfig
  Logging :: LoggingConfig
  Cache :: CacheConfig
  Server :: ServerConfig
  Functions :: "Function list"
  Gen :: GenConfig
  Events :: "Event list"
  Rtd :: RtdConfig
  Commands :: "Command list"
  Ribbon :: RibbonConfig

subsection \<open>Small functions\<close>

definition DefaultGoPackage :: string where "DefaultGoPackage = ''generated''"

definition GoPackage :: "Config \<Rightarrow> string" where
  "GoPackage c = (if goPackage (genGo (Gen c)) = '''' then DefaultGoPackage else goPackage (genGo (Gen c)))"

definition BounceMode :: "RibbonConfig \<Rightarrow> string" where
  "BounceMode r = (if Bounce r = '''' then ''full'' else Bounce r)"

definition ribbon_enabled :: "RibbonConfig \<Rightarrow> bool" where
  "ribbon_enabled r \<longleftrightarrow> Tab r \<noteq> '''' \<or> XML r \<noteq> ''''"

definition IsRtdLike :: "string \<Rightarrow> bool" where
  "IsRtdLike mode \<longleftrightarrow> mode = ''rtd'' \<or> mode = ''rtd-once''"

fun AnyNonRtdLike :: "Function list \<Rightarrow> bool" where
  "AnyNonRtdLike [] = False"
| "AnyNonRtdLike (f # fns) = (if \<not> IsRtdLike (fnMode f) then True else AnyNonRtdLike fns)"

datatype RtdPlaceholder = PlaceholderGettingData | PlaceholderNA | PlaceholderText string

definition ResolveRtdPlaceholder :: "Function \<Rightarrow> RtdConfig \<Rightarrow> RtdPlaceholder" where
  "ResolveRtdPlaceholder fn rtd =
     (let v = TrimSpace (fnLoadingPlaceholder fn);
          v = (if v = '''' then TrimSpace (rtdLoadingPlaceholder rtd) else v);
          key = ToLower v
      in if key = '''' \<or> key = ''getting_data'' then PlaceholderGettingData
         else if key = ''na'' then PlaceholderNA
         else PlaceholderText v)"

text \<open>The part of a path after the last separator of either kind, and \<open>path.Ext\<close> of it.\<close>

definition path_sep :: "char \<Rightarrow> bool" where "path_sep c \<longleftrightarrow> c = CHR ''/'' \<or> c = CHR 0x5C"

definition last_segment :: "string \<Rightarrow> string" where
  "last_segment s = rev (takeWhile (\<lambda>c. \<not> path_sep c) (rev s))"

definition path_Ext :: "string \<Rightarrow> string" where
  "path_Ext s = (let r = takeWhile (\<lambda>c. c \<noteq> CHR ''.'' \<and> c \<noteq> CHR ''/'') (rev s)
     in if length r < length s \<and> rev s ! length r = CHR ''.'' then CHR ''.'' # rev r else '''')"

text \<open>Whether the image is a file; None is the error.\<close>

definition ClassifyRibbonImage :: "string \<Rightarrow> bool option" where
  "ClassifyRibbonImage v =
     (if v = '''' then Some False
      else if ToLower (path_Ext (last_segment v)) \<in> set ribbonImageFileExts then Some True
      else if \<exists>c \<in> set v. path_sep c then None
      else Some False)"

subsection \<open>Errors\<close>

text \<open>A formatted message: its format, shortened, and the values in it.\<close>

datatype config_error =
    Errorf string "string list"
  | BadName name_error
  | NameTaken string name_collision

definition ProjectNameEmpty :: "config_error" where
  "ProjectNameEmpty = Errorf ''project name cannot be empty'' []"
definition ProjectNameCharset :: "config_error" where
  "ProjectNameCharset = Errorf ''project name must only contain alphanumeric characters, underscores, and hyphens'' []"
definition PackageCharset :: "string \<Rightarrow> config_error" where
  "PackageCharset a = Errorf ''gen.go.package %s: must match [A-Za-z0-9_]+'' [a]"
definition PackageDigit :: "string \<Rightarrow> config_error" where
  "PackageDigit a = Errorf ''gen.go.package %s: must not start with a digit'' [a]"
definition PackageReserved :: "string \<Rightarrow> config_error" where
  "PackageReserved a = Errorf ''gen.go.package %s: is a Go reserved word'' [a]"
definition PackageMain :: "config_error" where
  "PackageMain = Errorf ''gen.go.package main: the generated package must be importable'' []"
definition SinglefileExe :: "config_error" where
  "SinglefileExe = Errorf ''singlefile mode exe is not supported yet'' []"
definition SinglefileInvalid :: "string \<Rightarrow> config_error" where
  "SinglefileInvalid a = Errorf ''invalid singlefile mode: %s'' [a]"
definition ControlChar :: "string \<Rightarrow> nat \<Rightarrow> nat \<Rightarrow> config_error" where
  "ControlChar a b d = Errorf ''%s contains an illegal control character (U+%04X) at byte offset %d'' [a, FormatInt (int b), FormatInt (int d)]"
definition DuplicateEvent :: "string \<Rightarrow> config_error" where
  "DuplicateEvent a = Errorf ''duplicate event type: %s'' [a]"
definition UnsupportedEvent :: "string \<Rightarrow> config_error" where
  "UnsupportedEvent a = Errorf ''event type %s is not supported'' [a]"
definition CompositeReturn :: "string \<Rightarrow> string \<Rightarrow> config_error" where
  "CompositeReturn a b = Errorf ''function %s: mode rtd cannot return composite type %s'' [a, b]"
definition RangeReturn :: "string \<Rightarrow> config_error" where
  "RangeReturn a = Errorf ''function %s: range is not a return type'' [a]"
definition UnsupportedReturn :: "string \<Rightarrow> string \<Rightarrow> config_error" where
  "UnsupportedReturn a b = Errorf ''function %s: return type %s is not supported'' [a, b]"
definition UnderscoreArg :: "string \<Rightarrow> string \<Rightarrow> config_error" where
  "UnderscoreArg a b = Errorf ''function %s argument %s: argument names cannot contain an underscore'' [a, b]"
definition DuplicateArg :: "string \<Rightarrow> string \<Rightarrow> config_error" where
  "DuplicateArg a b = Errorf ''function %s: duplicate argument name %s'' [a, b]"
definition OptionalArg :: "string \<Rightarrow> string \<Rightarrow> string \<Rightarrow> config_error" where
  "OptionalArg a b d = Errorf ''function %s argument %s: type %s is not supported (optional scalars)'' [a, b, d]"
definition UnsupportedArg :: "string \<Rightarrow> string \<Rightarrow> string \<Rightarrow> config_error" where
  "UnsupportedArg a b d = Errorf ''function %s argument %s: type %s is not supported'' [a, b, d]"
definition InvalidLevel :: "string \<Rightarrow> config_error" where
  "InvalidLevel a = Errorf ''invalid logging level: %s'' [a]"
definition DuplicateFunction :: "string \<Rightarrow> config_error" where
  "DuplicateFunction a = Errorf ''duplicate function name: %s'' [a]"
definition InvalidMode :: "string \<Rightarrow> string \<Rightarrow> config_error" where
  "InvalidMode a b = Errorf ''function %s: invalid mode %s'' [a, b]"
definition NeedsRtd :: "string \<Rightarrow> config_error" where
  "NeedsRtd a = Errorf ''function %s: mode rtd-once requires rtd.enabled: true'' [a]"
definition MemoizeMode :: "string \<Rightarrow> config_error" where
  "MemoizeMode a = Errorf ''function %s: memoize is only valid with mode rtd-once'' [a]"
definition MemoizeTTLMode :: "string \<Rightarrow> config_error" where
  "MemoizeTTLMode a = Errorf ''function %s: memoize_ttl is only valid with mode rtd-once'' [a]"
definition MemoizeTwice :: "string \<Rightarrow> config_error" where
  "MemoizeTwice a = Errorf ''function %s: memoize_ttl and memoize:true are mutually exclusive'' [a]"
definition BadDuration :: "string \<Rightarrow> string \<Rightarrow> config_error" where
  "BadDuration a b = Errorf ''%s: invalid duration %s'' [a, b]"
definition NotPositive :: "string \<Rightarrow> string \<Rightarrow> config_error" where
  "NotPositive a b = Errorf ''function %s: memoize_ttl must be a positive duration, got %s'' [a, b]"
definition PlaceholderMode :: "string \<Rightarrow> config_error" where
  "PlaceholderMode a = Errorf ''function %s: loading_placeholder is only valid with mode rtd or rtd-once'' [a]"
definition CallerMode :: "string \<Rightarrow> config_error" where
  "CallerMode a = Errorf ''function %s: caller-aware functions are not supported with mode rtd-once'' [a]"
definition MacroMode :: "string \<Rightarrow> config_error" where
  "MacroMode a = Errorf ''function %s: macro:true is not supported with mode rtd-once'' [a]"
definition BadShortcut :: "string \<Rightarrow> string \<Rightarrow> config_error" where
  "BadShortcut a b = Errorf ''%s: shortcut must be a single letter, got %s'' [a, b]"
definition TimeoutMode :: "string \<Rightarrow> string \<Rightarrow> config_error" where
  "TimeoutMode a b = Errorf ''function %s: timeout is not supported with mode %s'' [a, b]"
definition ProgIDRequired :: "config_error" where
  "ProgIDRequired = Errorf ''rtd.prog_id is required when rtd.enabled is true'' []"
definition ProgIDChar :: "string \<Rightarrow> nat \<Rightarrow> nat \<Rightarrow> config_error" where
  "ProgIDChar a b d = Errorf ''%s contains an illegal character (U+%04X) at byte offset %d'' [a, FormatInt (int b), FormatInt (int d)]"
definition ProgIDLength :: "string \<Rightarrow> nat \<Rightarrow> config_error" where
  "ProgIDLength a b = Errorf ''%s is %d characters; a COM ProgID must be 39 characters or fewer'' [a, FormatInt (int b)]"
definition BadClsid :: "string \<Rightarrow> string \<Rightarrow> config_error" where
  "BadClsid a b = Errorf ''%s must be a GUID of the form {8-4-4-4-12}, got %s'' [a, b]"
definition ThrottleNeedsRtd :: "config_error" where
  "ThrottleNeedsRtd = Errorf ''rtd.throttle_interval requires rtd.enabled: true'' []"
definition ThrottleRange :: "string \<Rightarrow> config_error" where
  "ThrottleRange a = Errorf ''rtd.throttle_interval must be between 0 and 2147483647ms, got %s'' [a]"
definition NegativeBuffer :: "int \<Rightarrow> config_error" where
  "NegativeBuffer a = Errorf ''server.chunk.max_buffer_bytes must be non-negative, got %d'' [FormatInt a]"
definition NegativeTransfers :: "int \<Rightarrow> config_error" where
  "NegativeTransfers a = Errorf ''server.chunk.max_concurrent_transfers must be non-negative, got %d'' [FormatInt a]"
definition CommandIsFunction :: "string \<Rightarrow> config_error" where
  "CommandIsFunction a = Errorf ''command %s collides with a function of the same name'' [a]"
definition DuplicateCommand :: "string \<Rightarrow> config_error" where
  "DuplicateCommand a = Errorf ''duplicate command name: %s'' [a]"
definition ShortcutTaken :: "string \<Rightarrow> string \<Rightarrow> string \<Rightarrow> config_error" where
  "ShortcutTaken a b d = Errorf ''command %s: shortcut %s already used by command %s'' [a, b, d]"
definition RibbonNeedsCommands :: "config_error" where
  "RibbonNeedsCommands = Errorf ''ribbon requires at least one entry in commands'' []"
definition InvalidBounce :: "string \<Rightarrow> config_error" where
  "InvalidBounce a = Errorf ''ribbon.bounce: invalid value %s'' [a]"
definition XmlAndTab :: "config_error" where
  "XmlAndTab = Errorf ''ribbon: xml and tab/groups are mutually exclusive'' []"
definition ButtonNoCommand :: "string \<Rightarrow> config_error" where
  "ButtonNoCommand a = Errorf ''ribbon button %s: command is required'' [a]"
definition ButtonUnknown :: "string \<Rightarrow> string \<Rightarrow> config_error" where
  "ButtonUnknown a b = Errorf ''ribbon button %s: unknown command %s'' [a, b]"
definition ButtonImage :: "string \<Rightarrow> string \<Rightarrow> config_error" where
  "ButtonImage a b = Errorf ''ribbon button %s: unsupported image %s'' [a, b]"
definition ButtonSize :: "string \<Rightarrow> string \<Rightarrow> config_error" where
  "ButtonSize a b = Errorf ''ribbon button %s: invalid size %s'' [a, b]"
definition GroupsNeedTab :: "config_error" where
  "GroupsNeedTab = Errorf ''ribbon: groups requires tab'' []"

text \<open>Checks in sequence, and a check of every element of a list: the first error is returned.\<close>

fun first_error :: "'e option list \<Rightarrow> 'e option" where
  "first_error [] = None"
| "first_error (x # xs) = (case x of Some e \<Rightarrow> Some e | None \<Rightarrow> first_error xs)"

definition check :: "bool \<Rightarrow> 'e \<Rightarrow> 'e option" where
  "check bad e = (if bad then Some e else None)"

lemma first_error_None [simp]: "first_error xs = None \<longleftrightarrow> (\<forall>x \<in> set xs. x = None)"
  by (induction xs) (auto split: option.split)

lemma check_None [simp]: "check bad e = None \<longleftrightarrow> \<not> bad"
  by (simp add: check_def)

subsection \<open>Checks of single values\<close>

text \<open>The loop \<open>for i, r := range s\<close> with its byte offset: the first rune that fails, and where.\<close>

fun find_rune :: "(nat \<Rightarrow> bool) \<Rightarrow> nat \<Rightarrow> (string \<times> nat) list \<Rightarrow> (nat \<times> nat) option" where
  "find_rune bad i [] = None"
| "find_rune bad i ((bs, r) # rest) = (if bad r then Some (r, i) else find_rune bad (i + length bs) rest)"

lemma find_rune_None [simp]: "find_rune bad i rs = None \<longleftrightarrow> (\<forall>r \<in> set (map snd rs). \<not> bad r)"
  by (induction bad i rs rule: find_rune.induct) auto

definition rejectControlChars :: "string \<Rightarrow> string \<Rightarrow> config_error option" where
  "rejectControlChars field s =
     (case find_rune (\<lambda>r. r < 32) 0 (runes s) of None \<Rightarrow> None | Some (r, i) \<Rightarrow> Some (ControlChar field r i))"

definition parseDuration :: "string \<Rightarrow> int option" where
  "parseDuration s = ParseDuration s"

definition validateProgID :: "string \<Rightarrow> string \<Rightarrow> config_error option" where
  "validateProgID field s =
     (case find_rune (\<lambda>r. r < 32 \<or> r = 127 \<or> r = 34 \<or> r = 39 \<or> r = 92 \<or> IsSpace r) 0 (runes s) of
        Some (r, i) \<Rightarrow> Some (if r < 32 \<or> r = 127 then ControlChar field r i else ProgIDChar field r i)
      | None \<Rightarrow> if length (runes s) > 39 then Some (ProgIDLength field (length (runes s))) else None)"

definition hex_char :: "char \<Rightarrow> bool" where
  "hex_char c \<longleftrightarrow> (48 \<le> byte c \<and> byte c \<le> 57) \<or> (65 \<le> byte c \<and> byte c \<le> 70) \<or> (97 \<le> byte c \<and> byte c \<le> 102)"

text \<open>\<open>clsidPattern\<close>: positions 0 and 37 are the braces, 9, 14, 19 and 24 the hyphens, all others hex digits.\<close>

definition clsid_char :: "nat \<Rightarrow> char \<Rightarrow> bool" where
  "clsid_char i c \<longleftrightarrow>
     (if i = 0 then c = CHR 0x7B else if i = 37 then c = CHR 0x7D
      else if i \<in> {9, 14, 19, 24} then c = CHR ''-'' else hex_char c)"

definition clsidPattern :: "string \<Rightarrow> bool" where
  "clsidPattern s \<longleftrightarrow> length s = 38 \<and> (\<forall>(i, c) \<in> set (enumerate 0 s). clsid_char i c)"

definition validateClsid :: "string \<Rightarrow> string \<Rightarrow> config_error option" where
  "validateClsid field s = check (\<not> clsidPattern s) (BadClsid field s)"

definition validateProjectName :: "string \<Rightarrow> config_error option" where
  "validateProjectName name =
     (if name = '''' then Some ProjectNameEmpty
      else check (\<exists>r \<in> set (rune_vals name). \<not> (name_char r \<or> r = 45)) ProjectNameCharset)"

definition letter :: "nat \<Rightarrow> bool" where
  "letter r \<longleftrightarrow> (97 \<le> r \<and> r \<le> 122) \<or> (65 \<le> r \<and> r \<le> 90)"

definition check_shortcut :: "string \<Rightarrow> string \<Rightarrow> config_error option" where
  "check_shortcut name shortcut =
     (let r = rune_vals shortcut in check (length r \<noteq> 1 \<or> \<not> letter (r ! 0)) (BadShortcut name shortcut))"

definition check_name :: "string \<Rightarrow> string \<Rightarrow> config_error option" where
  "check_name kind name = map_option BadName (validateIdentifier kind name)"

definition check_taken :: "string \<Rightarrow> config_error option" where
  "check_taken name = (case checkExcelNameCollision name of NoCollision \<Rightarrow> None | c \<Rightarrow> Some (NameTaken name c))"

definition check_duration :: "string \<Rightarrow> string \<Rightarrow> config_error option" where
  "check_duration field s = check (s \<noteq> '''' \<and> parseDuration s = None) (BadDuration field s)"

subsection \<open>Sections of the file\<close>

definition validateGenGoPackage :: "Config \<Rightarrow> config_error option" where
  "validateGenGoPackage c =
     (let pkg = goPackage (genGo (Gen c))
      in if pkg = '''' then None
         else if \<exists>r \<in> set (rune_vals pkg). \<not> name_char r then Some (PackageCharset pkg)
         else if 48 \<le> byte (pkg ! 0) \<and> byte (pkg ! 0) \<le> 57 then Some (PackageDigit pkg)
         else if pkg \<in> set goReservedWords then Some (PackageReserved pkg)
         else if pkg = ''main'' then Some PackageMain
         else None)"

definition validateBuild :: "Config \<Rightarrow> config_error option" where
  "validateBuild c =
     first_error
       [if Singlefile (Build c) = '''' \<or> Singlefile (Build c) = ''xll'' then None
        else if Singlefile (Build c) = ''exe'' then Some SinglefileExe
        else Some (SinglefileInvalid (Singlefile (Build c))),
        rejectControlChars ''build.temp_dir'' (TempDir (Build c))]"

fun check_events :: "string list \<Rightarrow> Event list \<Rightarrow> config_error option" where
  "check_events seen [] = None"
| "check_events seen (evt # rest) =
     first_error
       [check (evtType evt \<in> set seen) (DuplicateEvent (evtType evt)),
        check (evtType evt \<notin> set validEventTypes) (UnsupportedEvent (evtType evt)),
        if evtHandler evt = '''' then None else check_name ''event handler'' (evtHandler evt),
        check_events (evtType evt # seen) rest]"

definition validateEvents :: "Config \<Rightarrow> config_error option" where
  "validateEvents c = check_events [] (Events c)"

definition check_return :: "Function \<Rightarrow> config_error option" where
  "check_return fn =
     (let unsupported = UnsupportedReturn (fnName fn) (fnReturn fn)
      in if EqualFold (fnMode fn) ''rtd'' then
           (if fnReturn fn \<in> set rtdCompositeReturnTypes then Some (CompositeReturn (fnName fn) (fnReturn fn))
            else check (fnReturn fn \<notin> set validReturnTypes) unsupported)
         else if EqualFold (fnMode fn) ''rtd-once'' then
           (if fnReturn fn = ''range'' then Some (RangeReturn (fnName fn))
            else check (fnReturn fn \<notin> set validReturnTypes) unsupported)
         else if fnReturn fn \<notin> set validReturnTypes then
           (if fnReturn fn = ''range'' then Some (RangeReturn (fnName fn)) else Some unsupported)
         else None)"

fun check_args :: "string \<Rightarrow> string list \<Rightarrow> Arg list \<Rightarrow> config_error option" where
  "check_args fname seen [] = None"
| "check_args fname seen (arg # rest) =
     first_error
       [check_name (''function '' @ CHR 0x27 # fname @ CHR 0x27 # '' argument'') (argName arg),
        check (CHR ''_'' \<in> set (argName arg)) (UnderscoreArg fname (argName arg)),
        check (argName arg \<in> set seen) (DuplicateArg fname (argName arg)),
        (if argType arg \<notin> set validArgTypes then
           (if HasSuffix (argType arg) ''?'' then Some (OptionalArg fname (argName arg) (argType arg))
            else Some (UnsupportedArg fname (argName arg) (argType arg)))
         else None),
        check_args fname (argName arg # seen) rest]"

definition validateFunctionReturns :: "Config \<Rightarrow> config_error option" where
  "validateFunctionReturns c =
     first_error (map (\<lambda>fn. first_error [check_return fn, check_args (fnName fn) [] (fnArgs fn)]) (Functions c))"

definition validateLogging :: "Config \<Rightarrow> config_error option" where
  "validateLogging c =
     first_error
       [check (logLevel (Logging c) \<noteq> '''' \<and>
           ToLower (logLevel (Logging c)) \<notin> {''debug'', ''info'', ''warn'', ''error''}) (InvalidLevel (logLevel (Logging c))),
        rejectControlChars ''logging.dir'' (logDir (Logging c))]"

definition check_mode :: "Config \<Rightarrow> Function \<Rightarrow> config_error option" where
  "check_mode c fn =
     (let n = fnName fn; once = EqualFold (fnMode fn) ''rtd-once''; rtd = EqualFold (fnMode fn) ''rtd''
      in first_error
       [check (fnMode fn \<noteq> '''' \<and> ToLower (fnMode fn) \<notin> {''sync'', ''async'', ''rtd'', ''rtd-once''}) (InvalidMode n (fnMode fn)),
        check (once \<and> \<not> rtdEnabled (Rtd c)) (NeedsRtd n),
        check (fnMemoize fn \<and> \<not> once) (MemoizeMode n),
        (if fnMemoizeTTL fn \<noteq> '''' then
           (if \<not> once then Some (MemoizeTTLMode n)
            else if fnMemoize fn then Some (MemoizeTwice n)
            else (case parseDuration (fnMemoizeTTL fn) of
                    None \<Rightarrow> Some (BadDuration n (fnMemoizeTTL fn))
                  | Some d \<Rightarrow> check (d \<le> 0) (NotPositive n (fnMemoizeTTL fn))))
         else None),
        check (fnLoadingPlaceholder fn \<noteq> '''' \<and> \<not> once \<and> \<not> rtd) (PlaceholderMode n),
        check (fnCaller fn \<and> once) (CallerMode n),
        check (fnMacro fn \<and> once) (MacroMode n),
        (if fnShortcut fn \<noteq> '''' then check_shortcut n (fnShortcut fn) else None),
        (if fnTimeout fn \<noteq> '''' then
           (if rtd \<or> once then Some (TimeoutMode n (fnMode fn)) else check_duration n (fnTimeout fn))
         else None)])"

fun check_functions :: "Config \<Rightarrow> string list \<Rightarrow> Function list \<Rightarrow> config_error option" where
  "check_functions c seen [] = None"
| "check_functions c seen (fn # rest) =
     first_error
       [check_name ''function'' (fnName fn),
        check (fnName fn \<in> set seen) (DuplicateFunction (fnName fn)),
        check_taken (fnName fn),
        check_mode c fn,
        check_functions c (fnName fn # seen) rest]"

definition validateFunctionModes :: "Config \<Rightarrow> config_error option" where
  "validateFunctionModes c = check_functions c [] (Functions c)"

definition validateServerTimeouts :: "Config \<Rightarrow> config_error option" where
  "validateServerTimeouts c =
     first_error [check_duration ''server.timeout'' (srvTimeout (Server c)),
                  check_duration ''server.async_ack_timeout'' (AsyncAckTimeout (Server c))]"

definition validateRtd :: "Config \<Rightarrow> config_error option" where
  "validateRtd c =
     (let rtd = Rtd c
      in first_error
       [check (rtdEnabled rtd \<and> rtdProgID rtd = '''') ProgIDRequired,
        (if rtdProgID rtd \<noteq> '''' then validateProgID ''rtd.prog_id'' (rtdProgID rtd) else None),
        (if rtdClsid rtd \<noteq> '''' then validateClsid ''rtd.clsid'' (rtdClsid rtd) else None),
        (if rtdThrottleInterval rtd \<noteq> '''' then
           (if \<not> rtdEnabled rtd then Some ThrottleNeedsRtd
            else (case parseDuration (rtdThrottleInterval rtd) of
                    None \<Rightarrow> Some (BadDuration ''rtd.throttle_interval'' (rtdThrottleInterval rtd))
                  | Some d \<Rightarrow> check (d < 0 \<or> d div 1000000 > max_i32) (ThrottleRange (rtdThrottleInterval rtd))))
         else None)])"

definition validateServerChunk :: "Config \<Rightarrow> config_error option" where
  "validateServerChunk c =
     (case Chunk (Server c) of
        None \<Rightarrow> None
      | Some ch \<Rightarrow>
          first_error
            [check (MaxBufferBytes ch < 0) (NegativeBuffer (MaxBufferBytes ch)),
             check_duration ''server.chunk.cleanup_interval'' (CleanupInterval ch),
             check_duration ''server.chunk.buffer_ttl'' (BufferTTL ch),
             check (MaxConcurrentTransfers ch < 0) (NegativeTransfers (MaxConcurrentTransfers ch))])"

text \<open>The shortcuts seen, upper-cased, with the command that has each.\<close>

fun check_commands :: "string list \<Rightarrow> string list \<Rightarrow> (string, string) gomap \<Rightarrow> Command list \<Rightarrow> config_error option" where
  "check_commands fnNames cmdNames seen [] = None"
| "check_commands fnNames cmdNames seen (cmd # rest) =
     first_error
       [check_name ''command'' (cmdName cmd),
        (if cmdHandler cmd = '''' then None else check_name ''command handler'' (cmdHandler cmd)),
        check (cmdName cmd \<in> set fnNames) (CommandIsFunction (cmdName cmd)),
        check_taken (cmdName cmd),
        check (cmdName cmd \<in> set cmdNames) (DuplicateCommand (cmdName cmd)),
        (if cmdShortcut cmd = '''' then check_commands fnNames (cmdName cmd # cmdNames) seen rest
         else
           (let key = ToUpper (cmdShortcut cmd)
            in first_error
              [check_shortcut (cmdName cmd) (cmdShortcut cmd),
               (case gm_get seen key of
                  None \<Rightarrow> None | Some prev \<Rightarrow> Some (ShortcutTaken (cmdName cmd) (cmdShortcut cmd) prev)),
               check_commands fnNames (cmdName cmd # cmdNames) (gm_put key (cmdName cmd) seen) rest]))]"

definition validateCommands :: "Config \<Rightarrow> config_error + string list" where
  "validateCommands c =
     (case check_commands (map fnName (Functions c)) [] [] (Commands c) of
        Some e \<Rightarrow> Inl e
      | None \<Rightarrow> Inr (map cmdName (Commands c)))"

definition check_button :: "string list \<Rightarrow> RibbonButton \<Rightarrow> config_error option" where
  "check_button cmdNames btn =
     first_error
       [check (btnCommand btn = '''') (ButtonNoCommand (btnLabel btn)),
        check (btnCommand btn \<notin> set cmdNames) (ButtonUnknown (btnLabel btn) (btnCommand btn)),
        check (btnImage btn \<noteq> '''' \<and> ClassifyRibbonImage (btnImage btn) = None) (ButtonImage (btnLabel btn) (btnImage btn)),
        check (btnSize btn \<notin> {'''', ''normal'', ''large''}) (ButtonSize (btnLabel btn) (btnSize btn))]"

definition validateRibbon :: "Config \<Rightarrow> string list \<Rightarrow> config_error option" where
  "validateRibbon c cmdNames =
     (let r = Ribbon c
      in if ribbon_enabled r then
           first_error
             [check (Commands c = []) RibbonNeedsCommands,
              (if ribProgID r \<noteq> '''' then validateProgID ''ribbon.prog_id'' (ribProgID r) else None),
              (if ribClsid r \<noteq> '''' then validateClsid ''ribbon.clsid'' (ribClsid r) else None),
              check (Bounce r \<notin> {'''', ''full'', ''keep-open'', ''off''}) (InvalidBounce (Bounce r)),
              check (XML r \<noteq> '''' \<and> (Tab r \<noteq> '''' \<or> Groups r \<noteq> [])) XmlAndTab,
              first_error (map (\<lambda>g. first_error (map (check_button cmdNames) (grpButtons g))) (Groups r))]
         else check (Groups r \<noteq> []) GroupsNeedTab)"

definition Validate :: "Config \<Rightarrow> config_error option" where
  "Validate c =
     first_error
       [validateProjectName (projName (Project c)),
        validateGenGoPackage c,
        validateBuild c,
        validateEvents c,
        validateFunctionReturns c,
        validateLogging c,
        validateFunctionModes c,
        validateServerTimeouts c,
        validateRtd c,
        validateServerChunk c,
        (case validateCommands c of Inl e \<Rightarrow> Some e | Inr cmdNames \<Rightarrow> validateRibbon c cmdNames)]"

subsection \<open>Defaults\<close>

definition default_function :: "Function \<Rightarrow> Function" where
  "default_function fn =
     (let fn = fn\<lparr>fnMode := ToLower (fnMode fn)\<rparr>
      in if fnMode fn = '''' then fn\<lparr>fnMode := (if fnAsync fn then ''async'' else ''sync'')\<rparr>
         else if fnMode fn = ''async'' then fn\<lparr>fnAsync := True\<rparr>
         else fn\<lparr>fnAsync := False\<rparr>)"

definition default_launch :: "LaunchConfig option \<Rightarrow> LaunchConfig option" where
  "default_launch l =
     (let l = (case l of None \<Rightarrow> \<lparr>launchEnabled = None, launchCommand = '''', launchCwd = ''''\<rparr> | Some l \<Rightarrow> l)
      in Some (case launchEnabled l of None \<Rightarrow> l\<lparr>launchEnabled := Some True\<rparr> | Some b \<Rightarrow> l))"

definition braced :: "string \<Rightarrow> string" where
  "braced s = CHR 0x7B # s @ [CHR 0x7D]"

definition default_rtd :: "(string \<Rightarrow> string) \<Rightarrow> RtdConfig \<Rightarrow> RtdConfig" where
  "default_rtd sha1_uuid r =
     (if rtdEnabled r then
        (let r = (if rtdDescription r = '''' then r\<lparr>rtdDescription := rtdProgID r\<rparr> else r)
         in if rtdClsid r = '''' \<and> rtdProgID r \<noteq> '''' then r\<lparr>rtdClsid := braced (sha1_uuid (rtdProgID r))\<rparr> else r)
      else r)"

definition default_command :: "Command \<Rightarrow> Command" where
  "default_command cmd = (if cmdHandler cmd = '''' then cmd\<lparr>cmdHandler := cmdName cmd\<rparr> else cmd)"

definition default_event :: "Event \<Rightarrow> Event" where
  "default_event evt = (if evtHandler evt = '''' then evt\<lparr>evtHandler := ''On'' @ evtType evt\<rparr> else evt)"

definition default_button :: "RibbonButton \<Rightarrow> RibbonButton" where
  "default_button btn = (if btnSize btn = '''' then btn\<lparr>btnSize := ''normal''\<rparr> else btn)"

definition default_ribbon :: "(string \<Rightarrow> string) \<Rightarrow> string \<Rightarrow> RibbonConfig \<Rightarrow> RibbonConfig" where
  "default_ribbon sha1_uuid name r =
     (if ribbon_enabled r then
        (let r = (if ribProgID r = '''' then r\<lparr>ribProgID := name @ ''.Ribbon''\<rparr> else r);
             r = (if ribClsid r = '''' then r\<lparr>ribClsid := braced (sha1_uuid (ribProgID r))\<rparr> else r)
         in r\<lparr>Groups := map (\<lambda>g. g\<lparr>grpButtons := map default_button (grpButtons g)\<rparr>) (Groups r)\<rparr>)
      else r)"

definition ApplyDefaults :: "(string \<Rightarrow> string) \<Rightarrow> Config \<Rightarrow> Config" where
  "ApplyDefaults sha1_uuid c =
     (let c = c\<lparr>Functions := map default_function (Functions c)\<rparr>;
          c = (if TempDir (Build c) = '''' then c\<lparr>Build := (Build c)\<lparr>TempDir := ''${TEMP}''\<rparr>\<rparr> else c);
          c = (if goPackage (genGo (Gen c)) = ''''
               then c\<lparr>Gen := (Gen c)\<lparr>genGo := (genGo (Gen c))\<lparr>goPackage := DefaultGoPackage\<rparr>\<rparr>\<rparr> else c);
          c = c\<lparr>Server := (Server c)\<lparr>Launch := default_launch (Launch (Server c))\<rparr>\<rparr>;
          c = (if logLevel (Logging c) = '''' then c\<lparr>Logging := (Logging c)\<lparr>logLevel := ''info''\<rparr>\<rparr> else c);
          c = c\<lparr>Rtd := default_rtd sha1_uuid (Rtd c)\<rparr>;
          c = c\<lparr>Commands := map default_command (Commands c)\<rparr>;
          c = c\<lparr>Events := map default_event (Events c)\<rparr>
      in c\<lparr>Ribbon := default_ribbon sha1_uuid (projName (Project c)) (Ribbon c)\<rparr>)"

text \<open>\<open>rtdWithoutComAddInWarning\<close> of cmd/generate.go: whether it warns.\<close>

definition rtdWithoutComAddInWarning :: "Config option \<Rightarrow> bool" where
  "rtdWithoutComAddInWarning cfg =
     (case cfg of
        None \<Rightarrow> False
      | Some c \<Rightarrow>
          if \<not> rtdEnabled (Rtd c) then False
          else if Commands c \<noteq> [] \<and> ribbon_enabled (Ribbon c) then False
          else True)"

end
