(* ===== verification/Config_Valid.thy ===== *)
theory Config_Valid
  imports Config
begin

section \<open>What the configuration checks mean\<close>

text \<open>
  \<open>valid_config\<close> says what a valid project is, without loops or orders of checks, and \<open>Validate\<close> accepts
  exactly the valid ones. The defaults keep validity, are idempotent, and bring a project into the form the generator
  relies on.
\<close>

subsection \<open>Valid parts\<close>

definition no_controls :: "string \<Rightarrow> bool" where
  "no_controls s \<longleftrightarrow> (\<forall>r \<in> set (rune_vals s). 32 \<le> r)"

definition duration_ok :: "string \<Rightarrow> bool" where
  "duration_ok s \<longleftrightarrow> s = '''' \<or> ParseDuration s \<noteq> None"

definition one_letter :: "string \<Rightarrow> bool" where
  "one_letter s \<longleftrightarrow> (\<exists>c. s = [c] \<and> letter (byte c))"

definition prog_id_ok :: "string \<Rightarrow> bool" where
  "prog_id_ok s \<longleftrightarrow> length (runes s) \<le> 39 \<and>
     (\<forall>r \<in> set (rune_vals s). 32 < r \<and> r \<noteq> 127 \<and> r \<noteq> 34 \<and> r \<noteq> 39 \<and> r \<noteq> 92 \<and> \<not> IsSpace r)"

definition valid_project :: "Config \<Rightarrow> bool" where
  "valid_project c \<longleftrightarrow>
     projName (Project c) \<noteq> '''' \<and> (\<forall>x \<in> set (projName (Project c)). name_char (byte x) \<or> x = CHR ''-'') \<and>
     (let pkg = goPackage (genGo (Gen c))
      in pkg = '''' \<or> (\<forall>x \<in> set pkg. name_char (byte x)) \<and> \<not> (48 \<le> byte (hd pkg) \<and> byte (hd pkg) \<le> 57) \<and>
         pkg \<notin> set goReservedWords \<and> pkg \<noteq> ''main'') \<and>
     Singlefile (Build c) \<in> {'''', ''xll''} \<and> no_controls (TempDir (Build c)) \<and>
     (logLevel (Logging c) = '''' \<or> ToLower (logLevel (Logging c)) \<in> {''debug'', ''info'', ''warn'', ''error''}) \<and>
     no_controls (logDir (Logging c))"

definition valid_events :: "Config \<Rightarrow> bool" where
  "valid_events c \<longleftrightarrow> distinct (map evtType (Events c)) \<and>
     (\<forall>e \<in> set (Events c). evtType e \<in> set validEventTypes \<and> (evtHandler e = '''' \<or> legal_name (evtHandler e)))"

definition valid_args :: "Arg list \<Rightarrow> bool" where
  "valid_args args \<longleftrightarrow> distinct (map argName args) \<and>
     (\<forall>a \<in> set args. legal_name (argName a) \<and> CHR ''_'' \<notin> set (argName a) \<and> argType a \<in> set validArgTypes)"

text \<open>A grid cannot be pushed through RTD; a range is never returned.\<close>

definition valid_function :: "Config \<Rightarrow> Function \<Rightarrow> bool" where
  "valid_function c fn \<longleftrightarrow>
     (let mode = ToLower (fnMode fn); once = (mode = ''rtd-once''); rtd = (mode = ''rtd'')
      in mode \<in> {'''', ''sync'', ''async'', ''rtd'', ''rtd-once''} \<and>
         fnReturn fn \<in> set validReturnTypes \<and> (rtd \<longrightarrow> fnReturn fn \<noteq> ''grid'' \<and> fnReturn fn \<noteq> ''numgrid'') \<and>
         valid_args (fnArgs fn) \<and> legal_name (fnName fn) \<and> excel_name (fnName fn) \<and>
         (once \<longrightarrow> rtdEnabled (Rtd c) \<and> \<not> fnCaller fn \<and> \<not> fnMacro fn) \<and>
         (fnMemoize fn \<longrightarrow> once) \<and>
         (fnMemoizeTTL fn \<noteq> '''' \<longrightarrow> once \<and> \<not> fnMemoize fn \<and> (\<exists>d > 0. ParseDuration (fnMemoizeTTL fn) = Some d)) \<and>
         (fnLoadingPlaceholder fn \<noteq> '''' \<longrightarrow> once \<or> rtd) \<and>
         (fnShortcut fn \<noteq> '''' \<longrightarrow> one_letter (fnShortcut fn)) \<and>
         (fnTimeout fn \<noteq> '''' \<longrightarrow> \<not> once \<and> \<not> rtd \<and> duration_ok (fnTimeout fn)))"

definition shortcut_keys :: "Command list \<Rightarrow> string list" where
  "shortcut_keys cmds = map (\<lambda>cmd. ToUpper (cmdShortcut cmd)) (filter (\<lambda>cmd. cmdShortcut cmd \<noteq> '''') cmds)"

definition valid_commands :: "Config \<Rightarrow> bool" where
  "valid_commands c \<longleftrightarrow>
     distinct (map fnName (Functions c) @ map cmdName (Commands c)) \<and>
     (\<forall>cmd \<in> set (Commands c). legal_name (cmdName cmd) \<and> excel_name (cmdName cmd) \<and>
        (cmdHandler cmd = '''' \<or> legal_name (cmdHandler cmd)) \<and> (cmdShortcut cmd = '''' \<or> one_letter (cmdShortcut cmd))) \<and>
     distinct (shortcut_keys (Commands c))"

definition valid_server :: "Config \<Rightarrow> bool" where
  "valid_server c \<longleftrightarrow>
     duration_ok (srvTimeout (Server c)) \<and> duration_ok (AsyncAckTimeout (Server c)) \<and>
     (case Chunk (Server c) of
        None \<Rightarrow> True
      | Some ch \<Rightarrow> 0 \<le> MaxBufferBytes ch \<and> 0 \<le> MaxConcurrentTransfers ch \<and>
          duration_ok (CleanupInterval ch) \<and> duration_ok (BufferTTL ch)) \<and>
     (rtdEnabled (Rtd c) \<longrightarrow> rtdProgID (Rtd c) \<noteq> '''') \<and>
     (rtdProgID (Rtd c) \<noteq> '''' \<longrightarrow> prog_id_ok (rtdProgID (Rtd c))) \<and>
     (rtdClsid (Rtd c) \<noteq> '''' \<longrightarrow> clsidPattern (rtdClsid (Rtd c))) \<and>
     (rtdThrottleInterval (Rtd c) \<noteq> '''' \<longrightarrow> rtdEnabled (Rtd c) \<and>
        (\<exists>d \<ge> 0. ParseDuration (rtdThrottleInterval (Rtd c)) = Some d \<and> d div 1000000 \<le> max_i32))"

definition valid_ribbon :: "Config \<Rightarrow> bool" where
  "valid_ribbon c \<longleftrightarrow>
     (let r = Ribbon c
      in if ribbon_enabled r then
           Commands c \<noteq> [] \<and> (ribProgID r \<noteq> '''' \<longrightarrow> prog_id_ok (ribProgID r)) \<and>
           (ribClsid r \<noteq> '''' \<longrightarrow> clsidPattern (ribClsid r)) \<and>
           Bounce r \<in> {'''', ''full'', ''keep-open'', ''off''} \<and> (XML r \<noteq> '''' \<longrightarrow> Tab r = '''' \<and> Groups r = []) \<and>
           (\<forall>g \<in> set (Groups r). \<forall>btn \<in> set (grpButtons g).
              btnCommand btn \<noteq> '''' \<and> btnCommand btn \<in> cmdName ` set (Commands c) \<and>
              ClassifyRibbonImage (btnImage btn) \<noteq> None \<and> btnSize btn \<in> {'''', ''normal'', ''large''})
         else Groups r = [])"

definition valid_config :: "Config \<Rightarrow> bool" where
  "valid_config c \<longleftrightarrow> valid_project c \<and> valid_events c \<and> (\<forall>fn \<in> set (Functions c). valid_function c fn) \<and>
     valid_commands c \<and> valid_server c \<and> valid_ribbon c"

subsection \<open>The checks of single values\<close>

declare first_error.simps [simp del]

lemma EqualFold_word:
  assumes "\<forall>c \<in> set w. lower_ascii c = c \<and> c \<noteq> CHR ''i'' \<and> c \<noteq> CHR ''k'' \<and> byte c < 128"
  shows "EqualFold s w \<longleftrightarrow> ToLower s = w"
proof -
  have "map lower_ascii w = w" using assms by (simp add: map_idI)
  moreover have "map lower_ascii s = w \<longleftrightarrow> ToLower s = w"
    using assms
  proof (induction s arbitrary: w rule: ToLower.induct)
    case (2 c s)
    have no: "map lower_ascii (c # s) \<noteq> w" if "128 \<le> byte c"
    proof
      assume "map lower_ascii (c # s) = w"
      then have "lower_ascii c \<in> set w" by auto
      moreover have "lower_ascii c = c" using that by (simp add: lower_ascii_def)
      ultimately show False using 2(4) that by fastforce
    qed
    show ?case
    proof (cases w)
      case w: (Cons x xs)
      show ?thesis
      proof (cases "c = CHR 0xC4 \<and> take 1 s = [CHR 0xB0] \<or> c = CHR 0xE2 \<and> take 2 s = [CHR 0x84, CHR 0xAA]")
        case True
        then have "128 \<le> byte c" by auto
        moreover have "ToLower (c # s) \<noteq> w" using True 2(4) w by (auto split: if_splits)
        ultimately show ?thesis using no by blast
      next
        case False
        then have "ToLower (c # s) = lower_ascii c # ToLower s" by auto
        then show ?thesis using 2(3) [of xs] False 2(4) w by auto
      qed
    qed auto
  qed auto
  ultimately show ?thesis by (simp add: EqualFold_def)
qed

lemma EqualFold_modes [simp]:
  "EqualFold s ''rtd'' \<longleftrightarrow> ToLower s = ''rtd''" "EqualFold s ''rtd-once'' \<longleftrightarrow> ToLower s = ''rtd-once''"
  by (rule EqualFold_word; simp add: lower_ascii_def)+

lemma ToLower_Nil [simp]: "ToLower s = [] \<longleftrightarrow> s = []"
  by (cases s) auto

lemma case_rune:
  "(case find_rune bad i rs of None \<Rightarrow> x | Some (r, k) \<Rightarrow> Some (f r k)) = None \<longleftrightarrow>
     (\<forall>r \<in> set (map snd rs). \<not> bad r) \<and> x = None"
proof (cases "find_rune bad i rs")
  case None
  then have "\<forall>r \<in> set (map snd rs). \<not> bad r" by (simp only: find_rune_None)
  then show ?thesis by (simp add: None)
next
  case (Some e)
  then have "find_rune bad i rs \<noteq> None" by simp
  then show ?thesis unfolding find_rune_None using Some by (auto split: prod.split)
qed

lemma rejectControlChars_None [simp]: "rejectControlChars f s = None \<longleftrightarrow> no_controls s"
  unfolding rejectControlChars_def case_rune no_controls_def by (simp add: not_less)

lemma validateProgID_None [simp]: "validateProgID f s = None \<longleftrightarrow> prog_id_ok s"
proof -
  have "r \<noteq> 32" if "\<not> IsSpace r" for r using that by (auto simp: IsSpace_def)
  then have eq: "(\<not> (r < 32 \<or> r = 127 \<or> r = 34 \<or> r = 39 \<or> r = 92 \<or> IsSpace r)) \<longleftrightarrow>
      (32 < r \<and> r \<noteq> 127 \<and> r \<noteq> 34 \<and> r \<noteq> 39 \<and> r \<noteq> 92 \<and> \<not> IsSpace r)" for r
    by (metis not_less_iff_gr_or_eq)
  have "validateProgID f s = None \<longleftrightarrow>
      (\<forall>r \<in> set (rune_vals s). \<not> (r < 32 \<or> r = 127 \<or> r = 34 \<or> r = 39 \<or> r = 92 \<or> IsSpace r)) \<and> length (runes s) \<le> 39"
    unfolding validateProgID_def
    unfolding case_rune by (simp add: not_less split: if_splits)
  then show ?thesis unfolding eq prog_id_ok_def by blast
qed

lemma check_shortcut_None [simp]: "check_shortcut n s = None \<longleftrightarrow> one_letter s"
proof -
  have "length (rune_vals s) = 1 \<and> letter (rune_vals s ! 0) \<longleftrightarrow> (\<exists>r. rune_vals s = [r] \<and> letter r)"
    by (cases "rune_vals s"; cases "tl (rune_vals s)") auto
  moreover have "(\<exists>r. rune_vals s = [r] \<and> letter r) \<longleftrightarrow> (\<exists>c. s = [c] \<and> letter (byte c))"
    by (rule runes_single) (auto simp: letter_def)
  ultimately show ?thesis unfolding check_shortcut_def one_letter_def Let_def check_None by argo
qed

lemma check_name_None [simp]: "check_name k n = None \<longleftrightarrow> legal_name n"
  by (simp add: check_name_def)

lemma check_taken_None: "legal_name n \<Longrightarrow> check_taken n = None \<longleftrightarrow> excel_name n"
  using checkExcelNameCollision_None [of n] by (auto simp: check_taken_def split: name_collision.splits)

lemma check_duration_None [simp]: "check_duration f s = None \<longleftrightarrow> duration_ok s"
  by (auto simp: check_duration_def duration_ok_def parseDuration_def)

subsection \<open>The loops\<close>

lemma check_events_None:
  "check_events seen es = None \<longleftrightarrow> distinct (map evtType es) \<and> set seen \<inter> evtType ` set es = {} \<and>
     (\<forall>e \<in> set es. evtType e \<in> set validEventTypes \<and> (evtHandler e = '''' \<or> legal_name (evtHandler e)))"
  by (induction seen es rule: check_events.induct) auto

lemma check_args_None:
  "check_args n seen args = None \<longleftrightarrow> valid_args args \<and> set seen \<inter> argName ` set args = {}"
  by (induction n seen args rule: check_args.induct) (auto simp: valid_args_def)

lemma check_return_None:
  "check_return fn = None \<longleftrightarrow> fnReturn fn \<in> set validReturnTypes \<and>
     (ToLower (fnMode fn) = ''rtd'' \<longrightarrow> fnReturn fn \<noteq> ''grid'' \<and> fnReturn fn \<noteq> ''numgrid'')"
proof -
  have range: "''range'' \<notin> set validReturnTypes" by (simp add: validReturnTypes_def)
  have comp: "fnReturn fn \<in> set rtdCompositeReturnTypes \<longleftrightarrow>
      fnReturn fn = ''range'' \<or> fnReturn fn = ''grid'' \<or> fnReturn fn = ''numgrid''"
    by (auto simp: rtdCompositeReturnTypes_def)
  show ?thesis
  proof (cases "ToLower (fnMode fn) = ''rtd''")
    case True
    then show ?thesis unfolding check_return_def Let_def EqualFold_modes using range comp by auto
  next
    case False
    then show ?thesis unfolding check_return_def Let_def EqualFold_modes using range
      by (cases "fnReturn fn = ''range''") auto
  qed
qed

definition valid_mode :: "Config \<Rightarrow> Function \<Rightarrow> bool" where
  "valid_mode c fn \<longleftrightarrow>
     (let mode = ToLower (fnMode fn); once = (mode = ''rtd-once''); rtd = (mode = ''rtd'')
      in mode \<in> {'''', ''sync'', ''async'', ''rtd'', ''rtd-once''} \<and>
         (once \<longrightarrow> rtdEnabled (Rtd c) \<and> \<not> fnCaller fn \<and> \<not> fnMacro fn) \<and>
         (fnMemoize fn \<longrightarrow> once) \<and>
         (fnMemoizeTTL fn \<noteq> '''' \<longrightarrow> once \<and> \<not> fnMemoize fn \<and> (\<exists>d > 0. ParseDuration (fnMemoizeTTL fn) = Some d)) \<and>
         (fnLoadingPlaceholder fn \<noteq> '''' \<longrightarrow> once \<or> rtd) \<and>
         (fnShortcut fn \<noteq> '''' \<longrightarrow> one_letter (fnShortcut fn)) \<and>
         (fnTimeout fn \<noteq> '''' \<longrightarrow> \<not> once \<and> \<not> rtd \<and> duration_ok (fnTimeout fn)))"

lemma valid_function_parts:
  "valid_function c fn \<longleftrightarrow> (check_return fn = None \<and> valid_args (fnArgs fn)) \<and>
     (legal_name (fnName fn) \<and> excel_name (fnName fn) \<and> valid_mode c fn)"
  unfolding valid_function_def valid_mode_def check_return_None Let_def by blast

lemma ttl_check [simp]:
  "(case parseDuration t of None \<Rightarrow> Some e | Some d \<Rightarrow> check (d \<le> 0) f) = None \<longleftrightarrow> (\<exists>d > 0. ParseDuration t = Some d)"
  by (auto simp: parseDuration_def not_le split: option.split)

lemma timeout_check:
  "(if t \<noteq> '''' then (if rtd \<or> once then Some a else check_duration n t) else None) = None \<longleftrightarrow>
   (t \<noteq> '''' \<longrightarrow> \<not> once \<and> \<not> rtd \<and> duration_ok t)"
  by auto

lemma optional_check: "(if s \<noteq> '''' then x else None) = None \<longleftrightarrow> (s \<noteq> '''' \<longrightarrow> x = None)"
  by simp

lemma check_mode_None: "check_mode c fn = None \<longleftrightarrow> valid_mode c fn"
  unfolding check_mode_def valid_mode_def Let_def first_error_None list.set ball_simps(5) ball_simps(7)
    timeout_check check_None EqualFold_modes optional_check check_shortcut_None
  by (cases "fnMode fn = ''''") auto

lemma check_functions_None:
  "check_functions c seen fns = None \<longleftrightarrow> distinct (map fnName fns) \<and> set seen \<inter> fnName ` set fns = {} \<and>
     (\<forall>fn \<in> set fns. legal_name (fnName fn) \<and> excel_name (fnName fn) \<and> valid_mode c fn)"
  by (induction c seen fns rule: check_functions.induct) (auto simp: check_mode_None check_taken_None)

lemma case_taken: "(case gm_get m k of None \<Rightarrow> None | Some p \<Rightarrow> Some (f p)) = None \<longleftrightarrow> k \<notin> gm_dom m"
  by (auto simp: gm_dom_iff split: option.split)

lemma shortcut_keys_simps [simp]:
  "shortcut_keys [] = []"
  "shortcut_keys (cmd # cmds) =
     (if cmdShortcut cmd = '''' then shortcut_keys cmds else ToUpper (cmdShortcut cmd) # shortcut_keys cmds)"
  by (simp_all add: shortcut_keys_def)

lemma check_commands_None:
  "check_commands fns names seen cmds = None \<longleftrightarrow>
     distinct (map cmdName cmds) \<and> (set fns \<union> set names) \<inter> cmdName ` set cmds = {} \<and>
     (\<forall>cmd \<in> set cmds. legal_name (cmdName cmd) \<and> excel_name (cmdName cmd) \<and>
        (cmdHandler cmd = '''' \<or> legal_name (cmdHandler cmd)) \<and> (cmdShortcut cmd = '''' \<or> one_letter (cmdShortcut cmd))) \<and>
     distinct (shortcut_keys cmds) \<and> gm_dom seen \<inter> set (shortcut_keys cmds) = {}"
proof (induction cmds arbitrary: names seen)
  case (Cons cmd cmds)
  let ?key = "ToUpper (cmdShortcut cmd)"
  have taken: "check_name ''command'' (cmdName cmd) = None \<Longrightarrow> check_taken (cmdName cmd) = None \<longleftrightarrow> excel_name (cmdName cmd)"
    by (simp add: check_taken_None)
  show ?case
  proof (cases "cmdShortcut cmd = ''''")
    case True
    then show ?thesis by (auto simp: Cons.IH check_taken_None)
  next
    case False
    have step: "check_commands fns names seen (cmd # cmds) = None \<longleftrightarrow>
        legal_name (cmdName cmd) \<and> (cmdHandler cmd = '''' \<or> legal_name (cmdHandler cmd)) \<and>
        cmdName cmd \<notin> set fns \<and> excel_name (cmdName cmd) \<and> cmdName cmd \<notin> set names \<and> one_letter (cmdShortcut cmd) \<and>
        ?key \<notin> gm_dom seen \<and> check_commands fns (cmdName cmd # names) (gm_put ?key (cmdName cmd) seen) cmds = None"
      using False taken by (auto simp: Let_def case_taken)
    show ?thesis unfolding step Cons.IH gm_dom_put using False by auto
  qed
qed auto

subsection \<open>The sections\<close>

lemma ascii_runes:
  "(\<forall>r. P r \<longrightarrow> r < 128) \<Longrightarrow> (\<exists>r \<in> set (rune_vals s). \<not> P r) \<longleftrightarrow> \<not> (\<forall>c \<in> set s. P (byte c))"
  using runes_all_ascii [of P s] by blast

definition valid_name_package :: "Config \<Rightarrow> bool" where
  "valid_name_package c \<longleftrightarrow>
     (let pkg = goPackage (genGo (Gen c))
      in pkg = '''' \<or> (\<forall>x \<in> set pkg. name_char (byte x)) \<and> \<not> (48 \<le> byte (hd pkg) \<and> byte (hd pkg) \<le> 57) \<and>
         pkg \<notin> set goReservedWords \<and> pkg \<noteq> ''main'')"

lemma validateProjectName_None [simp]:
  "validateProjectName name = None \<longleftrightarrow> name \<noteq> '''' \<and> (\<forall>x \<in> set name. name_char (byte x) \<or> x = CHR ''-'')"
proof -
  have "(\<exists>r \<in> set (rune_vals name). \<not> (name_char r \<or> r = 45)) \<longleftrightarrow> \<not> (\<forall>x \<in> set name. name_char (byte x) \<or> byte x = 45)"
    using ascii_runes [of "\<lambda>r. name_char r \<or> r = 45" name] by (auto dest: name_char_ascii)
  moreover have "byte x = 45 \<longleftrightarrow> x = CHR ''-''" for x
    using of_char_eq_iff [of x "CHR ''-''", where ?'a = nat] by simp
  ultimately show ?thesis unfolding validateProjectName_def by auto
qed

lemma validateGenGoPackage_None [simp]: "validateGenGoPackage c = None \<longleftrightarrow> valid_name_package c"
proof -
  let ?pkg = "goPackage (genGo (Gen c))"
  have "(\<exists>r \<in> set (rune_vals ?pkg). \<not> name_char r) \<longleftrightarrow> \<not> (\<forall>x \<in> set ?pkg. name_char (byte x))"
    by (rule ascii_runes) (auto dest: name_char_ascii)
  then show ?thesis unfolding validateGenGoPackage_def valid_name_package_def Let_def
    by (cases "?pkg = ''''") (auto simp: hd_conv_nth)
qed

lemma validateBuild_None [simp]:
  "validateBuild c = None \<longleftrightarrow> Singlefile (Build c) \<in> {'''', ''xll''} \<and> no_controls (TempDir (Build c))"
  by (auto simp: validateBuild_def)

lemma validateLogging_None [simp]:
  "validateLogging c = None \<longleftrightarrow>
     (logLevel (Logging c) = '''' \<or> ToLower (logLevel (Logging c)) \<in> {''debug'', ''info'', ''warn'', ''error''}) \<and>
     no_controls (logDir (Logging c))"
  unfolding validateLogging_def by auto

lemma valid_project_iff:
  "valid_project c \<longleftrightarrow> validateProjectName (projName (Project c)) = None \<and> validateGenGoPackage c = None \<and>
     validateBuild c = None \<and> validateLogging c = None"
  unfolding valid_project_def valid_name_package_def validateProjectName_None validateGenGoPackage_None validateBuild_None
    validateLogging_None by blast

lemma validateEvents_None: "validateEvents c = None \<longleftrightarrow> valid_events c"
  by (simp add: validateEvents_def check_events_None valid_events_def)

lemma validateFunctions_None:
  "validateFunctionReturns c = None \<and> validateFunctionModes c = None \<longleftrightarrow>
     (\<forall>fn \<in> set (Functions c). valid_function c fn) \<and> distinct (map fnName (Functions c))"
  unfolding validateFunctionReturns_def validateFunctionModes_def check_functions_None valid_function_parts
  by (auto simp: check_args_None)

lemma throttle_check:
  "(if \<not> en then Some a
    else (case parseDuration t of None \<Rightarrow> Some e | Some d \<Rightarrow> check (d < 0 \<or> d div 1000000 > max_i32) f)) = None \<longleftrightarrow>
   en \<and> (\<exists>d \<ge> 0. ParseDuration t = Some d \<and> d div 1000000 \<le> max_i32)"
  by (auto simp: parseDuration_def not_le not_less split: option.split)

lemma validateClsid_None [simp]: "validateClsid f s = None \<longleftrightarrow> clsidPattern s"
  by (simp add: validateClsid_def)

lemma validateRtd_None:
  "validateRtd c = None \<longleftrightarrow>
     (rtdEnabled (Rtd c) \<longrightarrow> rtdProgID (Rtd c) \<noteq> '''') \<and>
     (rtdProgID (Rtd c) \<noteq> '''' \<longrightarrow> prog_id_ok (rtdProgID (Rtd c))) \<and>
     (rtdClsid (Rtd c) \<noteq> '''' \<longrightarrow> clsidPattern (rtdClsid (Rtd c))) \<and>
     (rtdThrottleInterval (Rtd c) \<noteq> '''' \<longrightarrow> rtdEnabled (Rtd c) \<and>
        (\<exists>d \<ge> 0. ParseDuration (rtdThrottleInterval (Rtd c)) = Some d \<and> d div 1000000 \<le> max_i32))"
  unfolding validateRtd_def Let_def first_error_None list.set ball_simps(5) ball_simps(7) optional_check throttle_check
    check_None validateProgID_None validateClsid_None
  by blast

lemma valid_server_iff:
  "valid_server c \<longleftrightarrow> validateServerTimeouts c = None \<and> validateRtd c = None \<and> validateServerChunk c = None"
  unfolding valid_server_def validateServerTimeouts_def validateRtd_None validateServerChunk_def
  by (cases "Chunk (Server c)") auto

lemma ClassifyRibbonImage_Nil [simp]: "ClassifyRibbonImage '''' = Some False"
  by (simp add: ClassifyRibbonImage_def)

lemma check_button_None:
  "check_button names btn = None \<longleftrightarrow> btnCommand btn \<noteq> '''' \<and> btnCommand btn \<in> set names \<and>
     ClassifyRibbonImage (btnImage btn) \<noteq> None \<and> btnSize btn \<in> {'''', ''normal'', ''large''}"
  by (cases "btnImage btn = ''''") (auto simp: check_button_def)

lemma validateRibbon_None: "validateRibbon c (map cmdName (Commands c)) = None \<longleftrightarrow> valid_ribbon c"
  unfolding validateRibbon_def valid_ribbon_def Let_def
  by (simp add: check_button_None optional_check del: insert_iff) blast

lemma valid_commands_iff:
  "valid_commands c \<longleftrightarrow> distinct (map fnName (Functions c)) \<and>
     check_commands (map fnName (Functions c)) [] [] (Commands c) = None"
  unfolding valid_commands_def check_commands_None by auto

lemma Validate_None: "Validate c = None \<longleftrightarrow> valid_config c"
proof -
  have "(case validateCommands c of Inl e \<Rightarrow> Some e | Inr names \<Rightarrow> validateRibbon c names) = None \<longleftrightarrow>
      check_commands (map fnName (Functions c)) [] [] (Commands c) = None \<and> validateRibbon c (map cmdName (Commands c)) = None"
    by (simp add: validateCommands_def split: option.split)
  then show ?thesis
    unfolding Validate_def first_error_None list.set ball_simps(5) ball_simps(7) valid_config_def valid_project_iff
      valid_server_iff valid_commands_iff validateEvents_None validateRibbon_None
    using validateFunctions_None [of c] by argo
qed

text \<open>C32. The sequence of checks \<open>Validate\<close> makes, with its early returns, its loops over what was seen before and
  its byte and rune scans, accepts exactly the valid projects: every condition of \<open>valid_config\<close> is checked, and a valid
  project is never refused.\<close>

theorem Validate_iff: "Validate c = None \<longleftrightarrow> valid_config c"
  by (rule Validate_None)

end
