(* ===== verification/Config_Defaults.thy ===== *)
theory Config_Defaults
  imports Config_Valid
begin

section \<open>What the defaults do to a project\<close>

text \<open>
  \<open>ApplyDefaults\<close> is idempotent, changes nothing the checks decide on, and brings an accepted project into the form the
  generator relies on. \<open>cmd/generate.go\<close> runs it before \<open>Validate\<close>.
\<close>

subsection \<open>Field by field\<close>

lemma defaults_fields [simp]:
  "Project (ApplyDefaults u c) = Project c"
  "Functions (ApplyDefaults u c) = map default_function (Functions c)"
  "Cache (ApplyDefaults u c) = Cache c"
  "Commands (ApplyDefaults u c) = map default_command (Commands c)"
  "Events (ApplyDefaults u c) = map default_event (Events c)"
  "Rtd (ApplyDefaults u c) = default_rtd u (Rtd c)"
  "Ribbon (ApplyDefaults u c) = default_ribbon u (projName (Project c)) (Ribbon c)"
  "Server (ApplyDefaults u c) = (Server c)\<lparr>Launch := default_launch (Launch (Server c))\<rparr>"
  "Build (ApplyDefaults u c) = (Build c)\<lparr>TempDir := (if TempDir (Build c) = '''' then ''${TEMP}'' else TempDir (Build c))\<rparr>"
  "Logging (ApplyDefaults u c) =
     (Logging c)\<lparr>logLevel := (if logLevel (Logging c) = '''' then ''info'' else logLevel (Logging c))\<rparr>"
  "Gen (ApplyDefaults u c) = (Gen c)\<lparr>genGo := (genGo (Gen c))\<lparr>goPackage := GoPackage c\<rparr>\<rparr>"
  by (auto simp: ApplyDefaults_def Let_def GoPackage_def)

lemma ToLower_ascii: "\<forall>c \<in> set s. byte c < 128 \<Longrightarrow> ToLower s = map lower_ascii s"
  by (induction s rule: ToLower.induct) auto

text \<open>Lowering twice is lowering once: no lead byte of a rune with an ASCII lower case is left.\<close>

lemma lower_ascii_idem [simp]: "lower_ascii (lower_ascii c) = lower_ascii c"
proof (cases "65 \<le> byte c \<and> byte c \<le> 90")
  case True
  then have "byte (char_of (byte c + 32) :: char) = byte c + 32" by (simp add: of_char_of)
  then show ?thesis using True by (simp add: lower_ascii_def)
qed (auto simp: lower_ascii_def)

lemma lower_ascii_high [simp]: "128 \<le> byte x \<Longrightarrow> lower_ascii c = x \<longleftrightarrow> c = x"
proof -
  assume x: "128 \<le> byte x"
  have "byte (char_of (byte c + 32) :: char) = byte c + 32" if "byte c \<le> 90" using that by (simp add: of_char_of)
  then show ?thesis using x by (auto simp: lower_ascii_def)
qed

lemma ToLower_Cons:
  "\<exists>x rest. ToLower (c # s) = x # rest \<and> (byte x < 128 \<or> x = lower_ascii c \<and> rest = ToLower s)"
proof (cases "c = CHR 0xC4 \<and> take 1 s = [CHR 0xB0]")
  case True
  then have "ToLower (c # s) = CHR ''i'' # ToLower (drop 1 s)" by (subst ToLower.simps) (rule if_P)
  then show ?thesis by simp
next
  case no1: False
  show ?thesis
  proof (cases "c = CHR 0xE2 \<and> take 2 s = [CHR 0x84, CHR 0xAA]")
    case True
    have "ToLower (c # s) = CHR ''k'' # ToLower (drop 2 s)"
      by (subst ToLower.simps(2)) (simp only: if_not_P [OF no1] if_P [OF True])
    then show ?thesis by simp
  next
    case False
    have "ToLower (c # s) = lower_ascii c # ToLower s"
      by (subst ToLower.simps(2)) (simp only: if_not_P [OF no1] if_not_P [OF False])
    then show ?thesis by blast
  qed
qed

lemma ToLower_high:
  assumes "128 \<le> byte x" "ToLower s = x # r"
  shows "\<exists>t. s = x # t \<and> r = ToLower t"
proof (cases s)
  case (Cons c t)
  then have "x = lower_ascii c" "r = ToLower t" using ToLower_Cons [of c t] assms by (auto simp del: ToLower.simps)
  moreover from this have "c = x" using lower_ascii_high [OF assms(1), of c] by simp
  ultimately show ?thesis using Cons by simp
qed (use assms in simp)

lemma ToLower_head: "128 \<le> byte x \<Longrightarrow> take 1 (ToLower s) = [x] \<Longrightarrow> take 1 s = [x]"
  using ToLower_high [of x s] by (cases "ToLower s") auto

lemma ToLower_head2:
  assumes "128 \<le> byte x" "128 \<le> byte y" "take 2 (ToLower s) = [x, y]"
  shows "take 2 s = [x, y]"
proof -
  obtain r where "ToLower s = x # r" "take 1 r = [y]" using assms(3) by (cases "ToLower s") (auto simp: numeral_2_eq_2)
  then obtain t where "s = x # t" "take 1 (ToLower t) = [y]" using ToLower_high assms(1) by metis
  then show ?thesis using ToLower_head [of y t] assms(2) by (simp add: numeral_2_eq_2)
qed

lemma ToLower_idem [simp]: "ToLower (ToLower s) = ToLower s"
proof (induction s rule: ToLower.induct)
  case (2 c s)
  show ?case
  proof (cases "c = CHR 0xC4 \<and> take 1 s = [CHR 0xB0] \<or> c = CHR 0xE2 \<and> take 2 s = [CHR 0x84, CHR 0xAA]")
    case False
    then have s: "ToLower (c # s) = lower_ascii c # ToLower s" by auto
    have "\<not> (lower_ascii c = CHR 0xC4 \<and> take 1 (ToLower s) = [CHR 0xB0])"
      using False ToLower_head [of "CHR 0xB0" s] by auto
    moreover have "\<not> (lower_ascii c = CHR 0xE2 \<and> take 2 (ToLower s) = [CHR 0x84, CHR 0xAA])"
      using False ToLower_head2 [of "CHR 0x84" "CHR 0xAA" s] by auto
    ultimately have "ToLower (lower_ascii c # ToLower s) = lower_ascii (lower_ascii c) # ToLower (ToLower s)" by auto
    then show ?thesis using s False 2(3) by auto
  qed (use 2 in \<open>auto simp: lower_ascii_def\<close>)
qed simp

lemma default_function_fields [simp]:
  "fnName (default_function fn) = fnName fn" "fnArgs (default_function fn) = fnArgs fn"
  "fnReturn (default_function fn) = fnReturn fn" "fnCaller (default_function fn) = fnCaller fn"
  "fnMacro (default_function fn) = fnMacro fn" "fnMemoize (default_function fn) = fnMemoize fn"
  "fnMemoizeTTL (default_function fn) = fnMemoizeTTL fn" "fnShortcut (default_function fn) = fnShortcut fn"
  "fnLoadingPlaceholder (default_function fn) = fnLoadingPlaceholder fn" "fnTimeout (default_function fn) = fnTimeout fn"
  "fnMode (default_function fn) =
     (if fnMode fn = '''' then (if fnAsync fn then ''async'' else ''sync'') else ToLower (fnMode fn))"
  "fnAsync (default_function fn) \<longleftrightarrow> fnMode (default_function fn) = ''async''"
  by (auto simp: default_function_def Let_def)

lemma ToLower_words [simp]:
  "ToLower ''sync'' = ''sync''" "ToLower ''async'' = ''async''" "ToLower ''info'' = ''info''"
  by (simp_all add: lower_ascii_def)

lemma default_record_fields [simp]:
  "cmdName (default_command cmd) = cmdName cmd" "cmdShortcut (default_command cmd) = cmdShortcut cmd"
  "cmdHandler (default_command cmd) = (if cmdHandler cmd = '''' then cmdName cmd else cmdHandler cmd)"
  "evtType (default_event evt) = evtType evt"
  "evtHandler (default_event evt) = (if evtHandler evt = '''' then ''On'' @ evtType evt else evtHandler evt)"
  "btnCommand (default_button btn) = btnCommand btn" "btnImage (default_button btn) = btnImage btn"
  "btnLabel (default_button btn) = btnLabel btn"
  "btnSize (default_button btn) = (if btnSize btn = '''' then ''normal'' else btnSize btn)"
  by (simp_all add: default_command_def default_event_def default_button_def)

lemma braced_not_Nil [simp]: "braced s \<noteq> []"
  by (simp add: braced_def)

lemma default_rtd_fields [simp]:
  "rtdEnabled (default_rtd u r) = rtdEnabled r" "rtdProgID (default_rtd u r) = rtdProgID r"
  "rtdThrottleInterval (default_rtd u r) = rtdThrottleInterval r"
  "rtdClsid (default_rtd u r) =
     (if rtdEnabled r \<and> rtdClsid r = '''' \<and> rtdProgID r \<noteq> '''' then braced (u (rtdProgID r)) else rtdClsid r)"
  by (auto simp: default_rtd_def Let_def)

lemma default_ribbon_fields [simp]:
  "Tab (default_ribbon u n r) = Tab r" "XML (default_ribbon u n r) = XML r" "Bounce (default_ribbon u n r) = Bounce r"
  "ribbon_enabled (default_ribbon u n r) = ribbon_enabled r"
  "ribProgID (default_ribbon u n r) = (if ribbon_enabled r \<and> ribProgID r = '''' then n @ ''.Ribbon'' else ribProgID r)"
  "ribClsid (default_ribbon u n r) =
     (if ribbon_enabled r \<and> ribClsid r = '''' then braced (u (ribProgID (default_ribbon u n r))) else ribClsid r)"
  "Groups (default_ribbon u n r) =
     (if ribbon_enabled r then map (\<lambda>g. g\<lparr>grpButtons := map default_button (grpButtons g)\<rparr>) (Groups r) else Groups r)"
  by (auto simp: default_ribbon_def Let_def ribbon_enabled_def)

subsection \<open>Idempotence\<close>

lemma default_function_stable:
  assumes "ToLower (fnMode fn) = fnMode fn" "fnMode fn \<noteq> ''''" "fnAsync fn \<longleftrightarrow> fnMode fn = ''async''"
  shows "default_function fn = fn"
proof -
  have m: "fn\<lparr>fnMode := ToLower (fnMode fn)\<rparr> = fn" using assms(1) by simp
  have a: "fn\<lparr>fnAsync := b\<rparr> = fn" if "b \<longleftrightarrow> fnMode fn = ''async''" for b using that assms(3) by simp
  show ?thesis
    unfolding default_function_def m Let_def using a [of True] a [of False] assms(2)
    by (cases "fnMode fn = ''async''") (simp_all only: if_True if_False simp_thms)
qed

lemma default_function_idem: "default_function (default_function fn) = default_function fn"
proof (rule default_function_stable)
  show "ToLower (fnMode (default_function fn)) = fnMode (default_function fn)"
    using ToLower_words by (auto simp del: ToLower.simps)
qed (auto simp del: ToLower.simps)

lemma default_launch_idem: "default_launch (default_launch l) = default_launch l"
  by (auto simp: default_launch_def Let_def split: option.splits)

lemma default_rtd_idem: "default_rtd u (default_rtd u r) = default_rtd u r"
  by (auto simp: default_rtd_def Let_def)

lemma default_command_idem: "default_command (default_command cmd) = default_command cmd"
  by (simp add: default_command_def)

lemma default_event_idem: "default_event (default_event evt) = default_event evt"
  by (simp add: default_event_def)

lemma default_group_idem: "map default_button (map default_button bs) = map default_button bs"
  by (simp add: default_button_def)

lemma default_ribbon_idem: "default_ribbon u n (default_ribbon u n r) = default_ribbon u n r"
proof (cases "ribbon_enabled r")
  case True
  let ?d = "default_ribbon u n r"
  have "ribbon_enabled ?d" "ribProgID ?d \<noteq> ''''" "ribClsid ?d \<noteq> ''''" using True by auto
  moreover have "map (\<lambda>g. g\<lparr>grpButtons := map default_button (grpButtons g)\<rparr>) (Groups ?d) = Groups ?d"
    using True default_group_idem by (simp add: comp_def)
  ultimately have "default_ribbon u n ?d = ?d\<lparr>Groups := Groups ?d\<rparr>"
    unfolding default_ribbon_def [of u n ?d] by (simp only: if_True if_False Let_def simp_thms)
  then show ?thesis by simp
qed (simp add: default_ribbon_def)

subsection \<open>Validity\<close>

lemma valid_args_default: "valid_args (fnArgs (default_function fn)) = valid_args (fnArgs fn)"
  by simp

lemma default_mode_lower:
  "ToLower (fnMode (default_function fn)) =
     (if fnMode fn = '''' then (if fnAsync fn then ''async'' else ''sync'') else ToLower (fnMode fn))"
  using ToLower_words by (auto simp del: ToLower.simps)

lemma valid_function_default: "valid_function (ApplyDefaults u c) (default_function fn) \<longleftrightarrow> valid_function c fn"
proof (cases "fnMode fn = ''''")
  case True
  then show ?thesis unfolding valid_function_def default_mode_lower Let_def by (cases "fnAsync fn") simp_all
next
  case False
  then have "ToLower (fnMode (default_function fn)) = ToLower (fnMode fn)" by (simp add: default_mode_lower)
  then show ?thesis unfolding valid_function_def by (simp del: default_function_fields(11))
qed

lemma GoPackage_valid: "valid_name_package (ApplyDefaults u c) \<longleftrightarrow> valid_name_package c"
  unfolding valid_name_package_def GoPackage_def DefaultGoPackage_def
  by (auto simp: GoPackage_def DefaultGoPackage_def goReservedWords_def name_char_def Let_def)

lemma no_controls_ascii: "\<forall>c \<in> set s. byte c < 128 \<Longrightarrow> no_controls s \<longleftrightarrow> (\<forall>c \<in> set s. 32 \<le> byte c)"
proof (induction s)
  case (Cons c s)
  then show ?case by (auto simp: no_controls_def)
qed (simp add: no_controls_def)

lemma valid_project_default: "valid_project (ApplyDefaults u c) \<longleftrightarrow> valid_project c"
proof -
  have "no_controls ''${TEMP}''" by (simp add: no_controls_ascii)
  moreover have "no_controls ''''" by (simp add: no_controls_def)
  moreover have "ToLower ''info'' = ''info''" by (rule ToLower_words)
  ultimately show ?thesis
    unfolding valid_project_iff validateBuild_None validateLogging_None validateGenGoPackage_None GoPackage_valid
    by (simp del: ToLower.simps)
qed

lemma on_event_legal: "ty \<in> set validEventTypes \<Longrightarrow> legal_name (''On'' @ ty)"
proof -
  assume "ty \<in> set validEventTypes"
  then consider "ty = ''CalculationEnded''" | "ty = ''CalculationCanceled''" by (auto simp: validEventTypes_def)
  then show ?thesis
    by cases (simp_all add: legal_name_def name_char_def goReservedWords_def cppReservedWords_def)
qed

lemma valid_events_default: "valid_events (ApplyDefaults u c) \<longleftrightarrow> valid_events c"
  using on_event_legal by (auto simp: valid_events_def comp_def)

lemma shortcut_keys_default [simp]: "shortcut_keys (map default_command cmds) = shortcut_keys cmds"
  by (induction cmds) auto

lemma valid_commands_default: "valid_commands (ApplyDefaults u c) \<longleftrightarrow> valid_commands c"
  unfolding valid_commands_def by (auto simp: comp_def)

text \<open>The default ProgID of a ribbon is the project's name with \<open>.Ribbon\<close>.\<close>

lemma prog_id_rune:
  assumes "name_char r \<or> r = 45 \<or> r = 46"
  shows "32 < r \<and> r \<noteq> 127 \<and> r \<noteq> 34 \<and> r \<noteq> 39 \<and> r \<noteq> 92 \<and> \<not> IsSpace r"
proof -
  have "45 \<le> r" "r < 128" using assms name_char_ascii [of r] by (auto simp: name_char_def)
  moreover have "r \<noteq> 92" "r \<noteq> 127" using assms by (auto simp: name_char_def)
  ultimately show ?thesis by (simp add: IsSpace_def)
qed

lemma prog_id_ascii:
  assumes "\<forall>c \<in> set s. name_char (byte c) \<or> c = CHR ''-''"
  shows "prog_id_ok (s @ ''.Ribbon'') \<longleftrightarrow> length s \<le> 32"
proof -
  have all: "\<forall>c \<in> set s'. byte c < 128 \<Longrightarrow> rune_vals s' = map byte s' \<and> length (runes s') = length s'" for s'
    by (induction s') auto
  let ?s = "s @ ''.Ribbon''"
  have "\<forall>c \<in> set ''.Ribbon''. name_char (byte c) \<or> byte c = 46" by (simp add: name_char_def)
  moreover have "\<forall>c \<in> set s. name_char (byte c) \<or> byte c = 45" using assms by fastforce
  moreover have "set ?s = set s \<union> set ''.Ribbon''" by (rule set_append)
  ultimately have cs: "name_char (byte c) \<or> byte c = 45 \<or> byte c = 46" if "c \<in> set ?s" for c
    using that by blast
  have ascii: "\<forall>c \<in> set ?s. byte c < 128"
  proof
    fix c assume "c \<in> set ?s"
    then show "byte c < 128" using cs [of c] name_char_ascii [of "byte c"] by linarith
  qed
  have ok: "32 < byte c \<and> byte c \<noteq> 127 \<and> byte c \<noteq> 34 \<and> byte c \<noteq> 39 \<and> byte c \<noteq> 92 \<and> \<not> IsSpace (byte c)"
    if "c \<in> set ?s" for c
    using cs [OF that] by (rule prog_id_rune)
  note rune = all [OF ascii, THEN conjunct1] all [OF ascii, THEN conjunct2]
  have "(\<forall>r \<in> set (rune_vals ?s). 32 < r \<and> r \<noteq> 127 \<and> r \<noteq> 34 \<and> r \<noteq> 39 \<and> r \<noteq> 92 \<and> \<not> IsSpace r) = True"
    unfolding rune set_map by (intro iffD2 [OF eq_True] ballI, elim imageE, hypsubst, rule ok)
  moreover have "length ?s \<le> 39 \<longleftrightarrow> length s \<le> 32" by simp
  ultimately show ?thesis unfolding prog_id_ok_def rune(2) by argo
qed

lemma valid_server_default:
  assumes "\<forall>n. clsidPattern (braced (sha1_uuid n))"
  shows "valid_server (ApplyDefaults sha1_uuid c) \<longleftrightarrow> valid_server c"
  using assms unfolding valid_server_def by simp

lemma ribbon_groups_default:
  "(\<forall>g \<in> set (map (\<lambda>g. g\<lparr>grpButtons := map default_button (grpButtons g)\<rparr>) gs). \<forall>btn \<in> set (grpButtons g).
      btnCommand btn \<noteq> '''' \<and> btnCommand btn \<in> cmdName ` set (map default_command cmds) \<and>
      ClassifyRibbonImage (btnImage btn) \<noteq> None \<and> btnSize btn \<in> {'''', ''normal'', ''large''}) \<longleftrightarrow>
   (\<forall>g \<in> set gs. \<forall>btn \<in> set (grpButtons g).
      btnCommand btn \<noteq> '''' \<and> btnCommand btn \<in> cmdName ` set cmds \<and>
      ClassifyRibbonImage (btnImage btn) \<noteq> None \<and> btnSize btn \<in> {'''', ''normal'', ''large''})"
  by (simp add: image_image) blast

lemma valid_ribbon_default:
  assumes uuid: "\<forall>n. clsidPattern (braced (sha1_uuid n))"
    and project: "valid_project c"
  shows "valid_ribbon (ApplyDefaults sha1_uuid c) \<longleftrightarrow>
     valid_ribbon c \<and> (ribbon_enabled (Ribbon c) \<and> ribProgID (Ribbon c) = '''' \<longrightarrow> length (projName (Project c)) \<le> 32)"
proof (cases "ribbon_enabled (Ribbon c)")
  case True
  have name: "prog_id_ok (projName (Project c) @ ''.Ribbon'') \<longleftrightarrow> length (projName (Project c)) \<le> 32"
    using project by (intro prog_id_ascii) (simp add: valid_project_def)
  let ?p = "ribProgID (Ribbon (ApplyDefaults sha1_uuid c))" and ?q = "ribClsid (Ribbon (ApplyDefaults sha1_uuid c))"
  have p: "(?p \<noteq> '''' \<longrightarrow> prog_id_ok ?p) \<longleftrightarrow> (ribProgID (Ribbon c) \<noteq> '''' \<longrightarrow> prog_id_ok (ribProgID (Ribbon c))) \<and>
      (ribProgID (Ribbon c) = '''' \<longrightarrow> length (projName (Project c)) \<le> 32)"
    using True name by (cases "ribProgID (Ribbon c) = ''''") simp_all
  have q: "(?q \<noteq> '''' \<longrightarrow> clsidPattern ?q) \<longleftrightarrow> (ribClsid (Ribbon c) \<noteq> '''' \<longrightarrow> clsidPattern (ribClsid (Ribbon c)))"
    using True uuid by simp
  have fields: "ribbon_enabled (Ribbon (ApplyDefaults sha1_uuid c))"
    "Bounce (Ribbon (ApplyDefaults sha1_uuid c)) = Bounce (Ribbon c)" "XML (Ribbon (ApplyDefaults sha1_uuid c)) = XML (Ribbon c)"
    "Tab (Ribbon (ApplyDefaults sha1_uuid c)) = Tab (Ribbon c)"
    "Groups (Ribbon (ApplyDefaults sha1_uuid c)) =
       map (\<lambda>g. g\<lparr>grpButtons := map default_button (grpButtons g)\<rparr>) (Groups (Ribbon c))"
    "Commands (ApplyDefaults sha1_uuid c) = map default_command (Commands c)"
    using True by simp_all
  show ?thesis
    unfolding valid_ribbon_def Let_def p q unfolding fields ribbon_groups_default
    using True by (simp only: fields(1) if_True map_is_Nil_conv) blast
qed (simp add: valid_ribbon_def)

text \<open>\<open>ApplyDefaults\<close> may run again on its own result (and does, when a project is generated twice) without
  changing anything.\<close>

lemma ApplyDefaults_idem: "ApplyDefaults sha1_uuid (ApplyDefaults sha1_uuid c) = ApplyDefaults sha1_uuid c"
proof -
  let ?d = "ApplyDefaults sha1_uuid c"
  have parts: "map default_function (Functions ?d) = Functions ?d" "map default_command (Commands ?d) = Commands ?d"
    "map default_event (Events ?d) = Events ?d" "default_rtd sha1_uuid (Rtd ?d) = Rtd ?d"
    "default_ribbon sha1_uuid (projName (Project ?d)) (Ribbon ?d) = Ribbon ?d"
    "default_launch (Launch (Server ?d)) = Launch (Server ?d)"
    using default_function_idem default_command_idem default_event_idem default_rtd_idem default_ribbon_idem
      default_launch_idem by (simp_all add: comp_def)
  have set: "TempDir (Build ?d) \<noteq> ''''" "goPackage (genGo (Gen ?d)) \<noteq> ''''" "logLevel (Logging ?d) \<noteq> ''''"
    by (simp_all add: GoPackage_def DefaultGoPackage_def)
  have "ApplyDefaults sha1_uuid ?d =
      ?d\<lparr>Functions := Functions ?d, Server := (Server ?d)\<lparr>Launch := Launch (Server ?d)\<rparr>, Rtd := Rtd ?d, Commands := Commands ?d,
        Events := Events ?d, Ribbon := Ribbon ?d\<rparr>"
    using set unfolding ApplyDefaults_def [of sha1_uuid ?d] Let_def by (simp add: parts del: defaults_fields)
  then show ?thesis by (simp del: defaults_fields)
qed

lemma defaults_valid:
  assumes "\<forall>n. clsidPattern (braced (sha1_uuid n))"
  shows "valid_config (ApplyDefaults sha1_uuid c) \<longleftrightarrow>
     valid_config c \<and> (ribbon_enabled (Ribbon c) \<and> ribProgID (Ribbon c) = '''' \<longrightarrow> length (projName (Project c)) \<le> 32)"
proof (cases "valid_project c")
  case True
  have "(\<forall>fn \<in> set (Functions (ApplyDefaults sha1_uuid c)). valid_function (ApplyDefaults sha1_uuid c) fn) \<longleftrightarrow>
      (\<forall>fn \<in> set (Functions c). valid_function c fn)"
    unfolding defaults_fields using valid_function_default by simp
  then show ?thesis
    unfolding valid_config_def valid_ribbon_default [OF assms True] valid_server_default [OF assms]
      valid_project_default valid_events_default valid_commands_default by blast
next
  case False
  then show ?thesis unfolding valid_config_def valid_project_default by blast
qed

text \<open>C34. The defaults decide nothing: whenever the UUIDs have their form, a project with its defaults filled in is valid
  exactly when it was valid before, except that a ribbon left without a ProgID needs a project name of at most 32
  characters, since \<open>.Ribbon\<close> is appended to it.\<close>

theorem defaults_keep_validity:
  assumes "\<forall>n. clsidPattern (braced (sha1_uuid n))"
  shows "valid_config (ApplyDefaults sha1_uuid c) \<longleftrightarrow>
     valid_config c \<and> (ribbon_enabled (Ribbon c) \<and> ribProgID (Ribbon c) = '''' \<longrightarrow> length (projName (Project c)) \<le> 32)"
  using assms by (rule defaults_valid)

subsection \<open>What the generator is given\<close>

text \<open>The templates compare modes exactly, emit the names and handlers as identifiers, and index the buttons' commands.\<close>

definition generator_ready :: "Config \<Rightarrow> bool" where
  "generator_ready c \<longleftrightarrow>
     (\<forall>fn \<in> set (Functions c). fnMode fn \<in> {''sync'', ''async'', ''rtd'', ''rtd-once''} \<and>
        (fnAsync fn \<longleftrightarrow> fnMode fn = ''async'') \<and> (fnMode fn = ''rtd-once'' \<longrightarrow> rtdEnabled (Rtd c)) \<and>
        legal_name (fnName fn) \<and> fnReturn fn \<in> set validReturnTypes \<and>
        (\<forall>a \<in> set (fnArgs fn). legal_name (argName a) \<and> argType a \<in> set validArgTypes)) \<and>
     distinct (map fnName (Functions c) @ map cmdName (Commands c)) \<and>
     (\<forall>cmd \<in> set (Commands c). legal_name (cmdHandler cmd)) \<and>
     (\<forall>evt \<in> set (Events c). legal_name (evtHandler evt)) \<and>
     TempDir (Build c) \<noteq> '''' \<and> goPackage (genGo (Gen c)) \<noteq> '''' \<and> logLevel (Logging c) \<noteq> '''' \<and>
     (\<exists>l. Launch (Server c) = Some l \<and> launchEnabled l \<noteq> None) \<and>
     (rtdEnabled (Rtd c) \<longrightarrow> rtdProgID (Rtd c) \<noteq> '''' \<and> clsidPattern (rtdClsid (Rtd c))) \<and>
     (ribbon_enabled (Ribbon c) \<longrightarrow> Commands c \<noteq> [] \<and> ribProgID (Ribbon c) \<noteq> '''' \<and> clsidPattern (ribClsid (Ribbon c)) \<and>
        (\<forall>g \<in> set (Groups (Ribbon c)). \<forall>btn \<in> set (grpButtons g).
           btnSize btn \<in> {''normal'', ''large''} \<and> btnCommand btn \<in> cmdName ` set (Commands c)))"

lemma ready_functions:
  assumes "fn \<in> set (Functions (ApplyDefaults u c))" "valid_function (ApplyDefaults u c) fn"
  shows "fnMode fn \<in> {''sync'', ''async'', ''rtd'', ''rtd-once''} \<and> (fnAsync fn \<longleftrightarrow> fnMode fn = ''async'') \<and>
    (fnMode fn = ''rtd-once'' \<longrightarrow> rtdEnabled (Rtd (ApplyDefaults u c))) \<and>
    legal_name (fnName fn) \<and> fnReturn fn \<in> set validReturnTypes \<and>
    (\<forall>a \<in> set (fnArgs fn). legal_name (argName a) \<and> argType a \<in> set validArgTypes)"
proof -
  obtain f where f: "fn = default_function f" using assms(1) by auto
  have low: "ToLower (fnMode fn) = fnMode fn"
    unfolding f default_mode_lower by (simp del: ToLower.simps)
  have "fnMode fn \<noteq> ''''" unfolding f by simp
  moreover have "fnAsync fn \<longleftrightarrow> fnMode fn = ''async''" unfolding f by (rule default_function_fields(12))
  ultimately show ?thesis
    using assms(2) unfolding valid_function_def valid_args_def Let_def low by blast
qed

lemma ready_ribbon:
  assumes "valid_ribbon (ApplyDefaults u c)" "ribbon_enabled (Ribbon (ApplyDefaults u c))"
  shows "Commands (ApplyDefaults u c) \<noteq> [] \<and> ribProgID (Ribbon (ApplyDefaults u c)) \<noteq> '''' \<and>
    clsidPattern (ribClsid (Ribbon (ApplyDefaults u c))) \<and>
    (\<forall>g \<in> set (Groups (Ribbon (ApplyDefaults u c))). \<forall>btn \<in> set (grpButtons g).
       btnSize btn \<in> {''normal'', ''large''} \<and> btnCommand btn \<in> cmdName ` set (Commands (ApplyDefaults u c)))"
proof -
  let ?r = "Ribbon (ApplyDefaults u c)"
  have e: "ribbon_enabled (Ribbon c)" using assms(2) by simp
  have "ribProgID ?r \<noteq> ''''" "ribClsid ?r \<noteq> ''''" using e by simp_all
  moreover have "btnSize btn \<noteq> ''''" if "g \<in> set (Groups ?r)" "btn \<in> set (grpButtons g)" for g btn
    using e that by (auto split: if_splits)
  ultimately show ?thesis using assms unfolding valid_ribbon_def Let_def if_P [OF assms(2)] by blast
qed

text \<open>C33. A project that \<open>runGenerate\<close> accepts (defaults, then checks) is what the generator needs: exact modes with the
  legacy async flag in step, names that are identifiers and do not clash, handlers, a launch policy, and for a ribbon or
  RTD server a ProgID and a well-formed CLSID with every button on a declared command.\<close>

theorem accepted_is_ready:
  assumes "Validate (ApplyDefaults sha1_uuid c) = None"
  shows "generator_ready (ApplyDefaults sha1_uuid c)"
proof -
  let ?d = "ApplyDefaults sha1_uuid c"
  have v: "valid_config ?d" using assms by (simp add: Validate_None del: defaults_fields)
  have ev: "evtHandler e \<noteq> ''''" if "e \<in> set (Events ?d)" for e
    using that by (auto split: if_splits)
  have cm: "cmdHandler e \<noteq> '''' \<or> cmdHandler e = cmdName e" if "e \<in> set (Commands ?d)" for e
    using that by (auto split: if_splits)
  have "TempDir (Build ?d) \<noteq> ''''" "goPackage (genGo (Gen ?d)) \<noteq> ''''" "logLevel (Logging ?d) \<noteq> ''''"
    by (simp_all add: GoPackage_def DefaultGoPackage_def)
  moreover have "\<exists>l. Launch (Server ?d) = Some l \<and> launchEnabled l \<noteq> None"
    by (auto simp: default_launch_def Let_def split: option.split)
  moreover have "rtdEnabled (Rtd ?d) \<longrightarrow> rtdProgID (Rtd ?d) \<noteq> '''' \<and> clsidPattern (rtdClsid (Rtd ?d))"
  proof
    assume e: "rtdEnabled (Rtd ?d)"
    then have p: "rtdProgID (Rtd ?d) \<noteq> ''''" using v by (simp add: valid_config_def valid_server_def del: defaults_fields)
    then have "rtdClsid (Rtd ?d) \<noteq> ''''" using e by auto
    then show "rtdProgID (Rtd ?d) \<noteq> '''' \<and> clsidPattern (rtdClsid (Rtd ?d))"
      using v p by (simp add: valid_config_def valid_server_def del: defaults_fields)
  qed
  moreover have "\<forall>evt \<in> set (Events ?d). legal_name (evtHandler evt)"
    using v ev unfolding valid_config_def valid_events_def by blast
  moreover have "\<forall>cmd \<in> set (Commands ?d). legal_name (cmdHandler cmd)"
    using v cm unfolding valid_config_def valid_commands_def by metis
  moreover have "distinct (map fnName (Functions ?d) @ map cmdName (Commands ?d))"
    using v unfolding valid_config_def valid_commands_def by blast
  ultimately show ?thesis
    using ready_functions [of _ sha1_uuid c] ready_ribbon [of sha1_uuid c] v unfolding generator_ready_def valid_config_def
    by blast
qed

subsection \<open>A project\<close>

text \<open>A project with a function, a command on the ribbon, both events and RTD, most of it left to the defaults.\<close>

definition demo_uuid :: "string \<Rightarrow> string" where
  "demo_uuid name = ''6ba7b810-9dad-51d1-80b4-00c04fd430c8''"

definition demo_function :: Function where
  "demo_function =
     \<lparr>fnName = ''MonteCarloValueAtRiskEstimate'', fnDescription = ''text'',
      fnArgs = [\<lparr>argName = ''paths'', argType = ''int'', argDescription = ''''\<rparr>], fnReturn = ''grid'', fnAsync = True,
      fnResizable = False, fnVolatile = False, fnCategory = '''', fnShortcut = ''m'', fnHelpTopic = '''', fnTimeout = '''',
      fnCaller = False, fnMacro = False, fnMode = ''RTD-Once'', fnMemoize = False, fnMemoizeTTL = ''5s'',
      fnLoadingPlaceholder = ''NA'', fnCache = None\<rparr>"

definition demo_command :: Command where
  "demo_command = \<lparr>cmdName = ''RefreshEveryMonteCarloEstimate'', cmdDescription = '''', cmdHandler = '''', cmdShortcut = ''R''\<rparr>"

definition demo_ribbon :: RibbonConfig where
  "demo_ribbon =
     \<lparr>Tab = ''Risk'', Groups = [\<lparr>grpLabel = ''Runs'', grpButtons =
        [\<lparr>btnLabel = ''Go'', btnCommand = ''RefreshEveryMonteCarloEstimate'', btnSize = '''', btnImage = ''icons/go.PNG''\<rparr>]\<rparr>],
      XML = '''', ribProgID = '''', ribClsid = '''', Bounce = ''off''\<rparr>"

definition demo_config :: Config where
  "demo_config =
     \<lparr>Project = \<lparr>projName = ''risk-desk'', projVersion = ''0.1''\<rparr>, Build = \<lparr>Singlefile = ''xll'', TempDir = ''''\<rparr>,
      Logging = \<lparr>logLevel = '''', logDir = ''''\<rparr>, Cache = \<lparr>cacheEnabled = False, cacheTTL = '''', cacheJitter = ''''\<rparr>,
      Server = \<lparr>srvCommand = '''', Workers = 4, srvTimeout = ''2s'', AsyncAckTimeout = '''', Launch = None,
        Chunk = Some \<lparr>MaxBufferBytes = 0, CleanupInterval = ''1s'', BufferTTL = '''', MaxConcurrentTransfers = 8\<rparr>\<rparr>,
      Functions = [demo_function], Gen = \<lparr>genGo = \<lparr>goModule = '''', goPackage = ''''\<rparr>, DisablePidSuffix = False\<rparr>,
      Events = [\<lparr>evtType = ''CalculationEnded'', evtHandler = ''''\<rparr>, \<lparr>evtType = ''CalculationCanceled'', evtHandler = ''Stop''\<rparr>],
      Rtd = \<lparr>rtdEnabled = True, rtdProgID = ''Risk.Rtd'', rtdClsid = '''', rtdDescription = '''', rtdThrottleInterval = ''500ms'',
        rtdLoadingPlaceholder = ''''\<rparr>,
      Commands = [demo_command], Ribbon = demo_ribbon\<rparr>"

lemma demo_uuid_ok: "\<forall>n. clsidPattern (braced (demo_uuid n))"
  by (simp add: clsidPattern_def braced_def demo_uuid_def clsid_char_def hex_char_def)

lemma demo_durations:
  "ParseDuration ''5s'' = Some 5000000000" "ParseDuration ''2s'' = Some 2000000000" "ParseDuration ''1s'' = Some 1000000000"
  "ParseDuration ''500ms'' = Some 500000000"
  by (simp_all add: ParseDuration_def duration_item_def digit_def digit_num_def unit_of_def unit_char_def Let_def)

lemma demo_function_valid: "rtdEnabled (Rtd c) \<Longrightarrow> valid_function c demo_function"
proof -
  assume "rtdEnabled (Rtd c)"
  moreover have "ToLower (fnMode demo_function) = ''rtd-once''" by code_simp
  moreover have "legal_name (fnName demo_function)" "valid_args (fnArgs demo_function)"
    by (simp_all add: demo_function_def legal_name_def name_char_def valid_args_def goReservedWords_def cppReservedWords_def
      validArgTypes_def)
  moreover have "excel_name (fnName demo_function)" by (rule long_name_free) (simp add: demo_function_def)
  moreover have "fnReturn demo_function \<in> set validReturnTypes" by (simp add: demo_function_def validReturnTypes_def)
  ultimately show ?thesis
    unfolding valid_function_def Let_def
    by (simp add: demo_durations one_letter_def letter_def demo_function_def)
qed

lemma demo_commands_valid: "valid_commands demo_config"
proof -
  have "excel_name (cmdName demo_command)" by (rule long_name_free) (simp add: demo_command_def)
  moreover have "legal_name (cmdName demo_command)"
    by (simp add: demo_command_def legal_name_def name_char_def goReservedWords_def cppReservedWords_def)
  ultimately show ?thesis
    by (simp add: valid_commands_def demo_config_def demo_function_def demo_command_def one_letter_def letter_def)
qed

lemma demo_project_valid: "valid_project demo_config"
  by (simp add: valid_project_def demo_config_def name_char_def no_controls_def)

lemma demo_ascii: "prog_id_ok ''Risk.Rtd''"
  by (simp add: prog_id_ok_def IsSpace_def)

lemma demo_image: "ClassifyRibbonImage ''icons/go.PNG'' = Some True"
  by code_simp

lemma demo_valid: "valid_config demo_config"
proof -
  have "legal_name ''Stop''" by (simp add: legal_name_def name_char_def goReservedWords_def cppReservedWords_def)
  then have "valid_events demo_config"
    by (simp add: valid_events_def demo_config_def validEventTypes_def)
  moreover have "valid_server demo_config"
    using demo_durations demo_ascii by (simp add: valid_server_def demo_config_def duration_ok_def)
  moreover have "valid_ribbon demo_config"
    using demo_image by (simp add: valid_ribbon_def demo_config_def demo_ribbon_def demo_command_def ribbon_enabled_def)
  moreover have "rtdEnabled (Rtd demo_config)" "Functions demo_config = [demo_function]" by (simp_all add: demo_config_def)
  ultimately show ?thesis
    using demo_function_valid demo_commands_valid demo_project_valid unfolding valid_config_def by simp
qed

lemma demo_name: "length (projName (Project demo_config)) \<le> 32"
  by (simp add: demo_config_def)

theorem defaults_keep_validity_witness: "valid_config (ApplyDefaults demo_uuid demo_config)"
  unfolding defaults_keep_validity [OF demo_uuid_ok] using demo_valid demo_name by blast

theorem accepted_is_ready_witness: "generator_ready (ApplyDefaults demo_uuid demo_config)"
  by (rule accepted_is_ready) (use demo_valid demo_name defaults_valid [OF demo_uuid_ok] Validate_None in blast)

subsection \<open>Accepted projects that are not what they seem\<close>

text \<open>A negative duration is a duration; names that Excel does not distinguish are accepted side by side; and the default
  ProgID of a ribbon may break the limit of its own check.\<close>

lemma negative_timeout_accepted: "Validate (demo_config\<lparr>Server := (Server demo_config)\<lparr>srvTimeout := ''-200ms''\<rparr>\<rparr>) = None"
proof -
  let ?c = "demo_config\<lparr>Server := (Server demo_config)\<lparr>srvTimeout := ''-200ms''\<rparr>\<rparr>"
  have "valid_function ?c fn = valid_function demo_config fn" for fn by (simp add: valid_function_def)
  moreover have "valid_project ?c = valid_project demo_config" "valid_events ?c = valid_events demo_config"
    "valid_commands ?c = valid_commands demo_config" "valid_ribbon ?c = valid_ribbon demo_config"
    by (simp_all add: valid_project_def valid_events_def valid_commands_def valid_ribbon_def)
  moreover have "valid_server ?c" using demo_valid ParseDuration_examples(2) by (simp add: valid_config_def valid_server_def duration_ok_def)
  ultimately show ?thesis using demo_valid by (simp add: Validate_None valid_config_def)
qed

definition twin_function :: Function where
  "twin_function = demo_function\<lparr>fnName := ''MONTECarloValueAtRiskEstimate''\<rparr>"

lemma case_twins_accepted:
  "Validate (demo_config\<lparr>Functions := [demo_function, twin_function]\<rparr>) = None"
  "map upper_ascii (fnName twin_function) = map upper_ascii (fnName demo_function)"
proof -
  let ?c = "demo_config\<lparr>Functions := [demo_function, twin_function]\<rparr>"
  have legal: "legal_name (fnName twin_function)"
    by (simp add: twin_function_def legal_name_def name_char_def goReservedWords_def cppReservedWords_def)
  have free: "excel_name (fnName twin_function)" by (rule long_name_free) (simp add: twin_function_def)
  have "valid_function demo_config demo_function" by (rule demo_function_valid) (simp add: demo_config_def)
  then have "valid_function demo_config twin_function"
    using legal free unfolding valid_function_def Let_def by (simp add: twin_function_def)
  moreover have "valid_function ?c fn = valid_function demo_config fn" for fn by (simp add: valid_function_def)
  moreover have "valid_commands ?c"
    using demo_commands_valid
    by (simp add: valid_commands_def demo_config_def demo_function_def demo_command_def twin_function_def)
  moreover have "valid_project ?c = valid_project demo_config" "valid_events ?c = valid_events demo_config"
    "valid_server ?c = valid_server demo_config" "valid_ribbon ?c = valid_ribbon demo_config"
    by (simp_all add: valid_project_def valid_events_def valid_server_def valid_ribbon_def)
  moreover have "valid_function demo_config demo_function" by (rule demo_function_valid) (simp add: demo_config_def)
  ultimately show "Validate ?c = None" using demo_valid by (simp add: Validate_None valid_config_def)
  show "map upper_ascii (fnName twin_function) = map upper_ascii (fnName demo_function)" by code_simp
qed

definition long_project :: Config where
  "long_project = demo_config\<lparr>Project := \<lparr>projName = ''a-project-with-a-rather-long-name-'', projVersion = ''''\<rparr>\<rparr>"

lemma default_prog_id_rejected:
  "Validate long_project = None" "Validate (ApplyDefaults demo_uuid long_project) \<noteq> None"
proof -
  have "valid_function long_project fn = valid_function demo_config fn" for fn
    by (simp add: valid_function_def long_project_def)
  moreover have "valid_project long_project"
    using demo_project_valid by (simp add: valid_project_def long_project_def name_char_def)
  moreover have "valid_events long_project = valid_events demo_config"
    "valid_commands long_project = valid_commands demo_config" "valid_server long_project = valid_server demo_config"
    "valid_ribbon long_project = valid_ribbon demo_config" "Functions long_project = Functions demo_config"
    by (simp_all add: valid_events_def valid_commands_def valid_server_def valid_ribbon_def long_project_def)
  ultimately show "Validate long_project = None" using demo_valid by (simp add: Validate_None valid_config_def)
  show "Validate (ApplyDefaults demo_uuid long_project) \<noteq> None"
    unfolding Validate_None defaults_valid [OF demo_uuid_ok]
    by (simp add: long_project_def demo_config_def demo_ribbon_def ribbon_enabled_def)
qed

end
