(* ===== verification/Cpp_Literals.thy ===== *)
theory Cpp_Literals
  imports Go_Strings
begin

section \<open>Text in the generated C++ (internal/generator/funcmap.go)\<close>

text \<open>
  \<open>cppWideLiteral\<close> and \<open>escapeCppString\<close> put text of the configuration into wide string literals of the generated
  source. The compiler's reading of such a literal is \<open>read_wide\<close>; it works on code points, and refuses a raw line break,
  an unknown escape and a universal character name that is no code point.
\<close>

subsection \<open>UTF-8\<close>

text \<open>\<open>WriteRune\<close>.\<close>

definition valid_rune :: "nat \<Rightarrow> bool" where
  "valid_rune r \<longleftrightarrow> r < 55296 \<or> (57344 \<le> r \<and> r \<le> 1114111)"

definition encode_rune :: "nat \<Rightarrow> string" where
  "encode_rune r =
     (let r = (if valid_rune r then r else 65533)
      in map char_of
        (if r < 128 then [r]
         else if r < 2048 then [192 + r div 64, 128 + r mod 64]
         else if r < 65536 then [224 + r div 4096, 128 + r div 64 mod 64, 128 + r mod 64]
         else [240 + r div 262144, 128 + r div 4096 mod 64, 128 + r div 64 mod 64, 128 + r mod 64]))"

lemma byte_char_of: "n < 256 \<Longrightarrow> byte (char_of n :: char) = n"
  by (simp add: of_char_of)

lemma encode_ascii: "r < 128 \<Longrightarrow> encode_rune r = [char_of r]"
  by (simp add: encode_rune_def valid_rune_def)

lemma runes_step: "s \<noteq> [] \<Longrightarrow> runes s = (take (rune_len s) s, rune_val (take (rune_len s) s)) # runes (drop (rune_len s) s)"
  by (subst runes.simps) (simp add: Let_def)

lemma runes_2:
  assumes "194 \<le> b0" "b0 \<le> 223" "cont b1"
  shows "runes (char_of b0 # char_of b1 # t) = ([char_of b0, char_of b1], (b0 - 192) * 64 + (b1 - 128)) # runes t"
proof -
  have "rune_len (char_of b0 # char_of b1 # t) = 2"
    using assms by (auto simp: rune_len_def cont_def byte_char_of split: list.split)
  then show ?thesis using assms by (simp add: runes_step rune_val_def byte_char_of cont_def)
qed

lemma runes_3:
  assumes "224 \<le> b0" "b0 \<le> 239" "cont b1" "b0 = 224 \<longrightarrow> 160 \<le> b1" "b0 = 237 \<longrightarrow> b1 \<le> 159" "cont b2"
  shows "runes (char_of b0 # char_of b1 # char_of b2 # t) =
    ([char_of b0, char_of b1, char_of b2], (b0 - 224) * 4096 + (b1 - 128) * 64 + (b2 - 128)) # runes t"
proof -
  have "rune_len (char_of b0 # char_of b1 # char_of b2 # t) = 3"
    using assms by (auto simp: rune_len_def cont_def byte_char_of split: list.split)
  then show ?thesis using assms by (simp add: runes_step rune_val_def byte_char_of cont_def numeral_3_eq_3)
qed

lemma runes_4:
  assumes "240 \<le> b0" "b0 \<le> 244" "cont b1" "b0 = 240 \<longrightarrow> 144 \<le> b1" "b0 = 244 \<longrightarrow> b1 \<le> 143" "cont b2" "cont b3"
  shows "runes (char_of b0 # char_of b1 # char_of b2 # char_of b3 # t) =
    ([char_of b0, char_of b1, char_of b2, char_of b3],
     (b0 - 240) * 262144 + (b1 - 128) * 4096 + (b2 - 128) * 64 + (b3 - 128)) # runes t"
proof -
  let ?bs = "[char_of b0, char_of b1, char_of b2, char_of b3]"
  have "b0 < 256" "b1 < 256" "b2 < 256" "b3 < 256" using assms by (auto simp: cont_def)
  then have m: "map byte (?bs @ t) = b0 # b1 # b2 # b3 # map byte t" "map byte ?bs = [b0, b1, b2, b3]"
    by (simp_all add: byte_char_of)
  have len: "rune_len (?bs @ t) = 4" unfolding rune_len_def m using assms by simp
  have "runes (?bs @ t) = (?bs, rune_val ?bs) # runes t"
    by (subst runes_step) (simp_all only: len, simp_all)
  then show ?thesis unfolding rune_val_def m by simp
qed

lemma digits64:
  "(r :: nat) div 64 * 64 + r mod 64 = r"
  "r div 4096 * 4096 + r div 64 mod 64 * 64 + r mod 64 = r"
  "r div 262144 * 262144 + r div 4096 mod 64 * 4096 + r div 64 mod 64 * 64 + r mod 64 = r"
proof -
  have a: "r div 64 * 64 + r mod 64 = r" for r :: nat by simp
  have b: "r div 4096 = r div 64 div 64" "r div 262144 = r div 64 div 64 div 64" by (simp_all add: div_mult2_eq)
  show "r div 64 * 64 + r mod 64 = r" by (rule a)
  show "r div 4096 * 4096 + r div 64 mod 64 * 64 + r mod 64 = r" unfolding b using a [of r] a [of "r div 64"] by arith
  show "r div 262144 * 262144 + r div 4096 mod 64 * 4096 + r div 64 mod 64 * 64 + r mod 64 = r"
    unfolding b using a [of r] a [of "r div 64"] a [of "r div 64 div 64"] by arith
qed

lemma digits4:
  assumes "65536 \<le> (r :: nat)" "r \<le> 1114111"
  shows "r div 262144 \<le> 4" "r div 262144 = 0 \<longrightarrow> 16 \<le> r div 4096 mod 64" "r div 262144 = 4 \<longrightarrow> r div 4096 mod 64 \<le> 15"
proof -
  have "16 \<le> r div 4096" "r div 4096 \<le> 271"
    using div_le_mono [OF assms(1), of 4096] div_le_mono [OF assms(2), of 4096] by simp_all
  moreover have "r div 262144 = r div 4096 div 64" by (simp add: div_mult2_eq)
  ultimately show "r div 262144 \<le> 4" "r div 262144 = 0 \<longrightarrow> 16 \<le> r div 4096 mod 64"
    "r div 262144 = 4 \<longrightarrow> r div 4096 mod 64 \<le> 15"
    using div_mult_mod_eq [of "r div 4096" 64] by linarith+
qed

lemma runes_encode:
  assumes "valid_rune r"
  shows "runes (encode_rune r @ t) = (encode_rune r, r) # runes t"
proof -
  consider "r < 128" | "128 \<le> r" "r < 2048" | "2048 \<le> r" "r < 65536" | "65536 \<le> r" "r \<le> 1114111"
    using assms by (fastforce simp: valid_rune_def)
  then show ?thesis
  proof cases
    case 1
    then show ?thesis by (simp add: encode_ascii byte_char_of)
  next
    case 2
    then have "194 \<le> 192 + r div 64" "192 + r div 64 \<le> 223" "cont (128 + r mod 64)" by (auto simp: cont_def)
    from runes_2 [OF this, of t] show ?thesis
      using 2 assms digits64(1) [of r] by (simp add: encode_rune_def Let_def)
  next
    case 3
    have "r div 4096 = 13 \<longrightarrow> r div 64 mod 64 \<le> 31"
      using assms 3 digits64(2) [of r] by (auto simp: valid_rune_def)
    moreover have "r div 4096 = 0 \<longrightarrow> 32 \<le> r div 64 mod 64" using 3 by auto
    ultimately have "224 \<le> 224 + r div 4096" "224 + r div 4096 \<le> 239" "cont (128 + r div 64 mod 64)"
      "224 + r div 4096 = 224 \<longrightarrow> 160 \<le> 128 + r div 64 mod 64" "224 + r div 4096 = 237 \<longrightarrow> 128 + r div 64 mod 64 \<le> 159"
      "cont (128 + r mod 64)" using 3 by (auto simp: cont_def)
    from runes_3 [OF this, of t] show ?thesis
      using 3 assms digits64(2) [of r] by (simp add: encode_rune_def Let_def)
  next
    case 4
    have "240 \<le> 240 + r div 262144" "240 + r div 262144 \<le> 244" "cont (128 + r div 4096 mod 64)"
      "240 + r div 262144 = 240 \<longrightarrow> 144 \<le> 128 + r div 4096 mod 64"
      "240 + r div 262144 = 244 \<longrightarrow> 128 + r div 4096 mod 64 \<le> 143"
      "cont (128 + r div 64 mod 64)" "cont (128 + r mod 64)"
      using digits4 [OF 4] by (auto simp: cont_def simp del: div_eq_0_iff)
    from runes_4 [OF this, of t] show ?thesis
      using 4 assms digits64(3) [of r] by (simp add: encode_rune_def Let_def)
  qed
qed

text \<open>Every rune Go reads is a code point.\<close>

lemma rune_val_bounds:
  assumes "s \<noteq> []"
  shows "valid_rune (rune_val (take (rune_len s) s))"
proof -
  show ?thesis
  proof (cases s)
    case a: (Cons a s1)
    show ?thesis
    proof (cases s1)
      case Nil
      then show ?thesis using a by (simp add: rune_len_def rune_val_def valid_rune_def)
    next
      case b: (Cons b s2)
      have two: "valid_rune (rune_val [a, b])" if "194 \<le> byte a" "byte a \<le> 223" "cont (byte b)"
        using that by (auto simp: rune_val_def cont_def valid_rune_def)
      have one: "valid_rune (rune_val [a])" by (simp add: rune_val_def valid_rune_def)
      show ?thesis
      proof (cases s2)
        case Nil
        then show ?thesis using a b one two by (simp add: rune_len_def)
      next
        case c: (Cons c s3)
        have three: "valid_rune (rune_val [a, b, c])"
          if "224 \<le> byte a" "byte a \<le> 239" "cont (byte b)" "byte a = 237 \<longrightarrow> byte b \<le> 159" "cont (byte c)"
        proof -
          have "rune_val [a, b, c] < 55296" if "byte a \<le> 236"
            using that \<open>cont (byte b)\<close> \<open>cont (byte c)\<close> by (auto simp: rune_val_def cont_def)
          moreover have "rune_val [a, b, c] < 55296" if "byte a = 237"
            using that \<open>byte a = 237 \<longrightarrow> byte b \<le> 159\<close> \<open>cont (byte c)\<close> by (auto simp: rune_val_def cont_def)
          moreover have "57344 \<le> rune_val [a, b, c]" "rune_val [a, b, c] \<le> 1114111" if "238 \<le> byte a"
            using that \<open>byte a \<le> 239\<close> \<open>cont (byte b)\<close> \<open>cont (byte c)\<close> by (auto simp: rune_val_def cont_def)
          ultimately show ?thesis unfolding valid_rune_def by linarith
        qed
        show ?thesis
        proof (cases s3)
          case Nil
          then show ?thesis using a b c one two three by (simp add: rune_len_def numeral_2_eq_2 numeral_3_eq_3)
        next
          case d: (Cons d s4)
          have four: "valid_rune (rune_val [a, b, c, d])"
            if "240 \<le> byte a" "byte a \<le> 244" "cont (byte b)" "byte a = 240 \<longrightarrow> 144 \<le> byte b"
              "byte a = 244 \<longrightarrow> byte b \<le> 143" "cont (byte c)" "cont (byte d)"
          proof -
            have "57344 \<le> rune_val [a, b, c, d]"
            proof (cases "byte a = 240")
              case True
              then show ?thesis using that by (auto simp: rune_val_def cont_def)
            qed (use that in \<open>auto simp: rune_val_def cont_def\<close>)
            moreover have "rune_val [a, b, c, d] \<le> 1114111"
            proof (cases "byte a = 244")
              case True
              then show ?thesis using that by (auto simp: rune_val_def cont_def)
            qed (use that in \<open>auto simp: rune_val_def cont_def\<close>)
            ultimately show ?thesis unfolding valid_rune_def by linarith
          qed
          show ?thesis using a b c d one two three four by (simp add: rune_len_def eval_nat_numeral)
        qed
      qed
    qed
  qed (simp add: assms)
qed

lemma runes_valid: "r \<in> set (rune_vals s) \<Longrightarrow> valid_rune r"
proof (induction s rule: runes.induct)
  case (1 s)
  then show ?case using rune_val_bounds [of s] by (cases "s = []") (auto simp: runes_step)
qed

subsection \<open>Hexadecimal\<close>

definition hex_digit :: "nat \<Rightarrow> char" where
  "hex_digit d = char_of (if d < 10 then 48 + d else 55 + d)"

fun hex_nat :: "nat \<Rightarrow> string" where
  "hex_nat n = (if n < 16 then [hex_digit n] else hex_nat (n div 16) @ [hex_digit (n mod 16)])"

declare hex_nat.simps [simp del]

text \<open>\<open>%0wX\<close>.\<close>

definition fmt_hex :: "nat \<Rightarrow> nat \<Rightarrow> string" where
  "fmt_hex w n = replicate (w - length (hex_nat n)) CHR ''0'' @ hex_nat n"

definition is_hex :: "nat \<Rightarrow> bool" where
  "is_hex c \<longleftrightarrow> (48 \<le> c \<and> c \<le> 57) \<or> (65 \<le> c \<and> c \<le> 70) \<or> (97 \<le> c \<and> c \<le> 102)"

definition hex_val :: "nat \<Rightarrow> nat" where
  "hex_val c = (if c \<le> 57 then c - 48 else if c \<le> 70 then c - 55 else c - 87)"

definition hex_value :: "nat list \<Rightarrow> nat" where
  "hex_value cs = foldl (\<lambda>n c. 16 * n + hex_val c) 0 cs"

lemma hex_digit_props: "d < 16 \<Longrightarrow> is_hex (byte (hex_digit d)) \<and> hex_val (byte (hex_digit d)) = d"
  by (simp add: hex_digit_def is_hex_def hex_val_def byte_char_of)

lemma hex_nat_digits: "\<forall>c \<in> set (hex_nat n). is_hex (byte c)"
proof (induction n rule: hex_nat.induct)
  case (1 n)
  then show ?case by (cases "n < 16") (auto simp: hex_nat.simps [of n] hex_digit_props)
qed

lemma hex_value_nat: "hex_value (map byte (hex_nat n)) = n"
proof (induction n rule: hex_nat.induct)
  case (1 n)
  show ?case
  proof (cases "n < 16")
    case True
    then show ?thesis by (simp add: hex_nat.simps [of n] hex_value_def hex_digit_props)
  next
    case False
    then have "hex_value (map byte (hex_nat n)) = 16 * hex_value (map byte (hex_nat (n div 16))) + n mod 16"
      by (simp add: hex_nat.simps [of n] hex_value_def hex_digit_props)
    then show ?thesis using 1 [OF False] by simp
  qed
qed

lemma hex_nat_length: "0 < w \<Longrightarrow> n < 16 ^ w \<Longrightarrow> length (hex_nat n) \<le> w"
proof (induction w arbitrary: n)
  case (Suc w)
  show ?case
  proof (cases "n < 16")
    case False
    then have "n div 16 < 16 ^ w" "0 < w" using Suc.prems by (auto intro: less_mult_imp_div_less simp: mult.commute) (cases w; simp)
    then show ?thesis using Suc.IH [of "n div 16"] False by (simp add: hex_nat.simps [of n])
  qed (simp add: hex_nat.simps [of n])
qed simp

lemma foldl_zeros: "foldl (\<lambda>n c. 16 * n + hex_val c) 0 (replicate k 48) = 0"
  by (induction k) (simp_all add: hex_val_def)

lemma fmt_hex_props:
  assumes "0 < w" "n < 16 ^ w"
  shows "length (fmt_hex w n) = w" "\<forall>c \<in> set (fmt_hex w n). is_hex (byte c)" "hex_value (map byte (fmt_hex w n)) = n"
proof -
  show "length (fmt_hex w n) = w" using hex_nat_length [OF assms] by (simp add: fmt_hex_def)
  show "\<forall>c \<in> set (fmt_hex w n). is_hex (byte c)" using hex_nat_digits [of n] by (auto simp: fmt_hex_def is_hex_def)
  have "map byte (fmt_hex w n) = replicate (w - length (hex_nat n)) 48 @ map byte (hex_nat n)" by (simp add: fmt_hex_def)
  then show "hex_value (map byte (fmt_hex w n)) = n"
    using hex_value_nat [of n] by (simp add: hex_value_def foldl_zeros)
qed

lemma is_hex_ascii: "is_hex r \<Longrightarrow> r < 128"
  by (auto simp: is_hex_def)

lemma runes_prefix: "\<forall>c \<in> set a. byte c < 128 \<Longrightarrow> rune_vals (a @ t) = map byte a @ rune_vals t"
  by (induction a) auto

lemma fmt_hex_runes: "0 < w \<Longrightarrow> n < 16 ^ w \<Longrightarrow> rune_vals (fmt_hex w n @ t) = map byte (fmt_hex w n) @ rune_vals t"
  using fmt_hex_props(2) [of w n] by (intro runes_prefix) (auto dest: is_hex_ascii)

subsection \<open>The escapes\<close>

definition escape_char :: "nat \<Rightarrow> string option" where
  "escape_char r =
     (if r = 92 then Some [CHR 0x5C, CHR 0x5C]
      else if r = 34 then Some [CHR 0x5C, CHR 0x22]
      else if r = 10 then Some [CHR 0x5C, CHR ''n'']
      else if r = 13 then Some [CHR 0x5C, CHR ''r'']
      else if r = 9 then Some [CHR 0x5C, CHR ''t'']
      else None)"

definition wide_rune :: "nat \<Rightarrow> string" where
  "wide_rune r =
     (case escape_char r of
        Some e \<Rightarrow> e
      | None \<Rightarrow>
          if r < 32 \<or> r > 126 then
            (if r > 65535 then [CHR 0x5C, CHR ''U''] @ fmt_hex 8 r else [CHR 0x5C, CHR ''u''] @ fmt_hex 4 r)
          else encode_rune r)"

definition cppWideLiteral :: "string \<Rightarrow> string" where
  "cppWideLiteral s = [CHR ''L'', CHR 0x22] @ concat (map wide_rune (rune_vals s)) @ [CHR 0x22]"

definition plain_rune :: "nat \<Rightarrow> string" where
  "plain_rune r =
     (case escape_char r of
        Some e \<Rightarrow> e
      | None \<Rightarrow> if r < 32 then [CHR 0x5C, CHR ''u''] @ fmt_hex 4 r else encode_rune r)"

definition escapeCppString :: "string \<Rightarrow> string" where
  "escapeCppString s = concat (map plain_rune (rune_vals s))"

subsection \<open>The compiler's reading\<close>

definition push_rune :: "nat \<Rightarrow> (nat list \<times> nat list) option \<Rightarrow> (nat list \<times> nat list) option" where
  "push_rune r x = map_option (\<lambda>(rs, rest). (r # rs, rest)) x"

definition universal :: "nat \<Rightarrow> nat list \<Rightarrow> nat option" where
  "universal k t =
     (if k \<le> length t \<and> (\<forall>c \<in> set (take k t). is_hex c) \<and> valid_rune (hex_value (take k t)) then Some (hex_value (take k t))
      else None)"

text \<open>The characters up to the closing quote, and what follows it.\<close>

fun read_chars :: "nat list \<Rightarrow> (nat list \<times> nat list) option" where
  "read_chars [] = None"
| "read_chars (c # t) =
     (if c = 34 then Some ([], t)
      else if c = 10 then None
      else if c = 92 then
        (case t of
           [] \<Rightarrow> None
         | e # u \<Rightarrow>
             if e = 92 \<or> e = 34 then push_rune e (read_chars u)
             else if e = 110 then push_rune 10 (read_chars u)
             else if e = 114 then push_rune 13 (read_chars u)
             else if e = 116 then push_rune 9 (read_chars u)
             else if e = 117 then (case universal 4 u of None \<Rightarrow> None | Some r \<Rightarrow> push_rune r (read_chars (drop 4 u)))
             else if e = 85 then (case universal 8 u of None \<Rightarrow> None | Some r \<Rightarrow> push_rune r (read_chars (drop 8 u)))
             else None)
      else push_rune c (read_chars t))"

definition read_wide :: "string \<Rightarrow> (nat list \<times> nat list) option" where
  "read_wide s = (case rune_vals s of c # d # t \<Rightarrow> if c = 76 \<and> d = 34 then read_chars t else None | _ \<Rightarrow> None)"

lemma universal_fmt:
  assumes "0 < w" "r < 16 ^ w" "valid_rune r"
  shows "universal w (map byte (fmt_hex w r) @ t) = Some r"
  using fmt_hex_props [OF assms(1,2)] assms(3) by (auto simp: universal_def)

lemma read_universal:
  assumes "valid_rune r" "w = 4 \<and> r < 65536 \<and> e = 117 \<or> w = 8 \<and> e = 85"
  shows "read_chars (92 # e # map byte (fmt_hex w r) @ t) = push_rune r (read_chars t)"
proof -
  have w: "0 < w" "r < 16 ^ w" using assms by (auto simp: valid_rune_def)
  have "drop w (map byte (fmt_hex w r) @ t) = t" using fmt_hex_props(1) [OF w] by simp
  then show ?thesis using assms(2) universal_fmt [OF w assms(1), of t] by auto
qed

lemma escape_char_read:
  "escape_char r = Some e \<Longrightarrow> read_chars (rune_vals (e @ t)) = push_rune r (read_chars (rune_vals t))"
  by (auto simp: escape_char_def split: if_splits)

lemma escape_char_plain: "escape_char r = None \<Longrightarrow> r \<noteq> 34 \<and> r \<noteq> 10 \<and> r \<noteq> 92"
  by (auto simp: escape_char_def split: if_splits)

lemma read_plain:
  "valid_rune r \<Longrightarrow> escape_char r = None \<Longrightarrow>
     read_chars (rune_vals (encode_rune r @ t)) = push_rune r (read_chars (rune_vals t))"
  by (simp add: runes_encode escape_char_plain)

lemma read_hex:
  assumes "valid_rune r" "w = 4 \<and> r < 65536 \<and> e = CHR ''u'' \<or> w = 8 \<and> e = CHR ''U''"
  shows "read_chars (rune_vals ([CHR 0x5C, e] @ fmt_hex w r @ t)) = push_rune r (read_chars (rune_vals t))"
proof -
  have w: "0 < w" "r < 16 ^ w" using assms by (auto simp: valid_rune_def)
  have "rune_vals ([CHR 0x5C, e] @ fmt_hex w r @ t) = 92 # byte e # map byte (fmt_hex w r) @ rune_vals t"
    using fmt_hex_runes [OF w] assms(2) by auto
  then show ?thesis using read_universal [OF assms(1), of w "byte e"] assms(2) by auto
qed

lemma read_wide_rune:
  "valid_rune r \<Longrightarrow> read_chars (rune_vals (wide_rune r @ t)) = push_rune r (read_chars (rune_vals t))"
  using read_hex [of r 4 "CHR ''u''" t] read_hex [of r 8 "CHR ''U''" t]
  by (cases "escape_char r") (auto simp: wide_rune_def escape_char_read read_plain simp del: read_chars.simps)

lemma read_plain_rune:
  "valid_rune r \<Longrightarrow> read_chars (rune_vals (plain_rune r @ t)) = push_rune r (read_chars (rune_vals t))"
  using read_hex [of r 4 "CHR ''u''" t]
  by (cases "escape_char r") (auto simp: plain_rune_def escape_char_read read_plain simp del: read_chars.simps)

lemma read_all:
  assumes "\<And>r t. valid_rune r \<Longrightarrow> read_chars (rune_vals (f r @ t)) = push_rune r (read_chars (rune_vals t))"
    and "\<forall>r \<in> set rs. valid_rune r"
  shows "read_chars (rune_vals (concat (map f rs) @ CHR 0x22 # t)) = Some (rs, rune_vals t)"
  using assms(2)
proof (induction rs)
  case (Cons r rs)
  then show ?case using assms(1) [of r "concat (map f rs) @ CHR 0x22 # t"] by (simp add: push_rune_def)
qed simp

lemma read_wide_start: "read_wide (CHR ''L'' # CHR 0x22 # s) = read_chars (rune_vals s)"
  by (simp add: read_wide_def)

text \<open>C35. Whatever text a configuration holds, the compiler reads the generated wide literal as exactly that text (its
  code points, a byte that is not UTF-8 as U+FFFD) and goes on right behind the closing quote: no text ends the literal
  early or adds to it. This holds for \<open>cppWideLiteral\<close> and for \<open>escapeCppString\<close> between the quotes of a template.\<close>

theorem literals_read_back:
  "read_wide (cppWideLiteral s @ rest) = Some (rune_vals s, rune_vals rest) \<and>
   read_wide ([CHR ''L'', CHR 0x22] @ escapeCppString s @ [CHR 0x22] @ rest) = Some (rune_vals s, rune_vals rest)"
proof -
  have "\<forall>r \<in> set (rune_vals s). valid_rune r" using runes_valid by blast
  then show ?thesis
    using read_all [OF read_wide_rune, of "rune_vals s" rest] read_all [OF read_plain_rune, of "rune_vals s" rest]
    by (simp add: cppWideLiteral_def escapeCppString_def read_wide_start)
qed

text \<open>\<open>cppWideLiteral\<close> is also independent of the file's encoding: it is printable ASCII.\<close>

lemma is_hex_printable: "is_hex r \<Longrightarrow> 32 \<le> r \<and> r \<le> 126"
  by (auto simp: is_hex_def)

lemma fmt_hex_printable: "c \<in> set (fmt_hex w r) \<Longrightarrow> 32 \<le> byte c \<and> byte c \<le> 126"
  using hex_nat_digits [of r] by (auto simp: fmt_hex_def dest: is_hex_printable)

lemma wide_rune_printable:
  assumes "c \<in> set (wide_rune r)"
  shows "32 \<le> byte c \<and> byte c \<le> 126"
proof (cases "escape_char r")
  case None
  then show ?thesis
    using assms fmt_hex_printable by (auto simp: wide_rune_def encode_ascii byte_char_of split: if_splits)
next
  case (Some e)
  then show ?thesis using assms by (auto simp: wide_rune_def escape_char_def split: if_splits)
qed

lemma cppWideLiteral_printable: "c \<in> set (cppWideLiteral s) \<Longrightarrow> 32 \<le> byte c \<and> byte c \<le> 126"
  using wide_rune_printable by (auto simp: cppWideLiteral_def)

end
