(* ===== verification/Xml_Text.thy ===== *)
theory Xml_Text
  imports Cpp_Literals
begin

section \<open>XML text (internal/ribbon/ribbon.go: escape, ToCppRawLiteral)\<close>

text \<open>
  The two transformations the ribbon XML goes through, \<open>escape\<close> of an attribute's value and the ASCII form of the whole
  document in a C++ raw literal, and what an XML parser reads: tags with their attributes, references expanded,
  character data skipped. The parser is the specification; comments and declarations are outside it.
\<close>

subsection \<open>The transformations\<close>

definition in_character_range :: "nat \<Rightarrow> bool" where
  "in_character_range r \<longleftrightarrow> r = 9 \<or> r = 10 \<or> r = 13 \<or> (32 \<le> r \<and> r \<le> 55295) \<or> (57344 \<le> r \<and> r \<le> 65533) \<or>
     (65536 \<le> r \<and> r \<le> 1114111)"

text \<open>\<open>xml.EscapeText\<close>.\<close>

definition xml_entity :: "nat \<Rightarrow> string option" where
  "xml_entity r =
     (if r = 34 then Some ''&#34;''
      else if r = 39 then Some ''&#39;''
      else if r = 38 then Some ''&amp;''
      else if r = 60 then Some ''&lt;''
      else if r = 62 then Some ''&gt;''
      else if r = 9 then Some ''&#x9;''
      else if r = 10 then Some ''&#xA;''
      else if r = 13 then Some ''&#xD;''
      else None)"

definition xml_rune :: "nat \<Rightarrow> string" where
  "xml_rune r =
     (case xml_entity r of
        Some e \<Rightarrow> e
      | None \<Rightarrow> if in_character_range r then encode_rune r else encode_rune 65533)"

definition escape :: "string \<Rightarrow> string" where
  "escape s = concat (map xml_rune (rune_vals s))"

definition raw_delim :: string where "raw_delim = ''XLLRIBBON''"

definition raw_close :: string where "raw_close = CHR '')'' # raw_delim @ [CHR 0x22]"

definition ref_rune :: "nat \<Rightarrow> string" where
  "ref_rune r = (if r > 127 then ''&#x'' @ hex_nat r @ '';'' else [char_of r])"

definition ascii_refs :: "string \<Rightarrow> string" where
  "ascii_refs s = concat (map ref_rune (rune_vals s))"

definition BOM :: string where "BOM = [CHR 0xEF, CHR 0xBB, CHR 0xBF]"

text \<open>None is the error.\<close>

definition ToCppRawLiteral :: "string \<Rightarrow> string option" where
  "ToCppRawLiteral xml =
     (let xml = TrimPrefix xml BOM
      in if contains_sub xml raw_close then None
         else Some (''LR'' @ [CHR 0x22] @ raw_delim @ ''('' @ ascii_refs xml @ '')'' @ raw_delim @ [CHR 0x22]))"

subsection \<open>A parser\<close>

definition code :: "string \<Rightarrow> nat list" where "code s = map byte s"

definition ref_value :: "nat list \<Rightarrow> nat option" where
  "ref_value n =
     (if n = code ''amp'' then Some 38 else if n = code ''lt'' then Some 60 else if n = code ''gt'' then Some 62
      else if n = code ''quot'' then Some 34 else if n = code ''apos'' then Some 39
      else if take 2 n = [35, 120] then
        (if drop 2 n \<noteq> [] \<and> (\<forall>c \<in> set (drop 2 n). is_hex c) then Some (hex_value (drop 2 n)) else None)
      else if take 1 n = [35] then
        (if drop 1 n \<noteq> [] \<and> (\<forall>c \<in> set (drop 1 n). 48 \<le> c \<and> c \<le> 57)
         then Some (foldl (\<lambda>n c. 10 * n + (c - 48)) 0 (drop 1 n)) else None)
      else None)"

definition split_at :: "nat \<Rightarrow> nat list \<Rightarrow> (nat list \<times> nat list) option" where
  "split_at c t = (case dropWhile (\<lambda>x. x \<noteq> c) t of [] \<Rightarrow> None | _ # u \<Rightarrow> Some (takeWhile (\<lambda>x. x \<noteq> c) t, u))"

lemma split_at_less: "split_at c t = Some (n, u) \<Longrightarrow> length u < length t"
  using length_dropWhile_le [of "\<lambda>x. x \<noteq> c" t] by (auto simp: split_at_def split: list.splits)

text \<open>The value of an attribute, up to the closing quote, and the rest.\<close>

function read_attr :: "nat list \<Rightarrow> (nat list \<times> nat list) option" where
  "read_attr t =
     (case t of
        [] \<Rightarrow> None
      | c # u \<Rightarrow>
          if c = 34 then Some ([], u)
          else if c = 60 then None
          else if c = 38 then
            (case split_at 59 u of
               None \<Rightarrow> None
             | Some (n, w) \<Rightarrow> (case ref_value n of None \<Rightarrow> None | Some r \<Rightarrow> push_rune r (read_attr w)))
          else push_rune c (read_attr u))"
  by pat_completeness auto
termination
  by (relation "measure length") (auto dest: split_at_less)

declare read_attr.simps [simp del]

definition xml_space :: "nat \<Rightarrow> bool" where "xml_space c \<longleftrightarrow> c = 32 \<or> c = 9 \<or> c = 10 \<or> c = 13"

definition name_code :: "nat \<Rightarrow> bool" where
  "name_code c \<longleftrightarrow> (97 \<le> c \<and> c \<le> 122) \<or> (65 \<le> c \<and> c \<le> 90) \<or> (48 \<le> c \<and> c \<le> 57) \<or> c = 95 \<or> c = 58 \<or> c = 45"

type_synonym xml_attrs = "(nat list \<times> nat list) list"

lemma push_Some: "push_rune r x = Some (v, w) \<longleftrightarrow> (\<exists>v'. x = Some (v', w) \<and> v = r # v')"
  by (auto simp: push_rune_def)

lemma read_attr_simps:
  "read_attr [] = None"
  "read_attr (c # u) =
     (if c = 34 then Some ([], u)
      else if c = 60 then None
      else if c = 38 then
        (case split_at 59 u of
           None \<Rightarrow> None
         | Some (n, w) \<Rightarrow> (case ref_value n of None \<Rightarrow> None | Some r \<Rightarrow> push_rune r (read_attr w)))
      else push_rune c (read_attr u))"
  by (subst read_attr.simps, simp)+

lemma read_attr_less: "read_attr t = Some (v, w) \<Longrightarrow> length w < length t"
proof (induction "length t" arbitrary: t v rule: less_induct)
  case less
  note read = less.prems
  show ?case
  proof (cases t)
    case t: (Cons c u)
    show ?thesis
    proof (cases "c = 38")
      case True
      then obtain n x r v' where x: "split_at 59 u = Some (n, x)" "read_attr x = Some (v', w)"
        using read t by (auto simp: read_attr_simps push_Some split: option.splits)
      then show ?thesis using less.hyps [of x v'] split_at_less [OF x(1)] t by simp
    next
      case False
      then have "u = w \<or> (\<exists>v'. read_attr u = Some (v', w))"
        using read t by (auto simp: read_attr_simps push_Some split: if_splits)
      then show ?thesis using less.hyps [of u] t by fastforce
    qed
  qed (use read in \<open>simp add: read_attr_simps\<close>)
qed

text \<open>The attributes of a tag up to its end, whether it closes itself, and the rest.\<close>

function read_attrs :: "nat list \<Rightarrow> (xml_attrs \<times> bool \<times> nat list) option" where
  "read_attrs t =
     (let s = dropWhile xml_space t; n = takeWhile name_code s; u = dropWhile name_code s
      in if take 1 s = [62] then Some ([], False, drop 1 s)
         else if take 2 s = [47, 62] then Some ([], True, drop 2 s)
         else if s = t \<or> n = [] \<or> take 2 u \<noteq> [61, 34] then None
         else (case read_attr (drop 2 u) of
                 None \<Rightarrow> None
               | Some (v, w) \<Rightarrow> map_option (\<lambda>(as, e, r). ((n, v) # as, e, r)) (read_attrs w)))"
  by pat_completeness auto
termination
proof (relation "measure length", simp, goal_cases)
  case (1 t s n u e v w)
  then have "length w < length (drop 2 u)" by (intro read_attr_less [of _ v]) simp
  also have "\<dots> \<le> length t"
    using 1 length_dropWhile_le [of name_code s] length_dropWhile_le [of xml_space t] by simp
  finally show ?case by simp
qed

declare read_attrs.simps [simp del]

lemma read_attrs_less: "read_attrs t = Some (as, e, r) \<Longrightarrow> length r < length t"
proof (induction t arbitrary: as rule: read_attrs.induct)
  case (1 t)
  let ?s = "dropWhile xml_space t" and ?u = "dropWhile name_code (dropWhile xml_space t)"
  have len: "length ?u \<le> length ?s" "length ?s \<le> length t" by (rule length_dropWhile_le)+
  consider "take 1 ?s = [62]" "r = drop 1 ?s" | "take 2 ?s = [47, 62]" "r = drop 2 ?s"
    | v w as' where "read_attr (drop 2 ?u) = Some (v, w)" "read_attrs w = Some (as', e, r)"
      "take 1 ?s \<noteq> [62]" "take 2 ?s \<noteq> [47, 62]" "\<not> (?s = t \<or> takeWhile name_code ?s = [] \<or> take 2 ?u \<noteq> [61, 34])"
    using 1(2) by (subst (asm) read_attrs.simps) (auto simp: Let_def split: if_splits option.splits)
  then show ?case
  proof cases
    case 3
    have "length r < length w" by (rule 1(1) [OF refl refl refl _ _ _ 3(1) refl 3(2)]) (use 3 in auto)
    then show ?thesis using read_attr_less [OF 3(1)] len by simp
  qed (use len in \<open>cases ?s; simp\<close>)+
qed

datatype xml_token = Tag "nat list" xml_attrs bool | EndTag "nat list"

text \<open>The tags of a document.\<close>

function read_xml :: "nat list \<Rightarrow> xml_token list option" where
  "read_xml t =
     (if t = [] then Some []
      else if take 1 t \<noteq> [60] then read_xml (drop 1 t)
      else if take 2 t = [60, 47] then
        (let u = dropWhile xml_space (dropWhile name_code (drop 2 t))
         in if take 1 u = [62] then map_option (Cons (EndTag (takeWhile name_code (drop 2 t)))) (read_xml (drop 1 u))
            else None)
      else
        (case read_attrs (dropWhile name_code (drop 1 t)) of
           None \<Rightarrow> None
         | Some (as, e, u) \<Rightarrow> map_option (Cons (Tag (takeWhile name_code (drop 1 t)) as e)) (read_xml u)))"
  by pat_completeness auto
termination
proof (relation "measure length", simp, goal_cases)
  case (2 t u)
  then have "length u \<le> length (drop 2 t)"
    using length_dropWhile_le [of xml_space "dropWhile name_code (drop 2 t)"] length_dropWhile_le [of name_code "drop 2 t"]
    by simp
  then show ?case using 2 by (cases t; cases "tl t") auto
next
  case (3 t p as q e u)
  then have "length u < length (dropWhile name_code (drop 1 t))" by (intro read_attrs_less [of _ as e]) simp
  then show ?case using length_dropWhile_le [of name_code "drop 1 t"] by simp
qed auto

declare read_xml.simps [simp del]


subsection \<open>Escaped values read back\<close>

text \<open>Strings that end at a rune's end: what follows is read on its own.\<close>

definition whole :: "string \<Rightarrow> bool" where
  "whole a \<longleftrightarrow> (\<forall>t. rune_vals (a @ t) = rune_vals a @ rune_vals t)"

lemma whole_append: "whole a \<Longrightarrow> whole b \<Longrightarrow> whole (a @ b)"
  by (simp add: whole_def)

lemma whole_concat: "(\<And>x. x \<in> set xs \<Longrightarrow> whole (f x)) \<Longrightarrow> whole (concat (map f xs))"
  by (induction xs) (simp_all add: whole_def)

lemma whole_ascii: "\<forall>c \<in> set a. byte c < 128 \<Longrightarrow> whole a"
  using runes_prefix [of a] runes_prefix [of a "[]"] by (simp add: whole_def)

lemma whole_encode: "valid_rune r \<Longrightarrow> whole (encode_rune r)"
  using runes_encode [of r] runes_encode [of r "[]"] by (simp add: whole_def)

lemma runes_ascii_code: "\<forall>c \<in> set a. byte c < 128 \<Longrightarrow> rune_vals a = code a"
  using runes_prefix [of a "[]"] by (simp add: code_def)

lemma valid_replacement: "valid_rune 65533"
  by (simp add: valid_rune_def)

lemma entity_ascii: "xml_entity r = Some e \<Longrightarrow> \<forall>c \<in> set e. byte c < 128"
  by (auto simp: xml_entity_def split: if_splits)

lemma whole_xml_rune: "valid_rune r \<Longrightarrow> whole (xml_rune r)"
  by (auto simp: xml_rune_def valid_replacement intro: whole_encode whole_ascii [OF entity_ascii] split: option.split)

lemma whole_escape: "whole (escape s)"
  unfolding escape_def by (rule whole_concat, rule whole_xml_rune, rule runes_valid)

definition xml_char :: "nat \<Rightarrow> nat" where
  "xml_char r = (if in_character_range r then r else 65533)"

lemma read_entity: "xml_entity r = Some e \<Longrightarrow> read_attr (map byte e @ t) = push_rune r (read_attr t)"
  by (auto simp: xml_entity_def read_attr_simps split_at_def ref_value_def code_def is_hex_def hex_value_def hex_val_def
    split: if_splits)

lemma entity_in_range: "xml_entity r = Some e \<Longrightarrow> in_character_range r"
  by (auto simp: xml_entity_def in_character_range_def split: if_splits)

lemma entity_None: "xml_entity r = None \<Longrightarrow> r \<noteq> 34 \<and> r \<noteq> 60 \<and> r \<noteq> 38"
  by (auto simp: xml_entity_def split: if_splits)

lemma read_xml_rune:
  assumes "valid_rune r"
  shows "read_attr (rune_vals (xml_rune r) @ t) = push_rune (xml_char r) (read_attr t)"
proof (cases "xml_entity r")
  case None
  then have "rune_vals (xml_rune r) = [xml_char r]"
    using runes_encode [of r "[]"] runes_encode [of 65533 "[]"] assms valid_replacement
    by (simp add: xml_rune_def xml_char_def)
  moreover have "xml_char r \<noteq> 34 \<and> xml_char r \<noteq> 60 \<and> xml_char r \<noteq> 38" using entity_None [OF None] by (simp add: xml_char_def)
  ultimately show ?thesis by (simp add: read_attr_simps)
next
  case (Some e)
  then have "rune_vals (xml_rune r) = map byte e"
    using runes_ascii_code [OF entity_ascii [OF Some]] by (simp add: xml_rune_def code_def)
  then show ?thesis using read_entity [OF Some] entity_in_range [OF Some] by (simp add: xml_char_def)
qed

lemma read_xml_runes:
  "\<forall>r \<in> set rs. valid_rune r \<Longrightarrow>
     read_attr (rune_vals (concat (map xml_rune rs)) @ 34 # t) = Some (map xml_char rs, t)"
proof (induction rs)
  case (Cons r rs)
  then have "rune_vals (concat (map xml_rune (r # rs))) = rune_vals (xml_rune r) @ rune_vals (concat (map xml_rune rs))"
    using whole_xml_rune [of r] by (simp add: whole_def)
  then show ?case using Cons read_xml_rune [of r] by (simp add: push_rune_def)
qed (simp add: read_attr_simps)

lemma read_escape: "read_attr (rune_vals (escape s) @ 34 # t) = Some (map xml_char (rune_vals s), t)"
  unfolding escape_def by (rule read_xml_runes) (use runes_valid in blast)

subsection \<open>The ASCII form of a document reads the same\<close>

definition ref_codes :: "nat \<Rightarrow> nat list" where
  "ref_codes r = (if r > 127 then 38 # 35 # 120 # map byte (hex_nat r) @ [59] else [r])"

abbreviation ref_list :: "nat list \<Rightarrow> nat list" where "ref_list xs \<equiv> concat (map ref_codes xs)"

lemma ascii_refs_bytes: "c \<in> set (ascii_refs s) \<Longrightarrow> byte c < 128"
  using hex_nat_digits by (auto simp: ascii_refs_def ref_rune_def byte_char_of dest: is_hex_ascii split: if_splits)

lemma ref_rune_codes: "map byte (ref_rune r) = ref_codes r"
  by (simp add: ref_rune_def ref_codes_def byte_char_of)

lemma runes_ascii_refs: "rune_vals (ascii_refs s) = ref_list (rune_vals s)"
proof -
  have "rune_vals (ascii_refs s) = map byte (ascii_refs s)"
    using runes_ascii_code [of "ascii_refs s"] ascii_refs_bytes by (auto simp: code_def)
  also have "\<dots> = ref_list (rune_vals s)" by (simp add: ascii_refs_def map_concat ref_rune_codes comp_def)
  finally show ?thesis .
qed

lemma ref_small [simp]: "c \<le> 127 \<Longrightarrow> ref_codes c = [c]"
  by (simp add: ref_codes_def)

lemma ref_codes_not_Nil [simp]: "ref_codes c \<noteq> []"
  by (simp add: ref_codes_def)

lemma hex_not: "c \<in> byte ` set (hex_nat r) \<Longrightarrow> c \<noteq> 59 \<and> c \<noteq> 38 \<and> c \<noteq> 60"
  using hex_nat_digits [of r] by (auto simp: is_hex_def)

lemma ref_read: "127 < c \<Longrightarrow> read_attr (ref_codes c @ t) = push_rune c (read_attr t)"
proof -
  assume c: "127 < c"
  have "dropWhile (\<lambda>x. x \<noteq> 59) (map byte (hex_nat c) @ 59 # t) = 59 # t"
    "takeWhile (\<lambda>x. x \<noteq> 59) (map byte (hex_nat c) @ 59 # t) = map byte (hex_nat c)"
    using hex_not [of _ c] by (auto simp: dropWhile_append takeWhile_append dest: dropWhile_eq_Cons_conv [THEN iffD1])
  then have "split_at 59 (35 # 120 # map byte (hex_nat c) @ 59 # t) = Some (35 # 120 # map byte (hex_nat c), t)"
    by (simp add: split_at_def)
  moreover have "hex_nat c \<noteq> []" by (simp add: hex_nat.simps [of c])
  then have "ref_value (35 # 120 # map byte (hex_nat c)) = Some c"
    using hex_nat_digits [of c] hex_value_nat [of c] by (auto simp: ref_value_def code_def)
  ultimately show ?thesis using c by (simp add: ref_codes_def read_attr_simps)
qed

text \<open>A reference cut by a character outside ASCII is none, and none after the transformation.\<close>

lemma ref_value_bad:
  assumes "x \<in> set n" "x = 38 \<or> 127 < x"
  shows "ref_value n = None"
proof -
  have names: "n \<noteq> code m" if "\<forall>c \<in> set (code m). c \<le> 127 \<and> c \<noteq> 38" for m
    using that assms by fastforce
  have "\<not> is_hex x" "\<not> (48 \<le> x \<and> x \<le> 57)" using assms(2) by (auto simp: is_hex_def)
  have rest: "x \<in> set (drop k n)" if "take k n = m" "x \<notin> set m" for k m
    using assms(1) that by (metis Un_iff append_take_drop_id set_append)
  have "take 2 n = [35, 120] \<longrightarrow> x \<in> set (drop 2 n)" "take 1 n = [35] \<longrightarrow> x \<in> set (drop 1 n)"
    using rest [of 2 "[35, 120]"] rest [of 1 "[35]"] assms(2) by auto
  with \<open>\<not> is_hex x\<close> \<open>\<not> (48 \<le> x \<and> x \<le> 57)\<close> show ?thesis
    using names [of "''amp''"] names [of "''lt''"] names [of "''gt''"] names [of "''quot''"] names [of "''apos''"]
    unfolding ref_value_def by (auto simp: code_def)
qed

lemma split_at_Cons: "c \<noteq> d \<Longrightarrow> split_at d (c # v) = map_option (\<lambda>(n, w). (c # n, w)) (split_at d v)"
  by (cases "dropWhile (\<lambda>x. x \<noteq> d) v") (simp_all add: split_at_def del: dropWhile_eq_Nil_conv)

lemma split_ref:
  "(\<forall>x \<in> set (takeWhile (\<lambda>x. x \<noteq> 59) u). x \<le> 127) \<Longrightarrow>
     split_at 59 (ref_list u) = map_option (\<lambda>(n, w). (n, ref_list w)) (split_at 59 u)"
proof (induction u)
  case (Cons c u)
  show ?case
  proof (cases "c = 59")
    case False
    then have c: "c \<le> 127" and IH: "split_at 59 (ref_list u) = map_option (\<lambda>(n, w). (n, ref_list w)) (split_at 59 u)"
      using Cons by simp_all
    then show ?thesis using split_at_Cons [OF False] by (simp add: option.map_comp comp_def split_def)
  qed (simp add: split_at_def)
qed (simp add: split_at_def)

lemma split_ref_bad:
  "\<exists>x \<in> set (takeWhile (\<lambda>x. x \<noteq> 59) u). 127 < x \<Longrightarrow> \<exists>n w. split_at 59 (ref_list u) = Some (n, w) \<and> 38 \<in> set n"
proof (induction u)
  case (Cons c u)
  have ne: "c \<noteq> 59" using Cons.prems by auto
  show ?case
  proof (cases "127 < c")
    case True
    have "38 \<in> set (takeWhile (\<lambda>x. x \<noteq> 59) (ref_list (c # u)))" using True by (simp add: ref_codes_def)
    moreover have "dropWhile (\<lambda>x. x \<noteq> 59) (ref_list (c # u)) \<noteq> []" using True by (simp add: ref_codes_def)
    ultimately show ?thesis by (auto simp: split_at_def simp del: concat.simps list.map split: list.split)
  next
    case False
    then obtain n w where n: "split_at 59 (ref_list u) = Some (n, w)" "38 \<in> set n" using Cons ne by auto
    then have "split_at 59 (c # ref_list u) = Some (c # n, w)" using split_at_Cons [OF ne] by simp
    then show ?thesis using n(2) False by simp
  qed
qed simp

lemma read_attr_refs: "read_attr (ref_list xs) = map_option (\<lambda>(v, w). (v, ref_list w)) (read_attr xs)"
proof (induction "length xs" arbitrary: xs rule: less_induct)
  case less
  have push: "push_rune c (map_option (\<lambda>(v, w). (v, ref_list w)) y) = map_option (\<lambda>(v, w). (v, ref_list w)) (push_rune c y)" for c y
    by (cases y) (auto simp: push_rune_def)
  show ?case
  proof (cases xs)
    case xs: (Cons c u)
    have IH: "read_attr (ref_list u) = map_option (\<lambda>(v, w). (v, ref_list w)) (read_attr u)" using less xs by simp
    show ?thesis
    proof (cases "127 < c")
      case True
      then have "c \<noteq> 34" "c \<noteq> 60" "c \<noteq> 38" by auto
      then show ?thesis using ref_read [OF True, of "ref_list u"] IH push xs by (simp add: read_attr_simps)
    next
      case False
      show ?thesis
      proof (cases "c = 38")
        case amp: True
        show ?thesis
        proof (cases "\<forall>x \<in> set (takeWhile (\<lambda>x. x \<noteq> 59) u). x \<le> 127")
          case True
          show ?thesis
          proof (cases "split_at 59 u")
            case (Some p)
            obtain n w where p: "p = (n, w)" by force
            have "read_attr (ref_list w) = map_option (\<lambda>(v, w). (v, ref_list w)) (read_attr w)"
              using less.hyps [of w] split_at_less [of 59 u n w] Some p xs by simp
            then show ?thesis using split_ref [OF True] Some p amp xs push by (simp add: read_attr_simps split: option.split)
          qed (use split_ref [OF True] amp xs in \<open>simp add: read_attr_simps\<close>)
        next
          case False
          then obtain x where x: "x \<in> set (takeWhile (\<lambda>x. x \<noteq> 59) u)" "127 < x" by (auto simp: not_le)
          then obtain n w where n: "split_at 59 (ref_list u) = Some (n, w)" "38 \<in> set n" using split_ref_bad by blast
          have "ref_value n = None" using ref_value_bad n(2) by blast
          moreover have "ref_value m = None" if "split_at 59 u = Some (m, v)" for m v
            using that x ref_value_bad [of x m] by (auto simp: split_at_def split: list.splits)
          ultimately show ?thesis using n amp xs by (simp add: read_attr_simps split: option.split)
        qed
      next
        case False
        then show ?thesis using \<open>\<not> 127 < c\<close> IH push xs by (simp add: read_attr_simps)
      qed
    qed
  qed (simp add: read_attr_simps)
qed

lemma while_refs:
  assumes "\<And>c. P c \<Longrightarrow> c \<le> 127 \<and> c \<noteq> 38"
  shows "takeWhile P (ref_list xs) = takeWhile P xs" "dropWhile P (ref_list xs) = ref_list (dropWhile P xs)"
proof -
  have high: "\<not> P c" if "127 < c" for c using that assms [of c] by auto
  have amp: "\<not> P 38" using assms [of 38] by auto
  show "takeWhile P (ref_list xs) = takeWhile P xs"
  proof (induction xs)
    case (Cons c xs)
    then show ?case using high [of c] amp by (cases "127 < c") (simp_all add: ref_codes_def)
  qed simp
  show "dropWhile P (ref_list xs) = ref_list (dropWhile P xs)"
  proof (induction xs)
    case (Cons c xs)
    then show ?case using high [of c] amp by (cases "127 < c") (simp_all add: ref_codes_def)
  qed simp
qed

lemma space_ascii: "xml_space c \<Longrightarrow> c \<le> 127 \<and> c \<noteq> 38"
  by (auto simp: xml_space_def)

lemma name_ascii: "name_code c \<Longrightarrow> c \<le> 127 \<and> c \<noteq> 38"
  by (auto simp: name_code_def)

lemmas while_space = while_refs [of xml_space, OF space_ascii]
lemmas while_name = while_refs [of name_code, OF name_ascii]

lemma ref_list_Nil_iff: "ref_list xs = [] \<longleftrightarrow> xs = []"
  by (cases xs) (simp_all add: ref_codes_def)

lemma hd_refs:
  assumes "c \<le> 127" "c \<noteq> 38"
  shows "take 1 (ref_list xs) = [c] \<longleftrightarrow> take 1 xs = [c]"
  by (cases xs) (use assms in \<open>auto simp: ref_codes_def\<close>)

lemma drop1_refs: "take 1 xs = [c] \<Longrightarrow> c \<le> 127 \<Longrightarrow> drop 1 (ref_list xs) = ref_list (drop 1 xs)"
  by (cases xs) auto

lemma hd2_refs:
  assumes "c \<le> 127" "c \<noteq> 38" "d \<le> 127" "d \<noteq> 38"
  shows "take 2 (ref_list xs) = [c, d] \<longleftrightarrow> take 2 xs = [c, d]"
proof (cases xs)
  case (Cons x ys)
  then show ?thesis using assms hd_refs [OF assms(3,4), of ys] by (auto simp: ref_codes_def numeral_2_eq_2)
qed simp

lemma drop2_refs: "take 2 xs = [c, d] \<Longrightarrow> c \<le> 127 \<Longrightarrow> d \<le> 127 \<Longrightarrow> drop 2 (ref_list xs) = ref_list (drop 2 xs)"
  by (cases xs; cases "tl xs") (auto simp: numeral_2_eq_2)

lemma unspaced_refs: "dropWhile xml_space (ref_list t) = ref_list t \<longleftrightarrow> dropWhile xml_space t = t"
proof -
  have unspaced: "dropWhile P s = s \<longleftrightarrow> takeWhile P s = []" for P and s :: "nat list"
    by (metis append_self_conv2 dropWhile_eq_self_iff takeWhile_dropWhile_id takeWhile_eq_Nil_iff)
  show ?thesis by (metis unspaced while_space(1))
qed

lemma read_attrs_refs: "read_attrs (ref_list t) = map_option (\<lambda>(as, e, r). (as, e, ref_list r)) (read_attrs t)"
proof (induction t rule: read_attrs.induct)
  case (1 t)
  let ?s = "dropWhile xml_space t" and ?n = "takeWhile name_code (dropWhile xml_space t)"
    and ?u = "dropWhile name_code (dropWhile xml_space t)"
  have s: "dropWhile xml_space (ref_list t) = ref_list ?s" "takeWhile name_code (ref_list ?s) = ?n"
    "dropWhile name_code (ref_list ?s) = ref_list ?u" by (simp_all only: while_space while_name)
  have un: "ref_list ?s = ref_list t \<longleftrightarrow> ?s = t" using unspaced_refs [of t] by (simp only: s)
  note eq = read_attrs.simps [of "ref_list t", unfolded Let_def s un] read_attrs.simps [of t, unfolded Let_def]
  consider "take 1 ?s = [62]" | "take 1 ?s \<noteq> [62]" "take 2 ?s = [47, 62]"
    | "take 1 ?s \<noteq> [62]" "take 2 ?s \<noteq> [47, 62]" "?s = t \<or> ?n = [] \<or> take 2 ?u \<noteq> [61, 34]"
    | "take 1 ?s \<noteq> [62]" "take 2 ?s \<noteq> [47, 62]" "\<not> (?s = t \<or> ?n = [] \<or> take 2 ?u \<noteq> [61, 34])" by blast
  then show ?case
  proof cases
    case 1
    then show ?thesis unfolding eq by (simp add: hd_refs drop1_refs [OF 1] del: One_nat_def)
  next
    case 2
    then show ?thesis unfolding eq
      by (simp add: hd_refs hd2_refs drop2_refs [OF 2(2)] del: One_nat_def)
  next
    case 3
    then show ?thesis unfolding eq
      by (simp add: hd_refs hd2_refs del: One_nat_def)
  next
    case 4
    then have u: "take 2 ?u = [61, 34]" by simp
    have IH: "read_attrs (ref_list w) = map_option (\<lambda>(as, e, r). (as, e, ref_list r)) (read_attrs w)"
      if "read_attr (drop 2 ?u) = Some (v, w)" for v w
      by (rule 1 [OF refl refl refl _ _ _ that refl]) (use 4 in auto)
    show ?thesis unfolding eq using 4 IH
      by (auto simp: hd_refs hd2_refs drop2_refs [OF u] read_attr_refs option.map_comp
        comp_def split_def simp del: One_nat_def split: option.split)
  qed
qed

lemma read_xml_skip: "\<forall>x \<in> set p. x \<noteq> 60 \<Longrightarrow> read_xml (p @ t) = read_xml t"
  by (induction p) (simp_all add: read_xml.simps [of "_ # _"])

lemma read_xml_refs: "read_xml (ref_list t) = read_xml t"
proof (induction t rule: read_xml.induct)
  case (1 t)
  consider "t = []" | "t \<noteq> []" "take 1 t \<noteq> [60]" | "t \<noteq> []" "take 1 t = [60]" "take 2 t = [60, 47]"
    | "t \<noteq> []" "take 1 t = [60]" "take 2 t \<noteq> [60, 47]" by blast
  then show ?case
  proof cases
    case 2
    then obtain c u where t: "t = c # u" "c \<noteq> 60" by (cases t) auto
    have "\<forall>x \<in> set (ref_codes c). x \<noteq> 60" using t(2) hex_not [of _ c] by (auto simp: ref_codes_def)
    then have "read_xml (ref_list t) = read_xml (ref_list u)" using t read_xml_skip by simp
    also have "\<dots> = read_xml u" using 1(1) [OF 2] t by simp
    finally show ?thesis using t by (simp add: read_xml.simps [of "c # u"])
  next
    case 3
    let ?n = "dropWhile name_code (drop 2 t)"
    have d: "drop 2 (ref_list t) = ref_list (drop 2 t)" by (rule drop2_refs [OF 3(3)]) simp_all
    have IH: "read_xml (ref_list (drop 1 (dropWhile xml_space ?n))) = read_xml (drop 1 (dropWhile xml_space ?n))"
      if "take 1 (dropWhile xml_space ?n) = [62]" using 1(2) [OF 3(1) _ 3(3) refl that] 3 by simp
    show ?thesis
      using 3 IH by (simp add: read_xml.simps [of t] read_xml.simps [of "ref_list t"] ref_list_Nil_iff hd_refs hd2_refs d
        while_space while_name drop1_refs Let_def del: One_nat_def)
  next
    case 4
    have d: "drop 1 (ref_list t) = ref_list (drop 1 t)" by (rule drop1_refs [OF 4(2)]) simp
    have IH: "read_xml (ref_list u) = read_xml u"
      if "read_attrs (dropWhile name_code (drop 1 t)) = Some (as, e, u)" for as e u
      using 1(3) [OF 4(1) _ 4(3) that refl refl] 4 by simp
    show ?thesis
      using 4 IH by (simp add: read_xml.simps [of t] read_xml.simps [of "ref_list t"] ref_list_Nil_iff hd_refs hd2_refs d
        while_name read_attrs_refs del: One_nat_def split: option.split)
  qed simp
qed

subsection \<open>The raw literal\<close>

text \<open>A C++ raw literal runs to the first closing sequence.\<close>

fun read_until :: "string \<Rightarrow> string \<Rightarrow> (string \<times> string) option" where
  "read_until p [] = None"
| "read_until p (c # s) =
     (if HasPrefix (c # s) p then Some ([], drop (length p) (c # s))
      else map_option (\<lambda>(a, r). (c # a, r)) (read_until p s))"

definition read_raw :: "string \<Rightarrow> (string \<times> string) option" where
  "read_raw s = (let start = ''LR'' @ [CHR 0x22] @ raw_delim @ ''(''
     in if HasPrefix s start then read_until raw_close (drop (length start) s) else None)"

lemma runes_bytes: "concat (map fst (runes s)) = s"
proof (induction s rule: runes.induct)
  case (1 s)
  then show ?case by (cases "s = []") (simp_all add: runes_step)
qed

lemma small_rune_bytes: "(bs, r) \<in> set (runes s) \<Longrightarrow> r < 128 \<Longrightarrow> bs = [char_of r]"
proof (induction s rule: runes.induct)
  case (1 s)
  show ?case
  proof (cases "s = []")
    case False
    then obtain c t where s: "s = c # t" by (cases s) auto
    consider "bs = take (rune_len s) s" "r = rune_val (take (rune_len s) s)" | "(bs, r) \<in> set (runes (drop (rune_len s) s))"
      using 1(2) False by (auto simp: runes_step)
    then show ?thesis
    proof cases
      case 1
      then have "rune_len s = 1" using rune_len_cases [OF False] \<open>r < 128\<close> by auto
      then show ?thesis using 1 s \<open>r < 128\<close> by (auto simp: rune_val_def split: if_splits)
    qed (use 1 False in auto)
  qed (use 1 in simp)
qed

lemma map_eq_code_part:
  assumes "map snd ps = xs @ code p @ ys" "\<forall>c \<in> set p. byte c < 128"
    and "\<forall>(bs, r) \<in> set ps. r < 128 \<longrightarrow> bs = [char_of r]"
  shows "contains_sub (concat (map fst ps)) p"
proof -
  let ?n = "length xs" and ?m = "length p"
  have ps: "ps = take ?n ps @ take ?m (drop ?n ps) @ drop ?m (drop ?n ps)" by (simp only: append_take_drop_id)
  have "map snd (take ?m (drop ?n ps)) = take ?m (drop ?n (map snd ps))" by (simp add: take_map drop_map)
  also have "\<dots> = code p" using assms(1) by (simp add: code_def)
  finally have v: "map snd (take ?m (drop ?n ps)) = code p" .
  have "map fst qs = map (\<lambda>c. [c]) p" if "map snd qs = code p" "set qs \<subseteq> set ps" for qs
  proof (rule nth_equalityI)
    have len: "length qs = length p" using arg_cong [OF that(1), of length] by (simp add: code_def)
    then show "length (map fst qs) = length (map (\<lambda>c. [c]) p)" by simp
    fix i assume i: "i < length (map fst qs)"
    then have "snd (qs ! i) = byte (p ! i)" using arg_cong [OF that(1), of "\<lambda>l. l ! i"] len by (simp add: code_def)
    moreover have "qs ! i \<in> set ps" "p ! i \<in> set p" using that(2) i len by auto
    ultimately show "map fst qs ! i = map (\<lambda>c. [c]) p ! i" using assms(2,3) i len by (cases "qs ! i") auto
  qed
  from this [OF v] have "map fst (take ?m (drop ?n ps)) = map (\<lambda>c. [c]) p"
    by (meson order_trans set_drop_subset set_take_subset)
  then have "concat (map fst ps) = concat (map fst (take ?n ps)) @ p @ concat (map fst (drop ?m (drop ?n ps)))"
    by (subst ps) (simp del: append_take_drop_id)
  then show ?thesis unfolding contains_sub_iff by blast
qed

text \<open>A text without \<open>&\<close> that occurs in the ASCII form occurs in the document.\<close>

lemma prefix_refs:
  "\<forall>c \<in> set p. byte c < 128 \<and> c \<noteq> CHR ''&'' \<Longrightarrow> HasPrefix (concat (map ref_rune rs)) p \<Longrightarrow> \<exists>ys. rs = code p @ ys"
proof (induction p arbitrary: rs)
  case (Cons c p)
  then obtain r rs' where rs: "rs = r # rs'" by (cases rs) (auto simp: HasPrefix_def)
  have small: "r \<le> 127" using Cons.prems rs by (rule_tac ccontr) (auto simp: HasPrefix_def ref_rune_def)
  then have "ref_rune r = [char_of r]" by (simp add: ref_rune_def)
  then have c: "char_of r = c" and p: "HasPrefix (concat (map ref_rune rs')) p"
    using Cons.prems(2) rs by (auto simp: HasPrefix_def)
  have "r = byte c" using c small byte_char_of [of r] by auto
  then show ?case using Cons.IH [OF _ p] Cons.prems(1) rs by (auto simp: code_def)
qed (simp add: code_def)

lemma skip_sub: "p \<noteq> [] \<Longrightarrow> hd p \<notin> set a \<Longrightarrow> contains_sub (a @ s) p = contains_sub s p"
  by (induction a) (auto simp: HasPrefix_def neq_Nil_conv)

lemma sub_refs:
  assumes p: "p \<noteq> []" "\<forall>c \<in> set p. byte c < 128 \<and> c \<noteq> CHR ''&''" "\<not> is_hex (byte (hd p))"
    "hd p \<noteq> CHR ''#''" "hd p \<noteq> CHR ''x''" "hd p \<noteq> CHR '';''"
  shows "contains_sub (concat (map ref_rune rs)) p \<Longrightarrow> \<exists>xs ys. rs = xs @ code p @ ys"
proof (induction rs)
  case (Cons r rs)
  show ?case
  proof (cases "127 < r")
    case True
    have "hd p \<notin> set (ref_rune r)" using p True hex_nat_digits [of r] by (auto simp: ref_rune_def)
    then have "contains_sub (concat (map ref_rune rs)) p" using Cons.prems skip_sub [OF p(1)] by simp
    then show ?thesis using Cons.IH by (metis append_Cons)
  next
    case False
    then have "HasPrefix (concat (map ref_rune (r # rs))) p \<or> contains_sub (concat (map ref_rune rs)) p"
      using Cons.prems False by (simp add: ref_rune_def [of r])
    then show ?thesis
    proof
      assume "HasPrefix (concat (map ref_rune (r # rs))) p"
      then show ?thesis using prefix_refs [OF p(2)] by (metis append_Nil)
    qed (use Cons.IH in \<open>metis append_Cons\<close>)
  qed
qed (use p in simp)

lemma read_until_close:
  assumes p: "p = d # q" "d \<notin> set q" and no: "\<not> contains_sub body p"
  shows "read_until p (body @ p @ rest) = Some (body, rest)"
  using no
proof (induction body)
  case Nil
  show ?case unfolding p(1) by (simp add: HasPrefix_def)
next
  case (Cons c body)
  have "\<not> HasPrefix ((c # body) @ p @ rest) p"
  proof
    assume "HasPrefix ((c # body) @ p @ rest) p"
    then have pre: "take (length p) ((c # body) @ p @ rest) = p" by (simp add: HasPrefix_def)
    show False
    proof (cases "length p \<le> length (c # body)")
      case True
      then have "take (length p) (c # body) = p" using pre by (metis (no_types) append_Nil2 diff_is_0_eq take_0 take_append)
      then have "HasPrefix (c # body) p" by (simp only: HasPrefix_def)
      then show False using Cons.prems by simp
    next
      case False
      let ?k = "length (c # body)"
      have "p ! ?k = ((c # body) @ p @ rest) ! ?k" using pre False by (metis linorder_not_le nth_take)
      also have "\<dots> = p ! 0" using p(1) by (simp add: nth_append)
      finally have "q ! (?k - 1) = d" using p(1) by simp
      moreover have "?k - 1 < length q" using False p(1) by simp
      ultimately show False using p(2) nth_mem by metis
    qed
  qed
  then show ?case using Cons by simp
qed

lemma raw_close_props:
  "raw_close = CHR '')'' # raw_delim @ [CHR 0x22]" "CHR '')'' \<notin> set (raw_delim @ [CHR 0x22])"
  by (simp_all add: raw_close_def raw_delim_def)

lemma ascii_refs_no_close:
  assumes "\<not> contains_sub s raw_close"
  shows "\<not> contains_sub (ascii_refs s) raw_close"
proof
  assume "contains_sub (ascii_refs s) raw_close"
  then obtain xs ys where "rune_vals s = xs @ code raw_close @ ys"
    unfolding ascii_refs_def
    using sub_refs [of raw_close "rune_vals s"] by (auto simp: raw_close_def raw_delim_def is_hex_def)
  moreover have "\<forall>(bs, r) \<in> set (runes s). r < 128 \<longrightarrow> bs = [char_of r]" using small_rune_bytes by blast
  moreover have "\<forall>c \<in> set raw_close. byte c < 128" by (simp add: raw_close_def raw_delim_def)
  ultimately have "contains_sub (concat (map fst (runes s))) raw_close" by (intro map_eq_code_part)
  then show False using assms by (simp add: runes_bytes)
qed

lemma raw_literal:
  assumes "ToCppRawLiteral xml = Some lit"
  shows "read_raw (lit @ rest) = Some (ascii_refs (TrimPrefix xml BOM), rest)"
    and "read_xml (rune_vals (ascii_refs (TrimPrefix xml BOM))) = read_xml (rune_vals (TrimPrefix xml BOM))"
    and "\<forall>c \<in> set lit. byte c < 128"
proof -
  let ?s = "TrimPrefix xml BOM"
  have no: "\<not> contains_sub ?s raw_close"
    and lit: "lit = (''LR'' @ [CHR 0x22] @ raw_delim @ ''('') @ ascii_refs ?s @ raw_close"
    using assms by (auto simp: ToCppRawLiteral_def Let_def raw_close_def split: if_splits)
  have "read_raw (lit @ rest) = read_until raw_close (ascii_refs ?s @ raw_close @ rest)"
    unfolding read_raw_def lit Let_def append_assoc by (simp add: HasPrefix_def raw_delim_def)
  also have "\<dots> = Some (ascii_refs ?s, rest)"
    by (rule read_until_close [OF raw_close_props ascii_refs_no_close [OF no]])
  finally show "read_raw (lit @ rest) = Some (ascii_refs ?s, rest)" .
  show "read_xml (rune_vals (ascii_refs ?s)) = read_xml (rune_vals ?s)" by (simp only: runes_ascii_refs read_xml_refs)
  show "\<forall>c \<in> set lit. byte c < 128"
    using ascii_refs_bytes unfolding lit by (auto simp: raw_close_def raw_delim_def)
qed

end
