(* ===== verification/Ribbon_Xml.thy ===== *)
theory Ribbon_Xml
  imports Config_Defaults Xml_Text
begin

section \<open>The ribbon (internal/ribbon/ribbon.go, internal/generator/gen_cpp.go)\<close>

text \<open>
  \<open>GenerateXML\<close> writes the customUI document of a structured ribbon, \<open>Images\<close> collects the icon files it refers to,
  \<open>ValidateRawXML\<close> checks a document the user wrote, and \<open>generateRibbonHeaders\<close> puts the result into two C++ headers.
  The file system is a parameter: what reading a path returns, and the cleaned path of an icon in the project
  (\<open>filepath.Clean\<close>, which depends on the platform). So is the token stream of Go's XML decoder for a raw document.
\<close>

subsection \<open>The document\<close>

definition CustomUINamespace :: string where
  "CustomUINamespace = ''http://schemas.microsoft.com/office/2006/01/customui''"

definition attr :: "string \<Rightarrow> string \<Rightarrow> string" where
  "attr name raw = '' '' @ name @ ''='' @ [CHR 0x22] @ raw @ [CHR 0x22]"

definition button_id :: "nat \<Rightarrow> nat \<Rightarrow> string" where
  "button_id gi bi = ''xllgen_btn_'' @ dec_nat gi @ ''_'' @ dec_nat bi"

definition group_id :: "nat \<Rightarrow> string" where
  "group_id gi = ''xllgen_grp_'' @ dec_nat gi"

definition button_xml :: "(string, string) gomap \<Rightarrow> nat \<Rightarrow> nat \<Rightarrow> RibbonButton \<Rightarrow> string" where
  "button_xml imageNames gi bi btn =
     (let size = (if btnSize btn = '''' then ''normal'' else btnSize btn)
      in ''<button'' @ attr ''id'' (button_id gi bi) @ attr ''label'' (escape (btnLabel btn)) @ attr ''size'' (escape size) @
         attr ''onAction'' (escape (btnCommand btn)) @
         (if btnImage btn \<noteq> '''' then
            (case gm_get imageNames (btnImage btn) of
               Some name \<Rightarrow> attr ''image'' (escape name)
             | None \<Rightarrow> attr ''imageMso'' (escape (btnImage btn)))
          else '''') @ ''/>'')"

definition group_xml :: "(string, string) gomap \<Rightarrow> nat \<Rightarrow> RibbonGroup \<Rightarrow> string" where
  "group_xml imageNames gi g =
     ''<group'' @ attr ''id'' (group_id gi) @ attr ''label'' (escape (grpLabel g)) @ ''>'' @
     concat (map (\<lambda>(bi, btn). button_xml imageNames gi bi btn) (enumerate 0 (grpButtons g))) @ ''</group>''"

datatype ribbon_error =
    RawMode | NoTab
  | BadImage string
  | ImageUnreadable string | ImageEmpty string string | ImageTooLarge string string nat
  | XmlUnreadable | XmlSyntax | UnknownAction string string | DynamicCallback string string
  | ClosesLiteral

definition GenerateXML :: "Config \<Rightarrow> (string, string) gomap \<Rightarrow> ribbon_error + string" where
  "GenerateXML cfg imageNames =
     (let r = Ribbon cfg
      in if XML r \<noteq> '''' then Inl RawMode
         else if Tab r = '''' then Inl NoTab
         else Inr
           (''<customUI'' @ attr ''xmlns'' CustomUINamespace @
            (if imageNames \<noteq> [] then attr ''loadImage'' ''LoadRibbonImage'' else '''') @
            ''><ribbon><tabs><tab'' @ attr ''id'' ''xllgen_tab'' @ attr ''label'' (escape (Tab r)) @ ''>'' @
            concat (map (\<lambda>(gi, g). group_xml imageNames gi g) (enumerate 0 (Groups r))) @
            ''</tab></tabs></ribbon></customUI>''))"

subsection \<open>Icons\<close>

record Image =
  imgName :: string
  imgPath :: string
  imgData :: string

definition maxImageBytes :: nat where "maxImageBytes = 1048576"

type_synonym images = "Image list \<times> (string, nat) gomap \<times> (string, string) gomap"

text \<open>One button: the images so far, their index by path, and the image name of each value seen.\<close>

definition add_image :: "(string \<Rightarrow> string) \<Rightarrow> (string \<Rightarrow> string option) \<Rightarrow> RibbonButton \<Rightarrow> images \<Rightarrow> ribbon_error + images" where
  "add_image clean_path read_file btn st =
     (let (imgs, byPath, nameByValue) = st
      in if btnImage btn = '''' then Inr st
         else (case ClassifyRibbonImage (btnImage btn) of
           None \<Rightarrow> Inl (BadImage (btnLabel btn))
         | Some isFile \<Rightarrow>
             if \<not> isFile then Inr st
             else if gm_get nameByValue (btnImage btn) \<noteq> None then Inr st
             else
               (let p = clean_path (btnImage btn)
                in case gm_get byPath p of
                     Some i \<Rightarrow> Inr (imgs, byPath, gm_put (btnImage btn) (imgName (imgs ! i)) nameByValue)
                   | None \<Rightarrow>
                       (case read_file p of
                          None \<Rightarrow> Inl (ImageUnreadable (btnLabel btn))
                        | Some data \<Rightarrow>
                            if length data = 0 then Inl (ImageEmpty (btnLabel btn) p)
                            else if length data > maxImageBytes then Inl (ImageTooLarge (btnLabel btn) p (length data))
                            else
                              (let img = \<lparr>imgName = ''xllgen_img_'' @ dec_nat (length imgs), imgPath = p, imgData = data\<rparr>
                               in Inr (imgs @ [img], gm_put p (length imgs) byPath,
                                       gm_put (btnImage btn) (imgName img) nameByValue))))))"

fun add_images :: "(string \<Rightarrow> string) \<Rightarrow> (string \<Rightarrow> string option) \<Rightarrow> RibbonButton list \<Rightarrow> images \<Rightarrow> ribbon_error + images" where
  "add_images clean_path read_file [] st = Inr st"
| "add_images clean_path read_file (btn # rest) st =
     (case add_image clean_path read_file btn st of
        Inl e \<Rightarrow> Inl e
      | Inr st' \<Rightarrow> add_images clean_path read_file rest st')"

definition Images :: "(string \<Rightarrow> string) \<Rightarrow> (string \<Rightarrow> string option) \<Rightarrow> Config \<Rightarrow> ribbon_error + Image list \<times> (string, string) gomap" where
  "Images clean_path read_file cfg =
     (case add_images clean_path read_file (concat (map grpButtons (Groups (Ribbon cfg)))) ([], [], []) of
        Inl e \<Rightarrow> Inl e
      | Inr (imgs, byPath, nameByValue) \<Rightarrow> Inr (imgs, nameByValue))"

subsection \<open>Raw documents\<close>

text \<open>What the decoder yields: start elements with the local names and values of their attributes, other tokens, and at
  the first malformed byte an error.\<close>

datatype raw_token = StartElement string "(string \<times> string) list" | OtherToken | TokenError

definition dynamicCallbackAttrs :: "string list" where
  "dynamicCallbackAttrs =
     [''getLabel'', ''getEnabled'', ''getVisible'', ''getImage'', ''getScreentip'', ''getSupertip'', ''getSize'', ''getKeytip'',
      ''getPressed'', ''getText'', ''onChange'', ''getItemCount'', ''getItemLabel'', ''getItemID'', ''getSelectedItemID'',
      ''getSelectedItemIndex'', ''loadImage'', ''onLoad'']"

fun check_attrs :: "string list \<Rightarrow> string \<Rightarrow> (string \<times> string) list \<Rightarrow> ribbon_error option" where
  "check_attrs known el [] = None"
| "check_attrs known el ((name, val) # rest) =
     (if name = ''onAction'' then
        (if val \<notin> set known then Some (UnknownAction val el) else check_attrs known el rest)
      else if name \<in> set dynamicCallbackAttrs then Some (DynamicCallback name el)
      else check_attrs known el rest)"

fun check_tokens :: "string list \<Rightarrow> raw_token list \<Rightarrow> ribbon_error option" where
  "check_tokens known [] = None"
| "check_tokens known (TokenError # rest) = Some XmlSyntax"
| "check_tokens known (OtherToken # rest) = check_tokens known rest"
| "check_tokens known (StartElement el attrs # rest) =
     (case check_attrs known el attrs of Some e \<Rightarrow> Some e | None \<Rightarrow> check_tokens known rest)"

definition ValidateRawXML :: "(string \<Rightarrow> string option) \<Rightarrow> (string \<Rightarrow> raw_token list) \<Rightarrow> string \<Rightarrow> Command list \<Rightarrow> ribbon_error + string" where
  "ValidateRawXML read_file decode path commands =
     (case read_file path of
        None \<Rightarrow> Inl XmlUnreadable
      | Some raw \<Rightarrow>
          (case check_tokens (map cmdName commands) (decode raw) of
             Some e \<Rightarrow> Inl e
           | None \<Rightarrow> Inr raw))"

subsection \<open>The headers\<close>

definition nl :: string where "nl = [CHR 0x0A]"

fun byte_lines :: "nat \<Rightarrow> string \<Rightarrow> string" where
  "byte_lines j [] = ''''"
| "byte_lines j (by # rest) =
     (if j mod 16 = 0 then nl @ ''    '' else '''') @ ''0x'' @ fmt_hex 2 (byte by) @ '','' @ byte_lines (j + 1) rest"

definition image_array :: "nat \<Rightarrow> Image \<Rightarrow> string" where
  "image_array i img =
     ''inline const unsigned char kXllRibbonImg'' @ dec_nat i @ ''[] = {'' @ byte_lines 0 (imgData img) @ nl @ ''};'' @ nl"

definition image_entry :: "nat \<Rightarrow> Image \<Rightarrow> string" where
  "image_entry i img =
     ''        { L'' @ [CHR 0x22] @ imgName img @ [CHR 0x22] @ '', kXllRibbonImg'' @ dec_nat i @
     '', sizeof(kXllRibbonImg'' @ dec_nat i @ '') },'' @ nl"

definition generated_head :: string where
  "generated_head = ''// Code generated by xll-gen. DO NOT EDIT.'' @ nl @ ''#pragma once'' @ nl"

definition writeRibbonImagesHeader :: "Image list \<Rightarrow> string" where
  "writeRibbonImagesHeader imgs =
     generated_head @ ''#include '' @ [CHR 0x22] @ ''com/ribbon_image.h'' @ [CHR 0x22] @ nl @ ''#include <vector>'' @ nl @ nl @
     concat (map (\<lambda>(i, img). image_array i img) (enumerate 0 imgs)) @
     nl @ ''inline std::vector<xll::ribbon::RibbonImage> GetXllRibbonImages() {'' @ nl @ ''    return {'' @ nl @
     concat (map (\<lambda>(i, img). image_entry i img) (enumerate 0 imgs)) @
     ''    };'' @ nl @ ''}'' @ nl"

text \<open>The files written: \<open>ribbon_xml.h\<close> and \<open>ribbon_images.h\<close>; nothing without a ribbon.\<close>

definition generateRibbonHeaders ::
  "(string \<Rightarrow> string) \<Rightarrow> (string \<Rightarrow> string option) \<Rightarrow> (string \<Rightarrow> raw_token list) \<Rightarrow> Config \<Rightarrow>
     ribbon_error + (string \<times> string) option" where
  "generateRibbonHeaders clean_path read_file decode cfg =
     (if \<not> ribbon_enabled (Ribbon cfg) then Inr None
      else
        (case (if XML (Ribbon cfg) \<noteq> '''' then
                 map_sum (\<lambda>e. e) (Pair []) (ValidateRawXML read_file decode (clean_path (XML (Ribbon cfg))) (Commands cfg))
               else
                 (case Images clean_path read_file cfg of
                    Inl e \<Rightarrow> Inl e
                  | Inr (imgs, names) \<Rightarrow> map_sum (\<lambda>e. e) (Pair imgs) (GenerateXML cfg names))) of
           Inl e \<Rightarrow> Inl e
         | Inr (imgs, xmlStr) \<Rightarrow>
             (case ToCppRawLiteral xmlStr of
                None \<Rightarrow> Inl ClosesLiteral
              | Some lit \<Rightarrow>
                  Inr (Some (generated_head @ ''inline const wchar_t* kXllRibbonXml = '' @ lit @ '';'' @ nl,
                             writeRibbonImagesHeader imgs)))))"

subsection \<open>Reading attributes and tags back\<close>

text \<open>A written value that reads as \<open>val\<close>.\<close>

definition reads_as :: "string \<Rightarrow> nat list \<Rightarrow> bool" where
  "reads_as raw val \<longleftrightarrow> whole raw \<and> (\<forall>t. read_attr (rune_vals raw @ 34 # t) = Some (val, t))"

definition xml_name :: "string \<Rightarrow> bool" where
  "xml_name n \<longleftrightarrow> n \<noteq> [] \<and> (\<forall>c \<in> set n. name_code (byte c))"

definition xml_text :: "string \<Rightarrow> nat list" where
  "xml_text s = map xml_char (rune_vals s)"

lemma reads_escape [simp]: "reads_as (escape s) (xml_text s)"
  by (simp add: reads_as_def whole_escape read_escape xml_text_def)

definition plain_text :: "string \<Rightarrow> bool" where
  "plain_text s \<longleftrightarrow> (\<forall>c \<in> set s. byte c < 128 \<and> byte c \<noteq> 34 \<and> byte c \<noteq> 38 \<and> byte c \<noteq> 60)"

lemma read_plain_text: "plain_text s \<Longrightarrow> read_attr (code s @ 34 # t) = Some (code s, t)"
  by (induction s) (auto simp: plain_text_def code_def read_attr_simps push_rune_def)

lemma reads_plain: "plain_text s \<Longrightarrow> reads_as s (code s)"
  using read_plain_text [of s] runes_ascii_code [of s] whole_ascii [of s]
  by (auto simp: reads_as_def plain_text_def)

lemma plain_append [simp]: "plain_text (a @ b) \<longleftrightarrow> plain_text a \<and> plain_text b"
  by (auto simp: plain_text_def)

lemma plain_dec_nat [simp]: "plain_text (dec_nat n)"
  using dec_nat_digits [of _ n] by (fastforce simp: plain_text_def)

lemma plain_Cons [simp]:
  "plain_text []" "plain_text (c # s) \<longleftrightarrow> byte c < 128 \<and> byte c \<noteq> 34 \<and> byte c \<noteq> 38 \<and> byte c \<noteq> 60 \<and> plain_text s"
  by (auto simp: plain_text_def)

lemma plain_ids [simp]: "reads_as (button_id gi bi) (code (button_id gi bi))" "reads_as (group_id gi) (code (group_id gi))"
  by (rule reads_plain, simp add: button_id_def group_id_def)+

lemma name_code_ascii: "name_code c \<Longrightarrow> c < 128"
  by (auto simp: name_code_def)

lemma runes_name: "xml_name n \<Longrightarrow> rune_vals (n @ t) = code n @ rune_vals t"
  using runes_prefix [of n t] by (auto simp: xml_name_def code_def dest: name_code_ascii)

lemma name_while:
  assumes "xml_name n" "\<not> name_code c"
  shows "takeWhile name_code (code n @ c # t) = code n" "dropWhile name_code (code n @ c # t) = c # t"
  using assms by (auto simp: xml_name_def code_def takeWhile_append dropWhile_append)

definition attr_codes :: "string \<Rightarrow> string \<Rightarrow> nat list" where
  "attr_codes n raw = 32 # code n @ 61 # 34 # rune_vals raw @ [34]"

lemma runes_attr: "xml_name n \<Longrightarrow> whole raw \<Longrightarrow> rune_vals (attr n raw @ t) = attr_codes n raw @ rune_vals t"
  by (simp add: attr_def attr_codes_def runes_name whole_def)

lemma name_hd:
  assumes "xml_name n"
  obtains c m where "code n = c # m" "name_code c" "c \<noteq> 62" "c \<noteq> 47" "\<not> xml_space c"
proof -
  obtain c m where c: "code n = c # m" "name_code c" using assms by (cases n) (auto simp: xml_name_def code_def)
  then have "c \<noteq> 62" "c \<noteq> 47" "\<not> xml_space c" by (auto simp: name_code_def xml_space_def)
  with c show ?thesis by (rule that)
qed

lemma read_attrs_attr:
  assumes n: "xml_name n" and v: "reads_as raw val"
  shows "read_attrs (attr_codes n raw @ t) = map_option (\<lambda>(as, e, r). ((code n, val) # as, e, r)) (read_attrs t)"
proof -
  obtain c m where c: "code n = c # m" "name_code c" "c \<noteq> 62" "c \<noteq> 47" "\<not> xml_space c" using name_hd [OF n] .
  let ?s = "code n @ 61 # 34 # rune_vals raw @ 34 # t"
  have eq: "attr_codes n raw @ t = 32 # ?s" by (simp add: attr_codes_def)
  have s: "dropWhile xml_space (32 # ?s) = ?s" "take 1 ?s \<noteq> [62]" "take 2 ?s \<noteq> [47, 62]" "?s \<noteq> 32 # ?s"
    using c by (simp_all add: xml_space_def)
  have "\<not> name_code 61" by (simp add: name_code_def)
  note w = name_while [OF n this]
  have "read_attr (rune_vals raw @ 34 # t) = Some (val, t)" using v by (simp add: reads_as_def)
  then show ?thesis
    unfolding eq by (subst read_attrs.simps) (use s w c(1,3,4) in \<open>simp add: Let_def del: dropWhile.simps\<close>)
qed

text \<open>Attributes, then the end of the tag. \<open>attrs_as\<close> pairs each with what it reads as.\<close>

definition attrs_as :: "(string \<times> string \<times> nat list) list \<Rightarrow> bool" where
  "attrs_as as \<longleftrightarrow> (\<forall>(n, raw, val) \<in> set as. xml_name n \<and> reads_as raw val)"

definition attr_string :: "(string \<times> string \<times> nat list) list \<Rightarrow> string" where
  "attr_string as = concat (map (\<lambda>(n, raw, val). attr n raw) as)"

definition attr_values :: "(string \<times> string \<times> nat list) list \<Rightarrow> xml_attrs" where
  "attr_values as = map (\<lambda>(n, raw, val). (code n, val)) as"

lemma read_attr_list:
  "attrs_as as \<Longrightarrow> read_attrs (rune_vals (attr_string as @ t)) =
     map_option (\<lambda>(bs, e, r). (attr_values as @ bs, e, r)) (read_attrs (rune_vals t))"
proof (induction as)
  case Nil
  show ?case by (cases "read_attrs (rune_vals t)") (auto simp: attr_string_def attr_values_def)
next
  case (Cons a as)
  obtain n raw val where a: "a = (n, raw, val)" by (cases a)
  then have ok: "xml_name n" "reads_as raw val" "whole raw" using Cons.prems by (auto simp: attrs_as_def reads_as_def)
  have "attr_string (a # as) @ t = attr n raw @ attr_string as @ t" by (simp add: attr_string_def a)
  then have "read_attrs (rune_vals (attr_string (a # as) @ t)) =
      map_option (\<lambda>(bs, e, r). ((code n, val) # bs, e, r)) (read_attrs (rune_vals (attr_string as @ t)))"
    by (simp only: runes_attr [OF ok(1,3)] read_attrs_attr [OF ok(1,2)])
  also have "read_attrs (rune_vals (attr_string as @ t)) =
      map_option (\<lambda>(bs, e, r). (attr_values as @ bs, e, r)) (read_attrs (rune_vals t))"
    using Cons.IH Cons.prems by (simp add: attrs_as_def)
  finally show ?case by (simp add: attr_values_def a option.map_comp comp_def split_def)
qed

abbreviation parse :: "string \<Rightarrow> xml_token list option" where "parse s \<equiv> read_xml (rune_vals s)"

lemma attr_string_start:
  "attrs_as as \<Longrightarrow> \<exists>c r. rune_vals (attr_string as @ CHR ''>'' # t) = c # r \<and> \<not> name_code c"
  "attrs_as as \<Longrightarrow> \<exists>c r. rune_vals (attr_string as @ CHR ''/'' # CHR ''>'' # t) = c # r \<and> \<not> name_code c"
  by (cases as; auto simp: attr_string_def attr_def name_code_def)+

lemma read_open:
  assumes n: "xml_name n" and x: "x = c # r" "\<not> name_code c" and a: "read_attrs x = Some (as, e, u)"
  shows "read_xml (60 # code n @ x) = map_option (Cons (Tag (code n) as e)) (read_xml u)"
proof -
  obtain d m where d: "code n = d # m" "d \<noteq> 47" using name_hd [OF n] by metis
  note w = name_while [OF n x(2), of r, folded x(1)]
  show ?thesis by (subst read_xml.simps) (use d w a in \<open>simp del: dropWhile.simps takeWhile.simps\<close>)
qed

lemma read_attrs_end: "read_attrs (62 # t) = Some ([], False, t)" "read_attrs (47 # 62 # t) = Some ([], True, t)"
  by (simp_all add: read_attrs.simps [of "_ # _"] xml_space_def)

lemma parse_open:
  assumes "xml_name n" "attrs_as as"
  shows "parse (CHR ''<'' # n @ attr_string as @ CHR ''>'' # t) = map_option (Cons (Tag (code n) (attr_values as) False)) (parse t)"
    and "parse (CHR ''<'' # n @ attr_string as @ CHR ''/'' # CHR ''>'' # t) =
      map_option (Cons (Tag (code n) (attr_values as) True)) (parse t)"
proof -
  obtain c r d s where 1: "rune_vals (attr_string as @ CHR ''>'' # t) = c # r" "\<not> name_code c"
    and 2: "rune_vals (attr_string as @ CHR ''/'' # CHR ''>'' # t) = d # s" "\<not> name_code d"
    using attr_string_start [OF assms(2)] by metis
  show "parse (CHR ''<'' # n @ attr_string as @ CHR ''>'' # t) = map_option (Cons (Tag (code n) (attr_values as) False)) (parse t)"
    using read_open [OF assms(1) 1, of "attr_values as" False "rune_vals t"] read_attr_list [OF assms(2), of "CHR ''>'' # t"]
    by (simp add: runes_name [OF assms(1)] read_attrs_end)
  show "parse (CHR ''<'' # n @ attr_string as @ CHR ''/'' # CHR ''>'' # t) =
      map_option (Cons (Tag (code n) (attr_values as) True)) (parse t)"
    using read_open [OF assms(1) 2, of "attr_values as" True "rune_vals t"]
      read_attr_list [OF assms(2), of "CHR ''/'' # CHR ''>'' # t"]
    by (simp add: runes_name [OF assms(1)] read_attrs_end)
qed

lemma parse_close:
  assumes "xml_name n"
  shows "parse (CHR ''<'' # CHR ''/'' # n @ CHR ''>'' # t) = map_option (Cons (EndTag (code n))) (parse t)"
proof -
  have "\<not> name_code 62" by (simp add: name_code_def)
  note w = name_while [OF assms this, of "rune_vals t"]
  show ?thesis
    by (simp add: runes_name [OF assms] read_xml.simps [of "60 # 47 # _"] w Let_def xml_space_def)
qed

subsection \<open>The generated document\<close>

definition button_size :: "RibbonButton \<Rightarrow> string" where
  "button_size btn = (if btnSize btn = '''' then ''normal'' else btnSize btn)"

definition button_tag :: "(string, string) gomap \<Rightarrow> nat \<Rightarrow> nat \<Rightarrow> RibbonButton \<Rightarrow> xml_token" where
  "button_tag names gi bi btn =
     Tag (code ''button'')
       ([(code ''id'', code (button_id gi bi)), (code ''label'', xml_text (btnLabel btn)), (code ''size'', xml_text (button_size btn)),
         (code ''onAction'', xml_text (btnCommand btn))] @
        (if btnImage btn = '''' then []
         else case gm_get names (btnImage btn) of
                Some name \<Rightarrow> [(code ''image'', xml_text name)]
              | None \<Rightarrow> [(code ''imageMso'', xml_text (btnImage btn))])) True"

definition group_tags :: "(string, string) gomap \<Rightarrow> nat \<Rightarrow> RibbonGroup \<Rightarrow> xml_token list" where
  "group_tags names gi g =
     Tag (code ''group'') [(code ''id'', code (group_id gi)), (code ''label'', xml_text (grpLabel g))] False #
     map (\<lambda>(bi, btn). button_tag names gi bi btn) (enumerate 0 (grpButtons g)) @ [EndTag (code ''group'')]"

definition ribbon_tags :: "Config \<Rightarrow> (string, string) gomap \<Rightarrow> xml_token list" where
  "ribbon_tags cfg names =
     [Tag (code ''customUI'') ((code ''xmlns'', code CustomUINamespace) #
        (if names = [] then [] else [(code ''loadImage'', code ''LoadRibbonImage'')])) False,
      Tag (code ''ribbon'') [] False, Tag (code ''tabs'') [] False,
      Tag (code ''tab'') [(code ''id'', code ''xllgen_tab''), (code ''label'', xml_text (Tab (Ribbon cfg)))] False] @
     concat (map (\<lambda>(gi, g). group_tags names gi g) (enumerate 0 (Groups (Ribbon cfg)))) @
     map EndTag [code ''tab'', code ''tabs'', code ''ribbon'', code ''customUI'']"

lemma xml_names [simp]:
  "xml_name ''button''" "xml_name ''group''" "xml_name ''customUI''" "xml_name ''ribbon''" "xml_name ''tabs''" "xml_name ''tab''"
  "xml_name ''id''" "xml_name ''label''" "xml_name ''size''" "xml_name ''onAction''" "xml_name ''image''" "xml_name ''imageMso''"
  "xml_name ''xmlns''" "xml_name ''loadImage''"
  by (simp_all add: xml_name_def name_code_def)

lemma attrs_as_Cons [simp]:
  "attrs_as []" "attrs_as ((n, raw, val) # as) \<longleftrightarrow> xml_name n \<and> reads_as raw val \<and> attrs_as as"
  "attr_values [] = []" "attr_values ((n, raw, val) # as) = (code n, val) # attr_values as"
  "attr_string [] = []" "attr_string ((n, raw, val) # as) = attr n raw @ attr_string as"
  by (simp_all add: attrs_as_def attr_values_def attr_string_def)

lemma parse_button:
  "parse (button_xml names gi bi btn @ t) = map_option (Cons (button_tag names gi bi btn)) (parse t)"
proof -
  let ?image = "if btnImage btn = '''' then []
    else case gm_get names (btnImage btn) of
           Some name \<Rightarrow> [(''image'', escape name, xml_text name)]
         | None \<Rightarrow> [(''imageMso'', escape (btnImage btn), xml_text (btnImage btn))]"
  let ?as = "[(''id'', button_id gi bi, code (button_id gi bi)), (''label'', escape (btnLabel btn), xml_text (btnLabel btn)),
    (''size'', escape (button_size btn), xml_text (button_size btn)),
    (''onAction'', escape (btnCommand btn), xml_text (btnCommand btn))] @ ?image"
  have as: "attrs_as ?as" by (simp split: option.split)
  have xml: "button_xml names gi bi btn @ t = CHR ''<'' # ''button'' @ attr_string ?as @ CHR ''/'' # CHR ''>'' # t"
    by (simp add: button_xml_def button_size_def split: option.split)
  have tag: "button_tag names gi bi btn = Tag (code ''button'') (attr_values ?as) True"
    by (simp add: button_tag_def split: option.split)
  show ?thesis unfolding xml tag by (rule parse_open(2) [OF _ as]) simp
qed

lemma parse_list:
  assumes "\<And>i x t. parse (f i x @ t) = map_option (\<lambda>ts. g i x @ ts) (parse t)"
  shows "parse (concat (map (\<lambda>(i, x). f i x) xs) @ t) = map_option (\<lambda>ts. concat (map (\<lambda>(i, x). g i x) xs) @ ts) (parse t)"
proof (induction xs)
  case (Cons p xs)
  then show ?case using assms [of "fst p" "snd p" "concat (map (\<lambda>(i, x). f i x) xs) @ t"]
    by (simp add: split_def option.map_comp comp_def)
qed (simp add: option.map_ident)

lemma parse_group: "parse (group_xml names gi g @ t) = map_option (\<lambda>ts. group_tags names gi g @ ts) (parse t)"
proof -
  let ?as = "[(''id'', group_id gi, code (group_id gi)), (''label'', escape (grpLabel g), xml_text (grpLabel g))]"
  let ?bs = "concat (map (\<lambda>(bi, btn). button_xml names gi bi btn) (enumerate 0 (grpButtons g)))"
  have xml: "group_xml names gi g @ t = CHR ''<'' # ''group'' @ attr_string ?as @ CHR ''>'' # ?bs @ CHR ''<'' # CHR ''/'' # ''group'' @ CHR ''>'' # t"
    by (simp add: group_xml_def)
  have "parse (?bs @ CHR ''<'' # CHR ''/'' # ''group'' @ CHR ''>'' # t) =
      map_option (\<lambda>ts. map (\<lambda>(bi, btn). button_tag names gi bi btn) (enumerate 0 (grpButtons g)) @ ts)
        (map_option (Cons (EndTag (code ''group''))) (parse t))"
    using parse_list [of "\<lambda>bi btn. button_xml names gi bi btn" "\<lambda>bi btn. [button_tag names gi bi btn]"
        "enumerate 0 (grpButtons g)" "CHR ''<'' # CHR ''/'' # ''group'' @ CHR ''>'' # t"]
      parse_button [of names gi] parse_close [of "''group''" t]
    by (simp add: split_def)
  moreover have "attrs_as ?as" by simp
  ultimately show ?thesis
    unfolding xml parse_open(1) [OF xml_names(2) \<open>attrs_as ?as\<close>]
    by (simp add: group_tags_def option.map_comp comp_def)
qed

lemma plain_constants:
  "reads_as CustomUINamespace (code CustomUINamespace)" "reads_as ''LoadRibbonImage'' (code ''LoadRibbonImage'')"
  "reads_as ''xllgen_tab'' (code ''xllgen_tab'')"
  by (rule reads_plain, simp add: CustomUINamespace_def)+

lemma parse_ribbon:
  assumes "GenerateXML cfg names = Inr xml"
  shows "parse xml = Some (ribbon_tags cfg names)"
proof -
  let ?r = "Ribbon cfg"
  let ?as = "(''xmlns'', CustomUINamespace, code CustomUINamespace) #
    (if names = [] then [] else [(''loadImage'', ''LoadRibbonImage'', code ''LoadRibbonImage'')])"
  let ?bs = "[(''id'', ''xllgen_tab'', code ''xllgen_tab''), (''label'', escape (Tab ?r), xml_text (Tab ?r))]"
  let ?gs = "concat (map (\<lambda>(gi, g). group_xml names gi g) (enumerate 0 (Groups ?r)))"
  let ?close = "\<lambda>n t. CHR ''<'' # CHR ''/'' # n @ CHR ''>'' # t"
  let ?finish = "?close ''tab'' (?close ''tabs'' (?close ''ribbon'' (?close ''customUI'' [])))"
  have xml: "xml = CHR ''<'' # ''customUI'' @ attr_string ?as @ CHR ''>'' #
      (CHR ''<'' # ''ribbon'' @ attr_string [] @ CHR ''>'' # (CHR ''<'' # ''tabs'' @ attr_string [] @ CHR ''>'' #
      (CHR ''<'' # ''tab'' @ attr_string ?bs @ CHR ''>'' # ?gs @ ?finish)))"
    using assms by (auto simp: GenerateXML_def Let_def split: if_splits)
  have as: "attrs_as ?as" "attrs_as ?bs" using plain_constants by simp_all
  have tail: "parse ?finish = Some (map EndTag [code ''tab'', code ''tabs'', code ''ribbon'', code ''customUI''])"
    by (simp only: parse_close xml_names runes_Nil list.map option.map read_xml.simps [of "[]"] if_True simp_thms)
  have groups: "parse (?gs @ ?finish) = Some (concat (map (\<lambda>(gi, g). group_tags names gi g) (enumerate 0 (Groups ?r))) @
      map EndTag [code ''tab'', code ''tabs'', code ''ribbon'', code ''customUI''])"
    by (subst parse_list [of "\<lambda>gi g. group_xml names gi g" "\<lambda>gi g. group_tags names gi g", OF parse_group])
      (simp only: tail option.map)
  show ?thesis
    unfolding xml parse_open(1) [OF xml_names(3) as(1)] parse_open(1) [OF xml_names(4) attrs_as_Cons(1)]
      parse_open(1) [OF xml_names(5) attrs_as_Cons(1)] parse_open(1) [OF xml_names(6) as(2)] groups
    by (simp add: ribbon_tags_def)
qed

text \<open>The control ids identify the button of a click.\<close>

definition tag_ids :: "xml_token list \<Rightarrow> nat list list" where
  "tag_ids toks =
     concat (map (\<lambda>tok. case tok of Tag n as e \<Rightarrow> map snd (filter (\<lambda>a. fst a = code ''id'') as) | EndTag n \<Rightarrow> []) toks)"

lemma tag_ids_simps [simp]:
  "tag_ids [] = []" "tag_ids (Tag n as e # toks) = map snd (filter (\<lambda>a. fst a = code ''id'') as) @ tag_ids toks"
  "tag_ids (EndTag n # toks) = tag_ids toks" "tag_ids (xs @ ys) = tag_ids xs @ tag_ids ys"
  by (simp_all add: tag_ids_def)

lemma code_inject [simp]: "code a = code b \<longleftrightarrow> a = b"
  by (simp add: code_def inj_map_eq_map inj_on_def)

lemma tag_ids_buttons:
  "tag_ids (map (\<lambda>(bi, btn). button_tag names gi bi btn) ps) = map (\<lambda>(bi, btn). code (button_id gi bi)) ps"
  by (induction ps) (auto simp: button_tag_def split: option.split)

definition group_ids :: "nat \<Rightarrow> RibbonGroup \<Rightarrow> nat list list" where
  "group_ids gi g = code (group_id gi) # map (\<lambda>bi. code (button_id gi bi)) [0..<length (grpButtons g)]"

lemma enumerate_indices: "map (\<lambda>(i, x). f i) (enumerate k xs) = map f [k..<k + length xs]"
proof (induction xs arbitrary: k)
  case (Cons x xs)
  have "[k..<k + length (x # xs)] = k # [Suc k..<Suc k + length xs]" by (subst upt_conv_Cons) simp_all
  then show ?case using Cons.IH [of "Suc k"] by simp
qed simp

lemma tag_ids_group: "tag_ids (group_tags names gi g) = group_ids gi g"
  by (simp add: group_tags_def tag_ids_buttons group_ids_def enumerate_indices)

lemma tag_ids_concat: "tag_ids (concat (map f xs)) = concat (map (\<lambda>x. tag_ids (f x)) xs)"
  by (induction xs) simp_all

lemma no_underscore: "CHR ''_'' \<notin> set (dec_nat n)"
  using dec_nat_digits [of "CHR ''_''" n] by auto

lemma button_id_inject [simp]: "button_id gi bi = button_id gi' bi' \<longleftrightarrow> gi = gi' \<and> bi = bi'"
proof -
  have "takeWhile (\<lambda>c. c \<noteq> CHR ''_'') (dec_nat n @ CHR ''_'' # t) = dec_nat n" for n t
    using no_underscore [of n] by (simp add: takeWhile_append)
  then have "dec_nat gi = dec_nat gi' \<and> dec_nat bi = dec_nat bi'"
    if "dec_nat gi @ CHR ''_'' # dec_nat bi = dec_nat gi' @ CHR ''_'' # dec_nat bi'"
    using that by (metis append_same_eq list.inject same_append_eq)
  then show ?thesis by (auto simp: button_id_def)
qed

lemma group_ids_mem: "x \<in> set (group_ids gi g) \<longleftrightarrow> x = code (group_id gi) \<or> (\<exists>bi < length (grpButtons g). x = code (button_id gi bi))"
  by (auto simp: group_ids_def)

lemma ids_differ [simp]:
  "group_id gi \<noteq> button_id gj bj" "button_id gj bj \<noteq> group_id gi" "group_id gi = group_id gj \<longleftrightarrow> gi = gj"
  "group_id gi \<noteq> ''xllgen_tab''" "button_id gi bi \<noteq> ''xllgen_tab''"
  by (simp_all add: group_id_def button_id_def)

lemma distinct_concat_enumerate:
  assumes "\<And>i x. distinct (f i x)" "\<And>i j x y. i \<noteq> j \<Longrightarrow> set (f i x) \<inter> set (f j y) = {}"
  shows "distinct (concat (map (\<lambda>(i, x). f i x) (enumerate k xs)))"
proof (induction xs arbitrary: k)
  case (Cons x xs)
  have "set (f k x) \<inter> set (f i y) = {}" if "(i, y) \<in> set (enumerate (Suc k) xs)" for i y
    using that assms(2) [of k i x y] by (auto simp: in_set_enumerate_eq)
  then show ?case using Cons assms(1) by auto
qed simp

lemma distinct_tag_ids: "distinct (tag_ids (ribbon_tags cfg names))"
proof -
  let ?gs = "enumerate 0 (Groups (Ribbon cfg))"
  have f: "(case x of (gi, g) \<Rightarrow> tag_ids (group_tags names gi g)) = (case x of (gi, g) \<Rightarrow> group_ids gi g)" for x
    by (cases x) (simp add: tag_ids_group)
  have "tag_ids (ribbon_tags cfg names) = code ''xllgen_tab'' # concat (map (\<lambda>(gi, g). group_ids gi g) ?gs)"
    by (simp add: ribbon_tags_def tag_ids_concat tag_ids_group split_def)
  moreover have "distinct (concat (map (\<lambda>(gi, g). group_ids gi g) ?gs))"
  proof (rule distinct_concat_enumerate)
    show "distinct (group_ids i x)" for i x by (auto simp: group_ids_def distinct_map inj_on_def)
    show "set (group_ids i x) \<inter> set (group_ids j y) = {}" if "i \<noteq> j" for i j x y
      using that by (auto simp: group_ids_mem)
  qed
  moreover have "code ''xllgen_tab'' \<notin> set (concat (map (\<lambda>(gi, g). group_ids gi g) ?gs))"
    by (auto simp: group_ids_mem group_id_def button_id_def)
  ultimately show ?thesis by simp
qed

lemma GenerateXML_no_BOM: "GenerateXML cfg names = Inr xml \<Longrightarrow> TrimPrefix xml BOM = xml"
  by (auto simp: GenerateXML_def Let_def TrimPrefix_def HasPrefix_def BOM_def split: if_splits)

text \<open>C36. What Excel reads of a structured ribbon is what the configuration says: the compiler gets the generated document
  back from the literal in \<open>ribbon_xml.h\<close>, which is ASCII whatever the labels hold, and parsing it gives the tab, its groups
  and its buttons in order, each with its label, size, command and icon (characters XML does not have replaced by
  U+FFFD). No two controls share an id, so a click names its button.\<close>

theorem ribbon_reads_back:
  assumes "GenerateXML cfg names = Inr xml" "ToCppRawLiteral xml = Some lit"
  shows "(\<exists>body. read_raw (lit @ rest) = Some (body, rest) \<and> parse body = Some (ribbon_tags cfg names)) \<and>
    list_all (\<lambda>c. byte c < 128) lit \<and> distinct (tag_ids (ribbon_tags cfg names))"
  using raw_literal [OF assms(2)] GenerateXML_no_BOM [OF assms(1)] parse_ribbon [OF assms(1)] distinct_tag_ids
  by (simp add: list_all_iff)

definition image_name :: "nat \<Rightarrow> string" where "image_name i = ''xllgen_img_'' @ dec_nat i"

text \<open>Without a closing parenthesis in the texts there always is a literal.\<close>

definition no_paren :: "string \<Rightarrow> bool" where "no_paren s \<longleftrightarrow> CHR '')'' \<notin> set s"

lemma no_paren_simps [simp]:
  "no_paren []" "no_paren (c # s) \<longleftrightarrow> c \<noteq> CHR '')'' \<and> no_paren s" "no_paren (a @ b) \<longleftrightarrow> no_paren a \<and> no_paren b"
  by (auto simp: no_paren_def)

lemma contains_sub_set: "contains_sub s p \<Longrightarrow> set p \<subseteq> set s"
  by (auto simp: contains_sub_iff)

lemma paren_encode:
  assumes "CHR '')'' \<in> set (encode_rune r)"
  shows "r = 41"
proof (cases "valid_rune r \<and> r < 128")
  case True
  then have "CHR '')'' = (char_of r :: char)" using assms by (simp add: encode_ascii)
  then have "byte (CHR '')'') = byte (char_of r :: char)" by (rule arg_cong)
  then show ?thesis using True by (simp add: byte_char_of)
next
  case False
  have high: "CHR '')'' \<noteq> (char_of b :: char)" if "128 \<le> b" "b < 256" for b :: nat
  proof
    assume "CHR '')'' = (char_of b :: char)"
    then have "byte (CHR '')'') = byte (char_of b :: char)" by (rule arg_cong)
    then show False using that by (simp add: byte_char_of)
  qed
  let ?r = "if valid_rune r then r else 65533"
  have "128 \<le> ?r" "?r \<le> 1114111" using False by (auto simp: valid_rune_def)
  then have "\<forall>b \<in> set (if ?r < 128 then [?r] else if ?r < 2048 then [192 + ?r div 64, 128 + ?r mod 64]
      else if ?r < 65536 then [224 + ?r div 4096, 128 + ?r div 64 mod 64, 128 + ?r mod 64]
      else [240 + ?r div 262144, 128 + ?r div 4096 mod 64, 128 + ?r div 64 mod 64, 128 + ?r mod 64]). 128 \<le> b \<and> b < 256"
    by auto
  then show ?thesis using assms high unfolding encode_rune_def Let_def by fastforce
qed

lemma no_paren_escape: "no_paren s \<Longrightarrow> no_paren (escape s)"
proof -
  assume s: "no_paren s"
  have "r = 41" if "CHR '')'' \<in> set (xml_rune r)" for r
    using that paren_encode [of r] paren_encode [of 65533] by (auto simp: xml_rune_def xml_entity_def split: if_splits)
  moreover have "41 \<notin> set (rune_vals s)"
  proof
    assume "41 \<in> set (rune_vals s)"
    then obtain bs where b: "(bs, 41) \<in> set (runes s)" by auto
    from small_rune_bytes [OF b] have "bs = [char_of (41 :: nat)]" by simp
    moreover have "(char_of (41 :: nat) :: char) = CHR '')''" by code_simp
    ultimately have "CHR '')'' \<in> set (concat (map fst (runes s)))" using b by force
    then show False using s by (simp add: runes_bytes no_paren_def)
  qed
  ultimately show ?thesis by (auto simp: no_paren_def escape_def) (metis image_eqI snd_conv)
qed

lemma no_paren_dec_nat [simp]: "no_paren (dec_nat n)"
  using dec_nat_digits [of "CHR '')''" n] by (auto simp: no_paren_def)

lemma no_paren_concat [simp]: "no_paren (concat xs) \<longleftrightarrow> (\<forall>x \<in> set xs. no_paren x)"
  by (auto simp: no_paren_def)

lemma no_paren_attr [simp]: "no_paren (attr n v) \<longleftrightarrow> no_paren n \<and> no_paren v"
  by (simp add: attr_def)

definition button_texts :: "(string, string) gomap \<Rightarrow> RibbonButton \<Rightarrow> string list" where
  "button_texts names btn =
     [btnLabel btn, btnSize btn, btnCommand btn, btnImage btn] @
     (case gm_get names (btnImage btn) of None \<Rightarrow> [] | Some n \<Rightarrow> [n])"

definition ribbon_texts :: "Config \<Rightarrow> (string, string) gomap \<Rightarrow> string list" where
  "ribbon_texts cfg names =
     Tab (Ribbon cfg) # map grpLabel (Groups (Ribbon cfg)) @
     concat (map (\<lambda>g. concat (map (button_texts names) (grpButtons g))) (Groups (Ribbon cfg)))"

lemma button_no_paren: "list_all no_paren (button_texts names btn) \<Longrightarrow> no_paren (button_xml names gi bi btn)"
  by (auto simp: button_texts_def button_xml_def button_id_def no_paren_escape Let_def split: option.splits)

lemma enumerate_mem: "(i, x) \<in> set (enumerate n xs) \<Longrightarrow> x \<in> set xs"
  by (auto simp: in_set_enumerate_eq)

lemma group_no_paren:
  assumes "no_paren (grpLabel g)" "\<forall>btn \<in> set (grpButtons g). list_all no_paren (button_texts names btn)"
  shows "no_paren (group_xml names gi g)"
  using assms by (auto simp: group_xml_def group_id_def no_paren_escape button_no_paren dest!: enumerate_mem)

lemma literal_exists:
  assumes xml: "GenerateXML cfg names = Inr xml" and texts: "list_all no_paren (ribbon_texts cfg names)"
  shows "\<exists>lit. ToCppRawLiteral xml = Some lit"
proof -
  have g: "no_paren (group_xml names gi g)" if "g \<in> set (Groups (Ribbon cfg))" for gi g
    using texts that by (intro group_no_paren) (auto simp: ribbon_texts_def list_all_iff)
  have "no_paren (Tab (Ribbon cfg))" using texts by (simp add: ribbon_texts_def)
  then have "no_paren xml"
    using xml g by (auto simp: GenerateXML_def Let_def CustomUINamespace_def no_paren_escape dest!: enumerate_mem split: if_splits)
  then have "\<not> contains_sub xml raw_close"
    using contains_sub_set [of xml raw_close] by (auto simp: no_paren_def raw_close_def)
  then show ?thesis by (simp add: ToCppRawLiteral_def GenerateXML_no_BOM [OF xml])
qed

definition demo_names :: "(string, string) gomap" where
  "demo_names = [(''icons/go.PNG'', image_name 0)]"

theorem ribbon_reads_back_witness:
  "\<exists>xml lit. GenerateXML demo_config demo_names = Inr xml \<and> ToCppRawLiteral xml = Some lit \<and>
     (\<exists>body. read_raw (lit @ ''; // end'') = Some (body, ''; // end'') \<and> parse body = Some (ribbon_tags demo_config demo_names))"
proof -
  obtain xml where x: "GenerateXML demo_config demo_names = Inr xml"
    by (simp add: GenerateXML_def demo_config_def demo_ribbon_def)
  have "list_all no_paren (ribbon_texts demo_config demo_names)"
    by (simp add: ribbon_texts_def button_texts_def demo_config_def demo_ribbon_def demo_names_def image_name_def gm_get_def)
  then obtain lit where "ToCppRawLiteral xml = Some lit" using literal_exists [OF x] by blast
  then show ?thesis using x ribbon_reads_back [OF x, of lit "''; // end''"] by blast
qed

text \<open>Well-formed XML can hold the closing sequence after all: the quote that ends a label completes it.\<close>

definition closing_config :: Config where
  "closing_config = demo_config\<lparr>Ribbon := (Ribbon demo_config)\<lparr>Tab := '')XLLRIBBON''\<rparr>\<rparr>"

lemma escape_closing: "escape '')XLLRIBBON'' = '')XLLRIBBON''"
proof -
  have "concat (map xml_rune (map byte s)) = s" if "\<forall>c \<in> set s. xml_rune (byte c) = [c]" for s
    using that by (induction s) simp_all
  moreover have "xml_rune (byte c) = [c]" if "c \<in> set '')XLLRIBBON''" for c
  proof -
    have "byte c < 128 \<and> xml_entity (byte c) = None \<and> in_character_range (byte c)"
      using that by (auto simp: xml_entity_def in_character_range_def)
    then show ?thesis by (simp add: xml_rune_def encode_ascii)
  qed
  moreover have "rune_vals '')XLLRIBBON'' = map byte '')XLLRIBBON''"
    using runes_ascii_code [of "'')XLLRIBBON''"] by (simp add: code_def)
  ultimately show ?thesis unfolding escape_def by (simp only:) blast
qed

lemma label_closes_literal: "GenerateXML closing_config [] = Inr xml \<Longrightarrow> ToCppRawLiteral xml = None"
proof -
  assume g: "GenerateXML closing_config [] = Inr xml"
  let ?a = "''<customUI'' @ attr ''xmlns'' CustomUINamespace @ ''><ribbon><tabs><tab'' @ attr ''id'' ''xllgen_tab''"
  let ?b = "''>'' @ concat (map (\<lambda>(gi, g). group_xml [] gi g) (enumerate 0 (Groups (Ribbon closing_config)))) @
    ''</tab></tabs></ribbon></customUI>''"
  have r: "XML (Ribbon closing_config) = ''''" "Tab (Ribbon closing_config) = '')XLLRIBBON''"
    by (simp_all add: closing_config_def demo_config_def demo_ribbon_def)
  have "xml = ?a @ attr ''label'' (escape '')XLLRIBBON'') @ ?b"
    using g unfolding GenerateXML_def Let_def r by simp
  moreover have "attr ''label'' (escape '')XLLRIBBON'') = ('' label='' @ [CHR 0x22]) @ raw_close"
    unfolding escape_closing by (simp add: attr_def raw_close_def raw_delim_def)
  ultimately have "xml = (?a @ '' label='' @ [CHR 0x22]) @ raw_close @ ?b" by (simp only: append_assoc)
  then have "contains_sub xml raw_close" unfolding contains_sub_iff by blast
  then show ?thesis by (simp add: ToCppRawLiteral_def GenerateXML_no_BOM [OF g])
qed

subsection \<open>Icons\<close>

definition images_ok :: "(string \<Rightarrow> string) \<Rightarrow> (string \<Rightarrow> string option) \<Rightarrow> images \<Rightarrow> bool" where
  "images_ok clean read st \<longleftrightarrow>
     (case st of (imgs, byPath, names) \<Rightarrow>
       map imgName imgs = map image_name [0..<length imgs] \<and> distinct (map imgPath imgs) \<and>
       (\<forall>img \<in> set imgs. read (imgPath img) = Some (imgData img) \<and> 0 < length (imgData img) \<and>
          length (imgData img) \<le> maxImageBytes) \<and>
       (\<forall>p i. gm_get byPath p = Some i \<longrightarrow> i < length imgs \<and> imgPath (imgs ! i) = p) \<and>
       (\<forall>img \<in> set imgs. gm_get byPath (imgPath img) \<noteq> None) \<and>
       (\<forall>v n. gm_get names v = Some n \<longrightarrow>
          ClassifyRibbonImage v = Some True \<and> (\<exists>img \<in> set imgs. imgName img = n \<and> imgPath img = clean v)))"

lemma images_ok_parts:
  assumes "images_ok clean read (imgs, byPath, names)"
  shows "map imgName imgs = map image_name [0..<length imgs]" "distinct (map imgPath imgs)"
    "img \<in> set imgs \<Longrightarrow> read (imgPath img) = Some (imgData img) \<and> 0 < length (imgData img) \<and> length (imgData img) \<le> maxImageBytes"
    "gm_get byPath p = Some i \<Longrightarrow> i < length imgs \<and> imgPath (imgs ! i) = p"
    "img \<in> set imgs \<Longrightarrow> gm_get byPath (imgPath img) \<noteq> None"
    "gm_get names v = Some n \<Longrightarrow> ClassifyRibbonImage v = Some True \<and> (\<exists>img \<in> set imgs. imgName img = n \<and> imgPath img = clean v)"
  using assms unfolding images_ok_def by blast+

definition has_icon :: "RibbonButton \<Rightarrow> bool" where
  "has_icon btn \<longleftrightarrow> btnImage btn \<noteq> '''' \<and> ClassifyRibbonImage (btnImage btn) = Some True"

lemma add_known_path:
  assumes ok: "images_ok clean read (imgs, byPath, names)" and c: "ClassifyRibbonImage v = Some True"
    and i: "gm_get byPath (clean v) = Some i"
  shows "images_ok clean read (imgs, byPath, gm_put v (imgName (imgs ! i)) names)"
proof -
  have "imgs ! i \<in> set imgs" "imgPath (imgs ! i) = clean v" using images_ok_parts(4) [OF ok i] by auto
  then show ?thesis using ok c unfolding images_ok_def by auto
qed

lemma add_new_path:
  assumes ok: "images_ok clean read (imgs, byPath, names)" and c: "ClassifyRibbonImage v = Some True"
    and p: "gm_get byPath (clean v) = None" and d: "read (clean v) = Some data" "0 < length data" "length data \<le> maxImageBytes"
  shows "images_ok clean read
    (imgs @ [\<lparr>imgName = image_name (length imgs), imgPath = clean v, imgData = data\<rparr>], gm_put (clean v) (length imgs) byPath,
     gm_put v (image_name (length imgs)) names)"
proof -
  let ?img = "\<lparr>imgName = image_name (length imgs), imgPath = clean v, imgData = data\<rparr>"
  have "clean v \<notin> imgPath ` set imgs" using images_ok_parts(5) [OF ok] p by force
  then have "distinct (map imgPath (imgs @ [?img]))" using images_ok_parts(2) [OF ok] by simp
  moreover have "map imgName (imgs @ [?img]) = map image_name [0..<length (imgs @ [?img])]"
    using images_ok_parts(1) [OF ok] by simp
  moreover have "\<forall>q i. gm_get (gm_put (clean v) (length imgs) byPath) q = Some i \<longrightarrow>
      i < length (imgs @ [?img]) \<and> imgPath ((imgs @ [?img]) ! i) = q"
    using images_ok_parts(4) [OF ok] by (auto simp: nth_append less_SucI)
  moreover have "\<forall>w n. gm_get (gm_put v (image_name (length imgs)) names) w = Some n \<longrightarrow>
      ClassifyRibbonImage w = Some True \<and> (\<exists>img \<in> set (imgs @ [?img]). imgName img = n \<and> imgPath img = clean w)"
  proof (intro allI impI)
    fix w n
    assume "gm_get (gm_put v (image_name (length imgs)) names) w = Some n"
    then show "ClassifyRibbonImage w = Some True \<and> (\<exists>img \<in> set (imgs @ [?img]). imgName img = n \<and> imgPath img = clean w)"
      using images_ok_parts(6) [OF ok, of w n] c by (cases "w = v") auto
  qed
  moreover have "\<forall>img \<in> set (imgs @ [?img]). read (imgPath img) = Some (imgData img) \<and> 0 < length (imgData img) \<and>
      length (imgData img) \<le> maxImageBytes" using images_ok_parts(3) [OF ok] d by auto
  moreover have "\<forall>img \<in> set (imgs @ [?img]). gm_get (gm_put (clean v) (length imgs) byPath) (imgPath img) \<noteq> None"
    using images_ok_parts(5) [OF ok] by auto
  ultimately show ?thesis unfolding images_ok_def by blast
qed

lemma add_image_ok:
  assumes ok: "images_ok clean read st" and add: "add_image clean read btn st = Inr st'"
  shows "images_ok clean read st' \<and> (has_icon btn \<longrightarrow> gm_get (snd (snd st')) (btnImage btn) \<noteq> None) \<and>
    (\<forall>v. gm_get (snd (snd st)) v \<noteq> None \<longrightarrow> gm_get (snd (snd st')) v \<noteq> None)"
proof -
  obtain imgs byPath names where st: "st = (imgs, byPath, names)" by (cases st)
  show ?thesis
  proof (cases "has_icon btn \<and> gm_get names (btnImage btn) = None")
    case False
    then show ?thesis using ok add by (auto simp: add_image_def st has_icon_def split: option.splits if_splits)
  next
    case True
    then have c: "ClassifyRibbonImage (btnImage btn) = Some True" and n: "btnImage btn \<noteq> ''''"
      "gm_get names (btnImage btn) = None" by (simp_all add: has_icon_def)
    show ?thesis
    proof (cases "gm_get byPath (clean (btnImage btn))")
      case (Some i)
      then have "st' = (imgs, byPath, gm_put (btnImage btn) (imgName (imgs ! i)) names)"
        using add c n by (simp add: add_image_def st Let_def)
      then show ?thesis using add_known_path [OF ok [unfolded st] c Some] st by simp
    next
      case None
      then obtain data where d: "read (clean (btnImage btn)) = Some data" "0 < length data" "length data \<le> maxImageBytes"
        and st': "st' = (imgs @ [\<lparr>imgName = image_name (length imgs), imgPath = clean (btnImage btn), imgData = data\<rparr>],
          gm_put (clean (btnImage btn)) (length imgs) byPath, gm_put (btnImage btn) (image_name (length imgs)) names)"
        using add c n by (auto simp: add_image_def st Let_def image_name_def split: option.splits if_splits)
      then show ?thesis using add_new_path [OF ok [unfolded st] c None d] st by simp
    qed
  qed
qed

lemma add_images_ok:
  "images_ok clean read st \<Longrightarrow> add_images clean read btns st = Inr st' \<Longrightarrow>
     images_ok clean read st' \<and> (\<forall>btn \<in> set btns. has_icon btn \<longrightarrow> gm_get (snd (snd st')) (btnImage btn) \<noteq> None) \<and>
     (\<forall>v. gm_get (snd (snd st)) v \<noteq> None \<longrightarrow> gm_get (snd (snd st')) v \<noteq> None)"
proof (induction btns arbitrary: st)
  case (Cons btn btns)
  then obtain s where s: "add_image clean read btn st = Inr s" "add_images clean read btns s = Inr st'"
    by (auto split: sum.splits)
  then show ?case using add_image_ok [OF Cons.prems(1) s(1)] Cons.IH [of s] by simp
qed simp

text \<open>What \<open>Images\<close> promises: every icon file of a button is embedded once, whole and within the limit, under the name the
  document uses for it; names and files are distinct.\<close>

definition icon_embedded :: "(string \<Rightarrow> string) \<Rightarrow> Image list \<Rightarrow> (string, string) gomap \<Rightarrow> RibbonButton \<Rightarrow> bool" where
  "icon_embedded clean imgs names btn \<longleftrightarrow>
     (if has_icon btn
      then \<exists>img \<in> set imgs. gm_get names (btnImage btn) = Some (imgName img) \<and> imgPath img = clean (btnImage btn)
      else gm_get names (btnImage btn) = None \<or> btnImage btn = '''')"

definition icons_embedded :: "(string \<Rightarrow> string) \<Rightarrow> (string \<Rightarrow> string option) \<Rightarrow> Config \<Rightarrow> Image list \<Rightarrow> (string, string) gomap \<Rightarrow> bool" where
  "icons_embedded clean read cfg imgs names \<longleftrightarrow>
     distinct (map imgName imgs) \<and> distinct (map imgPath imgs) \<and>
     (\<forall>img \<in> set imgs. read (imgPath img) = Some (imgData img) \<and> 0 < length (imgData img) \<and> length (imgData img) \<le> maxImageBytes) \<and>
     (\<forall>g \<in> set (Groups (Ribbon cfg)). \<forall>btn \<in> set (grpButtons g). icon_embedded clean imgs names btn)"

lemma image_name_inj: "inj image_name"
  by (auto simp: inj_def image_name_def)

text \<open>C37. When \<open>Images\<close> succeeds, a button with an icon file refers to exactly one embedded image, whose bytes are those
  of the file (not empty, at most \<open>maxImageBytes\<close>), two spellings of one path share the image, and a button with an Office
  icon name refers to none.\<close>

theorem Images_embed_icons:
  assumes "Images clean_path read_file cfg = Inr (imgs, names)"
  shows "icons_embedded clean_path read_file cfg imgs names"
proof -
  obtain byPath where add: "add_images clean_path read_file (concat (map grpButtons (Groups (Ribbon cfg)))) ([], [], []) =
      Inr (imgs, byPath, names)"
    using assms by (auto simp: Images_def split: sum.splits prod.splits)
  have "images_ok clean_path read_file ([], [], [])" by (simp add: images_ok_def)
  from add_images_ok [OF this add] have ok: "images_ok clean_path read_file (imgs, byPath, names)"
    and seen: "\<forall>g \<in> set (Groups (Ribbon cfg)). \<forall>btn \<in> set (grpButtons g). has_icon btn \<longrightarrow> gm_get names (btnImage btn) \<noteq> None"
    by auto
  have "distinct (map imgName imgs)"
    unfolding images_ok_parts(1) [OF ok] by (simp add: distinct_map image_name_inj [THEN inj_on_subset])
  moreover have "icon_embedded clean_path imgs names btn"
    if "g \<in> set (Groups (Ribbon cfg))" "btn \<in> set (grpButtons g)" for g btn
  proof (cases "has_icon btn")
    case True
    then obtain n where "gm_get names (btnImage btn) = Some n" using seen \<open>g \<in> _\<close> \<open>btn \<in> _\<close> by blast
    then show ?thesis using images_ok_parts(6) [OF ok] True unfolding icon_embedded_def by fastforce
  next
    case False
    then show ?thesis using images_ok_parts(6) [OF ok, of "btnImage btn"] unfolding icon_embedded_def has_icon_def by force
  qed
  ultimately show ?thesis using images_ok_parts(2,3) [OF ok] unfolding icons_embedded_def by blast
qed

lemma first_image:
  "btnImage btn \<noteq> '''' \<Longrightarrow> ClassifyRibbonImage (btnImage btn) = Some True \<Longrightarrow>
     add_image (\<lambda>v. v) (\<lambda>p. Some ''PNG'') btn ([], [], []) =
       Inr ([\<lparr>imgName = image_name 0, imgPath = btnImage btn, imgData = ''PNG''\<rparr>], [(btnImage btn, 0)],
            [(btnImage btn, image_name 0)])"
  by (simp add: add_image_def maxImageBytes_def image_name_def gm_put_def Let_def)

lemma demo_images: "Images (\<lambda>v. v) (\<lambda>p. Some ''PNG'') demo_config =
    Inr ([\<lparr>imgName = image_name 0, imgPath = ''icons/go.PNG'', imgData = ''PNG''\<rparr>], demo_names)"
proof -
  obtain btn where b: "concat (map grpButtons (Groups (Ribbon demo_config))) = [btn]" "btnImage btn = ''icons/go.PNG''"
    by (simp add: demo_config_def demo_ribbon_def)
  then have "add_image (\<lambda>v. v) (\<lambda>p. Some ''PNG'') btn ([], [], []) =
      Inr ([\<lparr>imgName = image_name 0, imgPath = ''icons/go.PNG'', imgData = ''PNG''\<rparr>], [(''icons/go.PNG'', 0)], demo_names)"
    using first_image [of btn] demo_image by (simp only: b demo_names_def) simp
  then show ?thesis unfolding Images_def b(1) by simp
qed

theorem Images_embed_icons_witness:
  "icons_embedded (\<lambda>v. v) (\<lambda>p. Some ''PNG'') demo_config
     [\<lparr>imgName = image_name 0, imgPath = ''icons/go.PNG'', imgData = ''PNG''\<rparr>] demo_names"
  by (rule Images_embed_icons [OF demo_images])

subsection \<open>Raw documents\<close>

lemma check_attrs_None:
  "check_attrs known el as = None \<longleftrightarrow>
     (\<forall>n v. (n, v) \<in> set as \<longrightarrow> (if n = ''onAction'' then v \<in> set known else n \<notin> set dynamicCallbackAttrs))"
  by (induction known el as rule: check_attrs.induct) auto

lemma check_tokens_None:
  "check_tokens known toks = None \<longleftrightarrow> TokenError \<notin> set toks \<and>
     (\<forall>el as. StartElement el as \<in> set toks \<longrightarrow> check_attrs known el as = None)"
  by (induction known toks rule: check_tokens.induct) (auto split: option.splits)

lemma ValidateRawXML_accepts:
  "ValidateRawXML read_file decode path cmds = Inr raw \<longleftrightarrow>
     read_file path = Some raw \<and> TokenError \<notin> set (decode raw) \<and>
     (\<forall>el as n v. StartElement el as \<in> set (decode raw) \<longrightarrow> (n, v) \<in> set as \<longrightarrow>
        (if n = ''onAction'' then v \<in> cmdName ` set cmds else n \<notin> set dynamicCallbackAttrs))"
proof -
  have "(case x of Some e \<Rightarrow> Inl e | None \<Rightarrow> Inr r) = Inr raw \<longleftrightarrow> x = None \<and> r = raw" for x :: "ribbon_error option" and r
    by (auto split: option.split)
  then show ?thesis
    unfolding ValidateRawXML_def by (auto simp: check_tokens_None check_attrs_None split: option.split)
qed

end
