(* ===== verification/Generator_Funcs.thy ===== *)
theory Generator_Funcs
  imports Config_Defaults Cpp_Literals Chunk_Frames
begin

section \<open>What the templates call (internal/generator/types.go, funcmap.go)\<close>

text \<open>
  The registry of types with its lookups, and the functions of \<open>GetCommonFuncMap\<close> the templates are written with.
  A Go value of type \<open>any\<close> is a type variable here with the cast to a string as a function.
\<close>

subsection \<open>The type registry\<close>

record TypeInfo =
  SchemaType :: string
  GoType :: string
  RetGoType :: string
  CppType :: string
  ArgCppType :: string
  XllType :: string
  ArgXllType :: string

definition type_info :: "string \<Rightarrow> string \<Rightarrow> string \<Rightarrow> string \<Rightarrow> string \<Rightarrow> string \<Rightarrow> string \<Rightarrow> TypeInfo" where
  "type_info schema go ret cpp argCpp xll argXll =
     \<lparr>SchemaType = schema, GoType = go, RetGoType = ret, CppType = cpp, ArgCppType = argCpp, XllType = xll, ArgXllType = argXll\<rparr>"

definition typeRegistry :: "(string, TypeInfo) gomap" where
  "typeRegistry =
     [(''int'', type_info ''int'' ''int32'' '''' ''LPXLOPER12'' ''int32_t'' ''Q'' ''J''),
      (''float'', type_info ''double'' ''float64'' '''' ''LPXLOPER12'' ''double'' ''Q'' ''B''),
      (''string'', type_info ''string'' ''string'' '''' ''LPXLOPER12'' ''LPXLOPER12'' ''Q'' ''Q''),
      (''bool'', type_info ''bool'' ''bool'' '''' ''LPXLOPER12'' ''short'' ''Q'' ''A''),
      (''range'', type_info ''protocol.Range'' ''*protocol.Range'' '''' ''LPXLOPER12'' ''LPXLOPER12'' ''Q'' ''U''),
      (''grid'', type_info ''protocol.Grid'' ''*protocol.Grid'' ''[][]any'' ''LPXLOPER12'' ''LPXLOPER12'' ''Q'' ''U''),
      (''numgrid'', type_info ''protocol.NumGrid'' ''*protocol.NumGrid'' ''[][]float64'' ''FP12*'' ''FP12*'' ''K%'' ''K%''),
      (''date'', type_info ''double'' ''time.Time'' ''time.Time'' ''LPXLOPER12'' ''double'' ''Q'' ''B''),
      (''any'', type_info ''protocol.Any'' ''*protocol.Any'' ''any'' ''LPXLOPER12'' ''LPXLOPER12'' ''Q'' ''U'')]"

definition lookup_field :: "(TypeInfo \<Rightarrow> string) \<Rightarrow> string \<Rightarrow> string \<Rightarrow> string" where
  "lookup_field f t dflt =
     (case gm_get typeRegistry t of
        Some info \<Rightarrow> if f info \<noteq> '''' then f info else dflt
      | None \<Rightarrow> dflt)"

definition LookupSchemaType :: "string \<Rightarrow> string" where "LookupSchemaType t = lookup_field SchemaType t t"
definition LookupGoType :: "string \<Rightarrow> string" where "LookupGoType t = lookup_field GoType t t"
definition LookupRetGoType :: "string \<Rightarrow> string" where "LookupRetGoType t = lookup_field RetGoType t (LookupGoType t)"
definition LookupCppType :: "string \<Rightarrow> string" where "LookupCppType t = lookup_field CppType t t"
definition LookupArgCppType :: "string \<Rightarrow> string" where "LookupArgCppType t = lookup_field ArgCppType t t"
definition LookupXllType :: "string \<Rightarrow> string" where "LookupXllType t = lookup_field XllType t t"
definition LookupArgXllType :: "string \<Rightarrow> string" where "LookupArgXllType t = lookup_field ArgXllType t t"

text \<open>Excel's registration codes and the C++ types they stand for; \<open>U\<close> is a reference, which a function cannot return.\<close>

definition code_matches :: "string \<Rightarrow> string \<Rightarrow> bool" where
  "code_matches code cpp \<longleftrightarrow>
     (code, cpp) \<in> {(''J'', ''int32_t''), (''B'', ''double''), (''A'', ''short''), (''Q'', ''LPXLOPER12''),
                    (''U'', ''LPXLOPER12''), (''K%'', ''FP12*'')}"

definition wire_types :: "string list" where
  "wire_types = [''int'', ''double'', ''string'', ''bool'', ''protocol.Range'', ''protocol.Grid'', ''protocol.NumGrid'', ''protocol.Any'']"

definition arg_registered :: "string \<Rightarrow> bool" where
  "arg_registered t \<longleftrightarrow> gm_get typeRegistry t \<noteq> None \<and> code_matches (LookupArgXllType t) (LookupArgCppType t) \<and>
     LookupSchemaType t \<in> set wire_types"

definition return_registered :: "string \<Rightarrow> bool" where
  "return_registered t \<longleftrightarrow> gm_get typeRegistry t \<noteq> None \<and> code_matches (LookupXllType t) (LookupCppType t) \<and>
     LookupXllType t \<noteq> ''U'' \<and> LookupSchemaType t \<in> set wire_types \<and> \<not> HasPrefix (LookupRetGoType t) ''*protocol.''"

text \<open>Every argument and return type that the checks let through is in the registry: its Excel registration code fits
  the C++ type of the wrapper's parameter or result, its wire type is one of the schema's, no result is registered as a
  reference, and no handler has to build a FlatBuffers view as its result.\<close>

lemma types_registered: "list_all arg_registered validArgTypes \<and> list_all return_registered validReturnTypes"
proof
  show "list_all arg_registered validArgTypes"
    by (simp add: validArgTypes_def arg_registered_def gm_get_def typeRegistry_def type_info_def code_matches_def wire_types_def
      LookupArgXllType_def LookupArgCppType_def LookupSchemaType_def lookup_field_def)
  show "list_all return_registered validReturnTypes"
    by (simp add: validReturnTypes_def return_registered_def gm_get_def typeRegistry_def type_info_def code_matches_def
      wire_types_def LookupXllType_def LookupCppType_def LookupSchemaType_def LookupRetGoType_def LookupGoType_def
      lookup_field_def HasPrefix_def)
qed

subsection \<open>Questions about the project\<close>

fun anyRtdOnceGrid :: "Function list \<Rightarrow> bool" where
  "anyRtdOnceGrid [] = False"
| "anyRtdOnceGrid (f # fns) =
     (if fnMode f = ''rtd-once'' \<and> (fnReturn f = ''grid'' \<or> fnReturn f = ''numgrid'') then True else anyRtdOnceGrid fns)"

fun any_date_arg :: "Arg list \<Rightarrow> bool" where
  "any_date_arg [] = False"
| "any_date_arg (a # args) = (if argType a = ''date'' then True else any_date_arg args)"

fun anyDateType :: "Function list \<Rightarrow> bool" where
  "anyDateType [] = False"
| "anyDateType (f # fns) =
     (if fnReturn f = ''date'' then True else if any_date_arg (fnArgs f) then True else anyDateType fns)"

definition anyNonRtdLike :: "Function list \<Rightarrow> bool" where "anyNonRtdLike fns = AnyNonRtdLike fns"

fun anyMode :: "string \<Rightarrow> Function list \<Rightarrow> bool" where
  "anyMode m [] = False"
| "anyMode m (f # fns) = (if fnMode f = m then True else anyMode m fns)"

definition anyRtdOnce :: "Function list \<Rightarrow> bool" where "anyRtdOnce fns = anyMode ''rtd-once'' fns"
definition anyRtd :: "Function list \<Rightarrow> bool" where "anyRtd fns = anyMode ''rtd'' fns"

fun hasEvent :: "string \<Rightarrow> Event list \<Rightarrow> bool" where
  "hasEvent ty [] = False"
| "hasEvent ty (e # events) = (if evtType e = ty then True else hasEvent ty events)"

fun getEventHandler :: "string \<Rightarrow> Event list \<Rightarrow> string \<Rightarrow> string" where
  "getEventHandler ty [] dflt = dflt"
| "getEventHandler ty (e # events) dflt = (if evtType e = ty then evtHandler e else getEventHandler ty events dflt)"

lemma anyRtdOnceGrid_iff:
  "anyRtdOnceGrid fns \<longleftrightarrow> (\<exists>f \<in> set fns. fnMode f = ''rtd-once'' \<and> fnReturn f \<in> {''grid'', ''numgrid''})"
  by (induction fns) auto

lemma any_date_arg_iff: "any_date_arg args \<longleftrightarrow> ''date'' \<in> argType ` set args"
  by (induction args) auto

lemma anyDateType_iff:
  "anyDateType fns \<longleftrightarrow> (\<exists>f \<in> set fns. fnReturn f = ''date'' \<or> ''date'' \<in> argType ` set (fnArgs f))"
  by (induction fns) (auto simp: any_date_arg_iff)

lemma anyMode_iff: "anyMode m fns \<longleftrightarrow> m \<in> fnMode ` set fns"
  by (induction fns) auto

lemma AnyNonRtdLike_iff: "AnyNonRtdLike fns \<longleftrightarrow> (\<exists>f \<in> set fns. \<not> IsRtdLike (fnMode f))"
  by (induction fns) auto

lemma hasEvent_iff: "hasEvent ty events \<longleftrightarrow> ty \<in> evtType ` set events"
  by (induction events) auto

text \<open>With the defaults applied the templates' own fallback is never another name than the configuration's.\<close>

lemma getEventHandler_default:
  "getEventHandler ty (map default_event events) (''On'' @ ty) =
     (case find (\<lambda>e. evtType e = ty) events of
        Some e \<Rightarrow> if evtHandler e = '''' then ''On'' @ ty else evtHandler e
      | None \<Rightarrow> ''On'' @ ty)"
  by (induction events) auto

subsection \<open>Small helpers\<close>

definition derefBool :: "bool option \<Rightarrow> bool" where
  "derefBool b = (case b of None \<Rightarrow> False | Some b \<Rightarrow> b)"

definition capitalize :: "string \<Rightarrow> string" where
  "capitalize s = (if length s = 0 then '''' else ToUpper (take 1 s) @ drop 1 s)"

definition lookupEventCode :: "string \<Rightarrow> string" where
  "lookupEventCode t =
     (if t = ''CalculationEnded'' then ''xleventCalculationEnded''
      else if t = ''CalculationCanceled'' then ''xleventCalculationCanceled''
      else ''0'')"

definition lookupEventId :: "string \<Rightarrow> string" where
  "lookupEventId t =
     (if t = ''CalculationEnded'' then FormatInt (uint MsgCalculationEnded)
      else if t = ''CalculationCanceled'' then FormatInt (uint MsgCalculationCanceled)
      else ''0'')"

text \<open>\<open>dict\<close>; None is the panic.\<close>

fun dict_from :: "('v \<Rightarrow> string option) \<Rightarrow> 'v list \<Rightarrow> (string, 'v) gomap \<Rightarrow> (string, 'v) gomap option" where
  "dict_from as_string (k # v # rest) m =
     (case as_string k of None \<Rightarrow> None | Some key \<Rightarrow> dict_from as_string rest (gm_put key v m))"
| "dict_from as_string _ m = Some m"

definition dict :: "('v \<Rightarrow> string option) \<Rightarrow> 'v list \<Rightarrow> (string, 'v) gomap option" where
  "dict as_string pairs = (if length pairs mod 2 \<noteq> 0 then None else dict_from as_string pairs [])"

text \<open>Go's \<open>int\<close> has 64 bits.\<close>

definition add_int :: "64 word \<Rightarrow> 64 word \<Rightarrow> 64 word" where "add_int a b = a + b"
definition sub_int :: "64 word \<Rightarrow> 64 word \<Rightarrow> 64 word" where "sub_int a b = a - b"
definition mul_int :: "64 word \<Rightarrow> 64 word \<Rightarrow> 64 word" where "mul_int a b = a * b"

definition boolToInt :: "bool \<Rightarrow> int" where
  "boolToInt b = (if b then 1 else 0)"

text \<open>\<open>d.Milliseconds()\<close> truncates toward zero.\<close>

definition Milliseconds :: "int \<Rightarrow> int" where
  "Milliseconds d = (if d < 0 then - (- d div 1000000) else d div 1000000)"

definition parseDurationToMs :: "string \<Rightarrow> int \<Rightarrow> int" where
  "parseDurationToMs s defaultMs =
     (if s = '''' then defaultMs
      else (case ParseDuration s of None \<Rightarrow> defaultMs | Some d \<Rightarrow> Milliseconds d))"

definition parseTimeout :: "string \<Rightarrow> int \<Rightarrow> int" where
  "parseTimeout s defaultMs = parseDurationToMs s defaultMs"

definition parseDurationToNs :: "string \<Rightarrow> int" where
  "parseDurationToNs s = (if s = '''' then 0 else (case ParseDuration s of None \<Rightarrow> 0 | Some d \<Rightarrow> d))"

definition durationMillis :: "string \<Rightarrow> string" where
  "durationMillis s =
     (case ParseDuration s of
        None \<Rightarrow> ''0''
      | Some d \<Rightarrow> if d \<le> 0 then ''0'' else FormatInt (Milliseconds d))"

definition rtdPlaceholderReturn :: "Function \<Rightarrow> RtdConfig \<Rightarrow> string" where
  "rtdPlaceholderReturn fn rtd =
     (case ResolveRtdPlaceholder fn rtd of
        PlaceholderNA \<Rightarrow> ''return &g_xlErrNA;''
      | PlaceholderText t \<Rightarrow> ''return NewExcelString('' @ cppWideLiteral t @ '');''
      | PlaceholderGettingData \<Rightarrow> ''return &g_xlErrGettingData;'')"

definition rtdPlaceholderEntry :: "Function \<Rightarrow> RtdConfig \<Rightarrow> string" where
  "rtdPlaceholderEntry fn rtd =
     (let ph = ResolveRtdPlaceholder fn rtd;
          kind = (case ph of
            PlaceholderNA \<Rightarrow> ''xll::RtdPlaceholderKind::NA''
          | PlaceholderText t \<Rightarrow> ''xll::RtdPlaceholderKind::Text''
          | PlaceholderGettingData \<Rightarrow> ''xll::RtdPlaceholderKind::GettingData'');
          text = (case ph of PlaceholderText t \<Rightarrow> cppWideLiteral t | _ \<Rightarrow> ''L'' @ [CHR 0x22, CHR 0x22])
      in ''{L'' @ [CHR 0x22] @ fnName fn @ [CHR 0x22] @ '', {'' @ kind @ '', '' @ text @ ''}}'')"

text \<open>\<open>failUnhandledType\<close> always fails; the result is the data of its message.\<close>

definition failUnhandledType :: "string \<Rightarrow> string \<Rightarrow> string \<Rightarrow> (string \<times> string \<times> string) + string" where
  "failUnhandledType site typ name = Inl (site, typ, name)"

subsection \<open>Methods and parameters of the generated interface\<close>

text \<open>
  \<open>interface.go.tmpl\<close> makes one interface out of the functions, the event handlers, the command handlers and the fixed
  callbacks, and one parameter list per function. Go accepts neither twice the same method nor twice the same parameter,
  and the checks compare names only within their own section.
\<close>

definition method_name :: "Function \<Rightarrow> string" where
  "method_name fn = (if fnMode fn = ''rtd'' then fnName fn @ ''_RTD'' else fnName fn)"

definition service_methods :: "Config \<Rightarrow> string list" where
  "service_methods c =
     map method_name (Functions c) @ map evtHandler (Events c) @ map cmdHandler (Commands c) @
     (if hasEvent ''CalculationEnded'' (Events c) then [] else [''OnCalculationEnded'']) @
     (if hasEvent ''CalculationCanceled'' (Events c) then [] else [''OnCalculationCanceled'']) @
     (if rtdEnabled (Rtd c) then [''OnRtdConnect'', ''OnRtdDisconnect''] else [])"

definition method_params :: "Function \<Rightarrow> string list" where
  "method_params fn =
     (if fnMode fn = ''rtd'' then [''ctx'', ''topicID''] @ map argName (fnArgs fn)
      else [''ctx''] @ map argName (fnArgs fn) @ (if fnCaller fn then [''caller''] else []))"

text \<open>An accepted project whose interface does not compile: an event handled by the method of a command, and a function
  with an argument called \<open>ctx\<close>.\<close>

definition shared_handler :: Config where
  "shared_handler = demo_config\<lparr>Events := [\<lparr>evtType = ''CalculationEnded'', evtHandler = ''RefreshEveryMonteCarloEstimate''\<rparr>]\<rparr>"

lemma legal_demo_command: "legal_name ''RefreshEveryMonteCarloEstimate''"
  by (simp add: legal_name_def name_char_def goReservedWords_def cppReservedWords_def)

lemma shared_handler_accepted:
  "Validate (ApplyDefaults demo_uuid shared_handler) = None"
  "\<not> distinct (service_methods (ApplyDefaults demo_uuid shared_handler))"
proof -
  have "valid_function shared_handler fn = valid_function demo_config fn" for fn
    by (simp add: valid_function_def shared_handler_def)
  moreover have "valid_events shared_handler"
    using legal_demo_command by (simp add: valid_events_def shared_handler_def validEventTypes_def)
  moreover have "valid_project shared_handler = valid_project demo_config" "Functions shared_handler = Functions demo_config"
    "valid_commands shared_handler = valid_commands demo_config" "valid_server shared_handler = valid_server demo_config"
    "valid_ribbon shared_handler = valid_ribbon demo_config"
    by (simp_all add: valid_project_def valid_commands_def valid_server_def valid_ribbon_def shared_handler_def)
  ultimately have "valid_config shared_handler" using demo_valid by (simp add: valid_config_def)
  then show "Validate (ApplyDefaults demo_uuid shared_handler) = None"
    unfolding Validate_None defaults_valid [OF demo_uuid_ok] by (simp add: shared_handler_def demo_config_def)
  show "\<not> distinct (service_methods (ApplyDefaults demo_uuid shared_handler))"
    by (simp add: service_methods_def shared_handler_def demo_config_def demo_command_def)
qed

lemma ctx_argument_accepted:
  "valid_args [\<lparr>argName = ''ctx'', argType = ''int'', argDescription = ''''\<rparr>]"
  "fnArgs fn = [\<lparr>argName = ''ctx'', argType = ''int'', argDescription = ''''\<rparr>] \<Longrightarrow> \<not> distinct (method_params fn)"
  by (simp add: valid_args_def legal_name_def name_char_def goReservedWords_def cppReservedWords_def validArgTypes_def)
    (simp add: method_params_def)

text \<open>Arguments that differ in the case of their first letter share the accessor \<open>capitalize\<close> makes for them.\<close>

lemma capitalized_args_collide:
  "valid_args [\<lparr>argName = ''rate'', argType = ''int'', argDescription = ''''\<rparr>, \<lparr>argName = ''Rate'', argType = ''int'', argDescription = ''''\<rparr>]"
  "capitalize ''rate'' = capitalize ''Rate''"
proof -
  show "valid_args [\<lparr>argName = ''rate'', argType = ''int'', argDescription = ''''\<rparr>, \<lparr>argName = ''Rate'', argType = ''int'', argDescription = ''''\<rparr>]"
    by (simp add: valid_args_def legal_name_def name_char_def goReservedWords_def cppReservedWords_def validArgTypes_def)
  show "capitalize ''rate'' = capitalize ''Rate''" by code_simp
qed

text \<open>A time to live under a millisecond is a positive duration for the checks and no time to live in the generated code.\<close>

lemma short_memoize_ttl:
  "ParseDuration ''500us'' = Some 500000" "durationMillis ''500us'' = ''0''"
proof -
  show p: "ParseDuration ''500us'' = Some 500000"
    by (simp add: ParseDuration_def duration_item_def digit_def digit_num_def unit_of_def unit_char_def Let_def)
  have "FormatInt 0 = ''0''" by code_simp
  then show "durationMillis ''500us'' = ''0''" by (simp add: durationMillis_def p Milliseconds_def)
qed

lemma negative_timeout_emitted: "parseTimeout ''-200ms'' 2000 = -200"
  by (simp add: parseTimeout_def parseDurationToMs_def ParseDuration_examples(2) Milliseconds_def)

end
