(* ===== verification/Toolchain.thy ===== *)
theory Toolchain
  imports Go_Strings "HOL-Library.List_Lexorder" "HOL-Library.Char_ord"
begin

section \<open>The developer's tools (cmd/doctor.go, internal/platform)\<close>

text \<open>
  The decisions of the command line: which tool versions are new enough, which directory
  an Excel trusted location covers, which add-ins look like classification suites. What they look at - the search path,
  the output of a program, the registry, the file system - is a parameter; printing is left out, a check yields what
  it reports. Case is folded as in \<open>Go_Strings\<close>.
\<close>

subsection \<open>Fields\<close>

text \<open>\<open>strings.Fields\<close> over the output of a tool (ASCII).\<close>

definition space_char :: "char \<Rightarrow> bool" where "space_char c \<longleftrightarrow> IsSpace (byte c) \<and> byte c < 128"

function Fields :: "string \<Rightarrow> string list" where
  "Fields s =
     (let t = dropWhile space_char s
      in if t = [] then [] else takeWhile (\<lambda>c. \<not> space_char c) t # Fields (dropWhile (\<lambda>c. \<not> space_char c) t))"
  by pat_completeness auto
termination
proof (relation "measure length", simp, goal_cases)
  case (1 s t)
  then have t: "t \<noteq> []" "\<not> space_char (hd t)" using hd_dropWhile [of space_char s] by auto
  have "length (dropWhile (\<lambda>c. \<not> space_char c) (tl t)) \<le> length (tl t)" by (rule length_dropWhile_le)
  then have "length (dropWhile (\<lambda>c. \<not> space_char c) t) < length t" using t by (cases t) auto
  also have "length t \<le> length s" using 1 length_dropWhile_le [of space_char s] by simp
  finally show ?case by simp
qed

subsection \<open>Versions (cmd/doctor.go)\<close>

definition digit_char :: "char \<Rightarrow> bool" where "digit_char c \<longleftrightarrow> 48 \<le> byte c \<and> byte c \<le> 57"

text \<open>\<open>strconv.Atoi\<close> of digits; None on overflow.\<close>

definition Atoi :: "string \<Rightarrow> nat option" where
  "Atoi p = (if nat_of_digits p \<le> 2 ^ 63 - 1 then Some (nat_of_digits p) else None)"

fun parse_parts :: "string list \<Rightarrow> nat list option" where
  "parse_parts [] = Some []"
| "parse_parts (p # ps) =
     (if p = '''' then parse_parts ps
      else (case Atoi p of None \<Rightarrow> None | Some n \<Rightarrow> map_option (Cons n) (parse_parts ps)))"

definition parseVersion :: "string \<Rightarrow> nat list option" where
  "parseVersion s =
     (let s = dropWhile (\<lambda>c. \<not> digit_char c) s
      in if s = '''' then None
         else (case parse_parts (Split CHR ''.'' (takeWhile (\<lambda>c. digit_char c \<or> c = CHR ''.'') s)) of
                 None \<Rightarrow> None
               | Some nums \<Rightarrow> if nums = [] then None else Some nums))"

definition nth0 :: "nat list \<Rightarrow> nat \<Rightarrow> nat" where
  "nth0 xs i = (if i < length xs then xs ! i else 0)"

function compare_from :: "nat list \<Rightarrow> nat list \<Rightarrow> nat \<Rightarrow> int" where
  "compare_from a b i =
     (if i < length a \<or> i < length b then
        (if nth0 a i < nth0 b i then -1 else if nth0 a i > nth0 b i then 1 else compare_from a b (i + 1))
      else 0)"
  by pat_completeness auto
termination
  by (relation "measure (\<lambda>(a, b, i). max (length a) (length b) - i)") auto

declare compare_from.simps [simp del]

definition compareVersions :: "nat list \<Rightarrow> nat list \<Rightarrow> int" where
  "compareVersions a b = compare_from a b 0"

text \<open>None when a version cannot be parsed.\<close>

definition versionAtLeast :: "string \<Rightarrow> string \<Rightarrow> bool option" where
  "versionAtLeast got required =
     (case (parseVersion got, parseVersion required) of
        (Some g, Some m) \<Rightarrow> Some (compareVersions g m \<ge> 0)
      | _ \<Rightarrow> None)"

definition minGoVersion :: string where "minGoVersion = ''1.24''"
definition minCMakeVersion :: string where "minCMakeVersion = ''3.28''"

text \<open>What a check reports.\<close>

datatype tool_report = ToolMissing | ToolFound string | ToolUnparsed string | ToolTooOld string

text \<open>\<open>lookup\<close> says whether the executable is on the path, \<open>run\<close> what it prints.\<close>

definition checkTool :: "(string \<Rightarrow> bool) \<Rightarrow> (string \<Rightarrow> string list \<Rightarrow> string) \<Rightarrow> string \<Rightarrow> string list \<Rightarrow> string \<Rightarrow> (string \<Rightarrow> string) \<Rightarrow> tool_report" where
  "checkTool lookup run exe args minVersion parser =
     (if \<not> lookup exe then ToolMissing
      else
        (let version = (if args \<noteq> [] then parser (run exe args) else '''')
         in if version = '''' then ToolFound ''''
            else if minVersion \<noteq> '''' then
              (case versionAtLeast version minVersion of
                 None \<Rightarrow> ToolUnparsed version
               | Some ok \<Rightarrow> if \<not> ok then ToolTooOld version else ToolFound version)
            else ToolFound version))"

definition version_field :: "string \<Rightarrow> string \<Rightarrow> string" where
  "version_field name out =
     (let parts = Fields out
      in if length parts \<ge> 3 \<and> parts ! 0 = name \<and> parts ! 1 = ''version'' then parts ! 2 else '''')"

definition checkGo :: "(string \<Rightarrow> bool) \<Rightarrow> (string \<Rightarrow> string list \<Rightarrow> string) \<Rightarrow> tool_report" where
  "checkGo lookup run = checkTool lookup run ''go'' [''version''] minGoVersion (version_field ''go'')"

definition checkCMake :: "(string \<Rightarrow> bool) \<Rightarrow> (string \<Rightarrow> string list \<Rightarrow> string) \<Rightarrow> tool_report" where
  "checkCMake lookup run =
     checkTool lookup run ''cmake'' [''--version''] minCMakeVersion (\<lambda>out. version_field ''cmake'' (hd (Split CHR 0x0A out)))"

fun after_version :: "string list \<Rightarrow> string" where
  "after_version (p # q # ps) = (if p = ''version:'' then q else after_version (q # ps))"
| "after_version _ = ''''"

definition checkTask :: "(string \<Rightarrow> bool) \<Rightarrow> (string \<Rightarrow> string list \<Rightarrow> string) \<Rightarrow> tool_report" where
  "checkTask lookup run =
     (let exe = (if \<not> lookup ''task'' \<and> lookup ''go-task'' then ''go-task'' else ''task'')
      in checkTool lookup run exe [''--version''] '''' (\<lambda>out. after_version (Fields out)))"

datatype compiler_report = FoundMSVC | FoundGpp | FoundGcc | StudioNotOnPath | NoCompiler

definition checkCompiler :: "(string \<Rightarrow> bool) \<Rightarrow> bool \<Rightarrow> bool \<Rightarrow> compiler_report" where
  "checkCompiler lookup windows studio =
     (if lookup ''cl.exe'' then FoundMSVC
      else if lookup ''g++'' then FoundGpp
      else if lookup ''gcc'' then FoundGcc
      else if windows \<and> studio then StudioNotOnPath
      else NoCompiler)"

subsection \<open>The order of versions\<close>

text \<open>Versions compare as the infinite sequences of their components, zero after the last: by the first that differs.\<close>

definition first_less :: "nat list \<Rightarrow> nat list \<Rightarrow> nat \<Rightarrow> bool" where
  "first_less a b i \<longleftrightarrow> (\<exists>j \<ge> i. nth0 a j < nth0 b j \<and> (\<forall>k. i \<le> k \<and> k < j \<longrightarrow> nth0 a k = nth0 b k))"

definition same_from :: "nat list \<Rightarrow> nat list \<Rightarrow> nat \<Rightarrow> bool" where
  "same_from a b i \<longleftrightarrow> (\<forall>k \<ge> i. nth0 a k = nth0 b k)"

lemma first_less_step:
  "first_less a b i \<longleftrightarrow> nth0 a i < nth0 b i \<or> nth0 a i = nth0 b i \<and> first_less a b (Suc i)"
proof
  assume "first_less a b i"
  then obtain j where j: "j \<ge> i" "nth0 a j < nth0 b j" "\<forall>k. i \<le> k \<and> k < j \<longrightarrow> nth0 a k = nth0 b k"
    unfolding first_less_def by blast
  show "nth0 a i < nth0 b i \<or> nth0 a i = nth0 b i \<and> first_less a b (Suc i)"
  proof (cases "j = i")
    case False
    then have "Suc i \<le> j" "nth0 a i = nth0 b i" using j by auto
    then show ?thesis using j unfolding first_less_def by (meson Suc_leD)
  qed (use j in simp)
next
  assume "nth0 a i < nth0 b i \<or> nth0 a i = nth0 b i \<and> first_less a b (Suc i)"
  then show "first_less a b i"
    unfolding first_less_def by (metis Suc_leD Suc_leI le_neq_implies_less not_less order_refl)
qed

lemma same_from_step: "same_from a b i \<longleftrightarrow> nth0 a i = nth0 b i \<and> same_from a b (Suc i)"
  unfolding same_from_def by (metis Suc_leD Suc_leI le_neq_implies_less order_refl)

lemma compare_from_spec:
  "compare_from a b i = (if first_less a b i then -1 else if first_less b a i then 1 else 0) \<and>
   (compare_from a b i = 0 \<longleftrightarrow> same_from a b i)"
proof (induction a b i rule: compare_from.induct)
  case (1 a b i)
  show ?case
  proof (cases "i < length a \<or> i < length b")
    case False
    then have "nth0 a k = nth0 b k" if "i \<le> k" for k using that by (auto simp: nth0_def)
    then have "same_from a b i" "\<not> first_less a b i" "\<not> first_less b a i"
      by (auto simp: same_from_def first_less_def)
    then show ?thesis using False by (simp add: compare_from.simps [of a b i])
  next
    case True
    consider "nth0 a i < nth0 b i" | "nth0 b i < nth0 a i" | "nth0 a i = nth0 b i" by linarith
    then show ?thesis
      using True 1 first_less_step [of a b i] first_less_step [of b a i] same_from_step [of a b i]
      by cases (auto simp: compare_from.simps [of a b i])
  qed
qed

lemma compareVersions_spec:
  "compareVersions a b = (if first_less a b 0 then -1 else if first_less b a 0 then 1 else 0)"
  "compareVersions a b = 0 \<longleftrightarrow> (\<forall>k. nth0 a k = nth0 b k)"
  using compare_from_spec [of a b 0, THEN conjunct1] compare_from_spec [of a b 0, THEN conjunct2]
  unfolding compareVersions_def same_from_def by (blast, simp only: le0 simp_thms)

lemma first_less_trans: "first_less a b 0 \<Longrightarrow> first_less b c 0 \<Longrightarrow> first_less a c 0"
proof -
  assume "first_less a b 0" "first_less b c 0"
  then obtain i j where i: "nth0 a i < nth0 b i" "\<forall>k < i. nth0 a k = nth0 b k"
    and j: "nth0 b j < nth0 c j" "\<forall>k < j. nth0 b k = nth0 c k" unfolding first_less_def by auto
  have "nth0 a (min i j) < nth0 c (min i j) \<and> (\<forall>k < min i j. nth0 a k = nth0 c k)"
    using i j by (cases i j rule: linorder_cases) (auto simp: min_def)
  then show ?thesis unfolding first_less_def by auto
qed

lemma first_less_asym: "first_less a b 0 \<Longrightarrow> \<not> first_less b a 0"
proof
  assume "first_less a b 0" "first_less b a 0"
  then obtain i j where i: "nth0 a i < nth0 b i" "\<forall>k < i. nth0 a k = nth0 b k"
    and j: "nth0 b j < nth0 a j" "\<forall>k < j. nth0 b k = nth0 a k" unfolding first_less_def by auto
  then show False by (cases i j rule: linorder_cases) auto
qed

text \<open>\<open>compareVersions\<close> is a total preorder that ignores trailing zeros.\<close>

lemma compareVersions_antisym: "compareVersions b a = - compareVersions a b"
  using first_less_asym [of a b] by (simp add: compareVersions_spec(1))

lemma compareVersions_trans:
  "compareVersions a b \<le> 0 \<Longrightarrow> compareVersions b c \<le> 0 \<Longrightarrow> compareVersions a c \<le> 0"
proof -
  assume ab: "compareVersions a b \<le> 0" and bc: "compareVersions b c \<le> 0"
  have same: "compareVersions a b = 0 \<Longrightarrow> compareVersions a c = compareVersions b c"
    "compareVersions b c = 0 \<Longrightarrow> compareVersions a c = compareVersions a b" for a b c
    by (simp_all add: compareVersions_spec(2)) (simp_all add: compareVersions_spec(1) first_less_def)
  show ?thesis
  proof (cases "compareVersions a b = 0 \<or> compareVersions b c = 0")
    case True
    then show ?thesis using ab bc same by metis
  next
    case False
    then have "first_less a b 0" "first_less b c 0" using ab bc by (auto simp: compareVersions_spec(1) split: if_splits)
    from first_less_trans [OF this] show ?thesis by (simp add: compareVersions_spec(1))
  qed
qed

lemma trailing_zeros: "compareVersions (a @ replicate n 0) b = compareVersions a b"
proof -
  have "nth0 (a @ replicate n 0) k = nth0 a k" for k by (auto simp: nth0_def nth_append)
  then show ?thesis by (simp add: compareVersions_spec(1) first_less_def)
qed

lemma version_examples:
  "parseVersion ''go1.24.3'' = Some [1, 24, 3]" "parseVersion ''3.24.1-rc2'' = Some [3, 24, 1]" "parseVersion ''devel'' = None"
  by (simp_all add: parseVersion_def digit_char_def Atoi_def nat_of_digits_def)

subsection \<open>Built programs, trusted locations, add-ins (internal/platform)\<close>

definition exeSuffix :: "bool \<Rightarrow> string" where
  "exeSuffix windows = (if windows then ''.exe'' else '''')"

definition ExeName :: "bool \<Rightarrow> string \<Rightarrow> string" where
  "ExeName windows base = (if exeSuffix windows = '''' then base else base @ exeSuffix windows)"

text \<open>\<open>join\<close> is \<open>filepath.Join\<close>, \<open>absolute\<close> \<open>filepath.Abs\<close>.\<close>

fun first_existing :: "(string \<Rightarrow> string option) \<Rightarrow> (string \<Rightarrow> bool) \<Rightarrow> string list \<Rightarrow> string option" where
  "first_existing absolute exists [] = None"
| "first_existing absolute exists (c # cs) =
     (case absolute c of
        None \<Rightarrow> first_existing absolute exists cs
      | Some a \<Rightarrow> if exists a then Some a else first_existing absolute exists cs)"

definition FindBuiltExe ::
  "bool \<Rightarrow> (string list \<Rightarrow> string) \<Rightarrow> (string \<Rightarrow> string option) \<Rightarrow> (string \<Rightarrow> bool) \<Rightarrow> string \<Rightarrow> string \<Rightarrow> string option" where
  "FindBuiltExe windows join absolute exists buildDir name =
     (let exe = ExeName windows name
      in first_existing absolute exists
           [join [buildDir, exe], join [buildDir, ''Release'', exe], join [buildDir, ''Debug'', exe]])"

definition is_sep :: "char \<Rightarrow> bool" where "is_sep c \<longleftrightarrow> c = CHR 0x5C \<or> c = CHR ''/''"

function trimTrailingSep :: "string \<Rightarrow> string" where
  "trimTrailingSep p = (if length p > 1 \<and> is_sep (last p) then trimTrailingSep (butlast p) else p)"
  by pat_completeness auto
termination
  by (relation "measure length") auto

declare trimTrailingSep.simps [simp del]

text \<open>On Windows, where the separator is the backslash.\<close>

definition pathCoveredByTrustedEntry :: "string \<Rightarrow> bool \<Rightarrow> string \<Rightarrow> bool" where
  "pathCoveredByTrustedEntry entry allowSubfolders dir =
     (if entry = '''' \<or> dir = '''' then False
      else if EqualFold (trimTrailingSep entry) (trimTrailingSep dir) then True
      else if \<not> allowSubfolders then False
      else
        (let sep = [CHR 0x5C];
             prefix = ToLower entry;
             prefix = (if HasSuffix prefix sep then prefix else prefix @ sep)
         in HasPrefix (ToLower dir @ sep) prefix))"

text \<open>A trusted location (\<open>expandEnv\<close> is \<open>os.ExpandEnv\<close>): its path and whether its subfolders are trusted; None for the values that cannot be read.\<close>

type_synonym trusted_entry = "string option \<times> int option"

fun covered_by :: "(string \<Rightarrow> string) \<Rightarrow> (string \<Rightarrow> string option) \<Rightarrow> string \<Rightarrow> trusted_entry list \<Rightarrow> string option" where
  "covered_by expandEnv absolute dir [] = None"
| "covered_by expandEnv absolute dir ((path, allowSub) # rest) =
     (case path of
        None \<Rightarrow> covered_by expandEnv absolute dir rest
      | Some p \<Rightarrow>
          if p = '''' then covered_by expandEnv absolute dir rest
          else (case absolute (expandEnv p) of
                  None \<Rightarrow> covered_by expandEnv absolute dir rest
                | Some entry \<Rightarrow>
                    if pathCoveredByTrustedEntry entry (case allowSub of Some n \<Rightarrow> n \<noteq> 0 | None \<Rightarrow> False) dir then Some p
                    else covered_by expandEnv absolute dir rest))"

fun covered_in :: "(string \<Rightarrow> string) \<Rightarrow> (string \<Rightarrow> string option) \<Rightarrow> (string \<Rightarrow> trusted_entry list option) \<Rightarrow> string \<Rightarrow> string list \<Rightarrow> string option" where
  "covered_in expandEnv absolute registry dir [] = None"
| "covered_in expandEnv absolute registry dir (ver # vers) =
     (case registry ver of
        None \<Rightarrow> covered_in expandEnv absolute registry dir vers
      | Some entries \<Rightarrow>
          (case covered_by expandEnv absolute dir entries of
             Some p \<Rightarrow> Some p
           | None \<Rightarrow> covered_in expandEnv absolute registry dir vers))"

definition excelTrustedLocationFor ::
  "(string \<Rightarrow> string) \<Rightarrow> (string \<Rightarrow> string option) \<Rightarrow> (string \<Rightarrow> trusted_entry list option) \<Rightarrow> string \<Rightarrow> string option" where
  "excelTrustedLocationFor expandEnv absolute registry dir =
     (if TrimSpace dir = '''' then None
      else (case absolute dir of
              None \<Rightarrow> None
            | Some d \<Rightarrow> covered_in expandEnv absolute registry d [''16.0'', ''15.0'', ''14.0'']))"

definition securityAddinMarkers :: "string list" where
  "securityAddinMarkers = [''classif'', ''dlp'', ''informationprotection'', ''infoprotect'', ''datalossprevention'']"

definition MatchesSecurityAddin :: "string \<Rightarrow> bool" where
  "MatchesSecurityAddin ident = list_ex (contains_sub (ToLower ident)) securityAddinMarkers"

text \<open>\<open>detectExcelSecurityAddins\<close>: each hive's label and add-ins (the ProgID and, when it can be read and is not empty, the
  friendly name), None for a hive that cannot be read.\<close>

type_synonym addin = "string \<times> string option"

definition addin_display :: "addin \<Rightarrow> string" where
  "addin_display a = (case snd a of None \<Rightarrow> fst a | Some v \<Rightarrow> v @ '' ['' @ fst a @ '']'')"

definition addin_matches :: "addin \<Rightarrow> bool" where
  "addin_matches a \<longleftrightarrow> MatchesSecurityAddin (fst a) \<or> MatchesSecurityAddin (case snd a of None \<Rightarrow> '''' | Some v \<Rightarrow> v)"

definition scan_addin :: "string \<Rightarrow> (string, string list) gomap \<Rightarrow> addin \<Rightarrow> (string, string list) gomap" where
  "scan_addin label found a =
     (if addin_matches a then
        gm_put (addin_display a) ((case gm_get found (addin_display a) of None \<Rightarrow> [] | Some ls \<Rightarrow> ls) @ [label]) found
      else found)"

definition scan_hive :: "(string, string list) gomap \<Rightarrow> string \<times> addin list option \<Rightarrow> (string, string list) gomap" where
  "scan_hive found h = (case snd h of None \<Rightarrow> found | Some addins \<Rightarrow> foldl (scan_addin (fst h)) found addins)"

definition detectExcelSecurityAddins :: "(string \<times> addin list option) list \<Rightarrow> string list" where
  "detectExcelSecurityAddins hives =
     sort (map (\<lambda>(display, labels). display @ '' ('' @ strings_Join labels '', '' @ '')'') (foldl scan_hive [] hives))"

text \<open>\<open>excelPath\<close>: what the two registry roots hold, the machine's first.\<close>

fun excelPath :: "(string \<Rightarrow> bool) \<Rightarrow> string option list \<Rightarrow> string option" where
  "excelPath exists [] = None"
| "excelPath exists (v # rest) =
     (case v of
        None \<Rightarrow> excelPath exists rest
      | Some p \<Rightarrow> if p = '''' then excelPath exists rest else if exists p then Some p else excelPath exists rest)"

text \<open>\<open>checkExcelTrustedLocation\<close> and \<open>checkExcelSecurityAddins\<close>; None when the check says nothing.\<close>

definition checkExcelTrustedLocation ::
  "bool \<Rightarrow> string option \<Rightarrow> (string \<Rightarrow> string option) \<Rightarrow> (string + unit) option" where
  "checkExcelTrustedLocation windows wd trusted =
     (if \<not> windows then None
      else (case wd of
              None \<Rightarrow> None
            | Some d \<Rightarrow> Some (case trusted d of Some entry \<Rightarrow> Inl entry | None \<Rightarrow> Inr ())))"

definition checkExcelSecurityAddins :: "bool \<Rightarrow> (string \<times> addin list option) list \<Rightarrow> string option option" where
  "checkExcelSecurityAddins windows hives =
     (if \<not> windows then None
      else
        (let detected = detectExcelSecurityAddins hives
         in Some (if detected = [] then None else Some (strings_Join detected ''; ''))))"

text \<open>An add-in that matches in any readable hive is on exactly one line, under the name it is displayed by.\<close>

lemma scan_addin_dom: "gm_dom (scan_addin l m a) = gm_dom m \<union> (if addin_matches a then {addin_display a} else {})"
  by (auto simp: scan_addin_def)

lemma scan_addin_ok: "gm_ok m \<Longrightarrow> gm_ok (scan_addin l m a)"
  by (auto simp: scan_addin_def intro: gm_ok_put)

definition hive_displays :: "string \<times> addin list option \<Rightarrow> string set" where
  "hive_displays h = (case snd h of None \<Rightarrow> {} | Some addins \<Rightarrow> addin_display ` {a \<in> set addins. addin_matches a})"

lemma scan_hive_spec: "gm_ok m \<Longrightarrow> gm_ok (scan_hive m h) \<and> gm_dom (scan_hive m h) = gm_dom m \<union> hive_displays h"
proof -
  have "gm_ok m \<Longrightarrow> gm_ok (foldl (scan_addin l) m as) \<and>
      gm_dom (foldl (scan_addin l) m as) = gm_dom m \<union> addin_display ` {a \<in> set as. addin_matches a}" for l as
  proof (induction as arbitrary: m)
    case (Cons a as)
    from Cons.IH [OF scan_addin_ok [OF Cons.prems]] show ?case unfolding foldl_Cons scan_addin_dom by auto
  qed simp
  then show "gm_ok m \<Longrightarrow> ?thesis" by (simp add: scan_hive_def hive_displays_def split: option.split)
qed

lemma detected_addins:
  "gm_ok m \<Longrightarrow> gm_ok (foldl scan_hive m hives) \<and>
     gm_dom (foldl scan_hive m hives) = gm_dom m \<union> (\<Union>h \<in> set hives. hive_displays h)"
proof (induction hives arbitrary: m)
  case (Cons h hives)
  note h = scan_hive_spec [OF Cons.prems, of h]
  from Cons.IH [OF h [THEN conjunct1]] h [THEN conjunct2] show ?case by (simp add: Un_assoc)
qed simp

lemma none_detected:
  "detectExcelSecurityAddins hives = [] \<longleftrightarrow> (\<forall>h \<in> set hives. \<forall>xs. snd h = Some xs \<longrightarrow> \<not> list_ex addin_matches xs)"
proof -
  have "detectExcelSecurityAddins hives = [] \<longleftrightarrow> foldl scan_hive [] hives = []"
    by (simp add: detectExcelSecurityAddins_def flip: set_empty)
  also have "\<dots> \<longleftrightarrow> gm_dom (foldl scan_hive [] hives) = {}" by simp
  also have "\<dots> \<longleftrightarrow> (\<Union>h \<in> set hives. hive_displays h) = {}" using detected_addins [of "[]" hives] by simp
  finally show ?thesis by (auto simp: hive_displays_def list_ex_iff split: option.splits)
qed

lemma trimTrailingSep_split: "\<exists>seps. p = trimTrailingSep p @ seps \<and> list_all is_sep seps"
proof (induction p rule: trimTrailingSep.induct)
  case (1 p)
  show ?case
  proof (cases "length p > 1 \<and> is_sep (last p)")
    case True
    then obtain seps where "butlast p = trimTrailingSep (butlast p) @ seps" "list_all is_sep seps" using 1 by blast
    moreover have "p = butlast p @ [last p]" using True by (cases p rule: rev_cases) auto
    ultimately have "p = trimTrailingSep (butlast p) @ seps @ [last p]" by (metis append_assoc)
    moreover have "trimTrailingSep p = trimTrailingSep (butlast p)" using True by (simp add: trimTrailingSep.simps [of p])
    moreover have "list_all is_sep (seps @ [last p])" using True \<open>list_all is_sep seps\<close> by simp
    ultimately show ?thesis by metis
  qed (auto simp: trimTrailingSep.simps [of p])
qed

lemma covered_cases:
  assumes "pathCoveredByTrustedEntry entry sub dir"
  shows "EqualFold (trimTrailingSep entry) (trimTrailingSep dir) \<or>
    (sub \<and> (\<exists>below. ToLower dir @ [CHR 0x5C] =
       (if HasSuffix (ToLower entry) [CHR 0x5C] then ToLower entry else ToLower entry @ [CHR 0x5C]) @ below))"
  using assms by (auto simp: pathCoveredByTrustedEntry_def Let_def HasPrefix_iff split: if_splits)

text \<open>A trusted folder covers nothing that only starts like it: below it the path goes on with a separator.\<close>

lemma sibling_not_covered:
  assumes "ToLower dir = ToLower entry @ c # below" "c \<noteq> CHR 0x5C" "\<not> HasSuffix (ToLower entry) [CHR 0x5C]"
    and "\<not> EqualFold (trimTrailingSep entry) (trimTrailingSep dir)"
  shows "\<not> pathCoveredByTrustedEntry entry sub dir"
proof
  assume "pathCoveredByTrustedEntry entry sub dir"
  from covered_cases [OF this] assms obtain rest where
    "ToLower entry @ c # below @ [CHR 0x5C] = ToLower entry @ CHR 0x5C # rest" by auto
  then show False using assms(2) by simp
qed

end
