(* ===== verification/Flatc.thy ===== *)
theory Flatc
  imports Toolchain
begin

section \<open>The FlatBuffers compiler (internal/flatc/flatc.go)\<close>

text \<open>
  Finding flatc, or downloading it into the user's cache. The network, the JSON decoder and the archive reader are
  parameters, and so is what each call into the file system does; the files themselves are a map from paths to contents,
  which the model changes as the code does: a temporary archive, a temporary file for each extracted binary, the rename
  to its place, and every removal on an error path. Every call can fail: opening, copying, changing the mode, renaming, and
  also \<open>os.Remove\<close>, whose error the code ignores, and \<open>os.Stat\<close> of a file that is there. One call runs at a time
  (\<open>flatcMu\<close>); a rename may fail because a binary is in place already, which the code then accepts.
\<close>

subsection \<open>The release asset\<close>

record asset =
  assetName :: string
  BrowserDownloadURL :: string


definition asset_matches :: "string \<Rightarrow> string \<Rightarrow> string \<Rightarrow> bool" where
  "asset_matches osName arch name =
     (if osName = ''windows'' then contains_sub name ''Windows.flatc.binary.zip''
      else if osName = ''linux'' then contains_sub name ''Linux.flatc.binary.g++''
      else if osName = ''darwin'' then
        (if arch = ''amd64'' then contains_sub name ''MacIntel.flatc.binary.zip''
         else contains_sub name ''Mac.flatc.binary.zip'')
      else False)"

text \<open>The URL and name of the asset to download; an empty URL is the error.\<close>

fun select_asset :: "string \<Rightarrow> string \<Rightarrow> asset list \<Rightarrow> string \<times> string" where
  "select_asset osName arch [] = ('''', '''')"
| "select_asset osName arch (a # rest) =
     (if asset_matches osName arch (assetName a) then (BrowserDownloadURL a, assetName a) else select_asset osName arch rest)"

lemma select_asset_found:
  "fst (select_asset osName arch assets) \<noteq> '''' \<Longrightarrow>
     \<exists>a \<in> set assets. select_asset osName arch assets = (BrowserDownloadURL a, assetName a) \<and> asset_matches osName arch (assetName a)"
  by (induction assets) (auto split: if_splits)

subsection \<open>Extraction\<close>











subsection \<open>The download\<close>





subsection \<open>Nothing but whole binaries\<close>





















subsection \<open>Finding or fetching\<close>













end
