(* ===== verification/Bootstrap.thy ===== *)
theory Bootstrap
  imports Go_Strings
begin

section \<open>Starting the server process (pkg/server/bootstrap.go, pkg/log, pkg/pool)\<close>

text \<open>
  How the generated server finds its log, its shared memory and its FlatBuffers builders. The environment, the arguments
  and the file system are parameters; \<open>join\<close> is \<open>filepath.Join\<close> and \<open>dir_of\<close> is \<open>filepath.Dir\<close>. A log file is a value of
  the type variable \<open>'f\<close>, a buffer one of \<open>'b\<close>.
\<close>

subsection \<open>The logger (pkg/log/logger.go)\<close>

datatype level = LevelDebug | LevelInfo | LevelWarn | LevelError

definition parseLevel :: "string \<Rightarrow> level" where
  "parseLevel s =
     (let l = ToLower s
      in if l = ''debug'' then LevelDebug else if l = ''warn'' then LevelWarn else if l = ''error'' then LevelError else LevelInfo)"

text \<open>The package's state, the sink and level of the installed logger, and the handles open in the process.\<close>

record 'f log_state =
  currentFile :: "'f option"
  installed :: "('f option \<times> level) option"
  openFiles :: "'f list"

datatype log_error = LogMkdir string | LogOpen string

definition log_Init ::
  "(string \<Rightarrow> string) \<Rightarrow> (string \<Rightarrow> bool) \<Rightarrow> (string \<Rightarrow> 'f option) \<Rightarrow> string \<Rightarrow> string \<Rightarrow> 'f log_state \<Rightarrow> log_error option \<times> 'f log_state"
where
  "log_Init dir_of mkdir open_file path lvl st =
     (let d = dir_of path
      in if path \<noteq> '''' \<and> d \<noteq> ''.'' \<and> d \<noteq> '''' \<and> \<not> mkdir d then (Some (LogMkdir d), st)
         else
           (let opened = (if path \<noteq> '''' then open_file path else None)
            in if path \<noteq> '''' \<and> opened = None then (Some (LogOpen path), st)
               else
                 (let handles = (case opened of None \<Rightarrow> openFiles st | Some f \<Rightarrow> f # openFiles st);
                      handles = (case currentFile st of None \<Rightarrow> handles | Some f \<Rightarrow> remove1 f handles)
                  in (None, st\<lparr>currentFile := opened, installed := Some (opened, parseLevel lvl), openFiles := handles\<rparr>))))"

text \<open>At most the current file is open, and the logger writes to it.\<close>

definition log_ok :: "'f log_state \<Rightarrow> bool" where
  "log_ok st \<longleftrightarrow> openFiles st = (case currentFile st of None \<Rightarrow> [] | Some f \<Rightarrow> [f]) \<and>
     (case installed st of None \<Rightarrow> currentFile st = None | Some (sink, l) \<Rightarrow> sink = currentFile st)"

lemma log_Init_ok:
  assumes "log_ok st"
  shows "log_ok (snd (log_Init dir_of mkdir open_file path lvl st))"
  using assms by (auto simp: log_ok_def log_Init_def Let_def split: option.splits)

lemma log_Init_failed:
  "fst (log_Init dir_of mkdir open_file path lvl st) \<noteq> None \<Longrightarrow> snd (log_Init dir_of mkdir open_file path lvl st) = st"
  by (auto simp: log_Init_def Let_def)

lemma log_Init_stdout: "log_Init dir_of mkdir open_file '''' lvl st =
    (None, st\<lparr>currentFile := None, installed := Some (None, parseLevel lvl),
       openFiles := (case currentFile st of None \<Rightarrow> openFiles st | Some f \<Rightarrow> remove1 f (openFiles st))\<rparr>)"
  by (simp add: log_Init_def Let_def split: option.split)

text \<open>Any number of initialisations leaves at most one handle open.\<close>

fun log_Inits :: "(string \<Rightarrow> string) \<Rightarrow> (string \<Rightarrow> bool) \<Rightarrow> (string \<Rightarrow> 'f option) \<Rightarrow> (string \<times> string) list \<Rightarrow> 'f log_state \<Rightarrow> 'f log_state" where
  "log_Inits dir_of mkdir open_file [] st = st"
| "log_Inits dir_of mkdir open_file ((path, lvl) # rest) st =
     log_Inits dir_of mkdir open_file rest (snd (log_Init dir_of mkdir open_file path lvl st))"

lemma log_one_handle: "log_ok st \<Longrightarrow> length (openFiles (log_Inits dir_of mkdir open_file calls st)) \<le> 1"
proof (induction calls arbitrary: st)
  case Nil
  then show ?case by (auto simp: log_ok_def split: option.splits)
next
  case (Cons c calls)
  obtain path lvl where "c = (path, lvl)" by (cases c)
  then show ?case using Cons.IH [OF log_Init_ok [OF Cons.prems]] by simp
qed

subsection \<open>Placeholders\<close>

definition word_char :: "char \<Rightarrow> bool" where
  "word_char c \<longleftrightarrow> (48 \<le> byte c \<and> byte c \<le> 57) \<or> (65 \<le> byte c \<and> byte c \<le> 90) \<or> (97 \<le> byte c \<and> byte c \<le> 122) \<or> byte c = 95"

text \<open>The name in a placeholder at the start of \<open>s\<close>, as \<open>envPlaceholderRe\<close> matches it, and what follows.\<close>

definition placeholder :: "string \<Rightarrow> (string \<times> string) option" where
  "placeholder s =
     (if take 2 s = ''${'' then
        (let name = takeWhile word_char (drop 2 s); rest = dropWhile word_char (drop 2 s)
         in if name \<noteq> '''' \<and> take 1 rest = [CHR 0x7D] then Some (name, drop 1 rest) else None)
      else None)"

lemma placeholder_less: "placeholder s = Some (n, r) \<Longrightarrow> length r < length s"
  using length_dropWhile_le [of word_char "drop 2 s"]
  by (cases s) (auto simp: placeholder_def Let_def split: if_splits)

function expand_env :: "(string \<Rightarrow> string) \<Rightarrow> string \<Rightarrow> string" where
  "expand_env getenv s =
     (if s = '''' then ''''
      else (case placeholder s of
              Some (name, rest) \<Rightarrow> getenv name @ expand_env getenv rest
            | None \<Rightarrow> hd s # expand_env getenv (tl s)))"
  by pat_completeness auto
termination
  by (relation "measure (\<lambda>(g, s). length s)") (auto dest: placeholder_less)

declare expand_env.simps [simp del]

definition log_dir :: "(string \<Rightarrow> string) \<Rightarrow> string \<Rightarrow> string \<Rightarrow> string" where
  "log_dir getenv binDir logDir =
     (let d = ReplaceAll logDir ''${XLL_DIR}'' (getenv ''XLL_DIR'');
          d = ReplaceAll d ''${BIN_DIR}'' binDir;
          d = expand_env getenv d
      in if d = '''' then ''.'' else d)"

definition InitLog ::
  "(string \<Rightarrow> string) \<Rightarrow> (string \<Rightarrow> string) \<Rightarrow> (string list \<Rightarrow> string) \<Rightarrow> (string \<Rightarrow> bool) \<Rightarrow> (string \<Rightarrow> 'f option) \<Rightarrow> string \<Rightarrow>
     string \<Rightarrow> string \<Rightarrow> string \<Rightarrow> 'f log_state \<Rightarrow> (log_error + string) \<times> 'f log_state"
where
  "InitLog getenv dir_of join mkdir open_file exePath logDir lvl projectName st =
     (let logPath = join [log_dir getenv (dir_of exePath) logDir, projectName @ ''_go.log'']
      in case log_Init dir_of mkdir open_file logPath lvl st of
           (Some e, st') \<Rightarrow> (Inl e, st')
         | (None, st') \<Rightarrow> (Inr logPath, st'))"

definition StdoutLogEnvVar :: string where "StdoutLogEnvVar = ''XLL_LOG_TO_STDOUT''"

definition InitServerLogging ::
  "(string \<Rightarrow> string) \<Rightarrow> (string \<Rightarrow> string) \<Rightarrow> (string list \<Rightarrow> string) \<Rightarrow> (string \<Rightarrow> bool) \<Rightarrow> (string \<Rightarrow> 'f option) \<Rightarrow> string \<Rightarrow>
     string \<Rightarrow> string \<Rightarrow> string \<Rightarrow> 'f log_state \<Rightarrow> 'f log_state"
where
  "InitServerLogging getenv dir_of join mkdir open_file exePath logDir lvl projectName st =
     (if getenv StdoutLogEnvVar = ''1'' then snd (log_Init dir_of mkdir open_file '''' lvl st)
      else snd (InitLog getenv dir_of join mkdir open_file exePath logDir lvl projectName st))"

text \<open>Launched by the XLL the server opens no log file of its own; otherwise it opens exactly its own or keeps what it had.\<close>

lemma launched_opens_nothing:
  "log_ok st \<Longrightarrow> getenv StdoutLogEnvVar = ''1'' \<Longrightarrow>
     openFiles (InitServerLogging getenv dir_of join mkdir open_file exePath logDir lvl projectName st) = []"
  by (auto simp: InitServerLogging_def log_Init_stdout log_ok_def split: option.splits)

lemma InitServerLogging_ok:
  "log_ok st \<Longrightarrow> log_ok (InitServerLogging getenv dir_of join mkdir open_file exePath logDir lvl projectName st)"
  using log_Init_ok [of st] by (auto simp: InitServerLogging_def InitLog_def Let_def split: prod.splits option.splits)
    (metis snd_conv)+

text \<open>Expansion in one pass: a value that looks like a placeholder is not expanded again.\<close>

lemma expand_env_simps:
  "expand_env g '''' = ''''"
  "placeholder (c # s) = None \<Longrightarrow> expand_env g (c # s) = c # expand_env g s"
  "placeholder (c # s) = Some (n, r) \<Longrightarrow> expand_env g (c # s) = g n @ expand_env g r"
  by (subst expand_env.simps; simp)+

lemma no_placeholder: "CHR ''$'' \<notin> set s \<Longrightarrow> expand_env g s = s"
proof (induction s)
  case (Cons c s)
  then have "placeholder (c # s) = None" by (auto simp: placeholder_def)
  then show ?case using Cons by (simp add: expand_env_simps)
qed (simp add: expand_env_simps)

lemma placeholder_start:
  assumes "n \<noteq> ''''" "list_all word_char n"
  shows "placeholder (''${'' @ n @ CHR 0x7D # r) = Some (n, r)"
proof -
  have "takeWhile word_char (n @ CHR 0x7D # r) = n" "dropWhile word_char (n @ CHR 0x7D # r) = CHR 0x7D # r"
    using assms(2) by (auto simp: list_all_iff word_char_def takeWhile_append dropWhile_append)
  then show ?thesis using assms(1) by (simp add: placeholder_def)
qed

lemma expand_env_value:
  assumes "n \<noteq> ''''" "list_all word_char n" "CHR ''$'' \<notin> set pre"
  shows "expand_env g (pre @ ''${'' @ n @ CHR 0x7D # r) = pre @ g n @ expand_env g r"
  using assms(3)
proof (induction pre)
  case Nil
  show ?case using expand_env_simps(3) [of _ _ n r g] placeholder_start [OF assms(1,2), of r] by simp
next
  case (Cons c pre)
  then have "placeholder (c # pre @ ''${'' @ n @ CHR 0x7D # r) = None" by (auto simp: placeholder_def)
  then show ?case using Cons by (simp add: expand_env_simps)
qed

subsection \<open>The shared-memory name\<close>

fun resolve_from :: "string \<Rightarrow> string list \<Rightarrow> string" where
  "resolve_from name [] = name"
| "resolve_from name (arg # args) =
     (if HasPrefix arg ''-xll-shm='' then resolve_from (TrimPrefix arg ''-xll-shm='') args else resolve_from name args)"

definition ResolveSHMName :: "string list \<Rightarrow> string \<Rightarrow> string" where
  "ResolveSHMName args projectName = resolve_from projectName args"

lemma resolve_from_spec:
  "resolve_from name args =
     (let fs = filter (\<lambda>a. HasPrefix a ''-xll-shm='') args in if fs = [] then name else drop 9 (last fs))"
proof (induction args arbitrary: name)
  case (Cons a args)
  then show ?case by (simp add: TrimPrefix_def Let_def eval_nat_numeral)
qed simp

text \<open>The last flag of that name wins, whatever else is on the command line.\<close>

lemma ResolveSHMName_last:
  assumes "filter (\<lambda>a. HasPrefix a ''-xll-shm='') after = []"
  shows "ResolveSHMName (before @ (''-xll-shm='' @ n) # after) projectName = n"
proof -
  let ?f = "''-xll-shm='' @ n"
  have "filter (\<lambda>a. HasPrefix a ''-xll-shm='') (before @ ?f # after) = filter (\<lambda>a. HasPrefix a ''-xll-shm='') before @ [?f]"
    using assms HasPrefix_append [of "''-xll-shm=''" n] by (simp del: append.simps)
  then show ?thesis by (simp add: ResolveSHMName_def resolve_from_spec Let_def)
qed

subsection \<open>Builders (pkg/pool/builder.go)\<close>

text \<open>A builder's buffer, None when it is nil, and whether it has been reset since it was taken.\<close>

record 'b builder =
  Bytes :: "'b option"
  dirty :: bool

definition new_builder :: "'b \<Rightarrow> 'b builder" where
  "new_builder own = \<lparr>Bytes = Some own, dirty = False\<rparr>"

definition GetBuilder :: "'b builder \<Rightarrow> 'b option \<Rightarrow> 'b builder" where
  "GetBuilder b buf = (b\<lparr>Bytes := (case buf of Some s \<Rightarrow> Some s | None \<Rightarrow> Bytes b)\<rparr>)\<lparr>dirty := False\<rparr>"

definition PutBuilder :: "'b builder \<Rightarrow> 'b builder list \<Rightarrow> 'b builder list" where
  "PutBuilder b pool = b\<lparr>Bytes := None\<rparr> # pool"

text \<open>The pool and the builders in use. \<open>sync.Pool\<close> may hand out any of its builders or a new one with a buffer of its own,
  and may drop builders; a builder in use may take a larger buffer of its own.\<close>

inductive pool_step :: "'b set \<Rightarrow> 'b builder list \<times> 'b builder list \<Rightarrow> 'b builder list \<times> 'b builder list \<Rightarrow> bool"
  for own :: "'b set" where
  get_pooled: "pool = p1 @ b # p2 \<Longrightarrow> pool_step own (pool, used) (p1 @ p2, GetBuilder b buf # used)"
| get_new: "n \<in> own \<Longrightarrow> pool_step own (pool, used) (pool, GetBuilder (new_builder n) buf # used)"
| grow: "n \<in> own \<Longrightarrow> used = u1 @ b # u2 \<Longrightarrow> pool_step own (pool, used) (pool, u1 @ b\<lparr>Bytes := Some n, dirty := True\<rparr> # u2)"
| put: "used = u1 @ b # u2 \<Longrightarrow> pool_step own (pool, used) (PutBuilder b pool, u1 @ u2)"
| drop: "pool = p1 @ b # p2 \<Longrightarrow> pool_step own (pool, used) (p1 @ p2, used)"

inductive_cases pool_stepE: "pool_step own s t"

definition pool_clean :: "'b builder list \<times> 'b builder list \<Rightarrow> bool" where
  "pool_clean s \<longleftrightarrow> list_all (\<lambda>b. Bytes b = None) (fst s)"

lemma pool_step_clean: "pool_step own s t \<Longrightarrow> pool_clean s \<Longrightarrow> pool_clean t"
  by (erule pool_stepE) (auto simp: pool_clean_def PutBuilder_def)

text \<open>No builder in the pool keeps a buffer, so none of the shared memory is reached through it later; a builder taken from
  the pool has the buffer it was given, or none.\<close>

lemma pool_never_aliases: "(pool_step own)\<^sup>*\<^sup>* ([], []) s \<Longrightarrow> pool_clean s"
  by (induction rule: rtranclp_induct) (auto simp: pool_clean_def dest: pool_step_clean [unfolded pool_clean_def])

lemma pooled_builder_buffer: "pool_clean (p1 @ b # p2, used) \<Longrightarrow> Bytes (GetBuilder b buf) = buf"
  by (auto simp: pool_clean_def GetBuilder_def split: option.split)

end
