(* ===== verification/Generator_Files.thy ===== *)
theory Generator_Files
  imports Prelude "HOL-Library.Sublist"
begin

section \<open>Steps on a file system\<close>

text \<open>
  The generator is a sequence of steps on files, the first error ending it. A path is the list of its components, a tree the
  contents of the regular files; directories are not tracked, making one only succeeds or fails. What the operating system
  does is a parameter: each write is complete, or fails before the file is opened, or after it was truncated and some
  bytes were written; a removal that fails leaves some files.
\<close>

type_synonym path = "string list"
type_synonym tree = "path \<rightharpoonup> string"
type_synonym 'e step = "tree \<Rightarrow> 'e option \<times> tree"

datatype write_outcome = Written | NotOpened | Cut nat

record file_system =
  mkdirOk :: "path \<Rightarrow> bool"
  removeOk :: "path \<Rightarrow> bool"
  remains :: "path \<Rightarrow> bool"
  onWrite :: "path \<Rightarrow> string \<Rightarrow> write_outcome"
  readOk :: "path \<Rightarrow> bool"

text \<open>\<open>os.MkdirAll\<close>, \<open>os.RemoveAll\<close>, \<open>os.WriteFile\<close>.\<close>

definition MkdirAll :: "file_system \<Rightarrow> 'e \<Rightarrow> path \<Rightarrow> 'e step" where
  "MkdirAll os e p t = (if mkdirOk os p then None else Some e, t)"

definition RemoveAll :: "file_system \<Rightarrow> 'e \<Rightarrow> path \<Rightarrow> 'e step" where
  "RemoveAll os e p t =
     (if removeOk os p then None else Some e,
      \<lambda>q. if prefix p q \<and> (removeOk os p \<or> \<not> remains os q) then None else t q)"

definition WriteFile :: "file_system \<Rightarrow> 'e \<Rightarrow> path \<Rightarrow> string \<Rightarrow> 'e step" where
  "WriteFile os e p s t =
     (case onWrite os p s of
        Written \<Rightarrow> (None, t(p \<mapsto> s))
      | NotOpened \<Rightarrow> (Some e, t)
      | Cut n \<Rightarrow> (Some e, t(p \<mapsto> take n s)))"

definition fails :: "'e \<Rightarrow> 'e step" where "fails e t = (Some e, t)"
definition skip :: "'e step" where "skip t = (None, t)"

text \<open>One after the other, up to the first error.\<close>

fun run_steps :: "'e step list \<Rightarrow> 'e step" where
  "run_steps [] t = (None, t)"
| "run_steps (s # ss) t = (case s t of (Some e, t') \<Rightarrow> (Some e, t') | (None, t') \<Rightarrow> run_steps ss t')"

lemma run_steps_append:
  "run_steps (xs @ ys) t = (case run_steps xs t of (Some e, t') \<Rightarrow> (Some e, t') | (None, t') \<Rightarrow> run_steps ys t')"
  by (induction xs arbitrary: t) (auto split: prod.splits option.splits)

lemma run_steps_None:
  "run_steps (xs @ s # ys) t = (None, t') \<longleftrightarrow> (\<exists>t1 t2. run_steps xs t = (None, t1) \<and> s t1 = (None, t2) \<and> run_steps ys t2 = (None, t'))"
  by (auto simp: run_steps_append split: prod.splits option.splits)

subsection \<open>Footprints\<close>

text \<open>A step that changes only paths of \<open>X\<close>, whether or not it succeeds.\<close>

definition confined :: "(path \<Rightarrow> bool) \<Rightarrow> 'e step \<Rightarrow> bool" where
  "confined X s \<longleftrightarrow> (\<forall>t p. \<not> X p \<longrightarrow> snd (s t) p = t p)"

named_theorems footprint

lemma confinedD: "confined X s \<Longrightarrow> \<not> X p \<Longrightarrow> snd (s t) p = t p"
  by (simp add: confined_def)

lemma confined_mono: "confined X s \<Longrightarrow> (\<And>p. X p \<Longrightarrow> Y p) \<Longrightarrow> confined Y s"
  by (auto simp: confined_def)

lemma confined_skip [footprint]: "confined X skip" by (simp add: confined_def skip_def)
lemma confined_fails [footprint]: "confined X (fails e)" by (simp add: confined_def fails_def)
lemma confined_MkdirAll [footprint]: "confined X (MkdirAll os e p)" by (simp add: confined_def MkdirAll_def)

lemma confined_RemoveAll [footprint]: "(\<And>q. prefix p q \<Longrightarrow> X q) \<Longrightarrow> confined X (RemoveAll os e p)"
  by (auto simp: confined_def RemoveAll_def)

lemma confined_WriteFile [footprint]: "X p \<Longrightarrow> confined X (WriteFile os e p s)"
  by (auto simp: confined_def WriteFile_def split: write_outcome.split)

lemma confined_run_steps [footprint]: "list_all (confined X) ss \<Longrightarrow> confined X (run_steps ss)"
proof (induction ss)
  case (Cons s ss)
  then have "confined X s" "confined X (run_steps ss)" by auto
  then show ?case unfolding confined_def by (auto split: prod.split option.split) (metis snd_conv)+
qed (simp add: confined_def)

lemma confined_if [footprint]: "(b \<Longrightarrow> confined X s) \<Longrightarrow> (\<not> b \<Longrightarrow> confined X s') \<Longrightarrow> confined X (if b then s else s')"
  by simp

subsection \<open>Invariants of trees\<close>

text \<open>A condition on trees that a step keeps, whether or not it succeeds.\<close>

definition keeps :: "(tree \<Rightarrow> bool) \<Rightarrow> 'e step \<Rightarrow> bool" where
  "keeps I s \<longleftrightarrow> (\<forall>t. I t \<longrightarrow> I (snd (s t)))"

lemma keepsD: "keeps I s \<Longrightarrow> I t \<Longrightarrow> s t = (r, t') \<Longrightarrow> I t'"
  unfolding keeps_def by (metis snd_conv)

lemma keeps_run_steps: "list_all (keeps I) ss \<Longrightarrow> keeps I (run_steps ss)"
proof (induction ss)
  case (Cons s ss)
  then have "keeps I s" "keeps I (run_steps ss)" by auto
  then show ?case unfolding keeps_def by (auto split: prod.split option.split)
qed (simp add: keeps_def)

text \<open>Nothing at the paths of \<open>B\<close>; a given content at one path.\<close>

definition absent :: "(path \<Rightarrow> bool) \<Rightarrow> tree \<Rightarrow> bool" where
  "absent B t \<longleftrightarrow> (\<forall>p. B p \<longrightarrow> t p = None)"

definition holds_at :: "path \<Rightarrow> string \<Rightarrow> tree \<Rightarrow> bool" where
  "holds_at p s t \<longleftrightarrow> t p = Some s"

lemma keeps_absent: "confined X s \<Longrightarrow> (\<And>p. X p \<Longrightarrow> \<not> B p) \<Longrightarrow> keeps (absent B) s"
  unfolding keeps_def absent_def confined_def by metis

lemma keeps_holds_at: "confined X s \<Longrightarrow> \<not> X p \<Longrightarrow> keeps (holds_at p c) s"
  unfolding keeps_def holds_at_def confined_def by metis

lemma RemoveAll_absent: "RemoveAll os e p t = (None, t') \<Longrightarrow> absent (prefix p) t'"
  by (auto simp: RemoveAll_def absent_def split: if_splits)

lemma WriteFile_None: "WriteFile os e p s t = (None, t') \<longleftrightarrow> onWrite os p s = Written \<and> t' = t(p \<mapsto> s)"
  by (auto simp: WriteFile_def split: write_outcome.split)

end
