(* ===== verification/Generator_Text.thy ===== *)
theory Generator_Text
  imports Ribbon_Xml
begin

section \<open>Texts the generator rewrites or writes itself (internal/generator)\<close>

text \<open>
  What \<open>Generate\<close> does to text without a template: the imports in the Go files of flatc (\<open>fixGoImports\<close>), the include in
  its C++ header (\<open>fixCppImports\<close>), the module name read from go.mod, and, read back as the C++ compiler would, the image
  bytes of \<open>ribbon_images.h\<close>.
\<close>

subsection \<open>Imports (dependencies.go)\<close>

definition protocolPkg :: string where "protocolPkg = ''github.com/xll-gen/types/go/protocol''"

definition quoted :: "string \<Rightarrow> string" where "quoted s = CHR 0x22 # s @ [CHR 0x22]"

text \<open>The classes of the regular expression: its white space, and letters and digits of an identifier, which \<open>\p{L}\<close> and
  \<open>\p{N}\<close> extend to other scripts; flatc writes ASCII.\<close>

definition re_space :: "char \<Rightarrow> bool" where "re_space c \<longleftrightarrow> byte c \<in> {9, 10, 12, 13, 32}"

definition alias_start :: "char \<Rightarrow> bool" where
  "alias_start c \<longleftrightarrow> (65 \<le> byte c \<and> byte c \<le> 90) \<or> (97 \<le> byte c \<and> byte c \<le> 122) \<or> byte c = 95"

definition alias_char :: "char \<Rightarrow> bool" where
  "alias_char c \<longleftrightarrow> alias_start c \<or> (48 \<le> byte c \<and> byte c \<le> 57)"

text \<open>An alias with the white space behind it, and what follows; empty when there is none.\<close>

definition take_alias :: "string \<Rightarrow> string \<times> string" where
  "take_alias s =
     (let name = takeWhile alias_char s; after = dropWhile alias_char s; space = takeWhile re_space after
      in if s \<noteq> '''' \<and> alias_start (hd s) \<and> space \<noteq> '''' then (name @ space, dropWhile re_space after) else ('''', s))"

text \<open>\<open>importRe\<close> at the start of a line: groups 1 and 2, and what follows the match. No character can be in two neighbouring
  parts of the expression, so the longest choice of each part is the only one that can match.\<close>

definition match_import :: "string \<Rightarrow> string \<Rightarrow> (string \<times> string) option" where
  "match_import goModPath s =
     (let space = takeWhile re_space s; (alias, rest) = take_alias (dropWhile re_space s);
          here = quoted ''protocol''; there = quoted (goModPath @ ''/protocol'')
      in if HasPrefix rest here then Some (space @ alias, drop (length here) rest)
         else if HasPrefix rest there then Some (space @ alias, drop (length there) rest)
         else None)"

lemma take_alias_split: "take_alias s = (a, r) \<Longrightarrow> s = a @ r"
  by (auto simp: take_alias_def Let_def split: if_splits)

lemma match_import_split:
  "match_import m s = Some (g, r) \<Longrightarrow> s = g @ quoted ''protocol'' @ r \<or> s = g @ quoted (m @ ''/protocol'') @ r"
proof -
  assume m: "match_import m s = Some (g, r)"
  obtain al rest where t: "take_alias (dropWhile re_space s) = (al, rest)" by (cases "take_alias (dropWhile re_space s)")
  have s: "s = takeWhile re_space s @ al @ rest" using take_alias_split [OF t] by (metis takeWhile_dropWhile_id)
  have "g = takeWhile re_space s @ al \<and> (rest = quoted ''protocol'' @ r \<or> rest = quoted (m @ ''/protocol'') @ r)"
    using m t unfolding match_import_def Let_def by (auto simp: HasPrefix_iff split: if_splits)
  then show ?thesis using s by (metis append_assoc)
qed

lemma match_import_less: "match_import m s = Some (g, r) \<Longrightarrow> length r < length s"
  using match_import_split [of m s g r] by (auto simp: quoted_def)

text \<open>\<open>ReplaceAllString\<close>: from left to right, at line starts.\<close>

function rewrite_imports :: "string \<Rightarrow> bool \<Rightarrow> string \<Rightarrow> string" where
  "rewrite_imports goModPath lineStart s =
     (if s = '''' then ''''
      else
        (case (if lineStart then match_import goModPath s else None) of
           Some (groups, rest) \<Rightarrow> groups @ quoted protocolPkg @ rewrite_imports goModPath False rest
         | None \<Rightarrow> hd s # rewrite_imports goModPath (hd s = CHR 0x0A) (tl s)))"
  by pat_completeness auto
termination
  by (relation "measure (\<lambda>(m, b, s). length s)") (auto dest: match_import_less split: if_splits)

declare rewrite_imports.simps [simp del]

lemma rewrite_imports_simps:
  "rewrite_imports m b '''' = ''''"
  "rewrite_imports m False (c # s) = c # rewrite_imports m (c = CHR 0x0A) s"
  "match_import m (c # s) = None \<Longrightarrow> rewrite_imports m True (c # s) = c # rewrite_imports m (c = CHR 0x0A) s"
  "match_import m (c # s) = Some (g, r) \<Longrightarrow> rewrite_imports m True (c # s) = g @ quoted protocolPkg @ rewrite_imports m False r"
  by (subst rewrite_imports.simps; simp)+

text \<open>Nothing else is touched: a text in which no import path ends in \<open>protocol\<close> stays as it is.\<close>

lemma rewrite_imports_absent:
  assumes "\<not> contains_sub s (''protocol'' @ [CHR 0x22])"
  shows "rewrite_imports m b s = s"
  using assms
proof (induction s arbitrary: b)
  case (Cons c s)
  have "match_import m (c # s) = None"
  proof (cases "match_import m (c # s)")
    case (Some gr)
    obtain g r where gr: "gr = (g, r)" by (cases gr)
    from match_import_split [OF Some [unfolded gr]] have "\<exists>a. c # s = a @ (''protocol'' @ [CHR 0x22]) @ r"
      by (elim disjE) (rule exI [of _ "g @ [CHR 0x22]"], simp add: quoted_def,
        rule exI [of _ "g @ CHR 0x22 # m @ ''/''"], simp add: quoted_def)
    then show ?thesis using Cons.prems unfolding contains_sub_iff by blast
  qed
  moreover have "\<not> contains_sub s (''protocol'' @ [CHR 0x22])" using Cons.prems by simp
  ultimately show ?case using Cons.IH by (cases b) (simp_all add: rewrite_imports_simps)
qed (simp add: rewrite_imports_simps)

lemma while_space: "list_all re_space ws \<Longrightarrow> s = '''' \<or> \<not> re_space (hd s) \<Longrightarrow> takeWhile re_space (ws @ s) = ws \<and> dropWhile re_space (ws @ s) = s"
  by (induction ws) (cases s; simp)+

lemma alias_not_space: "alias_char c \<Longrightarrow> \<not> re_space c"
  by (auto simp: alias_char_def alias_start_def re_space_def)

lemma while_alias: "list_all alias_char a \<Longrightarrow> s = '''' \<or> \<not> alias_char (hd s) \<Longrightarrow> takeWhile alias_char (a @ s) = a \<and> dropWhile alias_char (a @ s) = s"
  by (induction a) (cases s; simp)+

lemma quote_classes: "\<not> re_space CHR 0x22" "\<not> alias_char CHR 0x22" "\<not> alias_start CHR 0x22"
  by (simp_all add: re_space_def alias_char_def alias_start_def)

text \<open>An import of either path, with or without an alias, names the pinned package afterwards and keeps its alias.\<close>

lemma match_import_found:
  assumes ws: "list_all re_space ws"
    and named: "alias = '''' \<or> (\<exists>a sp. alias = a @ sp \<and> a \<noteq> '''' \<and> alias_start (hd a) \<and> list_all alias_char a \<and> sp \<noteq> '''' \<and> list_all re_space sp)"
    and path: "p = ''protocol'' \<or> p = m @ ''/protocol''" and m: "CHR 0x22 \<notin> set m"
  shows "match_import m (ws @ alias @ quoted p @ rest) = Some (ws @ alias, rest)"
proof -
  have q: "hd (quoted p @ rest) = CHR 0x22" "quoted p @ rest \<noteq> ''''" by (simp_all add: quoted_def)
  have al: "take_alias (alias @ quoted p @ rest) = (alias, quoted p @ rest)"
  proof (cases "alias = ''''")
    case True
    then show ?thesis using q quote_classes(3) by (simp add: take_alias_def Let_def)
  next
    case False
    then obtain a sp where a: "alias = a @ sp" "a \<noteq> ''''" "alias_start (hd a)" "list_all alias_char a" "sp \<noteq> ''''" "list_all re_space sp"
      using named by blast
    have "\<not> alias_char (hd (sp @ quoted p @ rest))" using a(5,6) alias_not_space by (cases sp) auto
    then show ?thesis using while_alias [OF a(4), of "sp @ quoted p @ rest"] while_space [OF a(6), of "quoted p @ rest"] q quote_classes(1) a
      by (simp add: take_alias_def Let_def)
  qed
  have "\<not> re_space (hd (alias @ quoted p @ rest))"
  proof (cases "alias = ''''")
    case False
    then show ?thesis using named alias_not_space by (auto simp: alias_char_def)
  qed (use q quote_classes(1) in simp)
  then have "takeWhile re_space (ws @ alias @ quoted p @ rest) = ws" "dropWhile re_space (ws @ alias @ quoted p @ rest) = alias @ quoted p @ rest"
    using while_space [OF ws] by auto
  moreover have "\<not> HasPrefix (quoted (m @ ''/protocol'') @ rest) (quoted ''protocol'')"
  proof
    assume "HasPrefix (quoted (m @ ''/protocol'') @ rest) (quoted ''protocol'')"
    then obtain t where "(m @ ''/protocol'') @ CHR 0x22 # rest = ''protocol'' @ CHR 0x22 # t" by (auto simp: HasPrefix_iff quoted_def)
    then have "takeWhile (\<lambda>c. c \<noteq> CHR 0x22) ((m @ ''/protocol'') @ CHR 0x22 # rest) = takeWhile (\<lambda>c. c \<noteq> CHR 0x22) (''protocol'' @ CHR 0x22 # t)"
      by simp
    moreover have "takeWhile (\<lambda>c. c \<noteq> CHR 0x22) ((m @ ''/protocol'') @ CHR 0x22 # rest) = m @ ''/protocol''"
      using m by (subst takeWhile_append2) auto
    ultimately have "length (m @ ''/protocol'') = length ''protocol''" by simp
    then show False by simp
  qed
  ultimately show ?thesis using path al by (auto simp: match_import_def Let_def)
qed

text \<open>The C++ header: the one include that moves to the types library.\<close>

definition fix_include :: "string \<Rightarrow> string" where
  "fix_include s =
     ReplaceAll s (''#include '' @ quoted ''protocol_generated.h'') (''#include '' @ quoted ''types/protocol_generated.h'')"

lemma fix_include_at:
  "fix_include ((''#include '' @ quoted ''protocol_generated.h'') @ s) =
     (''#include '' @ quoted ''types/protocol_generated.h'') @ fix_include s"
  unfolding fix_include_def by (rule ReplaceAll_at) simp

subsection \<open>The module (cmd/generate.go)\<close>

fun module_line :: "string list \<Rightarrow> string option" where
  "module_line [] = None"
| "module_line (line # rest) =
     (if HasPrefix line ''module '' then Some (TrimSpace (TrimPrefix line ''module '')) else module_line rest)"

text \<open>\<open>getModuleName\<close> on the content of go.mod, None when it cannot be read.\<close>

definition getModuleName :: "string option \<Rightarrow> string option" where
  "getModuleName goMod = (case goMod of None \<Rightarrow> None | Some text \<Rightarrow> module_line (Split CHR 0x0A text))"

lemma module_line_first:
  "\<not> list_ex (\<lambda>l. HasPrefix l ''module '') before \<Longrightarrow> module_line (before @ (''module '' @ n) # after) = Some (TrimSpace n)"
proof (induction before)
  case Nil
  show ?case using HasPrefix_append [of "''module ''" n] by (simp add: TrimPrefix_def)
qed simp

text \<open>A comment that go.mod allows behind the module path becomes part of the name.\<close>

lemma TrimSpace_trimmed:
  assumes "\<forall>c \<in> set s. byte c < 128" "s \<noteq> ''''" "\<not> IsSpace (byte (hd s))" "\<not> IsSpace (byte (last s))"
  shows "TrimSpace s = s"
proof -
  have r: "runes s = map (\<lambda>c. ([c], byte c)) s" using assms(1) by (induction s) auto
  have "dropWhile (IsSpace \<circ> snd) (runes s) = runes s" using assms(2,3) unfolding r by (cases s) auto
  moreover have "dropWhile (IsSpace \<circ> snd) (rev (runes s)) = rev (runes s)"
    using assms(2,4) unfolding r by (cases s rule: rev_cases) auto
  moreover have "concat (map fst (runes s)) = s" unfolding r by (induction s) auto
  ultimately show ?thesis by (simp add: TrimSpace_def)
qed

lemma module_comment_kept: "getModuleName (Some ''module m // main'') = Some ''m // main''"
proof -
  have "TrimSpace ''m // main'' = ''m // main''" by (rule TrimSpace_trimmed) (simp_all add: IsSpace_def)
  then show ?thesis by (simp add: getModuleName_def HasPrefix_def TrimPrefix_def)
qed

subsection \<open>Image bytes (gen_cpp.go)\<close>

text \<open>The initializer of an array of bytes as the C++ compiler reads it, up to its closing brace.\<close>

definition init_space :: "char \<Rightarrow> bool" where "init_space c \<longleftrightarrow> c = CHR '' '' \<or> c = CHR 0x0A"

definition hex_byte :: "char \<Rightarrow> bool" where "hex_byte c = is_hex (byte c)"

function read_init :: "string \<Rightarrow> (string \<times> string) option" where
  "read_init s =
     (let t = dropWhile init_space s; u = drop 2 t; digits = takeWhile hex_byte u; rest = dropWhile hex_byte u
      in if take 1 t = [CHR 0x7D] then Some ('''', drop 1 t)
         else if take 2 t = ''0x'' \<and> digits \<noteq> '''' \<and> take 1 rest = '','' then
           (case read_init (drop 1 rest) of
              None \<Rightarrow> None
            | Some (bytes, after) \<Rightarrow> Some (char_of (hex_value (map byte digits)) # bytes, after))
         else None)"
  by pat_completeness auto
termination
proof (relation "measure length", simp, goal_cases)
  case (1 s t u digits rest)
  have "length rest \<le> length u" "length t \<le> length s" unfolding 1(2,4) 1(1) by (rule length_dropWhile_le)+
  moreover have "length u < length t" using 1(2,6) by (cases t) auto
  moreover have "rest \<noteq> ''''" using 1(6) by auto
  ultimately show ?case by (cases rest) auto
qed

declare read_init.simps [simp del]

lemma read_init_end: "read_init (nl @ CHR 0x7D # t) = Some ('''', t)"
  by (subst read_init.simps) (simp add: init_space_def nl_def Let_def)

lemma read_init_byte:
  assumes "list_all init_space ws"
  shows "read_init (ws @ ''0x'' @ fmt_hex 2 (byte c) @ '','' @ t) =
    (case read_init t of None \<Rightarrow> None | Some (bytes, after) \<Rightarrow> Some (c # bytes, after))"
proof -
  let ?h = "fmt_hex 2 (byte c)"
  have h: "length ?h = 2" "\<forall>d \<in> set ?h. is_hex (byte d)" "hex_value (map byte ?h) = byte c"
    using fmt_hex_props [of 2 "byte c"] by simp_all
  have d: "dropWhile init_space (ws @ ''0x'' @ ?h @ '','' @ t) = ''0x'' @ ?h @ '','' @ t"
    using assms by (induction ws) (auto simp: init_space_def)
  have w: "takeWhile hex_byte (?h @ '','' @ t) = ?h" "dropWhile hex_byte (?h @ '','' @ t) = '','' @ t"
    using h(2) by (auto simp: hex_byte_def is_hex_def takeWhile_append dropWhile_append)
  have "?h \<noteq> ''''" using h(1) by auto
  then show ?thesis using w [simplified] h(3) d [simplified]
    by (subst read_init.simps) (simp add: Let_def split: option.split prod.split)
qed

text \<open>Every image comes back byte for byte, whatever its length.\<close>

lemma image_bytes_read_back: "read_init (byte_lines j data @ nl @ CHR 0x7D # t) = Some (data, t)"
proof (induction data arbitrary: j)
  case Nil
  show ?case by (simp add: read_init_end)
next
  case (Cons c data)
  let ?ws = "if j mod 16 = 0 then nl @ ''    '' else ''''"
  have "list_all init_space ?ws" by (simp add: init_space_def nl_def)
  from read_init_byte [OF this, of c "byte_lines (j + 1) data @ nl @ CHR 0x7D # t"] Cons.IH [of "j + 1"]
  show ?case by simp
qed

end
