(* ===== verification/Generator.thy ===== *)
theory Generator
  imports Generator_Files Generator_Text
begin

section \<open>The generator (internal/generator)\<close>

text \<open>
  \<open>Generate\<close> as its sequence of steps on the project's files. Go's template engine, the embedded templates and assets,
  flatc and the go command are parameters (\<open>tools\<close>); every file the generator itself writes, rewrites or removes is a step
  of \<open>Generator_Files\<close>. Validation has made the package name an identifier, so it is one component of a path.
\<close>

subsection \<open>What the templates are given\<close>

definition Version :: string where "Version = ''v0.8.55''"
definition versions_SHM :: string where "versions_SHM = ''v0.9.1''"
definition versions_Types :: string where "versions_Types = ''v0.2.21''"
definition versions_FlatBuffers :: string where "versions_FlatBuffers = ''v25.9.23''"
definition versions_PHMAP :: string where "versions_PHMAP = ''v2.0.0''"
definition versions_Zstd :: string where "versions_Zstd = ''v1.5.7''"
definition versions_XllGenDev :: string where "versions_XllGenDev = ''main''"

record interface_data =
  ifPackage :: string
  ifModName :: string
  ifFunctions :: "Function list"
  ifEvents :: "Event list"
  ifCommands :: "Command list"
  ifVersion :: string
  ifRtd :: RtdConfig

record server_data =
  sdPackage :: string
  sdModName :: string
  sdProjectName :: string
  sdFunctions :: "Function list"
  sdEvents :: "Event list"
  sdCommands :: "Command list"
  sdServerTimeout :: string
  sdServerWorkers :: int
  sdVersion :: string
  sdLogging :: LoggingConfig
  sdRtd :: RtdConfig
  sdChunk :: "ChunkConfig option"

record cpp_data =
  cdProjectName :: string
  cdFunctions :: "Function list"
  cdEvents :: "Event list"
  cdServer :: ServerConfig
  cdBuild :: BuildConfig
  cdShouldAppendPid :: bool
  cdVersion :: string
  cdLogging :: LoggingConfig
  cdCache :: CacheConfig
  cdRtd :: RtdConfig
  cdRibbon :: RibbonConfig
  cdCommands :: "Command list"

record cmake_data =
  kdProjectName :: string
  kdBuild :: BuildConfig
  kdVersion :: string
  kdRtd :: RtdConfig
  kdRibbon :: RibbonConfig
  kdCommands :: "Command list"
  kdFlatBuffers :: string
  kdSHM :: string
  kdTypes :: string
  kdPHMAP :: string
  kdZstd :: string

record task_data =
  tdProjectName :: string
  tdVersion :: string
  tdBuild :: BuildConfig
  tdPackage :: string

datatype template_data =
    InterfaceData interface_data | ServerData server_data | CppData cpp_data | CMakeData cmake_data | TaskData task_data
  | SchemaData Config
  | YamlData string bool | MainData string string | IgnoreData string | LaunchData string string

subsection \<open>The tools\<close>

record Options =
  optDisablePidSuffix :: bool
  DevMode :: bool
  FlatcPath :: string

datatype flatc_run = FlatcGo string path path | FlatcCpp path path

text \<open>\<open>parseTemplate\<close> is told whether the functions of the generator are available; \<open>runFlatc\<close> and \<open>runGo\<close> are given the
  arguments; \<open>partialOutput\<close> is what a template that fails has put out before; \<open>listing\<close> is what \<open>filepath.Walk\<close> visits below a directory, in its order, and
  \<open>isDir\<close> what \<open>info.IsDir()\<close> says of it.\<close>

record 't tools =
  absPath :: "string \<Rightarrow> path option"
  getTemplate :: "string \<Rightarrow> string option"
  parseTemplate :: "bool \<Rightarrow> string \<Rightarrow> 't option"
  execTemplate :: "'t \<Rightarrow> template_data \<Rightarrow> string option"
  partialOutput :: "'t \<Rightarrow> template_data \<Rightarrow> string"
  assetMap :: "(string \<times> string) list option"
  ensureFlatc :: "string option"
  runFlatc :: "string \<Rightarrow> flatc_run \<Rightarrow> tree \<Rightarrow> (path \<times> string) list \<times> bool"
  listing :: "tree \<Rightarrow> path \<Rightarrow> path list"
  walkOk :: "path \<Rightarrow> bool"
  isDir :: "path \<Rightarrow> bool"
  runGo :: "string list \<Rightarrow> tree \<Rightarrow> bool \<times> tree"
  cleanPath :: "string \<Rightarrow> string"
  readProject :: "string \<Rightarrow> string option"
  decodeXml :: "string \<Rightarrow> raw_token list"

datatype gen_error =
    AbsFailed | MkdirFailed path | RemoveFailed path | WriteFailed path | ReadFailed path | WalkFailed path
  | AssetsFailed | NoTemplate string | ParseFailed string | ExecuteFailed string
  | NoFlatc | FlatcGoFailed | FlatcCppFailed | RibbonFailed ribbon_error

subsection \<open>Files from templates (utils.go, gen_*.go)\<close>

definition executeTemplate :: "file_system \<Rightarrow> 't tools \<Rightarrow> string \<Rightarrow> path \<Rightarrow> template_data \<Rightarrow> bool \<Rightarrow> gen_error step" where
  "executeTemplate os tls name destPath data funcs =
     (case getTemplate tls name of
        None \<Rightarrow> fails (NoTemplate name)
      | Some content \<Rightarrow>
          (case parseTemplate tls funcs content of
             None \<Rightarrow> fails (ParseFailed name)
           | Some tmpl \<Rightarrow>
               (case execTemplate tls tmpl data of
                  None \<Rightarrow> fails (ExecuteFailed name)
                | Some out \<Rightarrow> WriteFile os (WriteFailed destPath) destPath out)))"

definition generateInterface :: "file_system \<Rightarrow> 't tools \<Rightarrow> Config \<Rightarrow> path \<Rightarrow> string \<Rightarrow> gen_error step" where
  "generateInterface os tls cfg dir modName =
     executeTemplate os tls ''interface.go.tmpl'' (dir @ [''interface.go''])
       (InterfaceData \<lparr>ifPackage = GoPackage cfg, ifModName = modName, ifFunctions = Functions cfg, ifEvents = Events cfg,
          ifCommands = Commands cfg, ifVersion = Version, ifRtd = Rtd cfg\<rparr>) True"

definition generateServer :: "file_system \<Rightarrow> 't tools \<Rightarrow> Config \<Rightarrow> path \<Rightarrow> string \<Rightarrow> gen_error step" where
  "generateServer os tls cfg dir modName =
     executeTemplate os tls ''server.go.tmpl'' (dir @ [''server.go''])
       (ServerData \<lparr>sdPackage = GoPackage cfg, sdModName = modName, sdProjectName = projName (Project cfg),
          sdFunctions = Functions cfg, sdEvents = Events cfg, sdCommands = Commands cfg,
          sdServerTimeout = srvTimeout (Server cfg), sdServerWorkers = Workers (Server cfg), sdVersion = Version,
          sdLogging = Logging cfg, sdRtd = Rtd cfg, sdChunk = Chunk (Server cfg)\<rparr>) True"

definition generateCppMain :: "file_system \<Rightarrow> 't tools \<Rightarrow> Config \<Rightarrow> path \<Rightarrow> bool \<Rightarrow> gen_error step" where
  "generateCppMain os tls cfg dir shouldAppendPid =
     executeTemplate os tls ''xll_main.cpp.tmpl'' (dir @ [''xll_main.cpp''])
       (CppData \<lparr>cdProjectName = projName (Project cfg), cdFunctions = Functions cfg, cdEvents = Events cfg,
          cdServer = Server cfg, cdBuild = Build cfg, cdShouldAppendPid = shouldAppendPid, cdVersion = Version,
          cdLogging = Logging cfg, cdCache = Cache cfg, cdRtd = Rtd cfg, cdRibbon = Ribbon cfg, cdCommands = Commands cfg\<rparr>) True"

definition generateCMake :: "file_system \<Rightarrow> 't tools \<Rightarrow> Config \<Rightarrow> path \<Rightarrow> gen_error step" where
  "generateCMake os tls cfg dir =
     executeTemplate os tls ''CMakeLists.txt.tmpl'' (dir @ [''CMakeLists.txt''])
       (CMakeData \<lparr>kdProjectName = projName (Project cfg), kdBuild = Build cfg, kdVersion = Version, kdRtd = Rtd cfg,
          kdRibbon = Ribbon cfg, kdCommands = Commands cfg, kdFlatBuffers = versions_FlatBuffers, kdSHM = versions_SHM,
          kdTypes = versions_Types, kdPHMAP = versions_PHMAP, kdZstd = versions_Zstd\<rparr>) False"

definition generateTaskfile :: "file_system \<Rightarrow> 't tools \<Rightarrow> Config \<Rightarrow> path \<Rightarrow> gen_error step" where
  "generateTaskfile os tls cfg dir =
     executeTemplate os tls ''Taskfile.yml.tmpl'' (dir @ [''Taskfile.yml''])
       (TaskData \<lparr>tdProjectName = projName (Project cfg), tdVersion = Version, tdBuild = Build cfg, tdPackage = GoPackage cfg\<rparr>) True"

definition generateSchema :: "file_system \<Rightarrow> 't tools \<Rightarrow> Config \<Rightarrow> path \<Rightarrow> gen_error step" where
  "generateSchema os tls cfg p = executeTemplate os tls ''schema.fbs.tmpl'' p (SchemaData cfg) True"

definition generateProtocol :: "file_system \<Rightarrow> 't tools \<Rightarrow> path \<Rightarrow> gen_error step" where
  "generateProtocol os tls p =
     (case getTemplate tls ''protocol.fbs'' of
        None \<Rightarrow> fails (NoTemplate ''protocol.fbs'')
      | Some content \<Rightarrow> WriteFile os (WriteFailed p) p content)"

subsection \<open>Assets and stale files (generator.go)\<close>

definition generatedCppSubdirs :: "string list" where
  "generatedCppSubdirs = [''src'', ''include'', ''tools'']"

definition pruneGeneratedCpp :: "file_system \<Rightarrow> path \<Rightarrow> gen_error step" where
  "pruneGeneratedCpp os cppDir =
     run_steps (map (\<lambda>sub. RemoveAll os (RemoveFailed (cppDir @ [sub])) (cppDir @ [sub])) generatedCppSubdirs)"

definition asset_dest :: "path \<Rightarrow> path \<Rightarrow> string \<Rightarrow> path" where
  "asset_dest cppDir includeDir name =
     (if HasPrefix name ''tools/'' then cppDir @ Split CHR ''/'' name
      else if HasPrefix name ''src/'' then cppDir @ Split CHR ''/'' name
      else if HasPrefix name ''include/'' then cppDir @ Split CHR ''/'' name
      else includeDir @ Split CHR ''/'' name)"

definition write_asset :: "file_system \<Rightarrow> path \<Rightarrow> path \<Rightarrow> string \<times> string \<Rightarrow> gen_error step" where
  "write_asset os cppDir includeDir = (\<lambda>(name, content).
     let destPath = asset_dest cppDir includeDir name
     in run_steps [MkdirAll os (MkdirFailed (butlast destPath)) (butlast destPath),
                   WriteFile os (WriteFailed destPath) destPath content])"

definition write_assets :: "file_system \<Rightarrow> 't tools \<Rightarrow> path \<Rightarrow> path \<Rightarrow> gen_error step" where
  "write_assets os tls cppDir includeDir =
     (case assetMap tls of
        None \<Rightarrow> fails AssetsFailed
      | Some assets \<Rightarrow> run_steps (map (write_asset os cppDir includeDir) assets))"

subsection \<open>flatc and its output (generator.go, dependencies.go)\<close>

definition apply_writes :: "(path \<times> string) list \<Rightarrow> tree \<Rightarrow> tree" where
  "apply_writes outs t = foldl (\<lambda>t (p, s). t(p \<mapsto> s)) t outs"

text \<open>A run of flatc, its output on disk also when it fails, then the fix-up.\<close>

definition flatc_step :: "'t tools \<Rightarrow> string \<Rightarrow> flatc_run \<Rightarrow> gen_error \<Rightarrow> gen_error step \<Rightarrow> gen_error step" where
  "flatc_step tls flatcPath run err fix_up t =
     (let (outs, ok) = runFlatc tls flatcPath run t; t = apply_writes outs t
      in if \<not> ok then (Some err, t) else fix_up t)"

definition rewrite_file :: "file_system \<Rightarrow> (string \<Rightarrow> string) \<Rightarrow> path \<Rightarrow> gen_error step" where
  "rewrite_file os f p t =
     (case (if readOk os p then t p else None) of
        None \<Rightarrow> (Some (ReadFailed p), t)
      | Some content \<Rightarrow> if f content \<noteq> content then WriteFile os (WriteFailed p) p (f content) t else (None, t))"

definition fix_go_file :: "file_system \<Rightarrow> 't tools \<Rightarrow> string \<Rightarrow> path \<Rightarrow> gen_error step" where
  "fix_go_file os tls goModPath p =
     (if \<not> walkOk tls p then fails (WalkFailed p)
      else if isDir tls p \<or> \<not> HasSuffix (last p) ''.go'' then skip
      else rewrite_file os (rewrite_imports goModPath True) p)"

definition fixGoImports :: "file_system \<Rightarrow> 't tools \<Rightarrow> path \<Rightarrow> string \<Rightarrow> gen_error step" where
  "fixGoImports os tls dir goModPath t = run_steps (map (fix_go_file os tls goModPath) (listing tls t dir)) t"

definition fixCppImports :: "file_system \<Rightarrow> path \<Rightarrow> gen_error step" where
  "fixCppImports os headerPath = rewrite_file os fix_include headerPath"

subsection \<open>Ribbon headers and dependencies\<close>

definition write_ribbon_headers :: "file_system \<Rightarrow> 't tools \<Rightarrow> Config \<Rightarrow> path \<Rightarrow> gen_error step" where
  "write_ribbon_headers os tls cfg dir =
     (case generateRibbonHeaders (cleanPath tls) (readProject tls) (decodeXml tls) cfg of
        Inl e \<Rightarrow> fails (RibbonFailed e)
      | Inr None \<Rightarrow> skip
      | Inr (Some (xml, images)) \<Rightarrow>
          run_steps [WriteFile os (WriteFailed (dir @ [''ribbon_xml.h''])) (dir @ [''ribbon_xml.h'']) xml,
                     WriteFile os (WriteFailed (dir @ [''ribbon_images.h''])) (dir @ [''ribbon_images.h'']) images])"

definition go_steps :: "Options \<Rightarrow> string list list" where
  "go_steps opts =
     [[''get'', ''github.com/xll-gen/shm@'' @ versions_SHM], [''get'', ''github.com/xll-gen/types@'' @ versions_Types]] @
     (if DevMode opts then [[''get'', ''github.com/xll-gen/xll-gen@'' @ versions_XllGenDev]] else []) @
     [[''mod'', ''tidy'']]"

text \<open>\<open>runGoStep\<close>: a failure is a warning.\<close>

definition runGoStep :: "'t tools \<Rightarrow> string list \<Rightarrow> tree \<Rightarrow> tree" where
  "runGoStep tls args t = snd (runGo tls args t)"

definition updateDependencies :: "'t tools \<Rightarrow> Options \<Rightarrow> gen_error step" where
  "updateDependencies tls opts t = (None, foldl (\<lambda>t args. runGoStep tls args t) t (go_steps opts))"

subsection \<open>Generate\<close>

definition choose_flatc :: "'t tools \<Rightarrow> Options \<Rightarrow> string option" where
  "choose_flatc tls opts = (if FlatcPath opts \<noteq> '''' then Some (FlatcPath opts) else ensureFlatc tls)"

definition flatc_steps :: "file_system \<Rightarrow> 't tools \<Rightarrow> path \<Rightarrow> path \<Rightarrow> string \<Rightarrow> Options \<Rightarrow> gen_error step list" where
  "flatc_steps os tls genDir includeDir goModulePath opts =
     (case choose_flatc tls opts of
        None \<Rightarrow> [fails NoFlatc]
      | Some flatcPath \<Rightarrow>
          [flatc_step tls flatcPath (FlatcGo goModulePath genDir (genDir @ [''schema.fbs''])) FlatcGoFailed
             (fixGoImports os tls genDir goModulePath),
           flatc_step tls flatcPath (FlatcCpp includeDir (genDir @ [''schema.fbs''])) FlatcCppFailed
             (fixCppImports os (includeDir @ [''schema_generated.h'']))])"

definition gen_steps :: "file_system \<Rightarrow> 't tools \<Rightarrow> Config \<Rightarrow> path \<Rightarrow> string \<Rightarrow> Options \<Rightarrow> gen_error step list" where
  "gen_steps os tls cfg baseDir modName opts =
     (let goPkg = GoPackage cfg; genDir = baseDir @ [goPkg]; cppDir = genDir @ [''cpp'']; includeDir = cppDir @ [''include'']
      in [MkdirAll os (MkdirFailed cppDir) cppDir, pruneGeneratedCpp os cppDir] @
         [MkdirAll os (MkdirFailed includeDir) includeDir, write_assets os tls cppDir includeDir,
          generateProtocol os tls (genDir @ [''protocol.fbs'']), generateSchema os tls cfg (genDir @ [''schema.fbs''])] @
         flatc_steps os tls genDir includeDir (modName @ ''/'' @ goPkg) opts @
         [generateInterface os tls cfg genDir modName, generateServer os tls cfg genDir modName,
          generateCppMain os tls cfg cppDir (\<not> DisablePidSuffix (Gen cfg) \<and> \<not> optDisablePidSuffix opts),
          write_ribbon_headers os tls cfg includeDir, generateCMake os tls cfg cppDir, generateTaskfile os tls cfg baseDir,
          updateDependencies tls opts])"

definition Generate :: "file_system \<Rightarrow> 't tools \<Rightarrow> Config \<Rightarrow> string \<Rightarrow> string \<Rightarrow> Options \<Rightarrow> gen_error step" where
  "Generate os tls cfg baseDir modName opts =
     (case absPath tls baseDir of
        None \<Rightarrow> fails AbsFailed
      | Some base \<Rightarrow> run_steps (gen_steps os tls cfg base modName opts))"

subsection \<open>Footprints of the steps\<close>

lemma confined_executeTemplate [footprint]: "X p \<Longrightarrow> confined X (executeTemplate os tls name p data funcs)"
  by (auto simp: executeTemplate_def intro!: footprint split: option.split)

lemma confined_generators [footprint]:
  "X (dir @ [''interface.go'']) \<Longrightarrow> confined X (generateInterface os tls cfg dir modName)"
  "X (dir @ [''server.go'']) \<Longrightarrow> confined X (generateServer os tls cfg dir modName)"
  "X (dir @ [''xll_main.cpp'']) \<Longrightarrow> confined X (generateCppMain os tls cfg dir pid)"
  "X (dir @ [''CMakeLists.txt'']) \<Longrightarrow> confined X (generateCMake os tls cfg dir)"
  "X (dir @ [''Taskfile.yml'']) \<Longrightarrow> confined X (generateTaskfile os tls cfg dir)"
  "X p \<Longrightarrow> confined X (generateSchema os tls cfg p)"
  "X p \<Longrightarrow> confined X (generateProtocol os tls p)"
  by (auto simp: generateInterface_def generateServer_def generateCppMain_def generateCMake_def generateTaskfile_def
      generateSchema_def generateProtocol_def intro!: footprint split: option.split)

lemma confined_prune [footprint]:
  "(\<And>sub q. sub \<in> set generatedCppSubdirs \<Longrightarrow> prefix (cppDir @ [sub]) q \<Longrightarrow> X q) \<Longrightarrow> confined X (pruneGeneratedCpp os cppDir)"
  unfolding pruneGeneratedCpp_def by (intro confined_run_steps) (auto simp: list_all_iff intro!: footprint)

lemma confined_write_asset [footprint]: "X (asset_dest cppDir includeDir (fst a)) \<Longrightarrow> confined X (write_asset os cppDir includeDir a)"
  by (cases a) (auto simp: write_asset_def Let_def intro!: footprint)

lemma confined_write_assets [footprint]:
  "(\<And>assets a. assetMap tls = Some assets \<Longrightarrow> a \<in> set assets \<Longrightarrow> X (asset_dest cppDir includeDir (fst a))) \<Longrightarrow>
     confined X (write_assets os tls cppDir includeDir)"
  by (auto simp: write_assets_def list_all_iff intro!: footprint split: option.split)

lemma confined_rewrite_file [footprint]: "X p \<Longrightarrow> confined X (rewrite_file os f p)"
  by (auto simp: rewrite_file_def confined_def WriteFile_def split: option.split write_outcome.split)

lemma confined_ribbon_headers [footprint]:
  "X (dir @ [''ribbon_xml.h'']) \<Longrightarrow> X (dir @ [''ribbon_images.h'']) \<Longrightarrow> confined X (write_ribbon_headers os tls cfg dir)"
  by (auto simp: write_ribbon_headers_def intro!: footprint split: sum.split option.split)

lemma apply_writes_other: "p \<notin> fst ` set outs \<Longrightarrow> apply_writes outs t p = t p"
  unfolding apply_writes_def by (induction outs arbitrary: t) auto

lemma confined_flatc_step [footprint]:
  assumes "\<And>t q. q \<in> fst ` set (fst (runFlatc tls f run t)) \<Longrightarrow> X q" "confined X fix_up"
  shows "confined X (flatc_step tls f run err fix_up)"
  unfolding confined_def
proof (intro allI impI)
  fix t p assume p: "\<not> X p"
  obtain outs ok where r: "runFlatc tls f run t = (outs, ok)" by (cases "runFlatc tls f run t")
  then have "p \<notin> fst ` set outs" using assms(1) [of p t] p by auto
  then show "snd (flatc_step tls f run err fix_up t) p = t p"
    using confinedD [OF assms(2) p, of "apply_writes outs t"] by (simp add: flatc_step_def r apply_writes_other Let_def)
qed

lemma confined_fix_go_file [footprint]: "(HasSuffix (last p) ''.go'' \<Longrightarrow> X p) \<Longrightarrow> confined X (fix_go_file os tls m p)"
  by (auto simp: fix_go_file_def intro!: footprint)

lemma confined_fixGoImports [footprint]:
  assumes "\<And>t p. p \<in> set (listing tls t dir) \<Longrightarrow> HasSuffix (last p) ''.go'' \<Longrightarrow> X p"
  shows "confined X (fixGoImports os tls dir m)"
proof -
  have "confined X (run_steps (map (fix_go_file os tls m) (listing tls t dir)))" for t
    using assms by (intro confined_run_steps) (auto simp: list_all_iff intro!: confined_fix_go_file)
  then show ?thesis by (auto simp: confined_def fixGoImports_def)
qed

lemma confined_updateDependencies [footprint]:
  assumes "\<And>args t p. \<not> X p \<Longrightarrow> snd (runGo tls args t) p = t p"
  shows "confined X (updateDependencies tls opts)"
proof -
  have "foldl (\<lambda>t args. runGoStep tls args t) t as p = t p" if "\<not> X p" for as t p
    by (induction as arbitrary: t) (simp_all add: runGoStep_def assms [OF that])
  then show ?thesis by (simp add: confined_def updateDependencies_def)
qed

subsection \<open>Runs\<close>

text \<open>What the tools promise: flatc writes its Go output into the package and its C++ output into one header, the go command
  does not touch the package, and a walk visits only what is below its directory.\<close>

definition tools_ok :: "'t tools \<Rightarrow> path \<Rightarrow> bool" where
  "tools_ok tls genDir \<longleftrightarrow>
     (\<forall>f m d s t. \<forall>q \<in> set (map fst (fst (runFlatc tls f (FlatcGo m d s) t))). prefix d q \<and> \<not> prefix (d @ [''cpp'']) q) \<and>
     (\<forall>f d s t. \<forall>q \<in> set (map fst (fst (runFlatc tls f (FlatcCpp d s) t))). q = d @ [''schema_generated.h'']) \<and>
     (\<forall>args t p. prefix genDir p \<longrightarrow> snd (runGo tls args t) p = t p) \<and>
     (\<forall>t d. \<forall>p \<in> set (listing tls t d). prefix d p)"

lemma tools_okD:
  assumes "tools_ok tls genDir"
  shows "q \<in> set (map fst (fst (runFlatc tls f (FlatcGo m d s) t))) \<Longrightarrow> prefix d q \<and> \<not> prefix (d @ [''cpp'']) q"
    and "q \<in> set (map fst (fst (runFlatc tls f (FlatcCpp d s) t))) \<Longrightarrow> q = d @ [''schema_generated.h'']"
    and "prefix genDir p \<Longrightarrow> snd (runGo tls args t) p = t p"
    and "q \<in> set (listing tls t d) \<Longrightarrow> prefix d q"
  using assms unfolding tools_ok_def by blast+

text \<open>The places below the C++ directory that one generation may fill.\<close>

definition generated_files :: "'t tools \<Rightarrow> Config \<Rightarrow> path \<Rightarrow> path set" where
  "generated_files tls cfg cppDir =
     (let includeDir = cppDir @ [''include'']
      in (case assetMap tls of None \<Rightarrow> {} | Some assets \<Rightarrow> (\<lambda>a. asset_dest cppDir includeDir (fst a)) ` set assets) \<union>
         {includeDir @ [''schema_generated.h'']} \<union>
         (if ribbon_enabled (Ribbon cfg) then {includeDir @ [''ribbon_xml.h''], includeDir @ [''ribbon_images.h'']} else {}))"

text \<open>A path in one of the regenerated directories that no step of this generation fills.\<close>

definition regenerated :: "string list" where
  "regenerated = [''src'', ''include'', ''tools'']"

lemma subdirs_regenerated: "generatedCppSubdirs = regenerated"
  by (simp add: generatedCppSubdirs_def regenerated_def)

definition stale :: "'t tools \<Rightarrow> Config \<Rightarrow> path \<Rightarrow> path \<Rightarrow> bool" where
  "stale tls cfg cppDir p \<longleftrightarrow>
     list_ex (\<lambda>sub. prefix (cppDir @ [sub]) p) regenerated \<and> p \<notin> generated_files tls cfg cppDir"

lemma snoc_not_stale: "x \<notin> set regenerated \<Longrightarrow> \<not> stale tls cfg cppDir (cppDir @ [x])"
  by (auto simp: stale_def list_ex_iff)

lemma outside_not_stale: "\<not> prefix cppDir p \<Longrightarrow> \<not> stale tls cfg cppDir p"
  by (auto simp: stale_def list_ex_iff) (metis append_prefixD)

lemma header_not_stale:
  "\<not> stale tls cfg cppDir (cppDir @ [''include'', ''schema_generated.h''])"
  "assetMap tls = Some assets \<Longrightarrow> a \<in> set assets \<Longrightarrow> \<not> stale tls cfg cppDir (asset_dest cppDir (cppDir @ [''include'']) (fst a))"
  by (auto simp: stale_def generated_files_def Let_def)

lemma prune_absent:
  assumes "pruneGeneratedCpp os cppDir t = (None, t')"
  shows "absent (stale tls cfg cppDir) t'"
proof -
  let ?del = "\<lambda>sub. RemoveAll os (RemoveFailed (cppDir @ [sub])) (cppDir @ [sub])"
  have sub: "absent (prefix (cppDir @ [sub])) t'" if s: "regenerated = xs @ sub # ys" for xs sub ys
  proof -
    obtain t1 t2 where del: "?del sub t1 = (None, t2)" and rest: "run_steps (map ?del ys) t2 = (None, t')"
      using assms by (auto simp: pruneGeneratedCpp_def subdirs_regenerated s run_steps_None)
    have "keeps (absent (prefix (cppDir @ [sub]))) (run_steps (map ?del ys))"
      by (intro keeps_run_steps) (auto simp: list_all_iff keeps_def absent_def RemoveAll_def)
    then show ?thesis using keepsD RemoveAll_absent [OF del] rest by blast
  qed
  then show ?thesis
    unfolding absent_def stale_def list_ex_iff by (metis split_list)
qed

lemma keeps_fix_go_file: "keeps (absent B) (fix_go_file os tls m p)"
  by (auto simp: keeps_def absent_def fix_go_file_def rewrite_file_def fails_def skip_def WriteFile_def
      split: option.split write_outcome.split)

lemma keeps_fixGoImports: "keeps (absent B) (fixGoImports os tls dir m)"
proof -
  have "keeps (absent B) (run_steps (map (fix_go_file os tls m) ps))" for ps
    by (intro keeps_run_steps) (simp add: list_all_iff keeps_fix_go_file)
  then show ?thesis by (simp add: keeps_def fixGoImports_def)
qed

lemma keeps_flatc_step:
  assumes "\<And>t q. q \<in> set (map fst (fst (runFlatc tls f run t))) \<Longrightarrow> \<not> B q" "keeps (absent B) fix_up"
  shows "keeps (absent B) (flatc_step tls f run err fix_up)"
  unfolding keeps_def
proof (intro allI impI)
  fix t assume t: "absent B t"
  obtain outs ok where r: "runFlatc tls f run t = (outs, ok)" by (cases "runFlatc tls f run t")
  have "absent B (apply_writes outs t)"
    unfolding absent_def
  proof (intro allI impI)
    fix p assume "B p"
    then have "p \<notin> fst ` set outs" using assms(1) [of p t] r by auto
    then show "apply_writes outs t p = None" using t \<open>B p\<close> by (simp add: apply_writes_other absent_def)
  qed
  then show "absent B (snd (flatc_step tls f run err fix_up t))"
    using assms(2) by (auto simp: flatc_step_def r Let_def keeps_def)
qed

lemma keeps_not: "confined (\<lambda>q. \<not> B q) s \<Longrightarrow> keeps (absent B) s"
  by (rule keeps_absent) auto

lemma headers_need_ribbon: "generateRibbonHeaders cl rd dx cfg = Inr (Some hs) \<Longrightarrow> ribbon_enabled (Ribbon cfg)"
  by (auto simp: generateRibbonHeaders_def split: if_splits)

lemma ribbon_not_stale: "confined (\<lambda>q. \<not> stale tls cfg cppDir q) (write_ribbon_headers os tls cfg (cppDir @ [''include'']))"
  unfolding write_ribbon_headers_def
  by (auto simp: stale_def generated_files_def Let_def dest!: headers_need_ribbon intro!: footprint split: sum.split option.split)

text \<open>The steps after the removal of the old files.\<close>

definition later_steps :: "file_system \<Rightarrow> 't tools \<Rightarrow> Config \<Rightarrow> path \<Rightarrow> string \<Rightarrow> Options \<Rightarrow> gen_error step list" where
  "later_steps os tls cfg baseDir modName opts = drop 2 (gen_steps os tls cfg baseDir modName opts)"

lemma later_steps_keep:
  assumes "tools_ok tls (baseDir @ [GoPackage cfg])"
  shows "list_all (keeps (absent (stale tls cfg (baseDir @ [GoPackage cfg, ''cpp''])))) (later_steps os tls cfg baseDir modName opts)"
proof -
  let ?gen = "baseDir @ [GoPackage cfg]" and ?cpp = "baseDir @ [GoPackage cfg, ''cpp'']"
  let ?inc = "baseDir @ [GoPackage cfg, ''cpp'', ''include'']"
  let ?B = "stale tls cfg ?cpp"
  have out: "\<not> ?B (?gen @ [x])" if "x \<noteq> ''cpp''" for x using that by (intro outside_not_stale) (auto simp: prefix_def)
  have base: "\<not> ?B (baseDir @ [x])" for x by (intro outside_not_stale) (auto simp: prefix_def)
  have top: "\<not> ?B (?cpp @ [x])" if "x \<notin> set regenerated" for x by (rule snoc_not_stale [OF that])
  have assets: "keeps (absent ?B) (write_assets os tls ?cpp ?inc)"
    using header_not_stale(2) [of tls _ _ cfg ?cpp] by (intro keeps_not confined_write_assets) auto
  have flatc: "list_all (keeps (absent ?B)) (flatc_steps os tls ?gen ?inc m opts)" for m
  proof -
    have "keeps (absent ?B) (flatc_step tls f (FlatcGo m ?gen s) FlatcGoFailed (fixGoImports os tls ?gen m))" for f s
    proof (intro keeps_flatc_step keeps_fixGoImports)
      show "\<not> ?B q" if "q \<in> set (map fst (fst (runFlatc tls f (FlatcGo m ?gen s) t)))" for t q
        using tools_okD(1) [OF assms that] by (intro outside_not_stale) simp
    qed
    moreover have "keeps (absent ?B) (flatc_step tls f (FlatcCpp ?inc s) FlatcCppFailed (fixCppImports os (?inc @ [''schema_generated.h''])))" for f s
    proof (intro keeps_flatc_step keeps_not)
      show "\<not> ?B q" if "q \<in> set (map fst (fst (runFlatc tls f (FlatcCpp ?inc s) t)))" for t q
        using tools_okD(2) [OF assms that] header_not_stale(1) [of tls cfg ?cpp] by simp
      show "confined (\<lambda>q. \<not> ?B q) (fixCppImports os (?inc @ [''schema_generated.h'']))"
        using header_not_stale(1) [of tls cfg ?cpp] unfolding fixCppImports_def by (intro confined_rewrite_file) simp
    qed
    ultimately show ?thesis by (simp add: flatc_steps_def fails_def keeps_def split: option.split)
  qed
  have go: "keeps (absent ?B) (updateDependencies tls opts)"
  proof (rule keeps_not, rule confined_updateDependencies)
    fix args t p assume "\<not> \<not> ?B p"
    then have "prefix ?cpp p" using outside_not_stale by blast
    then have "prefix ?gen p" by (auto simp: prefix_def)
    then show "snd (runGo tls args t) p = t p" by (rule tools_okD(3) [OF assms])
  qed
  have one: "keeps (absent ?B) (generateProtocol os tls (?gen @ [''protocol.fbs'']))" "keeps (absent ?B) (generateSchema os tls cfg (?gen @ [''schema.fbs'']))"
    "keeps (absent ?B) (generateInterface os tls cfg ?gen modName)" "keeps (absent ?B) (generateServer os tls cfg ?gen modName)"
    "keeps (absent ?B) (generateCppMain os tls cfg ?cpp pid)" "keeps (absent ?B) (generateCMake os tls cfg ?cpp)"
    "keeps (absent ?B) (generateTaskfile os tls cfg baseDir)" "keeps (absent ?B) (MkdirAll os e p)" for pid e p
    by (intro keeps_not footprint out base top; simp add: regenerated_def)+
  have rib: "keeps (absent ?B) (write_ribbon_headers os tls cfg ?inc)"
    using ribbon_not_stale [of tls cfg ?cpp os] by (intro keeps_not) simp
  show ?thesis unfolding later_steps_def gen_steps_def
    using assets flatc one rib go by (simp add: Let_def)
qed

lemma asset_dest_below: "\<exists>sub \<in> set regenerated. prefix (cppDir @ [sub]) (asset_dest cppDir (cppDir @ [''include'']) name)"
  by (auto simp: asset_dest_def regenerated_def HasPrefix_iff)

text \<open>An asset that no later step rewrites: not a Go file, and not at the place of a generated header.\<close>

definition plain_asset :: "path \<Rightarrow> string \<Rightarrow> bool" where
  "plain_asset cppDir name \<longleftrightarrow>
     (let includeDir = cppDir @ [''include'']; dest = asset_dest cppDir includeDir name
      in \<not> HasSuffix (last dest) ''.go'' \<and>
         dest \<notin> {includeDir @ [''schema_generated.h''], includeDir @ [''ribbon_xml.h''], includeDir @ [''ribbon_images.h'']})"

lemma distinct_map_later: "distinct (map f (xs @ x # ys)) \<Longrightarrow> a \<in> set ys \<Longrightarrow> f a \<noteq> f x"
  by (auto simp: image_iff)

lemma write_assets_holds:
  assumes "write_assets os tls cppDir incDir t = (None, t')" "assetMap tls = Some assets" "(name, content) \<in> set assets"
    and "distinct (map (\<lambda>a. asset_dest cppDir incDir (fst a)) assets)"
  shows "holds_at (asset_dest cppDir incDir name) content t'"
proof -
  let ?d = "asset_dest cppDir incDir name"
  obtain xs ys where as: "assets = xs @ (name, content) # ys" using assms(3) by (auto dest: split_list)
  obtain t1 t2 where w: "write_asset os cppDir incDir (name, content) t1 = (None, t2)"
    and rest: "run_steps (map (write_asset os cppDir incDir) ys) t2 = (None, t')"
    using assms(1) by (auto simp: write_assets_def assms(2) as run_steps_None)
  have "holds_at ?d content t2"
    using w by (auto simp: write_asset_def Let_def MkdirAll_def WriteFile_None holds_at_def split: if_splits option.splits prod.splits)
  moreover have "keeps (holds_at ?d content) (run_steps (map (write_asset os cppDir incDir) ys))"
  proof (intro keeps_run_steps)
    have "keeps (holds_at ?d content) (write_asset os cppDir incDir a)" if "a \<in> set ys" for a
    proof (rule keeps_holds_at [of "\<lambda>q. q \<noteq> ?d"])
      have "asset_dest cppDir incDir (fst a) \<noteq> ?d" using distinct_map_later [OF assms(4) [unfolded as] that] by simp
      then show "confined (\<lambda>q. q \<noteq> ?d) (write_asset os cppDir incDir a)" by (rule confined_write_asset)
    qed simp
    then show "list_all (keeps (holds_at ?d content)) (map (write_asset os cppDir incDir) ys)" by (simp add: list_all_iff)
  qed
  ultimately show ?thesis using keepsD rest by blast
qed

lemma later_steps_asset:
  assumes ok: "tools_ok tls (baseDir @ [GoPackage cfg])"
    and plain: "plain_asset (baseDir @ [GoPackage cfg, ''cpp'']) name"
  shows "list_all (keeps (holds_at (asset_dest (baseDir @ [GoPackage cfg, ''cpp'']) (baseDir @ [GoPackage cfg, ''cpp'', ''include'']) name) content))
    (drop 2 (later_steps os tls cfg baseDir modName opts))"
proof -
  let ?gen = "baseDir @ [GoPackage cfg]" and ?cpp = "baseDir @ [GoPackage cfg, ''cpp'']"
  let ?inc = "baseDir @ [GoPackage cfg, ''cpp'', ''include'']"
  let ?d = "asset_dest ?cpp ?inc name" and ?X = "\<lambda>q. q \<noteq> asset_dest ?cpp ?inc name"
  obtain sub where "sub \<in> set regenerated" "prefix (?cpp @ [sub]) ?d"
    using asset_dest_below [of ?cpp name] by auto
  then obtain sub rest where d: "?d = baseDir @ GoPackage cfg # ''cpp'' # sub # rest" "sub \<in> {''src'', ''include'', ''tools''}"
    by (auto simp: prefix_def regenerated_def)
  have hdr: "?X (?inc @ [''schema_generated.h''])" "?X (?inc @ [''ribbon_xml.h''])" "?X (?inc @ [''ribbon_images.h''])"
    and go: "\<not> HasSuffix (last ?d) ''.go''"
    using plain by (auto simp: plain_asset_def Let_def)
  have out: "?X (baseDir @ [x])" "?X (?gen @ [x])" for x unfolding d(1) by auto
  have top: "?X (?cpp @ [x])" if "x \<notin> {''src'', ''include'', ''tools''}" for x using d that by auto
  have fx: "confined ?X (fixGoImports os tls dir m)" for dir m using go by (intro confined_fixGoImports) auto
  have "confined ?X (flatc_step tls f (FlatcGo m ?gen s) FlatcGoFailed (fixGoImports os tls ?gen m))" for f m s
  proof (intro confined_flatc_step fx)
    show "?X q" if "q \<in> fst ` set (fst (runFlatc tls f (FlatcGo m ?gen s) t))" for t q
      using tools_okD(1) [OF ok, of q f m ?gen s t] that by (auto simp: d(1))
  qed
  moreover have "confined ?X (flatc_step tls f (FlatcCpp ?inc s) FlatcCppFailed (fixCppImports os (?inc @ [''schema_generated.h''])))" for f s
  proof (intro confined_flatc_step)
    show "?X q" if "q \<in> fst ` set (fst (runFlatc tls f (FlatcCpp ?inc s) t))" for t q
      using tools_okD(2) [OF ok, of q f ?inc s t] that hdr(1) by auto
    show "confined ?X (fixCppImports os (?inc @ [''schema_generated.h'']))"
      unfolding fixCppImports_def using hdr(1) by (intro confined_rewrite_file)
  qed
  ultimately have flatc: "list_all (confined ?X) (flatc_steps os tls ?gen ?inc m opts)" for m
    by (auto simp: flatc_steps_def intro: confined_fails split: option.split)
  have gos: "confined ?X (updateDependencies tls opts)"
    by (intro confined_updateDependencies, rule tools_okD(3) [OF ok]) (auto simp: d(1))
  have one: "confined ?X (generateProtocol os tls (?gen @ [''protocol.fbs'']))" "confined ?X (generateSchema os tls cfg (?gen @ [''schema.fbs'']))"
    "confined ?X (generateInterface os tls cfg ?gen modName)" "confined ?X (generateServer os tls cfg ?gen modName)"
    "confined ?X (generateCppMain os tls cfg ?cpp pid)" "confined ?X (generateCMake os tls cfg ?cpp)"
    "confined ?X (generateTaskfile os tls cfg baseDir)" "confined ?X (write_ribbon_headers os tls cfg ?inc)" for pid
    by (intro footprint out hdr top; simp)+
  have "list_all (confined ?X) (drop 2 (later_steps os tls cfg baseDir modName opts))"
    unfolding later_steps_def gen_steps_def using flatc one gos by (simp add: Let_def)
  then show ?thesis by (auto simp: list_all_iff intro: keeps_holds_at)
qed

lemma gen_steps_split:
  "gen_steps os tls cfg base modName opts =
     [MkdirAll os (MkdirFailed (base @ [GoPackage cfg, ''cpp''])) (base @ [GoPackage cfg, ''cpp'']),
      pruneGeneratedCpp os (base @ [GoPackage cfg, ''cpp''])] @ later_steps os tls cfg base modName opts"
  "later_steps os tls cfg base modName opts =
     [MkdirAll os (MkdirFailed (base @ [GoPackage cfg, ''cpp'', ''include''])) (base @ [GoPackage cfg, ''cpp'', ''include'']),
      write_assets os tls (base @ [GoPackage cfg, ''cpp'']) (base @ [GoPackage cfg, ''cpp'', ''include''])] @
     drop 2 (later_steps os tls cfg base modName opts)"
  by (simp_all add: later_steps_def gen_steps_def Let_def)

text \<open>A project on disk for the witness: flatc and the templates answer something, one asset, no ribbon, and an old source.\<close>

definition demo_tools :: "unit tools" where
  "demo_tools =
     \<lparr>absPath = (\<lambda>d. Some [d]), getTemplate = (\<lambda>n. Some n), parseTemplate = (\<lambda>f c. Some ()), execTemplate = (\<lambda>u d. Some ''out''), partialOutput = (\<lambda>u d. ''''),
      assetMap = Some [(''src/a.cpp'', ''A'')], ensureFlatc = Some ''flatc'',
      runFlatc = (\<lambda>f r t. case r of FlatcGo m d s \<Rightarrow> ([(d @ [''x.go''], ''go'')], True)
                                | FlatcCpp d s \<Rightarrow> ([(d @ [''schema_generated.h''], ''h'')], True)),
      listing = (\<lambda>t d. [d @ [''x.go'']]), walkOk = (\<lambda>p. True), isDir = (\<lambda>p. False), runGo = (\<lambda>args t. (True, t)),
      cleanPath = (\<lambda>s. s), readProject = (\<lambda>s. None), decodeXml = (\<lambda>s. [])\<rparr>"

definition demo_os :: file_system where
  "demo_os = \<lparr>mkdirOk = (\<lambda>p. True), removeOk = (\<lambda>p. True), remains = (\<lambda>p. False), onWrite = (\<lambda>p s. Written), readOk = (\<lambda>p. True)\<rparr>"

definition plain_config :: Config where
  "plain_config = demo_config\<lparr>Ribbon := (Ribbon demo_config)\<lparr>Tab := '''', XML := ''''\<rparr>\<rparr>"

definition demo_opts :: Options where "demo_opts = \<lparr>optDisablePidSuffix = False, DevMode = False, FlatcPath = ''''\<rparr>"

definition old_tree :: tree where
  "old_tree = [[''p'', GoPackage plain_config, ''cpp'', ''src'', ''old.cpp''] \<mapsto> ''old'']"

text \<open>C38. After a generation that succeeded, the directories whose sources the build collects hold nothing from an earlier
  one: a file below \<open>src\<close>, \<open>include\<close> or \<open>tools\<close> is an asset of this version, the header of flatc or a header of the ribbon
  that is configured now; and every asset that no later step rewrites is there with its content.\<close>

theorem Generate_fresh:
  assumes ok: "tools_ok tls (base @ [GoPackage cfg])" and abs: "absPath tls dir = Some base"
    and run: "Generate os tls cfg dir modName opts t = (None, t')"
  shows "absent (stale tls cfg (base @ [GoPackage cfg, ''cpp''])) t' \<and>
    (\<exists>assets. assetMap tls = Some assets \<and>
      (\<forall>(name, content) \<in> set assets.
         distinct (map (\<lambda>a. asset_dest (base @ [GoPackage cfg, ''cpp'']) (base @ [GoPackage cfg, ''cpp'', ''include'']) (fst a)) assets) \<longrightarrow>
         plain_asset (base @ [GoPackage cfg, ''cpp'']) name \<longrightarrow>
         t' (asset_dest (base @ [GoPackage cfg, ''cpp'']) (base @ [GoPackage cfg, ''cpp'', ''include'']) name) = Some content))"
proof -
  let ?cpp = "base @ [GoPackage cfg, ''cpp'']" and ?inc = "base @ [GoPackage cfg, ''cpp'', ''include'']"
  let ?later = "later_steps os tls cfg base modName opts"
  obtain t1 t2 where prune: "pruneGeneratedCpp os ?cpp t1 = (None, t2)" and later: "run_steps ?later t2 = (None, t')"
    using run unfolding Generate_def abs option.case gen_steps_split(1) by (auto split: prod.splits option.splits)
  obtain t3 t4 where w: "write_assets os tls ?cpp ?inc t3 = (None, t4)" and rest: "run_steps (drop 2 ?later) t4 = (None, t')"
    using later by (subst (asm) gen_steps_split(2)) (auto split: prod.splits option.splits)
  have "absent (stale tls cfg ?cpp) t'"
    using keepsD [OF keeps_run_steps [OF later_steps_keep [OF ok]] prune_absent [OF prune] later] .
  moreover obtain assets where as: "assetMap tls = Some assets"
    using w by (cases "assetMap tls") (auto simp: write_assets_def fails_def)
  moreover have "t' (asset_dest ?cpp ?inc name) = Some content"
    if "(name, content) \<in> set assets" "distinct (map (\<lambda>a. asset_dest ?cpp ?inc (fst a)) assets)" "plain_asset ?cpp name" for name content
    using keepsD [OF keeps_run_steps [OF later_steps_asset [OF ok that(3)]] write_assets_holds [OF w as that(1,2)] rest]
    by (simp add: holds_at_def)
  ultimately show ?thesis by auto
qed

lemma demo_tools_ok: "tools_ok demo_tools d"
  by (simp add: tools_ok_def demo_tools_def prefix_def)

lemma demo_generation: "fst (Generate demo_os demo_tools plain_config ''p'' ''m'' demo_opts old_tree) = None"
  by code_simp

theorem Generate_fresh_witness:
  "old_tree [''p'', GoPackage plain_config, ''cpp'', ''src'', ''old.cpp''] = Some ''old'' \<and>
   absent (stale demo_tools plain_config ([''p''] @ [GoPackage plain_config, ''cpp'']))
     (snd (Generate demo_os demo_tools plain_config ''p'' ''m'' demo_opts old_tree))"
proof -
  have "Generate demo_os demo_tools plain_config ''p'' ''m'' demo_opts old_tree =
      (None, snd (Generate demo_os demo_tools plain_config ''p'' ''m'' demo_opts old_tree))"
    using demo_generation by (metis prod.collapse)
  moreover have "absPath demo_tools ''p'' = Some [''p'']" by (simp add: demo_tools_def)
  ultimately have "absent (stale demo_tools plain_config ([''p''] @ [GoPackage plain_config, ''cpp'']))
      (snd (Generate demo_os demo_tools plain_config ''p'' ''m'' demo_opts old_tree))"
    using Generate_fresh [OF demo_tools_ok, THEN conjunct1] by blast
  moreover have "old_tree [''p'', GoPackage plain_config, ''cpp'', ''src'', ''old.cpp''] = Some ''old''" by (simp add: old_tree_def)
  ultimately show ?thesis by blast
qed

subsection \<open>Failures\<close>

text \<open>Whatever happens, only the package, the Taskfile and what the go command changes are different afterwards.\<close>

lemma Generate_footprint:
  assumes ok: "tools_ok tls (base @ [GoPackage cfg])" and abs: "absPath tls dir = Some base"
    and p: "\<not> prefix (base @ [GoPackage cfg]) p" "p \<noteq> base @ [''Taskfile.yml'']"
    and go: "\<And>args t. snd (runGo tls args t) p = t p"
  shows "snd (Generate os tls cfg dir modName opts t) p = t p"
proof -
  let ?gen = "base @ [GoPackage cfg]" and ?cpp = "base @ [GoPackage cfg, ''cpp'']" and ?inc = "base @ [GoPackage cfg, ''cpp'', ''include'']"
  let ?X = "\<lambda>q. prefix ?gen q \<or> q = base @ [''Taskfile.yml''] \<or> q \<noteq> p"
  have X: "?X (?gen @ q)" for q by simp
  have in1: "?X (?gen @ [x])" "?X (?cpp @ [x])" "?X (?inc @ [x])" for x by (simp_all add: prefix_def)
  have sub: "?X q" if "prefix (?cpp @ [x]) q" for x q using that by (auto simp: prefix_def)
  have dest: "?X (asset_dest ?cpp ?inc n)" for n
  proof -
    obtain x where "prefix (?cpp @ [x]) (asset_dest ?cpp ?inc n)" using asset_dest_below [of ?cpp n] by auto
    then show ?thesis by (rule sub)
  qed
  have fx: "confined ?X (fixGoImports os tls ?gen m)" for m
    by (intro confined_fixGoImports) (auto dest: tools_okD(4) [OF ok])
  have "confined ?X (flatc_step tls f (FlatcGo m ?gen s) FlatcGoFailed (fixGoImports os tls ?gen m))" for f m s
    using tools_okD(1) [OF ok] by (intro confined_flatc_step fx) auto
  moreover have "confined ?X (flatc_step tls f (FlatcCpp ?inc s) FlatcCppFailed (fixCppImports os (?inc @ [''schema_generated.h''])))" for f s
  proof (intro confined_flatc_step)
    show "?X q" if "q \<in> fst ` set (fst (runFlatc tls f (FlatcCpp ?inc s) t))" for t q
      using tools_okD(2) [OF ok, of q f ?inc s t] that in1(3) by auto
    show "confined ?X (fixCppImports os (?inc @ [''schema_generated.h'']))"
      unfolding fixCppImports_def using in1(3) by (intro confined_rewrite_file)
  qed
  ultimately have flatc: "list_all (confined ?X) (flatc_steps os tls ?gen ?inc m opts)" for m
    by (auto simp: flatc_steps_def intro: confined_fails split: option.split)
  have gos: "confined ?X (updateDependencies tls opts)" by (intro confined_updateDependencies) (auto intro: go)
  have task: "confined ?X (generateTaskfile os tls cfg base)" by (intro footprint) simp
  have one: "confined ?X (pruneGeneratedCpp os ?cpp)" "confined ?X (write_assets os tls ?cpp ?inc)"
    "confined ?X (generateProtocol os tls (?gen @ [''protocol.fbs'']))" "confined ?X (generateSchema os tls cfg (?gen @ [''schema.fbs'']))"
    "confined ?X (generateInterface os tls cfg ?gen modName)" "confined ?X (generateServer os tls cfg ?gen modName)"
    "confined ?X (generateCppMain os tls cfg ?cpp pid)" "confined ?X (generateCMake os tls cfg ?cpp)"
    "confined ?X (write_ribbon_headers os tls cfg ?inc)" "confined ?X (MkdirAll os e d)" for pid d and e :: gen_error
    by (intro footprint in1 dest; (erule sub)?)+
  have "list_all (confined ?X) (gen_steps os tls cfg base modName opts)"
    unfolding gen_steps_def using flatc gos task one by (simp add: Let_def)
  from confinedD [OF confined_run_steps [OF this], of p t] p show ?thesis by (simp add: Generate_def abs)
qed

text \<open>A template that cannot be rendered leaves the file it is for; a write that breaks off does not.\<close>

lemma render_failure_keeps:
  "fst (executeTemplate os tls name p data f t) = Some e \<Longrightarrow> e \<noteq> WriteFailed p \<Longrightarrow> snd (executeTemplate os tls name p data f t) = t"
  by (auto simp: executeTemplate_def fails_def WriteFile_def split: option.splits write_outcome.splits)

lemma broken_write_truncates:
  assumes "getTemplate tls name = Some c" "parseTemplate tls f c = Some tm" "execTemplate tls tm data = Some out" "onWrite os p out = Cut n"
  shows "executeTemplate os tls name p data f t = (Some (WriteFailed p), t(p \<mapsto> take n out))"
  using assms by (simp add: executeTemplate_def WriteFile_def)

text \<open>Without flatc the generation ends after the old C++ files are gone: the header flatc had written before is lost.\<close>

lemma missing_flatc_loses_header:
  "let t = [[''p'', GoPackage plain_config, ''cpp'', ''include'', ''schema_generated.h''] \<mapsto> ''old''];
       (r, t') = Generate demo_os (demo_tools\<lparr>ensureFlatc := None\<rparr>) plain_config ''p'' ''m'' demo_opts t
   in r = Some NoFlatc \<and> t' [''p'', GoPackage plain_config, ''cpp'', ''include'', ''schema_generated.h''] = None"
  by code_simp

subsection \<open>generate and init (cmd/generate.go, cmd/init.go)\<close>

datatype cmd_error =
    LoadFailed | ConfigRejected config_error | NoModule | GenFailed gen_error
  | RemoveProject | ProjectExists | MkdirProject | TemplateFailed gen_error | ModInitFailed

text \<open>\<open>load\<close> reads and decodes xll.yaml, \<open>uuid\<close> is the name-based UUID; the warning about RTD without a COM add-in changes
  nothing.\<close>

definition prepared :: "(string \<Rightarrow> string) \<Rightarrow> Config option \<Rightarrow> cmd_error + Config" where
  "prepared uuid loaded =
     (case loaded of
        None \<Rightarrow> Inl LoadFailed
      | Some cfg \<Rightarrow>
          (let cfg = ApplyDefaults uuid cfg
           in case Validate cfg of Some e \<Rightarrow> Inl (ConfigRejected e) | None \<Rightarrow> Inr cfg))"

definition runGenerate :: "file_system \<Rightarrow> 't tools \<Rightarrow> (string \<Rightarrow> string) \<Rightarrow> (tree \<Rightarrow> Config option) \<Rightarrow> path \<Rightarrow> bool \<Rightarrow> cmd_error step" where
  "runGenerate os tls uuid load cwd disablePidSuffix t =
     (case prepared uuid (load t) of
        Inl e \<Rightarrow> (Some e, t)
      | Inr cfg \<Rightarrow>
          (case getModuleName (if readOk os (cwd @ [''go.mod'']) then t (cwd @ [''go.mod'']) else None) of
             None \<Rightarrow> (Some NoModule, t)
           | Some modName \<Rightarrow>
               map_prod (map_option GenFailed) id
                 (Generate os tls cfg ''.'' modName \<lparr>optDisablePidSuffix = disablePidSuffix, DevMode = False, FlatcPath = ''''\<rparr> t)))"

text \<open>A rejected configuration changes nothing.\<close>

lemma rejected_changes_nothing: "prepared uuid (load t) = Inl e \<Longrightarrow> runGenerate os tls uuid load cwd d t = (Some e, t)"
  by (simp add: runGenerate_def)

text \<open>\<open>generateFileFromTemplate\<close> renders into the opened file.\<close>

definition generateFileFromTemplate :: "file_system \<Rightarrow> 't tools \<Rightarrow> string \<Rightarrow> path \<Rightarrow> template_data \<Rightarrow> gen_error step" where
  "generateFileFromTemplate os tls name destPath data t =
     (case getTemplate tls name of
        None \<Rightarrow> (Some (NoTemplate name), t)
      | Some content \<Rightarrow>
          (case parseTemplate tls False content of
             None \<Rightarrow> (Some (ParseFailed name), t)
           | Some tmpl \<Rightarrow>
               (case execTemplate tls tmpl data of
                  Some out \<Rightarrow> WriteFile os (WriteFailed destPath) destPath out t
                | None \<Rightarrow> (Some (ExecuteFailed name), snd (WriteFile os (WriteFailed destPath) destPath (partialOutput tls tmpl data) t)))))"

definition defaultExcelPath :: string where
  "defaultExcelPath = ''C:'' @ [CHR 0x5C] @ ''Program Files'' @ [CHR 0x5C] @ ''Microsoft Office'' @ [CHR 0x5C] @ ''root'' @ [CHR 0x5C] @
     ''Office16'' @ [CHR 0x5C] @ ''EXCEL.EXE''"

definition resolveExcelPathForJSON :: "string option \<Rightarrow> string" where
  "resolveExcelPathForJSON excelPath =
     (let p = (case excelPath of Some p \<Rightarrow> if p = '''' then defaultExcelPath else p | None \<Rightarrow> defaultExcelPath)
      in ReplaceAll p [CHR 0x5C] [CHR 0x5C, CHR 0x5C])"

definition lift_step :: "('e \<Rightarrow> 'f) \<Rightarrow> 'e step \<Rightarrow> 'f step" where
  "lift_step f s t = map_prod (map_option f) id (s t)"

text \<open>The directory is there: remove it when forced to.\<close>

definition claim_directory :: "file_system \<Rightarrow> (tree \<Rightarrow> bool) \<Rightarrow> path \<Rightarrow> bool \<Rightarrow> cmd_error step" where
  "claim_directory os exists projectPath force t =
     (if exists t then (if force then RemoveAll os RemoveProject projectPath t else (Some ProjectExists, t)) else (None, t))"

text \<open>\<open>projectPath\<close> is the argument as a path and \<open>pathArg\<close> as it was given, \<open>projectName\<close> its base; \<open>load\<close> reads the new
  xll.yaml, \<open>modInit\<close> runs \<open>go mod init\<close>.\<close>

definition runInit ::
  "file_system \<Rightarrow> 't tools \<Rightarrow> (string \<Rightarrow> string) \<Rightarrow> (tree \<Rightarrow> Config option) \<Rightarrow> (tree \<Rightarrow> bool) \<Rightarrow> (string \<Rightarrow> tree \<Rightarrow> bool \<times> tree) \<Rightarrow> string option \<Rightarrow>
     path \<Rightarrow> string \<Rightarrow> string \<Rightarrow> bool \<Rightarrow> bool \<Rightarrow> cmd_error step" where
  "runInit os tls uuid load exists modInit excelPath projectPath pathArg projectName force dev t =
     (case run_steps
        [claim_directory os exists projectPath force, MkdirAll os MkdirProject projectPath,
         lift_step TemplateFailed (generateFileFromTemplate os tls ''xll.yaml.tmpl'' (projectPath @ [''xll.yaml'']) (YamlData projectName dev))] t of
        (Some e, t) \<Rightarrow> (Some e, t)
      | (None, t) \<Rightarrow>
          (case prepared uuid (load t) of
             Inl e \<Rightarrow> (Some e, t)
           | Inr cfg \<Rightarrow>
               run_steps
                 [lift_step TemplateFailed (generateFileFromTemplate os tls ''main.go.tmpl'' (projectPath @ [''main.go'']) (MainData projectName (GoPackage cfg))),
                  (if \<not> dev then
                     lift_step TemplateFailed (generateFileFromTemplate os tls ''gitignore.tmpl'' (projectPath @ [''.gitignore'']) (IgnoreData (GoPackage cfg)))
                   else skip),
                  MkdirAll os MkdirProject (projectPath @ [''.vscode'']),
                  lift_step TemplateFailed (generateFileFromTemplate os tls ''launch.json.tmpl'' (projectPath @ [''.vscode'', ''launch.json''])
                    (LaunchData projectName (resolveExcelPathForJSON excelPath))),
                  (\<lambda>t. (if fst (modInit projectName t) then None else Some ModInitFailed, snd (modInit projectName t))),
                  lift_step GenFailed (Generate os tls cfg pathArg projectName
                    \<lparr>optDisablePidSuffix = False, DevMode = dev, FlatcPath = ''''\<rparr>)] t))"

text \<open>An existing directory is left alone unless the removal is forced.\<close>

lemma init_keeps_existing:
  "exists t \<Longrightarrow> runInit os tls uuid load exists modInit excelPath projectPath pathArg projectName False dev t = (Some ProjectExists, t)"
  by (simp add: runInit_def claim_directory_def)

text \<open>With \<open>--force\<close> the old project is removed before the new name is checked: when the checks then reject the scaffolded
  configuration, nothing of the old project is left, and a half-made new one.\<close>

lemma forced_init_loses_project:
  assumes "exists t" "removeOk os projectPath" "mkdirOk os projectPath"
    and tmpl: "getTemplate tls ''xll.yaml.tmpl'' = Some c" "parseTemplate tls False c = Some tm"
      "execTemplate tls tm (YamlData projectName dev) = Some out" "onWrite os (projectPath @ [''xll.yaml'']) out = Written"
    and rejected: "\<And>t. prepared uuid (load t) = Inl e"
  shows "\<exists>t'. runInit os tls uuid load exists modInit excelPath projectPath pathArg projectName True dev t = (Some e, t') \<and>
    (\<forall>q. prefix projectPath q \<longrightarrow> q \<noteq> projectPath @ [''xll.yaml''] \<longrightarrow> t' q = None)"
proof -
  let ?start = "[claim_directory os exists projectPath True, MkdirAll os MkdirProject projectPath,
    lift_step TemplateFailed (generateFileFromTemplate os tls ''xll.yaml.tmpl'' (projectPath @ [''xll.yaml'']) (YamlData projectName dev))]"
  let ?t1 = "\<lambda>q. if prefix projectPath q then None else t q"
  let ?t' = "?t1(projectPath @ [''xll.yaml''] \<mapsto> out)"
  have "claim_directory os exists projectPath True t = (None, ?t1)"
    using assms(1,2) by (simp add: claim_directory_def RemoveAll_def cong: if_cong)
  moreover have "lift_step TemplateFailed (generateFileFromTemplate os tls ''xll.yaml.tmpl'' (projectPath @ [''xll.yaml'']) (YamlData projectName dev)) ?t1
      = (None, ?t')"
    using tmpl by (simp add: lift_step_def generateFileFromTemplate_def WriteFile_def)
  ultimately have "run_steps ?start t = (None, ?t')" using assms(3) by (simp add: MkdirAll_def)
  then have "runInit os tls uuid load exists modInit excelPath projectPath pathArg projectName True dev t = (Some e, ?t')"
    unfolding runInit_def by (simp only: prod.case option.case rejected sum.case)
  then show ?thesis by (intro exI [of _ ?t']) auto
qed

text \<open>Such a name: it is a directory's name, but not a project's.\<close>

lemma Validate_name: "validateProjectName (projName (Project c)) = Some e \<Longrightarrow> Validate c = Some e"
  by (simp only: Validate_def first_error.simps option.case)

lemma name_with_space_rejected: "projName (Project c) = ''my app'' \<Longrightarrow> Validate c = Some ProjectNameCharset"
proof (rule Validate_name)
  have "validateProjectName ''my app'' = Some ProjectNameCharset"
    by (simp add: validateProjectName_def check_def name_char_def ProjectNameCharset_def)
  then show "projName (Project c) = ''my app'' \<Longrightarrow> validateProjectName (projName (Project c)) = Some ProjectNameCharset" by (simp only:)
qed

end
