(* ===== verification/Harness.thy ===== *)
theory Harness
  imports Generator Toolchain Fb_Any
begin

section \<open>The smoke test (internal/smoketest)\<close>

text \<open>
  The program that builds a generated add-in and drives it in a real Excel: how it waits, what it asks of Excel and gives
  back, which files it leaves, and when it calls a run a success. Excel, the build tools and the clock are parameters: a
  poll loop is given what each probe sees and the time each reading of the clock yields (in milliseconds).
\<close>

subsection \<open>Poll loops\<close>

text \<open>The loop of \<open>PollUntilNumeric\<close>, \<open>waitForSentinel\<close> and \<open>processAlive\<close>: probe, give up when the deadline has come, sleep.
  \<open>step\<close> ends with a result or goes on with what it remembers; the index of the last probe is part of the result.\<close>

partial_function (option) poll :: "(nat \<Rightarrow> 's \<Rightarrow> 'r + 's) \<Rightarrow> (nat \<Rightarrow> int) \<Rightarrow> int \<Rightarrow> ('s \<Rightarrow> 'r) \<Rightarrow> 's \<Rightarrow> nat \<Rightarrow> ('r \<times> nat) option" where
  "poll step clk deadline give_up s i =
     (case step i s of
        Inl r \<Rightarrow> Some (r, i)
      | Inr s' \<Rightarrow> if deadline \<le> clk i then Some (give_up s', i) else poll step clk deadline give_up s' (i + 1))"

text \<open>A clock that the sleep of each round advances.\<close>

definition advances :: "(nat \<Rightarrow> int) \<Rightarrow> int \<Rightarrow> bool" where
  "advances clk d \<longleftrightarrow> 0 < d \<and> (\<forall>i. clk i + d \<le> clk (i + 1))"

lemma advances_by: "advances clk d \<Longrightarrow> clk i + int k * d \<le> clk (i + k)"
proof (induction k)
  case (Suc k)
  then have "clk (i + k) + d \<le> clk (i + Suc k)" by (simp add: advances_def)
  then show ?case using Suc by (simp add: algebra_simps)
qed simp

text \<open>Every loop ends, and before its last probe the deadline had not come at any reading.\<close>

lemma poll_returns:
  "advances clk d \<Longrightarrow> \<exists>r k. poll step clk deadline give_up s i = Some (r, k) \<and> i \<le> k \<and> (\<forall>j. i \<le> j \<longrightarrow> j < k \<longrightarrow> clk j < deadline)"
proof (induction "nat (deadline - clk i)" arbitrary: i s rule: less_induct)
  case less
  show ?case
  proof (cases "step i s")
    case (Inl r)
    then have "poll step clk deadline give_up s i = Some (r, i)" by (subst poll.simps) simp
    then show ?thesis by auto
  next
    case (Inr s')
    show ?thesis
    proof (cases "deadline \<le> clk i")
      case True
      then have "poll step clk deadline give_up s i = Some (give_up s', i)" using Inr by (subst poll.simps) simp
      then show ?thesis by auto
    next
      case False
      have "clk i + d \<le> clk (i + 1)" "0 < d" using less.prems by (simp_all add: advances_def)
      then have "nat (deadline - clk (i + 1)) < nat (deadline - clk i)" using False by simp
      from less.hyps [OF this less.prems, of s'] obtain r k where
        rest: "poll step clk deadline give_up s' (i + 1) = Some (r, k)" "i + 1 \<le> k" "\<forall>j. i + 1 \<le> j \<longrightarrow> j < k \<longrightarrow> clk j < deadline"
        by blast
      have "poll step clk deadline give_up s i = Some (r, k)" using Inr False rest(1) by (subst poll.simps) simp
      moreover have "clk j < deadline" if "i \<le> j" "j < k" for j
        using rest(3) that False by (cases "j = i") auto
      ultimately show ?thesis using rest(2) by auto
    qed
  qed
qed

lemma poll_not_None: "advances clk d \<Longrightarrow> poll step clk deadline give_up s i \<noteq> None"
  using poll_returns [of clk d step deadline give_up s i] by auto

text \<open>So a loop that starts a timeout before its deadline probes at most once per pause in it, and once more.\<close>

lemma poll_probes:
  assumes "advances clk d" "poll step clk (start + timeout) give_up s 0 = Some (r, k)" "start \<le> clk 0"
  shows "k = 0 \<or> int (k - 1) * d < timeout"
proof (cases k)
  case (Suc n)
  obtain r' k' where "poll step clk (start + timeout) give_up s 0 = Some (r', k')" "\<forall>j. j < k' \<longrightarrow> clk j < start + timeout"
    using poll_returns [OF assms(1), of step "start + timeout" give_up s 0] by auto
  then have "clk n < start + timeout" using assms(2) Suc by simp
  moreover have "clk 0 + int n * d \<le> clk n" using advances_by [OF assms(1), of 0 n] by simp
  ultimately show ?thesis using assms(3) Suc by simp
qed simp

subsection \<open>Values from Excel (smoketest.go, excel.go)\<close>

text \<open>Go's \<open>int32(x)\<close> of a float truncates; outside the range its result depends on the implementation (\<open>undef\<close>).\<close>

definition truncate_rat :: "rat \<Rightarrow> int" where
  "truncate_rat q = (if 0 \<le> q then \<lfloor>q\<rfloor> else \<lceil>q\<rceil>)"

definition i32_of_f64 :: "(f64 \<Rightarrow> int) \<Rightarrow> f64 \<Rightarrow> int" where
  "i32_of_f64 undef x =
     (let n = truncate_rat (f64_val x)
      in if f64_finite x \<and> min_i32 \<le> n \<and> n \<le> max_i32 then n else undef x)"

definition asInt32 :: "(f64 \<Rightarrow> int) \<Rightarrow> go_value \<Rightarrow> int option" where
  "asInt32 undef v =
     (case v of
        GoInt32 x \<Rightarrow> Some x
      | GoInt16 x \<Rightarrow> Some (i32 x)
      | GoInt64 x \<Rightarrow> Some (i32 x)
      | GoInt x \<Rightarrow> Some (i32 x)
      | GoFloat64 x \<Rightarrow> Some (i32_of_f64 undef x)
      | GoFloat32 x \<Rightarrow> Some (i32_of_f64 undef (f64_of_f32 x))
      | _ \<Rightarrow> None)"

text \<open>\<open>x != x\<close> is NaN; an infinity is beyond either bound.\<close>

definition numericInt32 :: "(f64 \<Rightarrow> int) \<Rightarrow> go_value \<Rightarrow> int option" where
  "numericInt32 undef v =
     (case v of
        GoInt32 x \<Rightarrow> Some x
      | GoInt16 x \<Rightarrow> Some (i32 x)
      | GoInt64 x \<Rightarrow> Some (i32 x)
      | GoInt x \<Rightarrow> Some (i32 x)
      | GoFloat64 x \<Rightarrow>
          if f64_nan x \<or> \<not> f64_finite x \<or> f64_val x > of_int max_i32 \<or> f64_val x < of_int min_i32 then None
          else Some (i32_of_f64 undef x)
      | GoFloat32 x \<Rightarrow> Some (i32_of_f64 undef (f64_of_f32 x))
      | GoString s \<Rightarrow> None
      | GoNil \<Rightarrow> None
      | _ \<Rightarrow> None)"

text \<open>A double that counts as a number is in range, so its conversion is defined.\<close>

lemma numeric_double_defined:
  assumes "numericInt32 undef (GoFloat64 x) = Some n"
  shows "n = truncate_rat (f64_val x) \<and> min_i32 \<le> n \<and> n \<le> max_i32"
proof -
  have x: "f64_finite x" "f64_val x \<le> of_int max_i32" "of_int min_i32 \<le> f64_val x" and n: "n = i32_of_f64 undef x"
    using assms by (auto simp: numericInt32_def split: if_splits)
  have "min_i32 \<le> truncate_rat (f64_val x) \<and> truncate_rat (f64_val x) \<le> max_i32"
    using x(2,3) by (auto simp: truncate_rat_def floor_le_iff le_floor_iff ceiling_le_iff le_ceiling_iff)
  then show ?thesis using x(1) n by (simp add: i32_of_f64_def)
qed

text \<open>An error cell whose code arrives as a 32-bit integer passes for a number.\<close>

lemma error_code_is_numeric: "numericInt32 undef (GoInt32 (-2146826246)) = Some (-2146826246)"
  by (simp add: numericInt32_def)

subsection \<open>Waiting (excel.go, smoketest.go)\<close>

datatype harness_error =
    NoRange string | CellUnreadable string | NotResolved string go_value | NoSentinel | FormulaFailed string | FormatFailed string
  | CalcFailed | CommandFailed string | NoCom | NoExcel | NoDispatch | RegisterFailed | RegisterAnswer | Rejected | NoWorkbooks | NoWorkbook | NoSheet
  | NoRoot | NoWorkDir | PrepareFailed | GenerateFailed cmd_error | ServerFailed | XllFailed | XllNotFound | ColocateFailed

text \<open>\<open>PollUntilNumeric\<close>: the number, the last value seen and the error. \<open>read i\<close> is what the cell holds at the \<open>i\<close>-th reading.\<close>

definition PollUntilNumeric ::
  "(f64 \<Rightarrow> int) \<Rightarrow> (nat \<Rightarrow> harness_error + go_value) \<Rightarrow> (nat \<Rightarrow> int) \<Rightarrow> int \<Rightarrow> string \<Rightarrow> int \<Rightarrow> (int \<times> go_value \<times> harness_error option) option" where
  "PollUntilNumeric undef read clk start cellAddr timeout =
     map_option fst
       (poll
          (\<lambda>i latest.
             case read i of
               Inl e \<Rightarrow> Inl (0, latest, Some e)
             | Inr v \<Rightarrow> (case numericInt32 undef v of Some n \<Rightarrow> Inl (n, v, None) | None \<Rightarrow> Inr v))
          clk (start + timeout) (\<lambda>latest. (0, latest, Some (NotResolved cellAddr latest))) GoNil 0)"

definition waitForSentinel :: "(nat \<Rightarrow> bool) \<Rightarrow> (nat \<Rightarrow> int) \<Rightarrow> int \<Rightarrow> int \<Rightarrow> (int \<times> harness_error option) option" where
  "waitForSentinel exists clk start timeout =
     map_option fst
       (poll (\<lambda>i u. if exists i then Inl (1, None) else Inr u) clk (start + timeout) (\<lambda>u. (0, Some NoSentinel)) () 0)"

text \<open>\<open>processAlive\<close>: \<open>tasklist i\<close> is the output of the \<open>i\<close>-th call, None when it fails.\<close>

definition processAlive :: "(nat \<Rightarrow> string option) \<Rightarrow> (nat \<Rightarrow> int) \<Rightarrow> int \<Rightarrow> int \<Rightarrow> bool option" where
  "processAlive tasklist clk start timeout =
     map_option fst
       (poll
          (\<lambda>i u. case tasklist i of
                   Some out \<Rightarrow> if length out < 4 \<or> take 4 out = ''INFO'' then Inl False else Inr u
                 | None \<Rightarrow> Inr u)
          clk (start + timeout) (\<lambda>u. True) () 0)"

lemma waits_return:
  assumes "advances clk d"
  shows "PollUntilNumeric undef read clk start c timeout \<noteq> None" "waitForSentinel exists clk start timeout \<noteq> None"
    "processAlive tasklist clk start timeout \<noteq> None"
proof -
  show "PollUntilNumeric undef read clk start c timeout \<noteq> None" unfolding PollUntilNumeric_def option.map_disc_iff
    by (rule poll_not_None [OF assms])
  show "waitForSentinel exists clk start timeout \<noteq> None" unfolding waitForSentinel_def option.map_disc_iff
    by (rule poll_not_None [OF assms])
  show "processAlive tasklist clk start timeout \<noteq> None" unfolding processAlive_def option.map_disc_iff
    by (rule poll_not_None [OF assms])
qed

subsection \<open>Excel through COM (excel.go)\<close>

text \<open>What the harness has on its thread: how often it is locked and COM initialised, how many dispatches it holds, and what it
  has asked for so far, in order.\<close>

datatype excel_op =
    Hidden string | RegisteredXLL string | Throttled int | BookAdded | WroteFormula string string | WroteFormat string string
  | Recalculated | RanMacro string | SentinelRemoved | MarkedSaved nat | AskedToQuit | KilledPid nat | KilledServers

record apartment =
  lockDepth :: int
  comDepth :: int
  held :: int
  ops :: "excel_op list"

record excelApp =
  connected :: bool
  pid :: nat
  tornDown :: bool

text \<open>\<open>CoInitAgain\<close> is \<open>S_FALSE\<close>. A read of a cell is its range, None when it cannot be had, with the value that is there, None
  when that cannot be read. \<open>openBooks\<close> is None when the workbooks cannot be had, and tells for each of them whether it can.\<close>

datatype co_init = CoInitOk | CoInitAgain | CoInitFailed

record excel_session =
  initialised :: co_init
  created :: bool
  queried :: bool
  window :: "nat option"
  windowOwner :: "nat \<Rightarrow> nat"
  registerAnswer :: "go_value option"
  rtdObject :: bool
  booksOk :: bool
  addOk :: bool
  sheetOk :: bool
  rangeOk :: "string \<Rightarrow> bool"
  formulaOk :: "string \<Rightarrow> string \<Rightarrow> bool"
  formatOk :: "string \<Rightarrow> string \<Rightarrow> bool"
  calcOk :: bool
  readings :: "string \<Rightarrow> nat \<Rightarrow> go_value option option"
  pollClock :: "string \<Rightarrow> nat \<Rightarrow> int"
  pollStart :: "string \<Rightarrow> int"
  macroOk :: bool
  sentinelThere :: "nat \<Rightarrow> bool"
  sentinelClock :: "nat \<Rightarrow> int"
  sentinelStart :: int
  openBooks :: "bool list option"
  tasks :: "nat \<Rightarrow> string option"
  killClock :: "nat \<Rightarrow> int"
  killStart :: int

definition lock_thread :: "apartment \<Rightarrow> apartment" where "lock_thread a = a\<lparr>lockDepth := lockDepth a + 1\<rparr>"
definition unlock_thread :: "apartment \<Rightarrow> apartment" where "unlock_thread a = a\<lparr>lockDepth := lockDepth a - 1\<rparr>"
definition CoInitialize :: "apartment \<Rightarrow> apartment" where "CoInitialize a = a\<lparr>comDepth := comDepth a + 1\<rparr>"
definition CoUninitialize :: "apartment \<Rightarrow> apartment" where "CoUninitialize a = a\<lparr>comDepth := comDepth a - 1\<rparr>"
definition acquire :: "apartment \<Rightarrow> apartment" where "acquire a = a\<lparr>held := held a + 1\<rparr>"
definition Release :: "apartment \<Rightarrow> apartment" where "Release a = a\<lparr>held := held a - 1\<rparr>"
definition logged :: "excel_op \<Rightarrow> apartment \<Rightarrow> apartment" where "logged x a = a\<lparr>ops := ops a @ [x]\<rparr>"

lemmas apartment_defs = lock_thread_def unlock_thread_def CoInitialize_def CoUninitialize_def acquire_def Release_def logged_def

definition pidFromHwnd :: "(nat \<Rightarrow> nat) \<Rightarrow> nat \<Rightarrow> nat" where
  "pidFromHwnd owner hwnd = (if hwnd = 0 then 0 else owner hwnd)"

definition openExcel :: "excel_session \<Rightarrow> apartment \<Rightarrow> (harness_error + excelApp) \<times> apartment" where
  "openExcel x a =
     (let a = lock_thread a
      in if initialised x = CoInitFailed then (Inl NoCom, unlock_thread a)
         else
           (let a = CoInitialize a
            in if \<not> created x then (Inl NoExcel, unlock_thread (CoUninitialize a))
               else
                 (let a = acquire a; a = (if queried x then acquire a else a); a = Release a
                  in if \<not> queried x then (Inl NoDispatch, unlock_thread (CoUninitialize a))
                     else
                       (Inr \<lparr>connected = True, pid = (case window x of None \<Rightarrow> 0 | Some h \<Rightarrow> pidFromHwnd (windowOwner x) h), tornDown = False\<rparr>,
                        logged (Hidden ''ScreenUpdating'') (logged (Hidden ''DisplayAlerts'') (logged (Hidden ''Visible'') a))))))"

text \<open>The workbooks are counted from 1.\<close>

fun mark_saved :: "nat \<Rightarrow> bool list \<Rightarrow> apartment \<Rightarrow> apartment" where
  "mark_saved i [] a = a"
| "mark_saved i (b # bs) a = mark_saved (i + 1) bs (if b then Release (logged (MarkedSaved i) (acquire a)) else a)"

definition disconnect :: "excel_session \<Rightarrow> excelApp \<Rightarrow> apartment \<Rightarrow> excelApp \<times> apartment" where
  "disconnect x app a =
     (if connected app then
        (let a = (case openBooks x of None \<Rightarrow> a | Some bs \<Rightarrow> Release (mark_saved 1 bs (acquire a)))
         in (app\<lparr>connected := False\<rparr>, Release (logged AskedToQuit a)))
      else (app, a))"

text \<open>None when it does not return.\<close>

definition Close_excel :: "excel_session \<Rightarrow> excelApp \<Rightarrow> apartment \<Rightarrow> (excelApp \<times> apartment) option" where
  "Close_excel x app a =
     (let (app, a) = disconnect x app a;
          (app, a) = (if tornDown app then (app, a) else (app\<lparr>tornDown := True\<rparr>, unlock_thread (CoUninitialize a)))
      in case (if pid app \<noteq> 0 then processAlive (tasks x) (killClock x) (killStart x) 5000 else Some False) of
           None \<Rightarrow> None
         | Some alive \<Rightarrow> Some (app, logged KilledServers (if alive then logged (KilledPid (pid app)) a else a)))"

definition RunCommand :: "excel_session \<Rightarrow> string \<Rightarrow> apartment \<Rightarrow> harness_error option \<times> apartment" where
  "RunCommand x name a = (if macroOk x then None else Some (CommandFailed name), logged (RanMacro name) a)"

definition RegisterXLL :: "excel_session \<Rightarrow> string \<Rightarrow> apartment \<Rightarrow> (harness_error + bool) \<times> apartment" where
  "RegisterXLL x path a =
     (case registerAnswer x of
        None \<Rightarrow> Inl RegisterFailed
      | Some v \<Rightarrow>
          (case v of GoBool b \<Rightarrow> Inr b | GoInt16 n \<Rightarrow> Inr (n \<noteq> 0) | GoInt32 n \<Rightarrow> Inr (n \<noteq> 0) | _ \<Rightarrow> Inl RegisterAnswer),
      logged (RegisteredXLL path) a)"

text \<open>The caller owns the workbook.\<close>

definition AddWorkbook :: "excel_session \<Rightarrow> apartment \<Rightarrow> harness_error option \<times> apartment" where
  "AddWorkbook x a =
     (if \<not> booksOk x then (Some NoWorkbooks, a)
      else
        (let a = logged BookAdded (acquire a)
         in if \<not> addOk x then (Some NoWorkbook, Release a) else (None, Release (acquire a))))"

definition SetRtdThrottle :: "excel_session \<Rightarrow> int \<Rightarrow> apartment \<Rightarrow> apartment" where
  "SetRtdThrottle x ms a = (if rtdObject x then Release (logged (Throttled ms) (acquire a)) else a)"

definition CalculateFull :: "excel_session \<Rightarrow> apartment \<Rightarrow> harness_error option \<times> apartment" where
  "CalculateFull x a = (if calcOk x then None else Some CalcFailed, logged Recalculated a)"

text \<open>A cell's range is held while it is used.\<close>

definition with_range :: "bool \<Rightarrow> string \<Rightarrow> (apartment \<Rightarrow> (harness_error + 'a) \<times> apartment) \<Rightarrow> apartment \<Rightarrow> (harness_error + 'a) \<times> apartment" where
  "with_range ok cellAddr body a = (if \<not> ok then (Inl (NoRange cellAddr), a) else (case body (acquire a) of (r, a) \<Rightarrow> (r, Release a)))"

definition SetCellFormula :: "excel_session \<Rightarrow> string \<Rightarrow> string \<Rightarrow> apartment \<Rightarrow> (harness_error + unit) \<times> apartment" where
  "SetCellFormula x cellAddr formula =
     with_range (rangeOk x cellAddr) cellAddr
       (\<lambda>a. (if formulaOk x cellAddr formula then Inr () else Inl (FormulaFailed cellAddr), logged (WroteFormula cellAddr formula) a))"

definition GetCellValue :: "go_value option option \<Rightarrow> string \<Rightarrow> apartment \<Rightarrow> (harness_error + go_value) \<times> apartment" where
  "GetCellValue reading cellAddr =
     with_range (reading \<noteq> None) cellAddr
       (\<lambda>a. (case reading of Some (Some v) \<Rightarrow> Inr v | _ \<Rightarrow> Inl (CellUnreadable cellAddr), a))"

definition GetCellNumberFormat :: "go_value option option \<Rightarrow> string \<Rightarrow> apartment \<Rightarrow> (harness_error + string) \<times> apartment" where
  "GetCellNumberFormat reading cellAddr =
     with_range (reading \<noteq> None) cellAddr
       (\<lambda>a. (case reading of
               Some (Some v) \<Rightarrow> Inr (case v of GoString s \<Rightarrow> s | _ \<Rightarrow> '''')
             | _ \<Rightarrow> Inl (CellUnreadable cellAddr), a))"

definition SetCellNumberFormat :: "excel_session \<Rightarrow> string \<Rightarrow> string \<Rightarrow> apartment \<Rightarrow> (harness_error + unit) \<times> apartment" where
  "SetCellNumberFormat x cellAddr format =
     with_range (rangeOk x cellAddr) cellAddr
       (\<lambda>a. (if formatOk x cellAddr format then Inr () else Inl (FormatFailed cellAddr), logged (WroteFormat cellAddr format) a))"

subsection \<open>Driving Excel (smoketest.go)\<close>

record case_result =
  Label :: string
  Formula :: string
  Want :: int
  Got :: "go_value option"
  Err :: "harness_error option"

definition formula_cases :: "case_result list" where
  "formula_cases =
     [\<lparr>Label = ''sync'', Formula = ''=Add(2,3)'', Want = 5, Got = None, Err = None\<rparr>,
      \<lparr>Label = ''async'', Formula = ''=AsyncAdd(7,8)'', Want = 15, Got = None, Err = None\<rparr>,
      \<lparr>Label = ''rtd'', Formula = ''=RtdTick(6)'', Want = 42, Got = None, Err = None\<rparr>]"

definition case_cells :: "string list" where "case_cells = [''A1'', ''A2'', ''A3'']"

fun write_formulas :: "excel_session \<Rightarrow> (string \<times> case_result) list \<Rightarrow> apartment \<Rightarrow> case_result list \<times> apartment" where
  "write_formulas x [] a = ([], a)"
| "write_formulas x ((cell, c) # rest) a =
     (let (r, a) = SetCellFormula x cell (Formula c) a; (cs, a) = write_formulas x rest a
      in ((case r of Inl e \<Rightarrow> c\<lparr>Err := Some e\<rparr> | Inr _ \<Rightarrow> c) # cs, a))"

text \<open>Reading a cell leaves the apartment as it is (\<open>cell_io_balanced\<close> below). None: the poll does not return.\<close>

definition poll_case :: "(f64 \<Rightarrow> int) \<Rightarrow> excel_session \<Rightarrow> int \<Rightarrow> apartment \<Rightarrow> string \<times> case_result \<Rightarrow> case_result option" where
  "poll_case undef x calcTimeout a = (\<lambda>(cell, c).
     if Err c \<noteq> None then Some c
     else map_option (\<lambda>(n, got, err). c\<lparr>Got := Some got, Err := err\<rparr>)
            (PollUntilNumeric undef (\<lambda>i. fst (GetCellValue (readings x cell i) cell a)) (pollClock x cell) (pollStart x cell) cell calcTimeout))"

definition command_case :: "excel_session \<Rightarrow> int \<Rightarrow> apartment \<Rightarrow> (case_result \<times> apartment) option" where
  "command_case x calcTimeout a =
     (let c = \<lparr>Label = ''command'', Formula = '''', Want = 1, Got = None, Err = None\<rparr>; a = logged SentinelRemoved a
      in case RunCommand x ''SmokeCommand'' a of
           (Some e, a) \<Rightarrow> Some (c\<lparr>Err := Some e\<rparr>, a)
         | (None, a) \<Rightarrow>
             map_option (\<lambda>(n, err). (c\<lparr>Got := Some (GoInt32 n), Err := err\<rparr>, a))
               (waitForSentinel (sentinelThere x) (sentinelClock x) (sentinelStart x) calcTimeout))"

definition clear_cells :: "excel_session \<Rightarrow> apartment \<Rightarrow> apartment" where
  "clear_cells x a = snd (CalculateFull x (foldl (\<lambda>a cell. snd (SetCellFormula x cell '''' a)) a case_cells))"

definition drive_cells :: "(f64 \<Rightarrow> int) \<Rightarrow> excel_session \<Rightarrow> int \<Rightarrow> apartment \<Rightarrow> ((case_result list \<times> harness_error option) \<times> apartment) option" where
  "drive_cells undef x calcTimeout a =
     (let (cases, a) = write_formulas x (zip case_cells formula_cases) a
      in case CalculateFull x a of
           (Some e, a) \<Rightarrow> Some ((cases, Some e), a)
         | (None, a) \<Rightarrow>
             (case those (map (poll_case undef x calcTimeout a) (zip case_cells cases)) of
                None \<Rightarrow> None
              | Some cases \<Rightarrow>
                  (case command_case x calcTimeout a of
                     None \<Rightarrow> None
                   | Some (c, a) \<Rightarrow> Some ((cases @ [c], None), clear_cells x a))))"

definition drive_book :: "(f64 \<Rightarrow> int) \<Rightarrow> excel_session \<Rightarrow> string \<Rightarrow> int \<Rightarrow> apartment \<Rightarrow> ((case_result list \<times> harness_error option) \<times> apartment) option" where
  "drive_book undef x xllPath calcTimeout a =
     (case RegisterXLL x xllPath a of
        (Inl e, a) \<Rightarrow> Some (([], Some e), a)
      | (Inr ok, a) \<Rightarrow>
          if \<not> ok then Some (([], Some Rejected), a)
          else
            (case AddWorkbook x (SetRtdThrottle x 100 a) of
               (Some e, a) \<Rightarrow> Some (([], Some e), a)
             | (None, a) \<Rightarrow>
                 if \<not> sheetOk x then Some (([], Some NoSheet), Release a)
                 else map_option (\<lambda>(r, a). (r, Release (Release a))) (drive_cells undef x calcTimeout (acquire a))))"

definition driveExcel :: "(f64 \<Rightarrow> int) \<Rightarrow> excel_session \<Rightarrow> string \<Rightarrow> int \<Rightarrow> apartment \<Rightarrow> ((case_result list \<times> harness_error option) \<times> apartment) option" where
  "driveExcel undef x xllPath calcTimeout a =
     (case openExcel x a of
        (Inl e, a) \<Rightarrow> Some (([], Some e), a)
      | (Inr app, a) \<Rightarrow>
          (case drive_book undef x xllPath calcTimeout a of
             None \<Rightarrow> None
           | Some (r, a) \<Rightarrow> map_option (\<lambda>(app, a). (r, a)) (Close_excel x app a)))"

subsection \<open>What a session leaves\<close>

text \<open>A step that takes nothing it does not give back, and only adds to what was asked for, satisfying \<open>P\<close>.\<close>

definition balanced :: "(excel_op \<Rightarrow> bool) \<Rightarrow> apartment \<Rightarrow> apartment \<Rightarrow> bool" where
  "balanced P a b \<longleftrightarrow> lockDepth b = lockDepth a \<and> comDepth b = comDepth a \<and> held b = held a \<and> (\<exists>xs. ops b = ops a @ xs \<and> list_all P xs)"

abbreviation working :: "apartment \<Rightarrow> apartment \<Rightarrow> bool" where "working \<equiv> balanced (\<lambda>x. x \<noteq> AskedToQuit)"

lemma balanced_refl [simp]: "balanced P a a" by (simp add: balanced_def)

lemma balanced_trans: "balanced P a b \<Longrightarrow> balanced P b c \<Longrightarrow> balanced P a c"
  unfolding balanced_def by (metis append_assoc list_all_append)

lemma balanced_logged: "P x \<Longrightarrow> balanced P a (logged x a)" by (simp add: balanced_def logged_def)

lemma working_logged [simp]: "x \<noteq> AskedToQuit \<Longrightarrow> working a (logged x a)" by (simp add: balanced_logged)

lemma balanced_bracket: "balanced P (acquire a) b \<Longrightarrow> balanced P a (Release b)"
  by (auto simp: balanced_def acquire_def Release_def)

lemma with_range_balanced: "(\<And>a. balanced P a (snd (body a))) \<Longrightarrow> balanced P a (snd (with_range ok c body a))"
proof (cases ok)
  case True
  assume body: "\<And>a. balanced P a (snd (body a))"
  obtain r b where "body (acquire a) = (r, b)" by (cases "body (acquire a)")
  then show ?thesis using True balanced_bracket [OF body [of "acquire a"]] by (simp add: with_range_def)
qed (simp add: with_range_def)

lemma cell_io_balanced:
  "working a (snd (SetCellFormula x c f a))" "working a (snd (SetCellNumberFormat x c f a))"
  "snd (GetCellValue r c a) = a" "snd (GetCellNumberFormat r c a) = a"
proof -
  show "working a (snd (SetCellFormula x c f a))" unfolding SetCellFormula_def by (rule with_range_balanced) simp
  show "working a (snd (SetCellNumberFormat x c f a))" unfolding SetCellNumberFormat_def by (rule with_range_balanced) simp
  show "snd (GetCellValue r c a) = a" "snd (GetCellNumberFormat r c a) = a"
    by (simp_all add: GetCellValue_def GetCellNumberFormat_def with_range_def acquire_def Release_def)
qed

lemma calls_balanced:
  "working a (snd (CalculateFull x a))" "working a (snd (RunCommand x n a))" "working a (snd (RegisterXLL x p a))"
  "working a (SetRtdThrottle x ms a)" "AddWorkbook x a = (Some e, b) \<Longrightarrow> working a b"
  "AddWorkbook x a = (None, b) \<Longrightarrow> working (acquire a) b"
  by (auto simp: CalculateFull_def RunCommand_def RegisterXLL_def SetRtdThrottle_def AddWorkbook_def Let_def apartment_defs balanced_def
      split: if_splits)

lemma write_formulas_balanced: "working a (snd (write_formulas x cs a))"
proof (induction x cs a rule: write_formulas.induct)
  case (2 x cell c rest a)
  obtain r a1 where set: "SetCellFormula x cell (Formula c) a = (r, a1)" by fastforce
  obtain cs a2 where rest: "write_formulas x rest a1 = (cs, a2)" by fastforce
  have "working a a1" using cell_io_balanced(1) [of a x cell "Formula c"] by (simp add: set)
  moreover have "working a1 a2" using 2 [of "(r, a1)" r a1] by (simp add: set rest)
  ultimately have "working a a2" by (rule balanced_trans)
  then show ?case by (simp add: set rest Let_def)
qed simp

lemma clear_cells_balanced: "working a (clear_cells x a)"
proof -
  have "working a (foldl (\<lambda>a cell. snd (SetCellFormula x cell '''' a)) a cells)" for cells
    by (induction cells arbitrary: a) (auto intro: balanced_trans cell_io_balanced(1))
  then show ?thesis unfolding clear_cells_def using calls_balanced(1) by (rule balanced_trans)
qed

lemma command_case_balanced: "command_case x t a = Some (c, b) \<Longrightarrow> working a b"
  by (auto simp: command_case_def RunCommand_def Let_def split: if_splits)
     (auto simp: balanced_def logged_def)

lemma drive_cells_balanced:
  assumes "drive_cells undef x t a = Some (r, b)"
  shows "working a b"
proof -
  obtain cases a1 where w: "write_formulas x (zip case_cells formula_cases) a = (cases, a1)" by fastforce
  obtain e a2 where c: "CalculateFull x a1 = (e, a2)" by fastforce
  have a2: "working a a2"
    using balanced_trans [OF write_formulas_balanced calls_balanced(1)] w c by (metis snd_conv)
  show ?thesis
  proof (cases e)
    case None
    then obtain c' a3 where "command_case x t a2 = Some (c', a3)" "b = clear_cells x a3"
      using assms by (auto simp: drive_cells_def w c Let_def split: option.splits)
    then show ?thesis using balanced_trans [OF a2 balanced_trans [OF command_case_balanced clear_cells_balanced]] by blast
  qed (use assms a2 in \<open>simp add: drive_cells_def w c\<close>)
qed

lemma drive_book_balanced:
  assumes "drive_book undef x p t a = Some (r, b)"
  shows "working a b"
proof -
  obtain ok a1 where reg: "RegisterXLL x p a = (ok, a1)" by fastforce
  have a1: "working a a1" using calls_balanced(3) reg by (metis snd_conv)
  obtain e a2 where add: "AddWorkbook x (SetRtdThrottle x 100 a1) = (e, a2)" by fastforce
  note start = balanced_trans [OF a1 calls_balanced(4)]
  show ?thesis
  proof (cases "ok = Inr True \<and> e = None")
    case True
    then have a2: "working (acquire (SetRtdThrottle x 100 a1)) a2" using add calls_balanced(6) by blast
    have "working (SetRtdThrottle x 100 a1) b"
    proof (cases "sheetOk x")
      case sheet: True
      then obtain a3 where a3: "drive_cells undef x t (acquire a2) = Some (r, a3)" "b = Release (Release a3)"
        using assms True by (auto simp: drive_book_def reg add)
      from a3(1) have "working a2 (Release a3)" by (rule balanced_bracket [OF drive_cells_balanced])
      from balanced_bracket [OF balanced_trans [OF a2 this]] show ?thesis by (simp only: a3(2))
    qed (use assms True balanced_bracket [OF a2] in \<open>simp add: drive_book_def reg add\<close>)
    then show ?thesis by (rule balanced_trans [OF start])
  next
    case False
    then show ?thesis using assms a1 balanced_trans [OF start calls_balanced(5)] add
      by (auto simp: drive_book_def reg split: sum.splits if_splits option.splits)
  qed
qed

lemma mark_saved_balanced: "working a (mark_saved i bs a)"
proof (induction i bs a rule: mark_saved.induct)
  case (2 i b bs a)
  have "working a (if b then Release (logged (MarkedSaved i) (acquire a)) else a)" by (simp add: balanced_bracket)
  then show ?case unfolding mark_saved.simps using 2 by (rule balanced_trans)
qed simp

text \<open>Closing lets the thread, COM and Excel go once, and asks Excel to quit once; closing again does neither.\<close>

lemma Close_excel_once:
  assumes "Close_excel x app a = Some (app', b)" "connected app" "\<not> tornDown app"
  shows "lockDepth b = lockDepth a - 1 \<and> comDepth b = comDepth a - 1 \<and> held b = held a - 1 \<and>
    \<not> connected app' \<and> tornDown app' \<and> (\<exists>xs. ops b = ops a @ xs \<and> count_list xs AskedToQuit = 1)"
proof -
  let ?a = "case openBooks x of None \<Rightarrow> a | Some bs \<Rightarrow> Release (mark_saved 1 bs (acquire a))"
  have w: "working a ?a" by (auto split: option.split intro: balanced_bracket mark_saved_balanced)
  then obtain xs where xs: "ops ?a = ops a @ xs" "list_all (\<lambda>x. x \<noteq> AskedToQuit) xs" by (auto simp: balanced_def)
  then have "count_list xs AskedToQuit = 0" by (auto simp: list_all_iff count_list_0_iff)
  moreover obtain ys where "ops b = ops ?a @ AskedToQuit # ys" "count_list ys AskedToQuit = 0"
    "lockDepth b = lockDepth ?a - 1 \<and> comDepth b = comDepth ?a - 1 \<and> held b = held ?a - 1 \<and> \<not> connected app' \<and> tornDown app'"
    using assms by (auto simp: Close_excel_def disconnect_def Let_def apartment_defs split: option.splits if_splits)
  ultimately show ?thesis using w xs by (auto simp: balanced_def intro!: exI [of _ "xs @ AskedToQuit # ys"])
qed

lemma Close_excel_again: "Close_excel x app a = Some (app', b) \<Longrightarrow> \<not> connected app \<Longrightarrow> tornDown app \<Longrightarrow> app' = app \<and> working a b"
  by (auto simp: Close_excel_def disconnect_def Let_def balanced_def logged_def split: option.splits if_splits)

lemma openExcel_ops:
  "openExcel x a = (Inl e, b) \<Longrightarrow> b = a"
  "openExcel x a = (Inr app, b) \<Longrightarrow> connected app \<and> \<not> tornDown app \<and> lockDepth b = lockDepth a + 1 \<and> comDepth b = comDepth a + 1 \<and>
     held b = held a + 1 \<and> (\<exists>xs. ops b = ops a @ xs \<and> count_list xs AskedToQuit = 0)"
  by (auto simp: openExcel_def Let_def apartment_defs split: if_splits)

text \<open>A session that returns leaves the thread as it found it and no dispatch held, and an Excel that was opened was asked to quit
  exactly once.\<close>

lemma driveExcel_restores:
  assumes "driveExcel undef x p t a = Some (r, b)"
  shows "lockDepth b = lockDepth a \<and> comDepth b = comDepth a \<and> held b = held a \<and>
    (\<exists>xs. ops b = ops a @ xs \<and> count_list xs AskedToQuit = (case fst (openExcel x a) of Inl e \<Rightarrow> 0 | Inr app \<Rightarrow> 1))"
proof (cases "openExcel x a")
  case (Pair res a1)
  show ?thesis
  proof (cases res)
    case (Inl e)
    then have "b = a" using assms Pair openExcel_ops(1) [of x a e a1] by (simp add: driveExcel_def)
    then show ?thesis using Inl Pair by (simp add: exI [of _ "[]"])
  next
    case (Inr app)
    then obtain a2 app' where d: "drive_book undef x p t a1 = Some (r, a2)" and c: "Close_excel x app a2 = Some (app', b)"
      using assms Pair by (auto simp: driveExcel_def split: option.splits)
    note opened = openExcel_ops(2) [OF Pair [unfolded Inr]]
    then obtain xs where xs: "ops a1 = ops a @ xs" "count_list xs AskedToQuit = 0" by blast
    from drive_book_balanced [OF d] obtain ys where ys: "ops a2 = ops a1 @ ys" "list_all (\<lambda>x. x \<noteq> AskedToQuit) ys"
      and a2: "lockDepth a2 = lockDepth a1 \<and> comDepth a2 = comDepth a1 \<and> held a2 = held a1" by (auto simp: balanced_def)
    have "count_list ys AskedToQuit = 0" using ys(2) by (auto simp: list_all_iff count_list_0_iff)
    moreover from Close_excel_once [OF c] opened obtain zs where "ops b = ops a2 @ zs" "count_list zs AskedToQuit = 1"
      and b: "lockDepth b = lockDepth a2 - 1 \<and> comDepth b = comDepth a2 - 1 \<and> held b = held a2 - 1" by blast
    ultimately have "\<exists>zs. ops b = ops a @ zs \<and> count_list zs AskedToQuit = 1" using xs ys
      by (intro exI [of _ "xs @ ys @ zs"]) simp
    then show ?thesis using b a2 opened by (simp add: Pair Inr)
  qed
qed

text \<open>And it returns: each of its polls and the wait for Excel's end has a clock that goes on.\<close>

definition clocks_advance :: "excel_session \<Rightarrow> bool" where
  "clocks_advance x \<longleftrightarrow>
     (\<forall>c. \<exists>d. advances (pollClock x c) d) \<and> (\<exists>d. advances (sentinelClock x) d) \<and> (\<exists>d. advances (killClock x) d)"

lemma those_None: "those xs = None \<longleftrightarrow> None \<in> set xs"
  by (induction xs) (auto split: option.splits)

lemma drive_cells_returns: "clocks_advance x \<Longrightarrow> drive_cells undef x t a \<noteq> None"
proof -
  assume x: "clocks_advance x"
  have "poll_case undef x t b c \<noteq> None" for b c
  proof (cases c)
    case (Pair cell k)
    then obtain d where "advances (pollClock x cell) d" using x by (auto simp: clocks_advance_def)
    then show ?thesis using Pair waits_return(1) by (simp add: poll_case_def)
  qed
  moreover have "command_case x t b \<noteq> None" for b
    using x waits_return(2) by (auto simp: command_case_def clocks_advance_def Let_def split: prod.split option.split)
  ultimately show ?thesis
    by (auto simp: drive_cells_def those_None image_iff simp del: not_None_eq split: prod.split option.split dest: sym)
qed

lemma driveExcel_returns: "clocks_advance x \<Longrightarrow> \<exists>r b. driveExcel undef x p t a = Some (r, b)"
proof -
  assume x: "clocks_advance x"
  have "drive_book undef x p t b \<noteq> None" for b
    using drive_cells_returns [OF x] by (auto simp: drive_book_def split: prod.split sum.split option.split)
  moreover have "Close_excel x app b \<noteq> None" for app b
  proof -
    obtain d where "advances (killClock x) d" using x by (auto simp: clocks_advance_def)
    from waits_return(3) [OF this] have "\<exists>y. processAlive (tasks x) (killClock x) (killStart x) 5000 = Some y" by auto
    then show ?thesis by (auto simp: Close_excel_def Let_def split: prod.split)
  qed
  ultimately have "driveExcel undef x p t a \<noteq> None"
    by (auto simp: driveExcel_def simp del: not_None_eq split: prod.split sum.split option.split)
  then show ?thesis by auto
qed

subsection \<open>The build (build.go)\<close>

text \<open>The machine: \<open>execute\<close> runs a command in a directory, \<open>session\<close> is the Excel that is there, \<open>afterExcel\<close> what it and the
  add-in leave on disk; \<open>callerFile\<close> is the source file of the harness, \<open>keepDir\<close> and \<open>typesSource\<close> environment variables.\<close>

record machine =
  execute :: "path \<Rightarrow> string list \<Rightarrow> tree \<Rightarrow> bool \<times> tree"
  showPath :: "path \<Rightarrow> string"
  absolutePath :: "path \<Rightarrow> path option"
  callerFile :: "path option"
  keepDir :: "path option"
  freshTemp :: "path option"
  typesSource :: string
  smokeYaml :: string
  smokeServer :: string
  session :: "tree \<Rightarrow> excel_session"
  afterExcel :: "tree \<Rightarrow> tree"

definition runIn :: "machine \<Rightarrow> path \<Rightarrow> harness_error \<Rightarrow> string list \<Rightarrow> harness_error step" where
  "runIn m dir e cmd t = (if fst (execute m dir cmd t) then None else Some e, snd (execute m dir cmd t))"

definition prepareProject :: "file_system \<Rightarrow> machine \<Rightarrow> path \<Rightarrow> path \<Rightarrow> harness_error step" where
  "prepareProject os m projectDir repoRoot =
     run_steps
       [MkdirAll os PrepareFailed projectDir,
        WriteFile os PrepareFailed (projectDir @ [''xll.yaml'']) (smokeYaml m),
        WriteFile os PrepareFailed (projectDir @ [''main.go'']) (smokeServer m),
        runIn m projectDir PrepareFailed [''go'', ''mod'', ''init'', ''xll_smoke''],
        runIn m projectDir PrepareFailed [''go'', ''mod'', ''edit'', ''-replace'', ''github.com/xll-gen/xll-gen='' @ showPath m repoRoot]]"

text \<open>\<open>load\<close> reads and decodes the xll.yaml of the project.\<close>

definition generateCode ::
  "file_system \<Rightarrow> 't tools \<Rightarrow> machine \<Rightarrow> (string \<Rightarrow> string) \<Rightarrow> (tree \<Rightarrow> Config option) \<Rightarrow> path \<Rightarrow> harness_error step" where
  "generateCode os tls m uuid load projectDir t =
     (case prepared uuid (load t) of
        Inl e \<Rightarrow> (Some (GenerateFailed e), t)
      | Inr cfg \<Rightarrow>
          lift_step (GenerateFailed \<circ> GenFailed)
            (Generate os tls cfg (showPath m projectDir) ''xll_smoke'' \<lparr>optDisablePidSuffix = False, DevMode = False, FlatcPath = ''''\<rparr>) t)"

definition buildServer :: "file_system \<Rightarrow> machine \<Rightarrow> path \<Rightarrow> string \<Rightarrow> tree \<Rightarrow> (harness_error + path) \<times> tree" where
  "buildServer os m projectDir name t =
     (let buildDir = projectDir @ [''build'']; exe = buildDir @ [name @ ''.exe'']
      in case run_steps
           [runIn m projectDir ServerFailed [''go'', ''mod'', ''tidy''], MkdirAll os ServerFailed buildDir,
            runIn m projectDir ServerFailed [''go'', ''build'', ''-o'', showPath m exe, ''main.go'']] t of
           (Some e, t) \<Rightarrow> (Inl e, t)
         | (None, t) \<Rightarrow> (Inr exe, t))"

definition cmake_args :: "machine \<Rightarrow> path \<Rightarrow> path \<Rightarrow> string \<Rightarrow> string list" where
  "cmake_args m srcDir bldDir fetchCache =
     [''-S'', showPath m srcDir, ''-B'', showPath m bldDir] @
     (if fetchCache \<noteq> '''' then [''-DFETCHCONTENT_BASE_DIR='' @ fetchCache] else []) @
     (if typesSource m \<noteq> '''' then [''-DFETCHCONTENT_SOURCE_DIR_TYPES='' @ typesSource m] else [])"

text \<open>\<open>filepath.Join\<close> resolves the \<open>..\<close> of the third place.\<close>

definition xll_candidates :: "path \<Rightarrow> path list" where
  "xll_candidates projectDir =
     (let srcDir = projectDir @ [''generated'', ''cpp'']; bldDir = srcDir @ [''build'']
      in [projectDir @ [''xll_smoke.xll''], srcDir @ [''xll_smoke.xll''], srcDir @ [''Release'', ''xll_smoke.xll''],
          bldDir @ [''xll_smoke.xll''], bldDir @ [''Release'', ''xll_smoke.xll'']])"

fun first_built :: "(path \<Rightarrow> path option) \<Rightarrow> tree \<Rightarrow> path list \<Rightarrow> path option" where
  "first_built absolute t [] = None"
| "first_built absolute t (c # cs) =
     (case absolute c of
        None \<Rightarrow> first_built absolute t cs
      | Some p \<Rightarrow> if t p \<noteq> None then Some p else first_built absolute t cs)"

definition buildXLL :: "machine \<Rightarrow> path \<Rightarrow> string \<Rightarrow> tree \<Rightarrow> (harness_error + path) \<times> tree" where
  "buildXLL m projectDir fetchCache t =
     (let srcDir = projectDir @ [''generated'', ''cpp'']; bldDir = srcDir @ [''build'']
      in case run_steps
           [runIn m projectDir XllFailed (''cmake'' # cmake_args m srcDir bldDir fetchCache),
            runIn m projectDir XllFailed [''cmake'', ''--build'', showPath m bldDir, ''--config'', ''Release'']] t of
           (Some e, t) \<Rightarrow> (Inl e, t)
         | (None, t) \<Rightarrow>
             (case first_built (absolutePath m) t (xll_candidates projectDir) of
                None \<Rightarrow> (Inl XllNotFound, t)
              | Some p \<Rightarrow> (Inr p, t)))"

definition colocateServer :: "file_system \<Rightarrow> path \<Rightarrow> path \<Rightarrow> tree \<Rightarrow> (harness_error + path) \<times> tree" where
  "colocateServer os xllPath serverExe t =
     (let target = butlast xllPath @ [last serverExe]
      in if target = serverExe then (Inr target, t)
         else
           (case (if readOk os serverExe then t serverExe else None) of
              None \<Rightarrow> (Inl ColocateFailed, t)
            | Some content \<Rightarrow>
                (case WriteFile os ColocateFailed target content t of
                   (Some e, t) \<Rightarrow> (Inl e, t)
                 | (None, t) \<Rightarrow> (Inr target, t))))"

subsection \<open>The smoke test (smoketest.go)\<close>

record smoke_options =
  RepoRoot :: "path option"
  WorkDir :: "path option"
  FetchContentCache :: string
  CalcTimeout :: int

record smoke_result =
  resErr :: "harness_error option"
  ProjectDir :: path
  XLLPath :: path
  ServerExe :: path
  Cases :: "case_result list"

definition case_failed :: "(f64 \<Rightarrow> int) \<Rightarrow> case_result \<Rightarrow> bool" where
  "case_failed undef c \<longleftrightarrow>
     (if Err c \<noteq> None then True
      else (case (case Got c of None \<Rightarrow> None | Some v \<Rightarrow> asInt32 undef v) of None \<Rightarrow> True | Some n \<Rightarrow> n \<noteq> Want c))"

definition HasFailure :: "(f64 \<Rightarrow> int) \<Rightarrow> smoke_result \<Rightarrow> bool" where
  "HasFailure undef r \<longleftrightarrow> (if resErr r \<noteq> None then True else list_ex (case_failed undef) (Cases r))"

definition deriveRepoRoot :: "machine \<Rightarrow> tree \<Rightarrow> path option" where
  "deriveRepoRoot m t =
     (case callerFile m of
        None \<Rightarrow> None
      | Some file \<Rightarrow>
          (let dir = butlast (butlast (butlast file))
           in case t (dir @ [''go.mod'']) of
                None \<Rightarrow> None
              | Some data \<Rightarrow> if contains_sub data ''module github.com/xll-gen/xll-gen'' then Some dir else None))"

text \<open>The directory to work in and whether it is removed at the end.\<close>

definition setupWorkDir :: "file_system \<Rightarrow> machine \<Rightarrow> path option \<Rightarrow> (path \<times> bool) option" where
  "setupWorkDir os m provided =
     (case provided of
        Some p \<Rightarrow> if mkdirOk os p then Some (p, False) else None
      | None \<Rightarrow>
          (case keepDir m of
             Some keep \<Rightarrow> if mkdirOk os keep then Some (keep, False) else None
           | None \<Rightarrow> (case freshTemp m of None \<Rightarrow> None | Some tmp \<Rightarrow> Some (tmp, True))))"

definition run_stages ::
  "(f64 \<Rightarrow> int) \<Rightarrow> file_system \<Rightarrow> 't tools \<Rightarrow> machine \<Rightarrow> (string \<Rightarrow> string) \<Rightarrow> (tree \<Rightarrow> Config option) \<Rightarrow> smoke_options \<Rightarrow> path \<Rightarrow>
     path \<Rightarrow> apartment \<Rightarrow> tree \<Rightarrow> (smoke_result \<times> apartment \<times> tree) option" where
  "run_stages undef os tls m uuid load opts repoRoot projectDir a t =
     (let res = \<lparr>resErr = None, ProjectDir = projectDir, XLLPath = [], ServerExe = [], Cases = []\<rparr>
      in case (if t (projectDir @ [''xll.yaml'']) = None then prepareProject os m projectDir repoRoot t else (None, t)) of
           (Some e, t) \<Rightarrow> Some (res\<lparr>resErr := Some e\<rparr>, a, t)
         | (None, t) \<Rightarrow>
      (case generateCode os tls m uuid load projectDir t of
           (Some e, t) \<Rightarrow> Some (res\<lparr>resErr := Some e\<rparr>, a, t)
         | (None, t) \<Rightarrow>
      (case buildServer os m projectDir ''xll_smoke'' t of
           (Inl e, t) \<Rightarrow> Some (res\<lparr>resErr := Some e\<rparr>, a, t)
         | (Inr serverExe, t) \<Rightarrow>
      (case buildXLL m projectDir (FetchContentCache opts) t of
           (Inl e, t) \<Rightarrow> Some (res\<lparr>resErr := Some e, ServerExe := serverExe\<rparr>, a, t)
         | (Inr xllPath, t) \<Rightarrow>
      (case colocateServer os xllPath serverExe t of
           (Inl e, t) \<Rightarrow> Some (res\<lparr>resErr := Some e, ServerExe := serverExe, XLLPath := xllPath\<rparr>, a, t)
         | (Inr colocated, t) \<Rightarrow>
      (case driveExcel undef (session m t) (showPath m xllPath) (if CalcTimeout opts = 0 then 30000 else CalcTimeout opts) a of
           None \<Rightarrow> None
         | Some ((cases, err), a) \<Rightarrow>
             Some (res\<lparr>resErr := err, ServerExe := colocated, XLLPath := xllPath, Cases := cases\<rparr>, a, afterExcel m t)))))))"

definition smoke_Run ::
  "(f64 \<Rightarrow> int) \<Rightarrow> file_system \<Rightarrow> 't tools \<Rightarrow> machine \<Rightarrow> (string \<Rightarrow> string) \<Rightarrow> (tree \<Rightarrow> Config option) \<Rightarrow> smoke_options \<Rightarrow>
     apartment \<Rightarrow> tree \<Rightarrow> (smoke_result \<times> apartment \<times> tree) option" where
  "smoke_Run undef os tls m uuid load opts a t =
     (let early = (\<lambda>e. Some (\<lparr>resErr = Some e, ProjectDir = [], XLLPath = [], ServerExe = [], Cases = []\<rparr>, a, t))
      in case (case RepoRoot opts of Some r \<Rightarrow> Some r | None \<Rightarrow> deriveRepoRoot m t) of
           None \<Rightarrow> early NoRoot
         | Some repoRoot \<Rightarrow>
             (case setupWorkDir os m (WorkDir opts) of
                None \<Rightarrow> early NoWorkDir
              | Some (workDir, cleanup) \<Rightarrow>
                  map_option (\<lambda>(res, a, t). (res, a, if cleanup then snd (RemoveAll os NoWorkDir workDir t) else t))
                    (run_stages undef os tls m uuid load opts repoRoot (workDir @ [''xll_smoke'']) a t)))"

subsection \<open>Runs\<close>

lemma case_passed: "\<not> case_failed undef c \<Longrightarrow> \<exists>v. Got c = Some v \<and> asInt32 undef v = Some (Want c)"
  by (cases "Got c"; cases "Err c") (auto simp: case_failed_def split: option.splits)

text \<open>A run returns when the clocks go on, and leaves the thread as it found it.\<close>

lemma smoke_Run_returns:
  assumes "\<And>t. clocks_advance (session m t)"
  shows "\<exists>res a' t'. smoke_Run undef os tls m uuid load opts a t = Some (res, a', t')"
proof -
  have "driveExcel undef (session m t) p timeout a \<noteq> None" for t p timeout using driveExcel_returns [OF assms] by fastforce
  then have "run_stages undef os tls m uuid load opts r d a t \<noteq> None" for r d
    unfolding run_stages_def by (auto simp: Let_def simp del: not_None_eq split: prod.split option.split sum.split)
  then have "smoke_Run undef os tls m uuid load opts a t \<noteq> None"
    unfolding smoke_Run_def by (auto simp: Let_def simp del: not_None_eq split: prod.split option.split)
  then show ?thesis by auto
qed

text \<open>The server is put next to the add-in with the content that was built.\<close>

lemma colocated_server:
  assumes "colocateServer os xll exe t = (Inr loc, t')"
  shows "butlast loc = butlast xll \<and> t' loc = t exe"
proof -
  have "loc = butlast xll @ [last exe]" using assms
    by (auto simp: colocateServer_def Let_def split: if_splits option.splits prod.splits)
  then have "butlast loc = butlast xll" by simp
  then show ?thesis using assms
    by (auto simp: colocateServer_def Let_def WriteFile_def split: if_splits option.splits write_outcome.splits)
qed

lemma run_stages_cases:
  assumes "run_stages undef os tls m uuid load opts r d a t = Some (res, b, t')"
  shows "resErr res \<noteq> None \<and> b = a \<and> Cases res = [] \<or>
    (\<exists>t2 p timeout. butlast (ServerExe res) = butlast (XLLPath res) \<and>
       driveExcel undef (session m t2) p timeout a = Some ((Cases res, resErr res), b))"
  using assms
  by (auto simp: run_stages_def Let_def split: prod.splits option.splits sum.splits dest!: colocated_server)

lemma smoke_Run_restores:
  assumes "smoke_Run undef os tls m uuid load opts a t = Some (res, b, t')"
  shows "lockDepth b = lockDepth a \<and> comDepth b = comDepth a \<and> held b = held a"
proof -
  consider "b = a" | r d t1 where "run_stages undef os tls m uuid load opts r d a t = Some (res, b, t1)"
    using assms by (auto simp: smoke_Run_def Let_def split: option.splits prod.splits)
  then show ?thesis by cases (auto dest!: run_stages_cases driveExcel_restores)
qed

text \<open>A run without a failure drove Excel, and each of the three formulas and the command gave the wanted number.\<close>

lemma write_formulas_keeps: "map Want (fst (write_formulas x cs a)) = map (Want \<circ> snd) cs"
proof (induction x cs a rule: write_formulas.induct)
  case (2 x cell c rest a)
  obtain r a1 where set: "SetCellFormula x cell (Formula c) a = (r, a1)" by fastforce
  obtain cs a2 where rest: "write_formulas x rest a1 = (cs, a2)" by fastforce
  show ?case using 2 [of "(r, a1)" r a1] by (simp add: set rest Let_def split: sum.split)
qed simp

lemma those_map: "those (map f xs) = Some ys \<Longrightarrow> list_all2 (\<lambda>x y. f x = Some y) xs ys"
  by (induction xs arbitrary: ys) (auto split: option.splits)

lemma drive_cells_wants:
  assumes "drive_cells undef x t a = Some ((cases, None), b)"
  shows "map Want cases = [5, 15, 42, 1]"
proof -
  obtain cs a1 where w: "write_formulas x (zip case_cells formula_cases) a = (cs, a1)" by fastforce
  then have cs: "map Want cs = [5, 15, 42]"
    using write_formulas_keeps [of x "zip case_cells formula_cases" a] by (simp add: case_cells_def formula_cases_def)
  then have len: "length cs = 3" using map_eq_imp_length_eq [of Want cs id "[5, 15, 42]"] by simp
  obtain a2 polled c a3 where p: "those (map (poll_case undef x t a2) (zip case_cells cs)) = Some polled"
    and c: "command_case x t a2 = Some (c, a3)" "cases = polled @ [c]"
    using assms by (auto simp: drive_cells_def w Let_def split: option.splits prod.splits)
  have "poll_case undef x t a2 k = Some y \<Longrightarrow> Want y = Want (snd k)" for k y
    by (cases k) (auto simp: poll_case_def split: if_splits)
  then have "list_all2 (\<lambda>k y. Want y = Want (snd k)) (zip case_cells cs) polled"
    by (intro list_all2_mono [OF those_map [OF p]])
  then have "map Want polled = map (Want \<circ> snd) (zip case_cells cs)" by (induction rule: list_all2_induct) auto
  also have "\<dots> = map Want cs" using len by (simp add: case_cells_def flip: map_map)
  finally have "map Want polled = [5, 15, 42]" using cs by simp
  moreover have "Want c = 1" using c(1) by (auto simp: command_case_def Let_def split: prod.splits option.splits)
  ultimately show ?thesis using c(2) by simp
qed

lemma driveExcel_no_error:
  assumes "driveExcel undef x p t a = Some ((cases, None), b)"
  shows "(\<exists>app. fst (openExcel x a) = Inr app) \<and> map Want cases = [5, 15, 42, 1]"
  using assms drive_cells_wants
  by (auto simp: driveExcel_def drive_book_def split: prod.splits sum.splits option.splits if_splits)

lemma no_failure_drove:
  assumes "smoke_Run undef os tls m uuid load opts a t = Some (res, b, t')" "\<not> HasFailure undef res"
  shows "butlast (ServerExe res) = butlast (XLLPath res) \<and> map Want (Cases res) = [5, 15, 42, 1] \<and>
    (\<forall>c \<in> set (Cases res). \<exists>v. Got c = Some v \<and> asInt32 undef v = Some (Want c))"
proof -
  have ok: "resErr res = None" "\<not> list_ex (case_failed undef) (Cases res)" using assms(2) by (auto simp: HasFailure_def split: if_splits)
  then obtain r d t1 where "run_stages undef os tls m uuid load opts r d a t = Some (res, b, t1)"
    using assms(1) by (auto simp: smoke_Run_def Let_def split: option.splits prod.splits)
  from run_stages_cases [OF this] ok(1) obtain t2 p timeout where
    "butlast (ServerExe res) = butlast (XLLPath res)" "driveExcel undef (session m t2) p timeout a = Some ((Cases res, None), b)" by auto
  then show ?thesis using driveExcel_no_error case_passed ok(2) by (fastforce simp: list_ex_iff)
qed

text \<open>A directory made for the run is removed whatever the run gave, also when it failed.\<close>

lemma temp_removed_on_failure:
  assumes "smoke_Run undef os tls m uuid load opts a t = Some (res, b, t')" "WorkDir opts = None" "keepDir m = None"
    "freshTemp m = Some tmp" "removeOk os tmp" "prefix tmp q" "(case RepoRoot opts of Some r \<Rightarrow> Some r | None \<Rightarrow> deriveRepoRoot m t) \<noteq> None"
  shows "t' q = None"
  using assms by (auto simp: smoke_Run_def setupWorkDir_def RemoveAll_def Let_def split: option.splits)

text \<open>A wrong 64-bit value whose low half is the wanted number counts as right.\<close>

lemma wide_value_passes:
  "\<not> case_failed undef \<lparr>Label = l, Formula = f, Want = 5, Got = Some (GoInt64 4294967301), Err = None\<rparr>"
  by (simp add: case_failed_def asInt32_def i32_def)




end
