(* ===== verification/Regression.thy ===== *)
theory Regression
  imports Harness
begin

section \<open>The regression test (internal/regtest)\<close>

text \<open>
  The program that generates a project, builds its server and a simulated host, and runs one against the other: the files
  it makes, which processes it starts, kills and reaps, and when a run passes. What the build tools and the two processes
  do is a parameter.
\<close>

subsection \<open>Preparing (prepare.go, generator.go)\<close>

datatype regtest_error =
    NoCMake | NoConfig | Rejects config_error | NoModuleName | GenerationFailed gen_error | TidyFailed | BuildFailed | BuildDirFailed
  | SimDirFailed | NoSimTemplate | SimParseFailed | SimWriteFailed | SimExecuteFailed | SimConfigFailed | SimBuildFailed
  | NoMockHost | NoPipe | HostNotStarted | NotReady | ServerNotStarted | SimulationFailed int

text \<open>\<open>loose\<close> decodes xll.yaml ignoring fields it does not know, \<open>strict\<close> is \<open>config.Load\<close>; \<open>simTemplate\<close> parses with the functions of
  the simulation; \<open>joinPaths\<close> and \<open>absOf\<close> are \<open>filepath.Join\<close> and \<open>filepath.Abs\<close>.\<close>

record 't bench =
  loose :: "tree \<Rightarrow> Config option"
  strict :: "tree \<Rightarrow> Config option"
  uuidOf :: "string \<Rightarrow> string"
  windows :: bool
  hasCMake :: bool
  simTemplate :: "string \<Rightarrow> 't option"
  joinPaths :: "string list \<Rightarrow> string"
  absOf :: "string \<Rightarrow> string option"
  isFile :: "tree \<Rightarrow> string \<Rightarrow> bool"
  command :: "string list \<Rightarrow> tree \<Rightarrow> bool \<times> tree"

definition runCommand :: "'t bench \<Rightarrow> regtest_error \<Rightarrow> string list \<Rightarrow> regtest_error step" where
  "runCommand b e cmd t = (if fst (command b cmd t) then None else Some e, snd (command b cmd t))"

text \<open>Its own copy of the generate command.\<close>

definition regtest_generate :: "file_system \<Rightarrow> 't tools \<Rightarrow> 't bench \<Rightarrow> path \<Rightarrow> regtest_error step" where
  "regtest_generate os tls b cwd t =
     (case loose b t of
        None \<Rightarrow> (Some NoConfig, t)
      | Some cfg \<Rightarrow>
          (let cfg = ApplyDefaults (uuidOf b) cfg
           in case Validate cfg of
                Some e \<Rightarrow> (Some (Rejects e), t)
              | None \<Rightarrow>
                  (case getModuleName (if readOk os (cwd @ [''go.mod'']) then t (cwd @ [''go.mod'']) else None) of
                     None \<Rightarrow> (Some NoModuleName, t)
                   | Some modName \<Rightarrow>
                       lift_step GenerationFailed
                         (Generate os tls cfg ''.'' modName \<lparr>optDisablePidSuffix = False, DevMode = False, FlatcPath = ''''\<rparr>) t)))"

definition buildGoServer :: "file_system \<Rightarrow> 't bench \<Rightarrow> path \<Rightarrow> Config \<Rightarrow> tree \<Rightarrow> (regtest_error + string) \<times> tree" where
  "buildGoServer os b cwd cfg t =
     (let serverBinName = ExeName (windows b) (projName (Project cfg)); serverPath = joinPaths b [''build'', serverBinName]
      in case run_steps
           [runCommand b TidyFailed [''go'', ''mod'', ''tidy''],
            MkdirAll os BuildDirFailed (cwd @ [''build'']),
            runCommand b BuildFailed [''go'', ''build'', ''-o'', serverPath, ''main.go'']] t of
           (Some e, t) \<Rightarrow> (Inl e, t)
         | (None, t) \<Rightarrow> (Inr serverPath, t))"

text \<open>The template is executed into the file it has created, so what it put out before it failed stays.\<close>

definition generateSimMain :: "file_system \<Rightarrow> 't tools \<Rightarrow> 't bench \<Rightarrow> Config \<Rightarrow> path \<Rightarrow> regtest_error step" where
  "generateSimMain os tls b cfg dir t =
     (case getTemplate tls ''regtest_main.cpp.tmpl'' of
        None \<Rightarrow> (Some NoSimTemplate, t)
      | Some content \<Rightarrow>
          (case simTemplate b content of
             None \<Rightarrow> (Some SimParseFailed, t)
           | Some tmpl \<Rightarrow>
               (case execTemplate tls tmpl (SchemaData cfg) of
                  Some out \<Rightarrow> WriteFile os SimWriteFailed (dir @ [''main.cpp'']) out t
                | None \<Rightarrow>
                    (Some SimExecuteFailed, snd (WriteFile os SimWriteFailed (dir @ [''main.cpp'']) (partialOutput tls tmpl (SchemaData cfg)) t)))))"

definition generateSimCMake :: "file_system \<Rightarrow> 't tools \<Rightarrow> path \<Rightarrow> regtest_error step" where
  "generateSimCMake os tls dir =
     (case getTemplate tls ''regtest_CMakeLists.txt.tmpl'' of
        None \<Rightarrow> fails NoSimTemplate
      | Some content \<Rightarrow> WriteFile os SimWriteFailed (dir @ [''CMakeLists.txt'']) content)"

definition buildSimulationHost :: "'t bench \<Rightarrow> string \<Rightarrow> regtest_error step" where
  "buildSimulationHost b simDir =
     run_steps
       [runCommand b SimConfigFailed [''cmake'', ''-S'', simDir, ''-B'', joinPaths b [simDir, ''build'']],
        runCommand b SimBuildFailed [''cmake'', ''--build'', joinPaths b [simDir, ''build''], ''--config'', ''Release'']]"

subsection \<open>The simulation (runner.go)\<close>

datatype process_event = HostStarted string | HostKilled | HostReaped | ServerStarted string "string list" | ServerKilled | ServerReaped

text \<open>How the wait for the host ends: it exited without an error, with an exit error and its code, with another error, or thirty
  seconds passed. \<open>hostLines\<close> is the lines that can be read from it.\<close>

datatype host_end = HostOk | HostExit int | HostBroken | HostTimeout

record simulation =
  pipeOk :: bool
  hostStarts :: bool
  hostLines :: "string list"
  serverStarts :: bool
  hostEnd :: host_end

definition sim_exit_code :: "host_end \<Rightarrow> int" where
  "sim_exit_code e = (case e of HostOk \<Rightarrow> 0 | HostExit c \<Rightarrow> c | HostBroken \<Rightarrow> 1 | HostTimeout \<Rightarrow> 1)"

text \<open>The processes' events in order; the deferred kills run in reverse order of their starts.\<close>

definition runSimulation :: "string option \<Rightarrow> simulation \<Rightarrow> Config \<Rightarrow> string \<Rightarrow> regtest_error option \<times> process_event list" where
  "runSimulation mockPath s cfg serverPath =
     (case mockPath of
        None \<Rightarrow> (Some NoMockHost, [])
      | Some host \<Rightarrow>
          if \<not> pipeOk s then (Some NoPipe, [])
          else if \<not> hostStarts s then (Some HostNotStarted, [])
          else if \<not> list_ex (\<lambda>line. contains_sub line ''READY'') (hostLines s) then (Some NotReady, [HostStarted host, HostKilled, HostReaped])
          else if \<not> serverStarts s then (Some ServerNotStarted, [HostStarted host, HostKilled, HostReaped])
          else
            (let waited = (case hostEnd s of HostTimeout \<Rightarrow> [HostKilled, HostReaped] | _ \<Rightarrow> [HostReaped]);
                 exitCode = sim_exit_code (hostEnd s)
             in (if exitCode = 0 then None else Some (SimulationFailed exitCode),
                 [HostStarted host, ServerStarted serverPath [''-xll-shm='' @ projName (Project cfg)]] @ waited @
                 [ServerKilled, ServerReaped] @ [HostKilled, HostReaped])))"

text \<open>\<open>host\<close> gives the processes' behaviour on the files that were built.\<close>

definition regtest_Run :: "file_system \<Rightarrow> 't tools \<Rightarrow> 't bench \<Rightarrow> (tree \<Rightarrow> simulation) \<Rightarrow> path \<Rightarrow> tree \<Rightarrow> (regtest_error option \<times> process_event list) \<times> tree" where
  "regtest_Run os tls b host cwd t =
     (if \<not> hasCMake b then ((Some NoCMake, []), t)
      else case regtest_generate os tls b cwd t of
        (Some e, t) \<Rightarrow> ((Some e, []), t)
      | (None, t) \<Rightarrow>
      (case strict b t of
        None \<Rightarrow> ((Some NoConfig, []), t)
      | Some cfg \<Rightarrow>
      (let cfg = ApplyDefaults (uuidOf b) cfg; simDir = ''temp_regtest''; dir = cwd @ [simDir]
       in case buildGoServer os b cwd cfg t of
        (Inl e, t) \<Rightarrow> ((Some e, []), t)
      | (Inr serverPath, t) \<Rightarrow>
      (case run_steps
         [MkdirAll os SimDirFailed dir, generateSimMain os tls b cfg dir, generateSimCMake os tls dir, buildSimulationHost b simDir] t of
        (Some e, t) \<Rightarrow> ((Some e, []), t)
      | (None, t) \<Rightarrow> (runSimulation
           (FindBuiltExe (windows b) (joinPaths b) (absOf b) (isFile b t) (joinPaths b [simDir, ''build'']) ''mock_host'') (host t) cfg serverPath, t)))))"

subsection \<open>Processes and passes\<close>

text \<open>At any point of the run, the processes that were started and not yet reaped.\<close>

definition host_alive :: "process_event list \<Rightarrow> bool" where
  "host_alive evs \<longleftrightarrow> (\<exists>p. HostStarted p \<in> set evs) \<and> HostReaped \<notin> set evs"

definition server_alive :: "process_event list \<Rightarrow> bool" where
  "server_alive evs \<longleftrightarrow> (\<exists>p args. ServerStarted p args \<in> set evs) \<and> ServerReaped \<notin> set evs"

text \<open>No process outlives the run, a server is killed before it is reaped, and a pass needs a host that said it was ready and exited
  with code 0.\<close>

lemma processes_reaped:
  assumes "runSimulation path s cfg server = (res, evs)"
  shows "\<not> host_alive evs \<and> \<not> server_alive evs \<and>
    (res = None \<longleftrightarrow> path \<noteq> None \<and> pipeOk s \<and> hostStarts s \<and> list_ex (\<lambda>line. contains_sub line ''READY'') (hostLines s) \<and>
       serverStarts s \<and> sim_exit_code (hostEnd s) = 0)"
  using assms
  by (auto simp: runSimulation_def Let_def host_alive_def server_alive_def split: option.splits if_splits host_end.splits)

lemma regtest_processes_reaped: "regtest_Run os tls b host cwd t = ((res, evs), t') \<Longrightarrow> \<not> host_alive evs \<and> \<not> server_alive evs"
proof -
  have none: "\<not> host_alive [] \<and> \<not> server_alive []" by (simp add: host_alive_def server_alive_def)
  assume "regtest_Run os tls b host cwd t = ((res, evs), t')"
  then consider "evs = []" | path s cfg server where "runSimulation path s cfg server = (res, evs)"
    by (auto simp: regtest_Run_def Let_def split: option.splits prod.splits sum.splits if_splits)
  then show ?thesis by cases (use none processes_reaped in blast)+
qed

text \<open>A pass means that the project was accepted and generated, that the strict reading accepts it too, and that the built server
  ran under the project's name against a host that exited with code 0.\<close>

lemma generate_ok:
  "regtest_generate os tls b cwd t = (None, t') \<Longrightarrow>
     \<exists>cfg. loose b t = Some cfg \<and> Validate (ApplyDefaults (uuidOf b) cfg) = None"
  by (auto simp: regtest_generate_def Let_def split: option.splits)

lemma buildGoServer_path: "buildGoServer os b cwd cfg t = (Inr p, t') \<Longrightarrow> p = joinPaths b [''build'', ExeName (windows b) (projName (Project cfg))]"
  by (auto simp: buildGoServer_def Let_def split: prod.splits option.splits)

lemma simulation_pass:
  "runSimulation path s cfg server = (None, evs) \<Longrightarrow>
     sim_exit_code (hostEnd s) = 0 \<and> ServerStarted server [''-xll-shm='' @ projName (Project cfg)] \<in> set evs"
  by (auto simp: runSimulation_def Let_def split: option.splits if_splits)

lemma regtest_pass:
  assumes "regtest_Run os tls b host cwd t = ((None, evs), t')"
  shows "\<exists>cfg cfg' t1. loose b t = Some cfg \<and> Validate (ApplyDefaults (uuidOf b) cfg) = None \<and>
    regtest_generate os tls b cwd t = (None, t1) \<and> strict b t1 = Some cfg' \<and> sim_exit_code (hostEnd (host t')) = 0 \<and>
    ServerStarted (joinPaths b [''build'', ExeName (windows b) (projName (Project (ApplyDefaults (uuidOf b) cfg')))])
      [''-xll-shm='' @ projName (Project (ApplyDefaults (uuidOf b) cfg'))] \<in> set evs"
proof -
  obtain t1 where g: "regtest_generate os tls b cwd t = (None, t1)"
    using assms by (auto simp: regtest_Run_def split: if_splits prod.splits option.splits)
  from generate_ok [OF g] obtain cfg where c: "loose b t = Some cfg" "Validate (ApplyDefaults (uuidOf b) cfg) = None" by blast
  obtain cfg' where s: "strict b t1 = Some cfg'" using assms g by (auto simp: regtest_Run_def split: if_splits option.splits)
  let ?cfg = "ApplyDefaults (uuidOf b) cfg'"
  obtain p t2 where b: "buildGoServer os b cwd ?cfg t1 = (Inr p, t2)"
    using assms g s by (auto simp: regtest_Run_def Let_def split: if_splits prod.splits sum.splits)
  then obtain path where r: "runSimulation path (host t') ?cfg p = (None, evs)"
    using assms g s by (auto simp: regtest_Run_def Let_def split: if_splits prod.splits option.splits)
  from g c s simulation_pass [OF r] buildGoServer_path [OF b] show ?thesis by blast
qed

text \<open>The generation decodes loosely: a project whose xll.yaml has a field that does not exist is generated before the strict
  reading refuses it.\<close>

lemma unknown_field_generates:
  assumes "hasCMake b" "regtest_generate os tls b cwd t = (None, t1)" "strict b t1 = None"
  shows "regtest_Run os tls b host cwd t = ((Some NoConfig, []), t1)"
  using assms by (simp add: regtest_Run_def)

end
