(* ===== verification/Command_Line.thy ===== *)
theory Command_Line
  imports Toolchain
begin

section \<open>The command line (internal/ui, cmd/build.go, cmd/doctor.go)\<close>

text \<open>
  What the command line prints and runs: the report lines with and without colours, the spinner and its goroutine, the
  build command, and the part of the diagnosis that may install a compiler. A printed line is a value.
\<close>

subsection \<open>Report lines (internal/ui/ui.go)\<close>

record colors =
  Reset :: string
  Red :: string
  Green :: string
  Yellow :: string
  Cyan :: string
  Bold :: string

definition ansi :: "string \<Rightarrow> string" where "ansi code = CHR 0x1B # ''['' @ code @ ''m''"

definition SetColorEnabled :: "bool \<Rightarrow> colors" where
  "SetColorEnabled on =
     (if on then \<lparr>Reset = ansi ''0'', Red = ansi ''31'', Green = ansi ''32'', Yellow = ansi ''33'', Cyan = ansi ''36'', Bold = ansi ''1''\<rparr>
      else \<lparr>Reset = '''', Red = '''', Green = '''', Yellow = '''', Cyan = '''', Bold = ''''\<rparr>)"

text \<open>Standard output as a file: absent, not to be examined, or a file that is or is not a character device.\<close>

datatype out_file = NilFile | StatFails | CharDevice bool

definition colorEnabledFor :: "out_file \<Rightarrow> bool \<Rightarrow> bool" where
  "colorEnabledFor f noColorSet =
     (if noColorSet then False
      else (case f of NilFile \<Rightarrow> False | StatFails \<Rightarrow> False | CharDevice device \<Rightarrow> device))"

text \<open>\<open>%-15s\<close> pads to fifteen runes.\<close>

definition pad15 :: "string \<Rightarrow> string" where
  "pad15 s = s @ replicate (15 - length (runes s)) CHR '' ''"

definition check_mark :: string where "check_mark = [CHR 0xE2, CHR 0x9C, CHR 0x94]"
definition cross_mark :: string where "cross_mark = [CHR 0xE2, CHR 0x9C, CHR 0x98]"

definition PrintHeader :: "colors \<Rightarrow> string \<Rightarrow> string" where
  "PrintHeader c msg = [CHR 0x0A] @ Bold c @ msg @ Reset c @ [CHR 0x0A]"

definition report_line :: "colors \<Rightarrow> string \<Rightarrow> string \<Rightarrow> string \<Rightarrow> string \<Rightarrow> string" where
  "report_line c color mark label detail =
     ''  '' @ color @ mark @ Reset c @ '' '' @ pad15 label @ '' '' @ color @ (detail @ Reset c) @ [CHR 0x0A]"

definition PrintSuccess :: "colors \<Rightarrow> string \<Rightarrow> string \<Rightarrow> string" where
  "PrintSuccess c label detail = report_line c (Green c) check_mark label detail"

definition PrintError :: "colors \<Rightarrow> string \<Rightarrow> string \<Rightarrow> string" where
  "PrintError c label detail = report_line c (Red c) cross_mark label detail"

definition PrintWarning :: "colors \<Rightarrow> string \<Rightarrow> string \<Rightarrow> string" where
  "PrintWarning c label detail = report_line c (Yellow c) ''!'' label detail"

text \<open>Into a pipe, or with NO_COLOR set, no line has an escape that its text has not; on a terminal every line ends by resetting
  the colour it set.\<close>

lemma escapes_from_text:
  assumes "colorEnabledFor f noColorSet = False"
  defines "c \<equiv> SetColorEnabled (colorEnabledFor f noColorSet)"
  shows "CHR 0x1B \<in> set (PrintHeader c msg) \<Longrightarrow> CHR 0x1B \<in> set msg"
    and "CHR 0x1B \<in> set (PrintSuccess c label detail) \<union> set (PrintError c label detail) \<union> set (PrintWarning c label detail) \<Longrightarrow>
      CHR 0x1B \<in> set label \<union> set detail"
  unfolding c_def assms(1)
  by (auto simp: PrintHeader_def PrintSuccess_def PrintError_def PrintWarning_def report_line_def pad15_def SetColorEnabled_def
      check_mark_def cross_mark_def)

lemma pipe_has_no_color: "colorEnabledFor (CharDevice False) n = False" "colorEnabledFor f True = False"
  by (simp_all add: colorEnabledFor_def)

lemma lines_reset:
  "HasSuffix (PrintSuccess (SetColorEnabled True) label detail) (ansi ''0'' @ [CHR 0x0A])"
  "HasSuffix (PrintError (SetColorEnabled True) label detail) (ansi ''0'' @ [CHR 0x0A])"
  "HasSuffix (PrintWarning (SetColorEnabled True) label detail) (ansi ''0'' @ [CHR 0x0A])"
proof -
  have "HasSuffix (xs @ ys) ys" for xs ys :: string by (simp add: HasSuffix_def)
  then have "HasSuffix (report_line (SetColorEnabled True) color mark label detail) (ansi ''0'' @ [CHR 0x0A])" for color mark
    by (metis (no_types) report_line_def SetColorEnabled_def append_assoc colors.select_convs(1))
  then show "HasSuffix (PrintSuccess (SetColorEnabled True) label detail) (ansi ''0'' @ [CHR 0x0A])"
    "HasSuffix (PrintError (SetColorEnabled True) label detail) (ansi ''0'' @ [CHR 0x0A])"
    "HasSuffix (PrintWarning (SetColorEnabled True) label detail) (ansi ''0'' @ [CHR 0x0A])"
    by (simp_all only: PrintSuccess_def PrintError_def PrintWarning_def)
qed

subsection \<open>The spinner (internal/ui/ui.go)\<close>

text \<open>The goroutine of \<open>run\<close> draws until it finds \<open>stopChan\<close> closed and then closes \<open>doneChan\<close>; a caller of \<open>Stop\<close> closes \<open>stopChan\<close>
  if no other has, and waits for \<open>doneChan\<close>. \<open>closes\<close> counts how often \<open>stopChan\<close> was closed: a second time would panic.
  \<open>lines\<close> is what was printed, the last first.\<close>

datatype printed = Frame nat | Cleared

record spinner =
  closes :: nat
  doneClosed :: bool
  onceDone :: bool
  frame :: nat
  callers :: nat
  waiting :: nat
  returned :: nat
  printed_lines :: "printed list"

definition StartSpinner :: spinner where
  "StartSpinner = \<lparr>closes = 0, doneClosed = False, onceDone = False, frame = 0, callers = 0, waiting = 0, returned = 0, printed_lines = []\<rparr>"

definition draw :: "spinner \<Rightarrow> spinner" where
  "draw s = s\<lparr>frame := (frame s + 1) mod 10, printed_lines := Frame (frame s) # printed_lines s\<rparr>"

definition Stop_begin :: "spinner \<Rightarrow> spinner" where
  "Stop_begin s =
     (let s = (if onceDone s then s else s\<lparr>onceDone := True, closes := closes s + 1\<rparr>)
      in s\<lparr>callers := callers s + 1, waiting := waiting s + 1\<rparr>)"

definition Stop_finish :: "spinner \<Rightarrow> spinner" where
  "Stop_finish s = s\<lparr>waiting := waiting s - 1, returned := returned s + 1, printed_lines := Cleared # printed_lines s\<rparr>"

inductive spin_step :: "spinner \<Rightarrow> spinner \<Rightarrow> bool" where
  spin_draw: "closes s = 0 \<Longrightarrow> \<not> doneClosed s \<Longrightarrow> spin_step s (draw s)"
| spin_done: "0 < closes s \<Longrightarrow> \<not> doneClosed s \<Longrightarrow> spin_step s (s\<lparr>doneClosed := True\<rparr>)"
| spin_stop: "spin_step s (Stop_begin s)"
| spin_return: "0 < waiting s \<Longrightarrow> doneClosed s \<Longrightarrow> spin_step s (Stop_finish s)"

inductive spinning :: "spinner \<Rightarrow> bool" where
  spin_start: "spinning StartSpinner"
| spin_next: "spinning s \<Longrightarrow> spin_step s s' \<Longrightarrow> spinning s'"

inductive_cases spin_stepE: "spin_step s s'"

lemmas spin_defs = draw_def Stop_begin_def Stop_finish_def StartSpinner_def

text \<open>The invariant: \<open>stopChan\<close> is closed once, by the first caller; the goroutine ends only after that, and a caller returns only
  after the goroutine has ended.\<close>

definition spin_inv :: "spinner \<Rightarrow> bool" where
  "spin_inv s \<longleftrightarrow>
     closes s = (if onceDone s then 1 else 0) \<and> (onceDone s \<longleftrightarrow> 0 < callers s) \<and> (doneClosed s \<longrightarrow> onceDone s) \<and>
     (0 < returned s \<longrightarrow> doneClosed s) \<and> callers s = waiting s + returned s \<and> frame s < 10"

lemma spinning_inv: "spinning s \<Longrightarrow> spin_inv s"
proof (induction rule: spinning.induct)
  case (spin_next s s')
  from spin_next.hyps(2) spin_next.IH show ?case
    by (cases rule: spin_step.cases) (auto simp: spin_inv_def spin_defs Let_def)
qed (simp add: spin_inv_def spin_defs)

lemma no_double_close: "spinning s \<Longrightarrow> closes s \<le> 1"
  by (drule spinning_inv) (simp add: spin_inv_def)

text \<open>Once a \<open>Stop\<close> has returned nothing but the clearing of the line is printed.\<close>

lemma spinner_quiet_after_stop:
  assumes "spinning s" "0 < returned s" "spin_step s s'"
  shows "0 < returned s' \<and> (printed_lines s' = printed_lines s \<or> printed_lines s' = Cleared # printed_lines s)"
  using assms(3) spinning_inv [OF assms(1)] assms(2)
  by (cases rule: spin_step.cases) (auto simp: spin_inv_def spin_defs Let_def)

text \<open>A waiting caller is never stuck: the goroutine can end, or has ended, and then the caller returns.\<close>

lemma Stop_returns:
  assumes "spinning s" "0 < waiting s"
  shows "\<exists>s'. spin_step\<^sup>*\<^sup>* s s' \<and> returned s' = returned s + 1"
proof -
  have s: "0 < closes s" using spinning_inv [OF assms(1)] assms(2) by (auto simp: spin_inv_def)
  let ?t = "s\<lparr>doneClosed := True\<rparr>"
  have "spin_step\<^sup>*\<^sup>* s ?t"
  proof (cases "doneClosed s")
    case True
    then have "?t = s" by simp
    then show ?thesis by simp
  qed (use spin_done [of s] s in blast)
  moreover have "spin_step ?t (Stop_finish ?t)" using assms(2) by (intro spin_return) simp_all
  ultimately show ?thesis
    by (intro exI [of _ "Stop_finish ?t"]) (simp add: Stop_finish_def rtranclp.rtrancl_into_rtrancl)
qed

subsection \<open>The build command (cmd/build.go)\<close>

text \<open>What \<open>os.Stat\<close> says of a file; how the command ends: what it reports before it exits with 1, or the task it ran.\<close>

datatype stat_answer = Present | NotExist | StatError

datatype build_end = NoTaskfile | NoTask bool | TaskFailed string string | TaskDone string string

definition runBuildCommand :: "(string \<Rightarrow> stat_answer) \<Rightarrow> (string \<Rightarrow> bool) \<Rightarrow> (string \<Rightarrow> string \<Rightarrow> bool) \<Rightarrow> bool \<Rightarrow> build_end" where
  "runBuildCommand stat lookup run debug =
     (if stat ''Taskfile.yml'' = NotExist \<and> stat ''Taskfile.yaml'' = NotExist then NoTaskfile
      else if \<not> lookup ''task'' \<and> \<not> lookup ''go-task'' then NoTask (lookup ''go'')
      else
        (let taskExe = (if \<not> lookup ''task'' then ''go-task'' else ''task'');
             taskName = (if debug then ''build-debug'' else ''build'')
         in if run taskExe taskName then TaskDone taskExe taskName else TaskFailed taskExe taskName))"

definition build_exit_code :: "build_end \<Rightarrow> int" where
  "build_exit_code e = (case e of TaskDone exe name \<Rightarrow> 0 | _ \<Rightarrow> 1)"

text \<open>The diagnosis reports the task program missing exactly when the build cannot find it.\<close>

lemma doctor_agrees_with_build:
  assumes "stat ''Taskfile.yml'' = Present"
  shows "checkTask lookup tool_output = ToolMissing \<longleftrightarrow> (\<exists>g. runBuildCommand stat lookup run debug = NoTask g)"
  using assms by (auto simp: checkTask_def checkTool_def runBuildCommand_def Let_def)

subsection \<open>Installing a compiler (cmd/doctor.go)\<close>

text \<open>\<open>programFiles\<close> is the environment variable, \<open>run\<close> the output of vswhere, None when it fails.\<close>

definition default_program_files :: string where
  "default_program_files = ''C:'' @ [CHR 0x5C] @ ''Program Files (x86)''"

definition detectVisualStudio :: "(string list \<Rightarrow> string) \<Rightarrow> string \<Rightarrow> (string \<Rightarrow> bool) \<Rightarrow> (string \<Rightarrow> string list \<Rightarrow> string option) \<Rightarrow> bool" where
  "detectVisualStudio join programFiles exists run =
     (let pf = (if programFiles = '''' then default_program_files else programFiles);
          vswhere = join [pf, ''Microsoft Visual Studio'', ''Installer'', ''vswhere.exe'']
      in if \<not> exists vswhere then False
         else (case run vswhere [''-latest'', ''-products'', ''*'', ''-requires'', ''Microsoft.VisualStudio.Component.VC.Tools.x86.x64'',
                                 ''-property'', ''installationPath''] of
                 None \<Rightarrow> False
               | Some out \<Rightarrow> TrimSpace out \<noteq> ''''))"

definition stdinIsTerminal :: "out_file \<Rightarrow> bool" where
  "stdinIsTerminal f = (case f of CharDevice device \<Rightarrow> device | _ \<Rightarrow> False)"

text \<open>\<open>strings.EqualFold\<close> with \<open>yes\<close>, whose s also is the long s.\<close>

definition equal_fold_yes :: "string \<Rightarrow> bool" where
  "equal_fold_yes s \<longleftrightarrow> EqualFold s ''yes'' \<or> (EqualFold (take 2 s) ''ye'' \<and> drop 2 s = [CHR 0xC5, CHR 0xBF])"

datatype install_end = NotOffered | Declined | Installed | InstallFailed

text \<open>The end of \<open>checkCompiler\<close> when no compiler was found; \<open>answer\<close> is the line read, None when reading fails. Where nothing was
  installed on Windows, the command is printed as a tip.\<close>

definition offer_compiler :: "bool \<Rightarrow> bool \<Rightarrow> out_file \<Rightarrow> string option \<Rightarrow> bool \<Rightarrow> install_end" where
  "offer_compiler windows winget stdin answer install_ok =
     (if \<not> windows then NotOffered
      else if winget \<and> stdinIsTerminal stdin then
        (let response = TrimSpace (case answer of None \<Rightarrow> ''n'' | Some r \<Rightarrow> r)
         in if response = '''' \<or> EqualFold response ''y'' \<or> equal_fold_yes response then
              (if install_ok then Installed else InstallFailed)
            else Declined)
      else NotOffered)"

lemma unattended_installs_nothing:
  "stdin \<noteq> CharDevice True \<or> answer = None \<Longrightarrow> offer_compiler windows winget stdin answer ok \<in> {NotOffered, Declined}"
proof -
  have "TrimSpace ''n'' = ''n''" by (simp add: TrimSpace_def IsSpace_def)
  then show "stdin \<noteq> CharDevice True \<or> answer = None \<Longrightarrow> ?thesis"
    by (auto simp: offer_compiler_def stdinIsTerminal_def Let_def EqualFold_def equal_fold_yes_def lower_ascii_def split: out_file.split)
qed

end
