(* ===== verification/Leaf_Packages.thy ===== *)
theory Leaf_Packages
  imports Generator_Text
begin

section \<open>Leaf packages (internal/assets, pkg/transferid, internal/config/load.go)\<close>

text \<open>
  Three small packages the others rest on: the embedded assets, read once; the identifiers of chunked transfers, from the
  system's random bytes; the strict reading of xll.yaml. The embedded file system, the random sources and the YAML
  decoder are parameters.
\<close>

subsection \<open>Embedded assets (assets.go)\<close>

text \<open>What the walk of the embedded files meets, in its order: a walk error, a directory, or a file, with its content unless
  reading it fails.\<close>

datatype walk_entry = WalkError | Directory | File string "string option"

datatype asset_error = AssetWalk | AssetRead string

text \<open>\<open>filepath.ToSlash\<close> leaves the slashes of the embedded paths as they are.\<close>

fun walk_assets :: "walk_entry list \<Rightarrow> (string, string) gomap \<Rightarrow> asset_error + (string, string) gomap" where
  "walk_assets [] m = Inr m"
| "walk_assets (WalkError # es) m = Inl AssetWalk"
| "walk_assets (Directory # es) m = walk_assets es m"
| "walk_assets (File path content # es) m =
     (case content of
        None \<Rightarrow> Inl (AssetRead path)
      | Some c \<Rightarrow> walk_assets es (gm_put (TrimPrefix path ''files/'') c m))"

record asset_store =
  onceRan :: bool
  assets :: "(string, string) gomap option"
  loadErr :: "asset_error option"
  walks :: nat

definition asset_store_start :: asset_store where
  "asset_store_start = \<lparr>onceRan = False, assets = None, loadErr = None, walks = 0\<rparr>"

text \<open>\<open>now\<close> is what the walk meets if it is made now.\<close>

definition Assets :: "walk_entry list \<Rightarrow> asset_store \<Rightarrow> ((string, string) gomap option \<times> asset_error option) \<times> asset_store" where
  "Assets now s =
     (let s = (if onceRan s then s
               else (case walk_assets now [] of
                       Inl e \<Rightarrow> s\<lparr>onceRan := True, walks := walks s + 1, loadErr := Some e\<rparr>
                     | Inr m \<Rightarrow> s\<lparr>onceRan := True, walks := walks s + 1, assets := Some m\<rparr>))
      in ((assets s, loadErr s), s))"

fun Assets_calls :: "walk_entry list list \<Rightarrow> asset_store \<Rightarrow> ((string, string) gomap option \<times> asset_error option) list \<times> asset_store" where
  "Assets_calls [] s = ([], s)"
| "Assets_calls (now # rest) s =
     (let (r, s) = Assets now s; (rs, s) = Assets_calls rest s in (r # rs, s))"

lemma Assets_calls_ran: "onceRan s \<Longrightarrow> Assets_calls nows s = (replicate (length nows) (assets s, loadErr s), s)"
  by (induction nows) (simp_all add: Assets_def)

text \<open>The walk is made once, and every caller gets what the first one got: the map, or the error.\<close>

lemma Assets_once:
  "Assets_calls (now # nows) asset_store_start =
     (replicate (length nows + 1)
        (case walk_assets now [] of Inl e \<Rightarrow> (None, Some e) | Inr m \<Rightarrow> (Some m, None)),
      \<lparr>onceRan = True, assets = (case walk_assets now [] of Inl e \<Rightarrow> None | Inr m \<Rightarrow> Some m),
        loadErr = (case walk_assets now [] of Inl e \<Rightarrow> Some e | Inr m \<Rightarrow> None), walks = 1\<rparr>)"
  by (simp add: Assets_def asset_store_start_def Assets_calls_ran Let_def split: sum.split)

text \<open>The map has a key once, and its keys are the files, without the directory they are embedded in.\<close>

lemma walk_assets_dom:
  "walk_assets es m = Inr m' \<Longrightarrow> gm_ok m \<Longrightarrow>
     gm_ok m' \<and> gm_dom m' = gm_dom m \<union> {TrimPrefix p ''files/'' | p c. File p c \<in> set es}"
proof (induction es m rule: walk_assets.induct)
  case (4 path content es m)
  then obtain c where c: "content = Some c" by (auto split: option.splits)
  with 4 have "gm_ok m' \<and> gm_dom m' = gm_dom (gm_put (TrimPrefix path ''files/'') c m) \<union> {TrimPrefix p ''files/'' | p c. File p c \<in> set es}"
    by simp
  then show ?case by auto
qed auto

subsection \<open>Transfer identifiers (transferid.go)\<close>

text \<open>\<open>binary.LittleEndian.Uint64\<close> of the bytes read.\<close>

fun little_endian :: "nat list \<Rightarrow> nat" where
  "little_endian [] = 0"
| "little_endian (b # bs) = b + 256 * little_endian bs"

text \<open>\<open>random\<close> is what crypto/rand read into the eight bytes, None when it failed; \<open>fallback\<close> the next number of math/rand/v2.\<close>

definition transferid_New :: "nat list option \<Rightarrow> nat \<Rightarrow> nat" where
  "transferid_New random fallback = (case random of None \<Rightarrow> fallback | Some b \<Rightarrow> little_endian b)"

lemma little_endian_less: "list_all (\<lambda>b. b < 256) bs \<Longrightarrow> little_endian bs < 256 ^ length bs"
  by (induction bs) auto

lemma little_endian_inj:
  "length xs = length ys \<Longrightarrow> list_all (\<lambda>b. b < 256) xs \<Longrightarrow> list_all (\<lambda>b. b < 256) ys \<Longrightarrow> little_endian xs = little_endian ys \<Longrightarrow> xs = ys"
proof (induction xs ys rule: list_induct2)
  case (Cons x xs y ys)
  have "x = little_endian (x # xs) mod 256" "y = little_endian (y # ys) mod 256" using Cons.prems(1,2) by simp_all
  then have "x = y" using Cons.prems(3) by metis
  moreover from this have "xs = ys" using Cons by simp
  ultimately show ?case by simp
qed simp

text \<open>Every 64-bit identifier comes from exactly one reading of eight bytes.\<close>

lemma transferid_uniform:
  assumes "n < 2 ^ 64"
  shows "\<exists>!b. length b = 8 \<and> list_all (\<lambda>x. x < 256) b \<and> transferid_New (Some b) fallback = n"
proof -
  have "\<exists>b. length b = k \<and> list_all (\<lambda>x. x < 256) b \<and> little_endian b = n" if "n < 256 ^ k" for k n
    using that
  proof (induction k arbitrary: n)
    case (Suc k)
    then have "n div 256 < 256 ^ k" by (simp add: less_mult_imp_div_less mult.commute)
    from Suc.IH [OF this] obtain b where "length b = k" "list_all (\<lambda>x. x < 256) b" "little_endian b = n div 256" by blast
    then show ?case by (intro exI [of _ "n mod 256 # b"]) simp
  qed simp
  from this [of n 8] assms obtain b where b: "length b = 8" "list_all (\<lambda>x. x < 256) b" "little_endian b = n" by auto
  show ?thesis
  proof (intro ex1I [of _ b])
    show "c = b" if "length c = 8 \<and> list_all (\<lambda>x. x < 256) c \<and> transferid_New (Some c) fallback = n" for c
      using little_endian_inj [of c b] that b by (simp add: transferid_New_def)
  qed (use b in \<open>simp add: transferid_New_def\<close>)
qed

subsection \<open>Reading xll.yaml (load.go)\<close>

datatype load_error = Unreadable | Unparsed

text \<open>\<open>decode known\<close> is the YAML decoder, which refuses unknown fields when \<open>known\<close>.\<close>

definition Parse :: "(bool \<Rightarrow> string \<Rightarrow> 'c option) \<Rightarrow> string \<Rightarrow> load_error + 'c" where
  "Parse decode data = (case decode True data of None \<Rightarrow> Inl Unparsed | Some cfg \<Rightarrow> Inr cfg)"

definition Load :: "(bool \<Rightarrow> string \<Rightarrow> 'c option) \<Rightarrow> (string \<Rightarrow> string option) \<Rightarrow> string \<Rightarrow> load_error + 'c" where
  "Load decode readFile path = (case readFile path of None \<Rightarrow> Inl Unreadable | Some data \<Rightarrow> Parse decode data)"

end
