(* ===== verification/Spec2Isabelle.thy ===== *)
theory Spec2Isabelle
  imports Chunk_Transfer Chunk_Concurrency Command_Batcher Rtd_Once Lifecycle System_Handlers Config_Defaults Ribbon_Xml Generator_Funcs
    Flatc Bootstrap Regression Command_Line Leaf_Packages
begin

text \<open>
  A verification development for xll-gen, the generator of Excel add-ins whose functions run in a Go server behind shared memory.

  The program has two halves. The library half (\<open>pkg/\<close>, \<open>internal/fbany\<close>) is linked into every generated server: it splits
  messages into frames and puts them together again, answers Excel's events, batches commands and results, keeps the
  subscriptions of real-time data, and takes all of that down in an order in which the shared memory may be unmapped. The
  generator half (\<open>cmd/\<close>, \<open>internal/\<close>) reads xll.yaml, fills in defaults, checks it, and writes the Go and C++ files of a
  project with the help of flatc and the go command; two harnesses build such a project and run it.

  How the code is written down. A struct is a record with the code's fields, an enumeration a datatype, one function or
  method one definition of the same name (a suffix or prefix only where the name is taken). Go's fixed-width identifiers are words or
  integers wrapped by \<open>i32\<close> and \<open>i64\<close>; a float64 is its 64 bits; a map is an association list in the order a \<open>range\<close> loop visits it, and
  every theorem quantifies over that order. A string is its bytes. Errors are values of a sum or option type, a panic is a
  value where the code recovers from it. State is passed explicitly; what runs under one mutex is one definition, and the interleavings of
  such sections are inductive step relations. Sequential code that cannot be seen is a parameter: the FlatBuffers runtime, the shm
  client, the clock, random bytes, the operating system, the YAML decoder, the template engine, flatc, cmake, the go command, Excel.

  Shared theories. \<open>Prelude\<close>: Go values, maps and slices, with the collections \<open>go_defs\<close> and \<open>go_inv\<close>. \<open>Go_Strings\<close>: the functions of
  strings and strconv that the code calls, runes and UTF-8. \<open>Go_Duration\<close>: \<open>time.ParseDuration\<close>. \<open>Frame_Transport\<close>: the locale of a transport for frames.
  \<open>Drainer\<close>: the locale of a path that can be stopped, and of two of them.

  The library half.
  \<^item> \<open>Chunk_Frames\<close> (\<open>pkg/chunk\<close>, \<open>pkg/msgid\<close>): geometry, budgets, \<open>BuildFrame\<close>, retries, \<open>Sender.Send\<close>; a send delivers a prefix of
    the right frames, each fitting the buffer, in bounded time.
  \<^item> \<open>Chunk_Buffer\<close>, \<open>Chunk_Manager\<close>, \<open>Chunk_Handlers\<close> (\<open>pkg/server/types.go\<close>, \<open>manager.go\<close>, \<open>handlers.go\<close>, \<open>protocol_helpers.go\<close>): segments, the
    reassembly table with its caps, sweeps and poisoning, \<open>HandleChunk\<close>, \<open>HandleAck\<close>. \<open>Chunk_Transfer\<close> joins them with the sender: any order and
    repetition of frames gives the payload back, a violation is refused until its time-to-live is over. \<open>Chunk_Concurrency\<close> interleaves the critical sections: nothing is dispatched
    twice or incomplete, and the caps hold in every reachable state.
  \<^item> \<open>Scalar_Values\<close>, \<open>Greedy_Mesh\<close>, \<open>Command_Batcher\<close> (\<open>pkg/server/converters.go\<close>, \<open>command_batcher.go\<close>, \<open>command_flush.go\<close>, \<open>pkg/algo\<close>): the
    cells written by a flush are those of the calls one by one; rectangles cover exactly. \<open>Fb_Any\<close> (\<open>internal/fbany\<close>) and \<open>Excel_Dates\<close> (\<open>pkg/xldate\<close>): the
    union built for every Go value, and dates as doubles, which come back from their serial numbers.
  \<^item> \<open>System_Handlers\<close> (\<open>handlers.go\<close>, \<open>refcache.go\<close>, \<open>refarg.go\<close>): events, composite arguments, the life of the cache over a calculation.
  \<^item> \<open>Async_Flush\<close>, \<open>Async_Batcher\<close>, \<open>Job_Pool\<close> (\<open>async_batcher.go\<close>, \<open>batcher.go\<close>, \<open>jobpool.go\<close>): the queue, its worker and its stop, the pool;
    results are flushed in order, jobs finish, nothing is sent after a stop.
  \<^item> \<open>Rtd_Manager\<close>, \<open>Rtd_Gate\<close>, \<open>Rtd_Once\<close> (\<open>pkg/rtd\<close>): subscriptions, publications, the gate that a stop closes, one-shot handlers, which
    push their outcome once and a grid before its token.
  \<^item> \<open>Lifecycle\<close> (\<open>lifecycle.go\<close>, \<open>drain.go\<close>, \<open>run.go\<close>): the composition of these paths; the memory is unmapped only when nothing can touch it.
  \<^item> \<open>Bootstrap\<close> (\<open>bootstrap.go\<close>, \<open>pkg/log\<close>, \<open>pkg/pool\<close>): the start of a server, the log sink, the pool of builders.

  The generator half.
  \<^item> \<open>Config_Names\<close>, \<open>Config\<close>, \<open>Config_Valid\<close>, \<open>Config_Defaults\<close> (\<open>internal/config\<close>): the data, the checks in their order, their meaning
    (\<open>valid_config\<close>), the defaults; the checks accept exactly the valid projects. \<open>Leaf_Packages\<close>: reading xll.yaml, the embedded assets, transfer identifiers.
  \<^item> \<open>Xml_Text\<close>, \<open>Ribbon_Xml\<close> (\<open>internal/ribbon\<close>, \<open>gen_cpp.go\<close>), \<open>Cpp_Literals\<close>, \<open>Generator_Funcs\<close> (\<open>funcmap.go\<close>, \<open>types.go\<close>): what the
    templates call; literals and the ribbon document read back as what was meant, every accepted type is registered.
  \<^item> \<open>Generator_Text\<close>, \<open>Generator_Files\<close>, \<open>Generator\<close> (the other files of \<open>internal/generator\<close>, \<open>cmd/generate.go\<close>, \<open>cmd/init.go\<close>): a generation as its
    steps on a tree of files, the first error ending it; what it may change, and that no stale source survives a success.
  \<^item> \<open>Toolchain\<close>, \<open>Flatc\<close>, \<open>Command_Line\<close> (\<open>cmd/doctor.go\<close>, \<open>cmd/build.go\<close>, \<open>internal/platform\<close>, \<open>internal/flatc\<close>, \<open>internal/ui\<close>): versions, trusted
    locations, add-ins; flatc is never found half-written, whatever call fails, nor in another version; report lines and the spinner, whose stop always returns.
  \<^item> \<open>Harness\<close> (\<open>internal/smoketest\<close>), \<open>Regression\<close> (\<open>internal/regtest\<close>): building and running a project, in Excel through COM, and against a simulated host;
    a run returns, gives the thread and every dispatch back, reaps its processes, and what a pass means.

  Locales. \<open>frame_transport\<close> is interpreted by the sends of the client in \<open>Frame_Transport\<close>, \<open>Async_Flush\<close> and \<open>Rtd_Once\<close>; \<open>drainer\<close> by the result worker
  (\<open>Async_Batcher\<close>) and the gate (\<open>Rtd_Gate\<close>), \<open>two_drainers\<close> by both in \<open>Lifecycle\<close>; \<open>update_sender\<close> and \<open>grid_sender\<close> by the manager's sends in \<open>Rtd_Once\<close>.

  Loops. No fuel is used. Loops that end are functions with a measure; those that may not (the int32 loops of \<open>Greedy_Mesh\<close>, \<open>for_i32\<close> of
  \<open>Command_Batcher\<close>, \<open>poll\<close> of \<open>Harness\<close>) are partial functions whose None is not returning, and the lemmas say when they return: for cells
  before the last int32 column, and when the clock goes on.

  Not modelled, and why. The templates and the C++ runtime are not Go; the template engine that renders them, the YAML decoder and
  the FlatBuffers runtime are third-party code and parameters. \<open>ParseFloat\<close> only calls strconv; the wrappers around slog, \<open>ConnectSHM\<close>, \<open>RunSpinner\<close>,
  \<open>checkSystem\<close>, \<open>checkFlatc\<close> and the cobra registrations only forward. Registry keys and COM calls are modelled by their answers. Test
  servers, the fake flatc and the experiments are not part of the program. Log messages are left out.
\<close>

end
